(* ===== verification/Prelude.thy ===== *)
theory Prelude
  imports Main "HOL-Library.Word"
begin

text \<open>
  Shared vocabulary of the development: the fixed-width integer types of the C sources, the
  bit-field macros of \<open>main.h\<close>, C array writes (\<open>memcpy\<close>), the two earbuds, and the
  collections of rewrite rules that the component theories fill.
\<close>

unbundle bit_operations_syntax

named_theorems frame \<open>parts of the state an operation leaves alone\<close>
named_theorems defs \<open>definitions of operations, unfolded together\<close>

type_synonym u8 = "8 word"
type_synonym u16 = "16 word"
type_synonym u32 = "32 word"

section \<open>Bit fields (BITMAP\_SET and BITMAP\_GET of main.h)\<close>

definition bitmap_set :: "nat \<Rightarrow> u8 \<Rightarrow> u8 \<Rightarrow> u8" where
  "bitmap_set sh msk v = push_bit sh v AND msk"

definition bitmap_get :: "nat \<Rightarrow> u8 \<Rightarrow> u8 \<Rightarrow> u8" where
  "bitmap_get sh msk d = drop_bit sh (d AND msk)"

section \<open>Earbuds (enum EARBUDS of earbud.h)\<close>

datatype earbud = EARBUD_LEFT | EARBUD_RIGHT

definition earbuds :: "earbud list" where
  "earbuds = [EARBUD_LEFT, EARBUD_RIGHT]"

lemma all_earbud: "(\<forall>e. P e) \<longleftrightarrow> P EARBUD_LEFT \<and> P EARBUD_RIGHT"
  by (metis earbud.exhaust)

lemma earbud_neq [simp]:
  "e \<noteq> EARBUD_LEFT \<longleftrightarrow> e = EARBUD_RIGHT"
  "e \<noteq> EARBUD_RIGHT \<longleftrightarrow> e = EARBUD_LEFT"
  by (cases e; simp)+

section \<open>Writes into C arrays\<close>

text \<open>\<open>memcpy_at off src dst\<close> is \<open>memcpy(&dst[off], src, n)\<close> for \<open>n = length src\<close>.\<close>

definition memcpy_at :: "nat \<Rightarrow> 'a list \<Rightarrow> 'a list \<Rightarrow> 'a list" where
  "memcpy_at off src dst = take off dst @ src @ drop (off + length src) dst"

lemma length_memcpy_at [simp]:
  "off + length src \<le> length dst \<Longrightarrow> length (memcpy_at off src dst) = length dst"
  by (simp add: memcpy_at_def)

lemma take_memcpy_at:
  "off + length src \<le> length dst \<Longrightarrow> n = off + length src \<Longrightarrow>
   take n (memcpy_at off src dst) = take off dst @ src"
  by (simp add: memcpy_at_def)

lemma memcpy_at_0: "memcpy_at 0 src dst = src @ drop (length src) dst"
  by (simp add: memcpy_at_def)

lemma take_update_last:
  assumes "0 < n" "n \<le> length d"
  shows "take n (d[n - 1 := x]) = take (n - 1) d @ [x]"
proof -
  obtain m where "n = Suc m" using assms(1) by (cases n) auto
  then show ?thesis using assms(2) by (simp add: take_Suc_conv_app_nth)
qed

section \<open>Words\<close>

lemma unat_minus_1: "x \<noteq> 0 \<Longrightarrow> unat (x - 1) = unat x - 1" for x :: "'a::len word"
  by (rule unat_minus_one)

lemma unat_plus_1: "Suc (unat x) < 2 ^ LENGTH('a) \<Longrightarrow> unat (x + 1) = Suc (unat x)"
  for x :: "'a::len word"
  using unat_add_lem [of x 1] by simp

lemma xor_cancel_left: "a XOR b = a XOR c \<longleftrightarrow> b = c" for a :: "'a::len word"
proof
  assume "a XOR b = a XOR c"
  then have "a XOR (a XOR b) = a XOR (a XOR c)" by (rule arg_cong)
  then show "b = c" by (simp add: xor.assoc [symmetric])
qed simp

lemma xor_cancel_right: "b XOR a = c XOR a \<longleftrightarrow> b = c" for a :: "'a::len word"
  using xor_cancel_left [of a b c] by (simp add: xor.commute)

lemma unat_u8_less: "unat a < 256" for a :: u8
  using unsigned_less [of a, where 'a=nat] by simp

lemma unat_ucast_u8_u16 [simp]: "unat (ucast a :: u16) = unat a" for a :: u8
  using unat_u8_less [of a] by (simp add: unsigned_ucast_eq take_bit_nat_eq_self)

lemma unat_ucast_u16_u32 [simp]: "unat (ucast a :: u32) = unat a" for a :: u16
  using unsigned_less [of a, where 'a=nat] by (simp add: unsigned_ucast_eq take_bit_nat_eq_self)

lemma ucast_u8_u16_inj: "(ucast a :: u16) = ucast b \<longleftrightarrow> a = b" for a :: u8
  by (simp only: word_unat_eq_iff unat_ucast_u8_u16)

end
