(* ===== verification/Crc.thy ===== *)
theory Crc
  imports Prelude
begin

text \<open>
  \<^verbatim>\<open>crc.c\<close>: the CRC-8 that protects every charger-comms packet. The shift register is a
  \<open>uint16_t\<close> as in the C code. Shown: a message followed by its checksum verifies, and a change
  of any one octet changes the checksum.
\<close>

definition GNPOLY :: u16 where
  "GNPOLY = 0xd9"

text \<open>The body of the loop of \<open>update_crc8_loop\<close>.\<close>

definition crc8_shift :: "u8 \<Rightarrow> u16 \<Rightarrow> u16" where
  "crc8_shift gnp crc =
     (if crc AND 1 \<noteq> 0 then drop_bit 1 crc XOR ucast gnp else drop_bit 1 crc)"

definition update_crc8_loop :: "u16 \<Rightarrow> u8 \<Rightarrow> u8 \<Rightarrow> u16" where
  "update_crc8_loop crc loop_no gnp = (crc8_shift gnp ^^ unat loop_no) crc"

text \<open>One octet of the \<open>for\<close> loop of \<open>crc_encoder\<close>.\<close>

definition crc8_octet :: "u8 \<Rightarrow> u16 \<Rightarrow> u16" where
  "crc8_octet d crc = update_crc8_loop (crc XOR (ucast d AND 0xff)) 8 (ucast GNPOLY)"

definition crc_encoder :: "u8 list \<Rightarrow> u8 \<Rightarrow> bool \<Rightarrow> u8" where
  "crc_encoder data data_len encode =
     (let crc = fold crc8_octet (take (unat data_len) data) 0xff;
          crc = (if encode then crc else crc8_octet (data ! unat data_len) crc)
      in ucast (crc AND 0xff))"

definition crc_calculate_crc8 :: "u8 list \<Rightarrow> u8 \<Rightarrow> u8" where
  "crc_calculate_crc8 data data_len = crc_encoder data data_len True"

definition crc_verify_crc8 :: "u8 list \<Rightarrow> u8 \<Rightarrow> bool" where
  "crc_verify_crc8 data data_len = (crc_encoder data data_len False = 0)"

section \<open>The register stays within eight bits\<close>

definition octet_sized :: "u16 \<Rightarrow> bool" where
  "octet_sized x = (take_bit 8 x = x)"

lemma octet_sized_bits: "octet_sized x \<longleftrightarrow> (\<forall>n. bit x n \<longrightarrow> n < 8)"
proof
  assume "octet_sized x"
  then show "\<forall>n. bit x n \<longrightarrow> n < 8"
    unfolding octet_sized_def by (metis bit_take_bit_iff)
next
  assume "\<forall>n. bit x n \<longrightarrow> n < 8"
  then show "octet_sized x"
    unfolding octet_sized_def by (auto intro!: bit_word_eqI simp: bit_take_bit_iff)
qed

lemma octet_sized_xor: "octet_sized a \<Longrightarrow> octet_sized b \<Longrightarrow> octet_sized (a XOR b)"
  by (simp add: octet_sized_def take_bit_xor)

lemma octet_sized_half: "octet_sized a \<Longrightarrow> octet_sized (drop_bit (Suc 0) a)"
  by (auto simp: octet_sized_bits bit_drop_bit_eq)

lemma octet_sized_ucast [simp]: "octet_sized (ucast (d :: u8))"
  unfolding octet_sized_bits by (auto simp: bit_ucast_iff dest: bit_imp_le_length)

lemma octet_sized_ff [simp]: "octet_sized 0xff" "octet_sized 0"
  by (simp_all add: octet_sized_def)

lemma octet_and_ff: "ucast d AND 0xff = (ucast (d :: u8) :: u16)"
  using octet_sized_ucast [of d]
  by (simp add: octet_sized_def take_bit_eq_mask mask_eq_exp_minus_1)

lemma crc8_shift_octet: "octet_sized c \<Longrightarrow> octet_sized (crc8_shift g c)"
  by (cases "c AND 1 = 0") (simp_all add: crc8_shift_def octet_sized_half octet_sized_xor)

lemma funpow_octet: "octet_sized c \<Longrightarrow> octet_sized ((crc8_shift g ^^ n) c)"
  by (induction n) (simp_all add: crc8_shift_octet)

lemma crc8_octet_octet: "octet_sized c \<Longrightarrow> octet_sized (crc8_octet d c)"
  by (simp add: crc8_octet_def update_crc8_loop_def octet_and_ff funpow_octet octet_sized_xor)

lemma fold_crc8_octet: "octet_sized c \<Longrightarrow> octet_sized (fold crc8_octet xs c)"
  by (induction xs arbitrary: c) (simp_all add: crc8_octet_octet)

section \<open>One step of the register loses no information\<close>

text \<open>
  Bit 7 of the polynomial is set, so bit 7 of the shifted register tells whether the bit shifted
  out was one: the step can be undone.
\<close>

lemma crc8_shift_bit7:
  assumes "octet_sized c"
  shows "bit (crc8_shift 0xd9 c) 7 = odd c"
proof -
  have "\<not> bit c 8" using assms unfolding octet_sized_bits by blast
  moreover have "bit (0xd9 :: u16) 7" by simp
  ultimately show ?thesis
    by (simp add: crc8_shift_def bit_xor_iff bit_drop_bit_eq and_one_eq mod_2_eq_odd)
qed

lemma crc8_shift_inj:
  assumes "octet_sized c" "octet_sized d" and eq: "crc8_shift 0xd9 c = crc8_shift 0xd9 d"
  shows "c = d"
proof -
  have odd: "odd c = odd d"
    using assms crc8_shift_bit7 by metis
  have undo: "drop_bit 1 x = crc8_shift 0xd9 x XOR (if odd x then 0xd9 else 0)" for x
    by (simp add: crc8_shift_def and_one_eq mod_2_eq_odd xor.assoc)
  have "drop_bit 1 c = drop_bit 1 d"
    unfolding undo [of c] undo [of d] eq odd ..
  then have shifted: "bit c (Suc n) = bit d (Suc n)" for n
    by (metis bit_drop_bit_eq comp_apply plus_1_eq_Suc)
  have "bit c n = bit d n" for n
    using odd shifted by (cases n) (simp_all add: bit_0)
  then show ?thesis by (simp add: bit_eq_iff)
qed

lemma crc8_octet_alt:
  "crc8_octet d c = (crc8_shift 0xd9 ^^ 8) (c XOR ucast d)"
  by (simp add: crc8_octet_def update_crc8_loop_def octet_and_ff GNPOLY_def)

lemma funpow_shift_inj:
  "\<lbrakk>octet_sized c; octet_sized d; (crc8_shift 0xd9 ^^ n) c = (crc8_shift 0xd9 ^^ n) d\<rbrakk> \<Longrightarrow> c = d"
proof (induction n)
  case (Suc n)
  then show ?case by (auto intro: crc8_shift_inj funpow_octet)
qed simp

lemma crc8_octet_inj:
  assumes "octet_sized c" "octet_sized d" "crc8_octet x c = crc8_octet y d"
  shows "c XOR ucast x = d XOR ucast y"
  using assms funpow_shift_inj unfolding crc8_octet_alt
  by (blast intro: octet_sized_xor octet_sized_ucast)

lemma fold_crc8_inj:
  "\<lbrakk>octet_sized c; octet_sized d; fold crc8_octet ys c = fold crc8_octet ys d\<rbrakk> \<Longrightarrow> c = d"
proof (induction ys arbitrary: c d)
  case (Cons y ys)
  then have "crc8_octet y c = crc8_octet y d"
    by (auto intro: crc8_octet_octet)
  with Cons.prems have "c XOR ucast y = d XOR ucast y"
    by (blast intro: crc8_octet_inj)
  then show ?case by (simp only: xor_cancel_right)
qed simp

lemma crc8_octet_cancel: "octet_sized c \<Longrightarrow> crc8_octet (ucast c) c = 0"
proof -
  assume "octet_sized c"
  then have "ucast (ucast c :: u8) = c"
    by (simp add: octet_sized_def unsigned_ucast_eq flip: take_bit_word_eq_self)
  moreover have "(crc8_shift 0xd9 ^^ n) 0 = 0" for n
    by (induction n) (simp_all add: crc8_shift_def)
  ultimately show ?thesis by (simp add: crc8_octet_alt)
qed

lemma ucast_octet_eq:
  assumes "octet_sized c" "octet_sized d" "(ucast c :: u8) = ucast d"
  shows "c = d"
proof -
  have "bit c n = bit d n" for n
  proof (cases "n < 8")
    case True
    then have "bit (ucast c :: u8) n = bit c n" "bit (ucast d :: u8) n = bit d n"
      by (simp_all add: bit_ucast_iff)
    with assms(3) show ?thesis by simp
  next
    case False
    with assms(1,2) show ?thesis unfolding octet_sized_bits by blast
  qed
  then show ?thesis by (simp add: bit_eq_iff)
qed

lemma ucast_and_ff: "octet_sized c \<Longrightarrow> c AND 0xff = c"
  by (simp add: octet_sized_def take_bit_eq_mask mask_eq_exp_minus_1)

section \<open>Checksums verify, and one changed octet is always noticed\<close>

abbreviation crc_register :: "u8 list \<Rightarrow> u16" where
  "crc_register xs \<equiv> fold crc8_octet xs 0xff"

lemma crc_calculate_eq:
  "n = of_nat (length xs) \<Longrightarrow> length xs < 256 \<Longrightarrow> crc_calculate_crc8 (xs @ ys) n = ucast (crc_register xs)"
  by (simp add: crc_calculate_crc8_def crc_encoder_def Let_def unat_of_nat ucast_and_ff
      fold_crc8_octet)

lemma crc_verify_eq:
  assumes "n = of_nat (length xs)" "length xs < 256"
  shows "crc_verify_crc8 (xs @ [c]) n \<longleftrightarrow> c = crc_calculate_crc8 xs n"
proof -
  let ?r = "crc_register xs"
  have r: "octet_sized ?r" by (simp add: fold_crc8_octet)
  have calc: "crc_calculate_crc8 xs n = ucast ?r"
    using crc_calculate_eq [of n xs "[]"] assms by simp
  have "crc_verify_crc8 (xs @ [c]) n \<longleftrightarrow> (ucast (crc8_octet c ?r) :: u8) = ucast (0 :: u16)"
    using assms r
    by (simp add: crc_verify_crc8_def crc_encoder_def Let_def unat_of_nat ucast_and_ff
        crc8_octet_octet)
  also have "\<dots> \<longleftrightarrow> crc8_octet c ?r = crc8_octet (ucast ?r) ?r"
    unfolding crc8_octet_cancel [OF r]
    using ucast_octet_eq [OF crc8_octet_octet [OF r] octet_sized_ff(2)] by auto
  also have "\<dots> \<longleftrightarrow> c = ucast ?r"
  proof (rule iffI)
    assume "crc8_octet c ?r = crc8_octet (ucast ?r) ?r"
    then have "?r XOR ucast c = ?r XOR ucast (ucast ?r :: u8)"
      using r by (blast intro: crc8_octet_inj)
    then have "(ucast c :: u16) = ucast (ucast ?r :: u8)"
      by (simp only: xor_cancel_left)
    then show "c = ucast ?r" by (simp only: ucast_u8_u16_inj)
  next
    assume "c = ucast ?r"
    then show "crc8_octet c ?r = crc8_octet (ucast ?r) ?r" by (rule arg_cong)
  qed
  finally show ?thesis by (simp add: calc)
qed

lemma crc_register_octet_error:
  assumes "a \<noteq> b"
  shows "crc_register (xs @ a # ys) \<noteq> crc_register (xs @ b # ys)"
proof
  let ?r = "crc_register xs"
  assume "crc_register (xs @ a # ys) = crc_register (xs @ b # ys)"
  then have "fold crc8_octet ys (crc8_octet a ?r) = fold crc8_octet ys (crc8_octet b ?r)"
    by simp
  then have "crc8_octet a ?r = crc8_octet b ?r"
    by (rule fold_crc8_inj [rotated 2]) (simp_all add: crc8_octet_octet fold_crc8_octet)
  then have "?r XOR ucast a = ?r XOR ucast b"
    by (blast intro: crc8_octet_inj fold_crc8_octet octet_sized_ff)
  then have "(ucast a :: u16) = ucast b"
    by (simp only: xor_cancel_left)
  with assms show False by (simp only: ucast_u8_u16_inj)
qed

lemma crc_octet_error:
  assumes "a \<noteq> b" "length xs + length ys < 255" "n = of_nat (Suc (length xs + length ys))"
  shows "crc_calculate_crc8 (xs @ a # ys) n \<noteq> crc_calculate_crc8 (xs @ b # ys) n"
proof
  assume "crc_calculate_crc8 (xs @ a # ys) n = crc_calculate_crc8 (xs @ b # ys) n"
  then have "(ucast (crc_register (xs @ a # ys)) :: u8) = ucast (crc_register (xs @ b # ys))"
    using assms crc_calculate_eq [of n "xs @ a # ys" "[]"] crc_calculate_eq [of n "xs @ b # ys" "[]"]
    by simp
  then have "crc_register (xs @ a # ys) = crc_register (xs @ b # ys)"
    by (rule ucast_octet_eq [rotated 2]) (simp_all add: fold_crc8_octet del: fold_append fold_simps)
  with assms(1) show False using crc_register_octet_error by blast
qed

section \<open>Properties\<close>

text \<open>
  The receiver's check accepts exactly the frames whose last octet is the checksum that the
  sender computes over the octets before it.
\<close>

theorem crc_verify_iff_checksum:
  assumes "length xs < 256"
  shows "crc_verify_crc8 (xs @ [c]) (of_nat (length xs)) \<longleftrightarrow>
         c = crc_calculate_crc8 xs (of_nat (length xs))"
  using crc_verify_eq [OF refl assms] .

theorem crc_verify_iff_checksum_witness:
  "crc_verify_crc8 ([0x4f, 0x01] @ [crc_calculate_crc8 [0x4f, 0x01] 2]) 2 \<and>
   crc_calculate_crc8 [0x4f, 0x01] 2 = 0xaf"
proof
  show "crc_verify_crc8 ([0x4f, 0x01] @ [crc_calculate_crc8 [0x4f, 0x01] 2]) 2"
    using crc_verify_iff_checksum [of "[0x4f, 0x01]" "crc_calculate_crc8 [0x4f, 0x01] 2"] by simp
  show "crc_calculate_crc8 [0x4f, 0x01] 2 = 0xaf" by code_simp
qed



end
