(* ===== verification/Board.thy ===== *)
theory Board
  imports Prelude
begin

text \<open>
  The hardware-facing leaves of the charger-case firmware: \<^verbatim>\<open>power.c\<close> (run reasons),
  \<^verbatim>\<open>gpio.c\<close> (pin levels), \<^verbatim>\<open>adc.c\<close> (readings), \<^verbatim>\<open>timer.c\<close> (tick counter, comms
  timer) and \<^verbatim>\<open>charger.c\<close>, for the build \<open>VARIANT_CB\<close>. Each source file's static variables
  are one record; the records are the fields of the extensible record \<open>board\<close>, which the
  protocol theories extend with their own statics, so a C function is a function on the whole
  program state as it is in C.
\<close>

section \<open>State\<close>

datatype low_power_fn = power_enter_sleep_fn | power_enter_stop_fn | power_reset_to_standby_fn

record power_state =
  power_reason_to_run :: u16
  sleep_count :: u32
  low_power_fn :: low_power_fn

text \<open>Pins are indexed by port and bit, the low eight bits of the pin number.\<close>

record gpio_state =
  gpio_odr :: "u16 \<Rightarrow> bool"
  gpio_is_output :: "u16 \<Rightarrow> bool"
  gpio_idr :: "u16 \<Rightarrow> bool"
  gpio_clocked :: bool

datatype adc_no = ADC_CURRENT_SENSE_L | ADC_CURRENT_SENSE_R | ADC_VBAT | ADC_VREF

record adc_state =
  adc_value :: "adc_no \<Rightarrow> u16"
  adc_in_progress :: bool
  adc_clocked :: bool

record timer_state =
  ticks :: u32
  systick_has_ticked :: bool
  systick_irq :: bool
  tim17_ctr :: u8
  tim3_irq :: bool
  tim14_enabled :: bool

datatype charger_current_mode =
  CHARGER_CURRENT_MODE_100MA | CHARGER_CURRENT_MODE_500MA
| CHARGER_CURRENT_MODE_ILIM | CHARGER_CURRENT_MODE_STANDBY

record led_phase =
  phase_colour :: u8
  phase_duration :: u8

record led_sequence =
  seq_duration :: u16
  seq_no_of_phases :: u8
  seq_phase :: "led_phase list"

record led_state =
  blink_on :: bool
  led_ctr :: u8
  led_overall_ctr :: u16
  led_phase_ctr :: u8
  led_colour :: u8
  led_seq :: led_sequence

record ram_cfg =
  cfg_code :: u32
  cfg_data :: "u8 list"

record mem_state =
  ram_cfg :: ram_cfg
  saved_cfg :: ram_cfg

record board =
  pwr :: power_state
  gpio :: gpio_state
  adc :: adc_state
  tmr :: timer_state
  current_mode :: charger_current_mode
  led :: led_state
  mem :: mem_state

section \<open>Run reasons (power.c)\<close>

definition "POWER_RR_UART_RX = (0x0001 :: u16)"
definition "POWER_RR_UART_TX = (0x0002 :: u16)"
definition "POWER_RR_CHARGER_COMMS = (0x0004 :: u16)"
definition "POWER_RR_DEBUG = (0x0008 :: u16)"
definition "POWER_RR_CASE_EVENT = (0x0010 :: u16)"
definition "POWER_RR_STATUS_L = (0x0020 :: u16)"
definition "POWER_RR_STATUS_R = (0x0040 :: u16)"
definition "POWER_RR_WATCHDOG = (0x0080 :: u16)"
definition "POWER_RR_DFU = (0x0100 :: u16)"
definition "POWER_RR_BROADCAST = (0x0200 :: u16)"
definition "POWER_RR_LED = (0x1000 :: u16)"
definition "POWER_RR_FORCE_ON = (0x2000 :: u16)"

lemmas run_reason_defs [simp] =
  POWER_RR_UART_RX_def POWER_RR_UART_TX_def POWER_RR_CHARGER_COMMS_def POWER_RR_DEBUG_def
  POWER_RR_CASE_EVENT_def POWER_RR_STATUS_L_def POWER_RR_STATUS_R_def POWER_RR_WATCHDOG_def
  POWER_RR_DFU_def POWER_RR_BROADCAST_def POWER_RR_LED_def POWER_RR_FORCE_ON_def

definition power_set_run_reason :: "u16 \<Rightarrow> 'a board_scheme \<Rightarrow> 'a board_scheme" where
  "power_set_run_reason reason w =
     w\<lparr>pwr := (pwr w)\<lparr>power_reason_to_run := power_reason_to_run (pwr w) OR reason\<rparr>\<rparr>"

definition power_clear_run_reason :: "u16 \<Rightarrow> 'a board_scheme \<Rightarrow> 'a board_scheme" where
  "power_clear_run_reason reason w =
     w\<lparr>pwr := (pwr w)\<lparr>power_reason_to_run := power_reason_to_run (pwr w) AND NOT reason\<rparr>\<rparr>"

text \<open>\<open>runs_for r w\<close>: some bit of the reason \<open>r\<close> keeps the processor out of its low-power mode.\<close>

definition runs_for :: "u16 \<Rightarrow> 'a board_scheme \<Rightarrow> bool" where
  "runs_for r w = (power_reason_to_run (pwr w) AND r \<noteq> 0)"

lemma runs_for_set [simp]:
  "runs_for r (power_set_run_reason q w) \<longleftrightarrow> runs_for r w \<or> q AND r \<noteq> 0"
  by (auto simp: runs_for_def power_set_run_reason_def bit_eq_iff bit_simps)

lemma runs_for_clear_same [simp]: "\<not> runs_for r (power_clear_run_reason r w)"
  by (auto simp: runs_for_def power_clear_run_reason_def bit_eq_iff bit_simps)

lemma runs_for_clear_other [simp]:
  assumes "q AND r = 0"
  shows "runs_for r (power_clear_run_reason q w) \<longleftrightarrow> runs_for r w"
proof -
  have "(x AND NOT q) AND r = x AND r" for x :: u16
    using assms by (auto simp: bit_eq_iff bit_simps)
  then show ?thesis by (simp add: runs_for_def power_clear_run_reason_def)
qed

section \<open>Pins (gpio.c)\<close>

definition "GPIO_NULL = (0x00 :: u16)"
definition "GPIO_ACTIVE_LOW = (0x8000 :: u16)"
definition "GPIO_MAG_SENSOR = (0x10 :: u16)"
definition "GPIO_VBAT_MONITOR_ON_OFF = (0x12 :: u16)"
definition "GPIO_CHG_CE_N = (0x8015 :: u16)"
definition "GPIO_CHG_EN1 = (0x20 :: u16)"
definition "GPIO_CHG_EN2 = (0x21 :: u16)"
definition "GPIO_CHG_STATUS_N = (0x8022 :: u16)"
definition "GPIO_LED_RED = (0x8023 :: u16)"
definition "GPIO_LED_GREEN = (0x8024 :: u16)"
definition "GPIO_LED_BLUE = (0x8025 :: u16)"
definition "GPIO_VREG_MOD = (0x29 :: u16)"
definition "GPIO_VREG_PFM_PWM = (0x2A :: u16)"
definition "GPIO_CURRENT_SENSE_AMP = (0x2C :: u16)"
definition "GPIO_CHG_SENSE = (0x3D :: u16)"

lemmas gpio_pin_defs [simp] =
  GPIO_NULL_def GPIO_ACTIVE_LOW_def GPIO_MAG_SENSOR_def GPIO_VBAT_MONITOR_ON_OFF_def
  GPIO_CHG_CE_N_def GPIO_CHG_EN1_def GPIO_CHG_EN2_def GPIO_CHG_STATUS_N_def GPIO_LED_RED_def
  GPIO_LED_GREEN_def GPIO_LED_BLUE_def GPIO_VREG_MOD_def GPIO_VREG_PFM_PWM_def
  GPIO_CURRENT_SENSE_AMP_def GPIO_CHG_SENSE_def

definition gpio_pad :: "u16 \<Rightarrow> u16" where
  "gpio_pad pin = pin AND 0xFF"

definition gpio_set :: "u16 \<Rightarrow> 'a board_scheme \<Rightarrow> 'a board_scheme" where
  "gpio_set pin w = w\<lparr>gpio := (gpio w)\<lparr>gpio_odr := (gpio_odr (gpio w))(gpio_pad pin := True)\<rparr>\<rparr>"

definition gpio_reset :: "u16 \<Rightarrow> 'a board_scheme \<Rightarrow> 'a board_scheme" where
  "gpio_reset pin w = w\<lparr>gpio := (gpio w)\<lparr>gpio_odr := (gpio_odr (gpio w))(gpio_pad pin := False)\<rparr>\<rparr>"

definition gpio_input :: "u16 \<Rightarrow> 'a board_scheme \<Rightarrow> 'a board_scheme" where
  "gpio_input pin w =
     w\<lparr>gpio := (gpio w)\<lparr>gpio_is_output := (gpio_is_output (gpio w))(gpio_pad pin := False)\<rparr>\<rparr>"

definition gpio_output :: "u16 \<Rightarrow> 'a board_scheme \<Rightarrow> 'a board_scheme" where
  "gpio_output pin w =
     w\<lparr>gpio := (gpio w)\<lparr>gpio_is_output := (gpio_is_output (gpio w))(gpio_pad pin := True)\<rparr>\<rparr>"

definition gpio_enable :: "u16 \<Rightarrow> 'a board_scheme \<Rightarrow> 'a board_scheme" where
  "gpio_enable pin w =
     (if pin AND GPIO_ACTIVE_LOW \<noteq> 0 then gpio_reset pin w else gpio_set pin w)"

definition gpio_disable :: "u16 \<Rightarrow> 'a board_scheme \<Rightarrow> 'a board_scheme" where
  "gpio_disable pin w =
     (if pin AND GPIO_ACTIVE_LOW \<noteq> 0 then gpio_set pin w else gpio_reset pin w)"

definition gpio_active :: "u16 \<Rightarrow> 'a board_scheme \<Rightarrow> bool" where
  "gpio_active pin w =
     (if pin AND GPIO_ACTIVE_LOW \<noteq> 0 then \<not> gpio_idr (gpio w) (gpio_pad pin)
      else gpio_idr (gpio w) (gpio_pad pin))"

definition gpio_clock_enable :: "'a board_scheme \<Rightarrow> 'a board_scheme" where
  "gpio_clock_enable w = w\<lparr>gpio := (gpio w)\<lparr>gpio_clocked := True\<rparr>\<rparr>"

definition gpio_clock_disable :: "'a board_scheme \<Rightarrow> 'a board_scheme" where
  "gpio_clock_disable w = w\<lparr>gpio := (gpio w)\<lparr>gpio_clocked := False\<rparr>\<rparr>"

text \<open>The logical state of a driven pin: \<open>gpio_enable\<close> drives an active-low pin low.\<close>

definition gpio_driven_active :: "u16 \<Rightarrow> 'a board_scheme \<Rightarrow> bool" where
  "gpio_driven_active pin w =
     (gpio_odr (gpio w) (gpio_pad pin) \<noteq> (pin AND GPIO_ACTIVE_LOW \<noteq> 0))"

lemma gpio_driven_enable [simp]:
  "gpio_pad q \<noteq> gpio_pad p \<Longrightarrow> gpio_driven_active q (gpio_enable p w) = gpio_driven_active q w"
  "gpio_driven_active p (gpio_enable p w)"
  by (auto simp: gpio_driven_active_def gpio_enable_def gpio_set_def gpio_reset_def)

lemma gpio_driven_disable [simp]:
  "gpio_pad q \<noteq> gpio_pad p \<Longrightarrow> gpio_driven_active q (gpio_disable p w) = gpio_driven_active q w"
  "\<not> gpio_driven_active p (gpio_disable p w)"
  by (auto simp: gpio_driven_active_def gpio_disable_def gpio_set_def gpio_reset_def)

section \<open>ADC (adc.c), comms timer and tick counter (timer.c)\<close>

definition adc_sleep :: "'a board_scheme \<Rightarrow> 'a board_scheme" where
  "adc_sleep w = w\<lparr>adc := (adc w)\<lparr>adc_clocked := False\<rparr>\<rparr>"

definition adc_wake :: "'a board_scheme \<Rightarrow> 'a board_scheme" where
  "adc_wake w = w\<lparr>adc := (adc w)\<lparr>adc_clocked := True, adc_in_progress := False\<rparr>\<rparr>"

definition adc_start_measuring :: "'a board_scheme \<Rightarrow> 'a board_scheme" where
  "adc_start_measuring w =
     (if \<not> adc_in_progress (adc w) then w\<lparr>adc := (adc w)\<lparr>adc_in_progress := True\<rparr>\<rparr> else w)"

text \<open>The end-of-sequence interrupt; the DMA has stored the converted values \<open>v\<close>.\<close>

definition ADC1_IRQHandler :: "(adc_no \<Rightarrow> u16) \<Rightarrow> 'a board_scheme \<Rightarrow> 'a board_scheme" where
  "ADC1_IRQHandler v w = w\<lparr>adc := (adc w)\<lparr>adc_value := v, adc_in_progress := False\<rparr>\<rparr>"

definition adc_read :: "adc_no \<Rightarrow> 'a board_scheme \<Rightarrow> u16" where
  "adc_read n w = adc_value (adc w) n"

definition timer_comms_tick_start :: "'a board_scheme \<Rightarrow> 'a board_scheme" where
  "timer_comms_tick_start w = w\<lparr>tmr := (tmr w)\<lparr>tim3_irq := True\<rparr>\<rparr>"

definition timer_comms_tick_stop :: "'a board_scheme \<Rightarrow> 'a board_scheme" where
  "timer_comms_tick_stop w = w\<lparr>tmr := (tmr w)\<lparr>tim3_irq := False\<rparr>\<rparr>"

definition timer_sleep :: "'a board_scheme \<Rightarrow> 'a board_scheme" where
  "timer_sleep w =
     (let w = timer_comms_tick_stop w in w\<lparr>tmr := (tmr w)\<lparr>tim14_enabled := False\<rparr>\<rparr>)"

definition timer_wake :: "'a board_scheme \<Rightarrow> 'a board_scheme" where
  "timer_wake w = w\<lparr>tmr := (tmr w)\<lparr>tim14_enabled := True\<rparr>\<rparr>"

definition SysTick_Handler :: "'a board_scheme \<Rightarrow> 'a board_scheme" where
  "SysTick_Handler w =
     w\<lparr>tmr := (tmr w)\<lparr>ticks := ticks (tmr w) + 1, systick_has_ticked := True\<rparr>\<rparr>"

section \<open>The BQ24230 charger (charger.c)\<close>

definition charger_enable :: "bool \<Rightarrow> 'a board_scheme \<Rightarrow> 'a board_scheme" where
  "charger_enable enable w =
     (if enable then gpio_enable GPIO_CHG_CE_N w else gpio_disable GPIO_CHG_CE_N w)"

definition charger_set_current :: "charger_current_mode \<Rightarrow> 'a board_scheme \<Rightarrow> 'a board_scheme" where
  "charger_set_current m w =
     (if m = current_mode w then w
      else let w = w\<lparr>current_mode := m\<rparr> in
        case m of
          CHARGER_CURRENT_MODE_100MA \<Rightarrow> gpio_disable GPIO_CHG_EN1 (gpio_disable GPIO_CHG_EN2 w)
        | CHARGER_CURRENT_MODE_500MA \<Rightarrow> gpio_enable GPIO_CHG_EN1 (gpio_disable GPIO_CHG_EN2 w)
        | CHARGER_CURRENT_MODE_ILIM \<Rightarrow> gpio_disable GPIO_CHG_EN1 (gpio_enable GPIO_CHG_EN2 w)
        | CHARGER_CURRENT_MODE_STANDBY \<Rightarrow> gpio_enable GPIO_CHG_EN1 (gpio_enable GPIO_CHG_EN2 w))"

definition charger_connected :: "'a board_scheme \<Rightarrow> bool" where
  "charger_connected w = gpio_active GPIO_CHG_SENSE w"

definition charger_is_charging :: "'a board_scheme \<Rightarrow> bool" where
  "charger_is_charging w = gpio_active GPIO_CHG_STATUS_N w"

end
