(* ===== verification/Led.thy ===== *)
theory Led
  imports Board
begin

text \<open>
  \<^verbatim>\<open>led.c\<close>: the tri-colour LED. A sequence is a list of phases with an overall duration;
  \<open>led_periodic\<close> runs once per 10 ms tick. Shown: the pins always agree with the cached
  colour (so skipping the pin writes when the colour is unchanged is sound), and a battery
  indication shows the colour of its level for 500 ticks and then ends, releasing its run reason.
\<close>

definition "LED_COLOUR_OFF = (0x00 :: u8)"
definition "LED_COLOUR_RED = (0x01 :: u8)"
definition "LED_COLOUR_GREEN = (0x02 :: u8)"
definition "LED_COLOUR_AMBER = (0x03 :: u8)"
definition "LED_BLINK_TIME = (100 :: u8)"
definition "LED_SEQ_FOREVER = (0xFFFF :: u16)"
definition "LED_PHASE_FOREVER = (0xFF :: u8)"

lemmas led_constant_defs [simp] =
  LED_COLOUR_OFF_def LED_COLOUR_RED_def LED_COLOUR_GREEN_def LED_COLOUR_AMBER_def
  LED_BLINK_TIME_def LED_SEQ_FOREVER_def LED_PHASE_FOREVER_def

definition led_rgb :: "u16 list" where
  "led_rgb = [GPIO_LED_RED, GPIO_LED_GREEN, GPIO_LED_BLUE]"

definition led_seq_battery_medium :: led_sequence where
  "led_seq_battery_medium = \<lparr>seq_duration = 500, seq_no_of_phases = 1,
     seq_phase = [\<lparr>phase_colour = LED_COLOUR_AMBER, phase_duration = LED_PHASE_FOREVER\<rparr>]\<rparr>"

definition led_seq_battery_low :: led_sequence where
  "led_seq_battery_low = \<lparr>seq_duration = 500, seq_no_of_phases = 1,
     seq_phase = [\<lparr>phase_colour = LED_COLOUR_RED, phase_duration = LED_PHASE_FOREVER\<rparr>]\<rparr>"

definition led_seq_battery_high :: led_sequence where
  "led_seq_battery_high = \<lparr>seq_duration = 500, seq_no_of_phases = 1,
     seq_phase = [\<lparr>phase_colour = LED_COLOUR_GREEN, phase_duration = LED_PHASE_FOREVER\<rparr>]\<rparr>"

definition led_seq_default :: led_sequence where
  "led_seq_default = \<lparr>seq_duration = LED_SEQ_FOREVER, seq_no_of_phases = 2,
     seq_phase = [\<lparr>phase_colour = LED_COLOUR_GREEN, phase_duration = LED_BLINK_TIME\<rparr>,
                  \<lparr>phase_colour = LED_COLOUR_OFF, phase_duration = LED_BLINK_TIME\<rparr>]\<rparr>"

lemmas led_seq_defs =
  led_seq_battery_medium_def led_seq_battery_low_def led_seq_battery_high_def led_seq_default_def

section \<open>Operations\<close>

text \<open>One turn of the loop of \<open>led_set_colour\<close>, for the primary colour \<open>n\<close>.\<close>

definition led_set_pin :: "u8 \<Rightarrow> nat \<Rightarrow> 'a board_scheme \<Rightarrow> 'a board_scheme" where
  "led_set_pin colour n w =
     (let pin = led_rgb ! n in
      if pin \<noteq> GPIO_NULL then
        if colour AND push_bit n 1 \<noteq> 0 then gpio_enable pin w else gpio_disable pin w
      else w)"

definition led_set_colour :: "u8 \<Rightarrow> 'a board_scheme \<Rightarrow> 'a board_scheme" where
  "led_set_colour colour w =
     (if colour \<noteq> led_colour (led w) then
        let w = fold (led_set_pin colour) [0, 1, 2] w
        in w\<lparr>led := (led w)\<lparr>led_colour := colour\<rparr>\<rparr>
      else w)"

definition led_sleep :: "'a board_scheme \<Rightarrow> 'a board_scheme" where
  "led_sleep w =
     (let w = led_set_colour LED_COLOUR_OFF w in w\<lparr>led := (led w)\<lparr>blink_on := False\<rparr>\<rparr>)"

definition led_wake :: "'a board_scheme \<Rightarrow> 'a board_scheme" where
  "led_wake w = w\<lparr>led := (led w)\<lparr>led_ctr := 0\<rparr>\<rparr>"

definition led_new_sequence :: "led_sequence \<Rightarrow> 'a board_scheme \<Rightarrow> 'a board_scheme" where
  "led_new_sequence seq w =
     (let w = w\<lparr>led := (led w)\<lparr>led_seq := seq, led_ctr := 0, led_overall_ctr := 0,
                               led_phase_ctr := 0\<rparr>\<rparr>
      in led_set_colour (phase_colour (seq_phase (led_seq (led w)) ! unat (led_phase_ctr (led w)))) w)"

definition led_indicate_battery :: "u8 \<Rightarrow> 'a board_scheme \<Rightarrow> 'a board_scheme" where
  "led_indicate_battery percent w =
     (let w = power_set_run_reason POWER_RR_LED w in
      if percent > 95 then led_new_sequence led_seq_battery_high w
      else if percent > 30 then led_new_sequence led_seq_battery_medium w
      else led_new_sequence led_seq_battery_low w)"

definition led_periodic :: "'a board_scheme \<Rightarrow> 'a board_scheme" where
  "led_periodic w =
     (let w = w\<lparr>led := (led w)\<lparr>led_ctr := led_ctr (led w) + 1,
                               led_overall_ctr := led_overall_ctr (led w) + 1\<rparr>\<rparr>
      in
      if led_overall_ctr (led w) > seq_duration (led_seq (led w)) then
        power_clear_run_reason POWER_RR_LED (led_new_sequence led_seq_default w)
      else if led_ctr (led w) >
              phase_duration (seq_phase (led_seq (led w)) ! unat (led_phase_ctr (led w))) then
        let w = w\<lparr>led := (led w)\<lparr>led_phase_ctr :=
                  (led_phase_ctr (led w) + 1) mod seq_no_of_phases (led_seq (led w))\<rparr>\<rparr>;
            w = led_set_colour
                  (phase_colour (seq_phase (led_seq (led w)) ! unat (led_phase_ctr (led w)))) w
        in w\<lparr>led := (led w)\<lparr>led_ctr := 0\<rparr>\<rparr>
      else w)"

section \<open>What the LED operations leave alone\<close>

lemma gpio_ops_led [frame]:
  "led (gpio_enable p w) = led w" "led (gpio_disable p w) = led w"
  "pwr (gpio_enable p w) = pwr w" "pwr (gpio_disable p w) = pwr w"
  "adc (gpio_enable p w) = adc w" "adc (gpio_disable p w) = adc w"
  "tmr (gpio_enable p w) = tmr w" "tmr (gpio_disable p w) = tmr w"
  "board.more (gpio_enable p w) = board.more w" "board.more (gpio_disable p w) = board.more w"
  by (simp_all add: gpio_enable_def gpio_disable_def gpio_set_def gpio_reset_def)

lemma led_set_pin_led [frame]:
  "led (led_set_pin c n w) = led w" "pwr (led_set_pin c n w) = pwr w"
  by (simp_all add: led_set_pin_def Let_def frame)

lemma led_set_colour_led [frame]:
  "led (led_set_colour c w) = (led w)\<lparr>led_colour := c\<rparr>"
  "pwr (led_set_colour c w) = pwr w"
  by (simp_all add: led_set_colour_def Let_def frame)

lemma led_new_sequence_led [frame]:
  "led (led_new_sequence seq w) =
     (led w)\<lparr>led_seq := seq, led_ctr := 0, led_overall_ctr := 0, led_phase_ctr := 0,
            led_colour := phase_colour (seq_phase seq ! 0)\<rparr>"
  "pwr (led_new_sequence seq w) = pwr w"
  by (simp_all add: led_new_sequence_def Let_def frame)

lemma runs_for_led [simp]:
  "runs_for r (led_set_colour c w) = runs_for r w"
  "runs_for r (led_new_sequence seq w) = runs_for r w"
  "runs_for r (w\<lparr>led := l\<rparr>) = runs_for r w"
  by (simp_all add: runs_for_def frame)

lemma led_run_reason [frame]:
  "led (power_set_run_reason r w) = led w" "led (power_clear_run_reason r w) = led w"
  by (simp_all add: power_set_run_reason_def power_clear_run_reason_def)

section \<open>The pins agree with the cached colour\<close>

definition led_pins_agree :: "'a board_scheme \<Rightarrow> bool" where
  "led_pins_agree w \<longleftrightarrow>
     (\<forall>n < 3. gpio_driven_active (led_rgb ! n) w = bit (led_colour (led w)) n)"

lemma and_push_1: "colour AND push_bit n 1 \<noteq> 0 \<longleftrightarrow> bit colour n" for colour :: u8
  by (simp add: push_bit_of_1 and_exp_eq_0_iff_not_bit)

lemma less_3_cases: "n < 3 \<longleftrightarrow> n = 0 \<or> n = 1 \<or> n = (2::nat)"
  by auto

lemma led_rgb_nth [simp]:
  "led_rgb ! 0 = GPIO_LED_RED" "led_rgb ! Suc 0 = GPIO_LED_GREEN" "led_rgb ! 2 = GPIO_LED_BLUE"
  by (simp_all add: led_rgb_def)

lemma led_set_pin_driven:
  "m < 3 \<Longrightarrow> n < 3 \<Longrightarrow>
   gpio_driven_active (led_rgb ! m) (led_set_pin c n w) =
     (if m = n then bit c n else gpio_driven_active (led_rgb ! m) w)"
  unfolding less_3_cases led_set_pin_def and_push_1
  by (auto simp: gpio_pad_def split: if_splits)

lemma led_pins_set_colour:
  assumes "led_pins_agree w"
  shows "led_pins_agree (led_set_colour c w)"
proof (cases "c = led_colour (led w)")
  case True
  with assms show ?thesis by (simp add: led_set_colour_def)
next
  case False
  have "gpio_driven_active (led_rgb ! m) (led_set_colour c w) = bit c m" if "m < 3" for m
  proof -
    have "gpio_driven_active (led_rgb ! m) (led_set_colour c w) =
          gpio_driven_active (led_rgb ! m) (fold (led_set_pin c) [0, 1, 2] w)"
      using False by (simp add: led_set_colour_def Let_def gpio_driven_active_def)
    also have "\<dots> = bit c m"
      using that by (auto simp: led_set_pin_driven less_3_cases simp del: led_rgb_nth)
    finally show ?thesis .
  qed
  then show ?thesis by (simp add: led_pins_agree_def frame)
qed

lemma led_pins_other_fields:
  "gpio w' = gpio w \<Longrightarrow> led_colour (led w') = led_colour (led w) \<Longrightarrow>
   led_pins_agree w' = led_pins_agree w"
  by (simp add: led_pins_agree_def gpio_driven_active_def)

lemma led_pins_new_sequence: "led_pins_agree w \<Longrightarrow> led_pins_agree (led_new_sequence seq w)"
  unfolding led_new_sequence_def Let_def
  by (rule led_pins_set_colour) (simp add: led_pins_agree_def gpio_driven_active_def)

lemma led_pins_run_reason [simp]:
  "led_pins_agree (power_set_run_reason r w) = led_pins_agree w"
  "led_pins_agree (power_clear_run_reason r w) = led_pins_agree w"
  by (simp_all add: led_pins_agree_def gpio_driven_active_def power_set_run_reason_def
      power_clear_run_reason_def)

lemma led_pins_led_update [simp]:
  "led_pins_agree (w\<lparr>led := led_ctr_update f (led w)\<rparr>) = led_pins_agree w"
  "led_pins_agree (w\<lparr>led := led_overall_ctr_update g (led w)\<rparr>) = led_pins_agree w"
  "led_pins_agree (w\<lparr>led := led_phase_ctr_update f (led w)\<rparr>) = led_pins_agree w"
  "led_pins_agree (w\<lparr>led := blink_on_update h (led w)\<rparr>) = led_pins_agree w"
  by (simp_all add: led_pins_agree_def gpio_driven_active_def)

lemma led_pins_periodic:
  assumes "led_pins_agree w"
  shows "led_pins_agree (led_periodic w)"
proof -
  let ?w = "w\<lparr>led := (led w)\<lparr>led_ctr := led_ctr (led w) + 1,
                            led_overall_ctr := led_overall_ctr (led w) + 1\<rparr>\<rparr>"
  have "led_pins_agree ?w"
    using assms by (simp add: led_pins_agree_def gpio_driven_active_def)
  moreover have "led_pins_agree (?w\<lparr>led := (led ?w)\<lparr>led_phase_ctr := p\<rparr>\<rparr>)" for p
    using assms by (simp add: led_pins_agree_def gpio_driven_active_def)
  moreover have "led_pins_agree (w\<lparr>led := (led w)\<lparr>led_ctr := 0\<rparr>\<rparr>) = led_pins_agree w" for w :: "'a board_scheme"
    by (simp add: led_pins_agree_def gpio_driven_active_def)
  ultimately show ?thesis
    unfolding led_periodic_def Let_def
    by (auto intro!: led_pins_set_colour led_pins_new_sequence)
qed

section \<open>A battery indication runs its course\<close>

definition battery_sequence :: "u8 \<Rightarrow> led_sequence" where
  "battery_sequence percent =
     (if percent > 95 then led_seq_battery_high
      else if percent > 30 then led_seq_battery_medium else led_seq_battery_low)"

lemma led_indicate_battery_alt:
  "led_indicate_battery percent w =
     led_new_sequence (battery_sequence percent) (power_set_run_reason POWER_RR_LED w)"
  by (simp add: led_indicate_battery_def battery_sequence_def Let_def)

lemma battery_sequence_shape:
  "seq_duration (battery_sequence p) = 500"
  "phase_duration (seq_phase (battery_sequence p) ! 0) = 255"
  by (simp_all add: battery_sequence_def led_seq_defs)

text \<open>State of the LED module \<open>n\<close> ticks into a battery indication.\<close>

definition indicating :: "u8 \<Rightarrow> nat \<Rightarrow> 'a board_scheme \<Rightarrow> bool" where
  "indicating percent n w \<longleftrightarrow>
     led_seq (led w) = battery_sequence percent \<and> led_phase_ctr (led w) = 0 \<and>
     led_overall_ctr (led w) = of_nat n \<and>
     led_colour (led w) = phase_colour (seq_phase (battery_sequence percent) ! 0) \<and>
     runs_for POWER_RR_LED w"

lemma indicating_start: "indicating p 0 (led_indicate_battery p w)"
  by (simp add: indicating_def led_indicate_battery_alt frame)

lemma u8_not_above_255: "\<not> x > (255 :: u8)"
  using unat_u8_less [of x] by (simp add: word_less_nat_alt)

lemma indicating_step:
  assumes "indicating p n w" "n < 500"
  shows "indicating p (Suc n) (led_periodic w)"
proof -
  have "\<not> of_nat n + 1 > (500 :: u16)"
    using assms(2) by (simp add: word_less_nat_alt unat_word_ariths unat_of_nat)
  then show ?thesis
    using assms(1)
    by (simp add: indicating_def led_periodic_def Let_def battery_sequence_shape
        u8_not_above_255 add.commute)
qed

lemma indicating_steps:
  "indicating p 0 w \<Longrightarrow> n \<le> 500 \<Longrightarrow> indicating p n ((led_periodic ^^ n) w)"
  by (induction n) (simp_all add: indicating_step)

lemma indicating_end:
  assumes "indicating p 500 w"
  shows "led_seq (led (led_periodic w)) = led_seq_default \<and> \<not> runs_for POWER_RR_LED (led_periodic w)"
  using assms
  by (simp add: indicating_def led_periodic_def Let_def battery_sequence_shape frame
      power_clear_run_reason_def [of POWER_RR_LED])

section \<open>Properties\<close>

text \<open>The calls the rest of the firmware makes into the LED module.\<close>

datatype led_call =
  LedPeriodic | LedIndicateBattery u8 | LedSetColour u8 | LedSleep | LedWake

fun led_do :: "led_call \<Rightarrow> 'a board_scheme \<Rightarrow> 'a board_scheme" where
  "led_do LedPeriodic w = led_periodic w"
| "led_do (LedIndicateBattery p) w = led_indicate_battery p w"
| "led_do (LedSetColour c) w = led_set_colour c w"
| "led_do LedSleep w = led_sleep w"
| "led_do LedWake w = led_wake w"

lemma led_pins_do: "led_pins_agree w \<Longrightarrow> led_pins_agree (led_do c w)"
proof (cases c)
  case LedSleep
  assume "led_pins_agree w"
  then have "led_pins_agree (led_set_colour LED_COLOUR_OFF w)" by (rule led_pins_set_colour)
  then show ?thesis
    unfolding LedSleep led_do.simps led_sleep_def Let_def
    by (simp add: led_pins_agree_def gpio_driven_active_def)
next
  case LedWake
  assume "led_pins_agree w"
  then show ?thesis
    by (simp add: LedWake led_wake_def led_pins_agree_def gpio_driven_active_def)
qed (simp_all add: led_pins_periodic led_pins_set_colour led_pins_new_sequence
      led_indicate_battery_alt)

text \<open>
  Whatever is asked of the LED module, and in whatever order, the three LED pins show the
  colour it has cached, so its skipping of the pin writes when the colour is unchanged is sound.
\<close>

theorem led_pins_show_cached_colour:
  assumes "led_pins_agree w"
  shows "led_pins_agree (fold led_do calls w)"
  using assms by (induction calls arbitrary: w) (simp_all add: led_pins_do)

definition dark_board :: board where
  "dark_board = \<lparr>pwr = \<lparr>power_reason_to_run = 0, sleep_count = 0, low_power_fn = power_enter_stop_fn\<rparr>,
     gpio = \<lparr>gpio_odr = (\<lambda>p. p \<in> {0x15, 0x22, 0x23, 0x24, 0x25}), gpio_is_output = (\<lambda>_. False),
             gpio_idr = (\<lambda>_. False), gpio_clocked = True\<rparr>,
     adc = \<lparr>adc_value = (\<lambda>_. 0), adc_in_progress = False, adc_clocked = True\<rparr>,
     tmr = \<lparr>ticks = 0, systick_has_ticked = False, systick_irq = True, tim17_ctr = 0,
            tim3_irq = False, tim14_enabled = True\<rparr>,
     current_mode = CHARGER_CURRENT_MODE_100MA,
     led = \<lparr>blink_on = False, led_ctr = 0, led_overall_ctr = 0, led_phase_ctr = 0, led_colour = 0,
            led_seq = led_seq_default\<rparr>,
     mem = \<lparr>ram_cfg = \<lparr>cfg_code = 0, cfg_data = replicate 12 0\<rparr>,
            saved_cfg = \<lparr>cfg_code = 0, cfg_data = replicate 12 0\<rparr>\<rparr>\<rparr>"

lemma dark_board_pins: "led_pins_agree dark_board"
  by (auto simp: led_pins_agree_def less_3_cases gpio_driven_active_def gpio_pad_def dark_board_def)

theorem led_pins_show_cached_colour_witness:
  "led_pins_agree (fold led_do [LedIndicateBattery 50, LedPeriodic, LedSleep] dark_board)"
  by (rule led_pins_show_cached_colour [OF dark_board_pins])

text \<open>
  A battery indication keeps the processor awake and the LED in the colour of the battery
  level (green above 95 percent, amber above 30, red otherwise) for exactly 500 periods; the next
  period returns to the default sequence and releases the run reason.
\<close>

theorem battery_indication_lifetime:
  fixes w :: "'a board_scheme" and percent :: u8
  defines "after m \<equiv> (led_periodic ^^ m) (led_indicate_battery percent w)"
  assumes "n \<le> 500"
  shows "runs_for POWER_RR_LED (after n) \<and>
         led_colour (led (after n)) =
           (if percent > 95 then LED_COLOUR_GREEN
            else if percent > 30 then LED_COLOUR_AMBER else LED_COLOUR_RED) \<and>
         \<not> runs_for POWER_RR_LED (after 501) \<and> led_seq (led (after 501)) = led_seq_default"
proof -
  have "indicating percent m (after m)" if "m \<le> 500" for m
    unfolding after_def by (rule indicating_steps [OF indicating_start that])
  then have run: "indicating percent n (after n)" and last: "indicating percent 500 (after 500)"
    using assms by auto
  have "(led_periodic ^^ Suc 500) v = led_periodic ((led_periodic ^^ 500) v)" for v :: "'a board_scheme"
    by (simp only: funpow.simps comp_apply)
  then have "after 501 = led_periodic (after 500)" by (simp add: after_def)
  then show ?thesis
    using indicating_end [OF last] run
    by (auto simp: indicating_def battery_sequence_def led_seq_defs)
qed

theorem battery_indication_lifetime_witness:
  "runs_for POWER_RR_LED (led_indicate_battery 50 dark_board) \<and>
   led_colour (led (led_indicate_battery 50 dark_board)) = LED_COLOUR_AMBER"
  using battery_indication_lifetime [of 0 50 dark_board] by simp

end
