(* ===== verification/Power_Modes.thy ===== *)
theory Power_Modes
  imports Led
begin

text \<open>
  The low-power modes of \<^verbatim>\<open>power.c\<close> and the configuration that survives a reset
  (\<^verbatim>\<open>memory.c\<close>). What happens while the processor waits for an interrupt is a parameter
  \<open>wfi\<close> of the mode functions, the reset request is a parameter \<open>system_reset\<close>. Shown: the
  firmware enters a low-power mode only when no run reason is left, sleeping restores the
  peripherals it stopped, and a standby request is seen by exactly one restart.
\<close>

section \<open>Configuration kept across a reset (memory.c)\<close>

definition MEM_CFG_CODE :: u32 where
  "MEM_CFG_CODE = 0x6A2EB0ED"

definition zero_cfg :: ram_cfg where
  "zero_cfg = \<lparr>cfg_code = 0, cfg_data = replicate 12 0\<rparr>"

text \<open>\<open>mem_init\<close>, without the filling of the unused stack.\<close>

definition mem_init :: "'a board_scheme \<Rightarrow> 'a board_scheme" where
  "mem_init w =
     (let w = (if cfg_code (saved_cfg (mem w)) = MEM_CFG_CODE
               then w\<lparr>mem := (mem w)\<lparr>ram_cfg := saved_cfg (mem w)\<rparr>\<rparr> else w)
      in w\<lparr>mem := (mem w)\<lparr>saved_cfg := zero_cfg\<rparr>\<rparr>)"

definition mem_cfg_update :: "'a board_scheme \<Rightarrow> 'a board_scheme" where
  "mem_cfg_update w =
     (let w = w\<lparr>mem := (mem w)\<lparr>ram_cfg := (ram_cfg (mem w))\<lparr>cfg_code := MEM_CFG_CODE\<rparr>\<rparr>\<rparr>
      in w\<lparr>mem := (mem w)\<lparr>saved_cfg := ram_cfg (mem w)\<rparr>\<rparr>)"

definition mem_cfg_standby_set :: "'a board_scheme \<Rightarrow> 'a board_scheme" where
  "mem_cfg_standby_set w =
     mem_cfg_update
       (w\<lparr>mem := (mem w)\<lparr>ram_cfg := (ram_cfg (mem w))\<lparr>cfg_data :=
          (cfg_data (ram_cfg (mem w)))[0 := bitmap_set 0 0x01 1]\<rparr>\<rparr>\<rparr>)"

definition mem_cfg_standby :: "'a board_scheme \<Rightarrow> bool" where
  "mem_cfg_standby w = (bitmap_get 0 0x01 (cfg_data (ram_cfg (mem w)) ! 0) \<noteq> 0)"

text \<open>
  What a processor reset does to these two variables: \<open>ram_cfg\<close> is initialised by the C
  start-up code, \<open>saved_cfg\<close> lies in the section CFGRAM that the start-up code leaves alone.
\<close>

definition restart_memory :: "'a board_scheme \<Rightarrow> 'a board_scheme" where
  "restart_memory w = w\<lparr>mem := (mem w)\<lparr>ram_cfg := zero_cfg\<rparr>\<rparr>"

lemma standby_is_one_shot_aux:
  assumes "length (cfg_data (ram_cfg (mem w))) = 12"
  defines "once \<equiv> mem_init (restart_memory (mem_cfg_standby_set w))"
  shows "mem_cfg_standby once" "\<not> mem_cfg_standby (mem_init (restart_memory once))"
  using assms(1) unfolding once_def
  by (simp_all add: mem_cfg_standby_set_def mem_cfg_update_def mem_init_def restart_memory_def
      mem_cfg_standby_def Let_def zero_cfg_def MEM_CFG_CODE_def bitmap_set_def bitmap_get_def)

section \<open>Low-power modes (power.c)\<close>

definition power_resume :: "'a board_scheme \<Rightarrow> 'a board_scheme" where
  "power_resume w =
     adc_wake (led_wake (timer_wake (gpio_clock_enable
       (w\<lparr>tmr := (tmr w)\<lparr>systick_irq := True\<rparr>\<rparr>))))"

definition power_begin_sleep_or_stop :: "'a board_scheme \<Rightarrow> 'a board_scheme" where
  "power_begin_sleep_or_stop w =
     (let w = gpio_clock_disable (gpio_disable GPIO_VREG_PFM_PWM
                (timer_sleep (adc_sleep (led_sleep w))))
      in w\<lparr>tmr := (tmr w)\<lparr>systick_irq := False\<rparr>\<rparr>)"

definition power_enter_sleep ::
    "('a board_scheme \<Rightarrow> 'a board_scheme) \<Rightarrow> 'a board_scheme \<Rightarrow> 'a board_scheme" where
  "power_enter_sleep wfi w =
     (let w = w\<lparr>pwr := (pwr w)\<lparr>sleep_count := sleep_count (pwr w) + 1\<rparr>\<rparr>
      in power_resume (wfi (power_begin_sleep_or_stop w)))"

definition power_enter_stop ::
    "('a board_scheme \<Rightarrow> 'a board_scheme) \<Rightarrow> 'a board_scheme \<Rightarrow> 'a board_scheme" where
  "power_enter_stop wfi w = power_resume (wfi (power_begin_sleep_or_stop w))"

definition power_reset_to_standby ::
    "('a board_scheme \<Rightarrow> 'a board_scheme) \<Rightarrow> 'a board_scheme \<Rightarrow> 'a board_scheme" where
  "power_reset_to_standby system_reset w = system_reset (mem_cfg_standby_set w)"

definition power_periodic ::
    "('a board_scheme \<Rightarrow> 'a board_scheme) \<Rightarrow> ('a board_scheme \<Rightarrow> 'a board_scheme) \<Rightarrow>
     'a board_scheme \<Rightarrow> 'a board_scheme" where
  "power_periodic wfi system_reset w =
     (if power_reason_to_run (pwr w) = 0 then
        case low_power_fn (pwr w) of
          power_enter_sleep_fn \<Rightarrow> power_enter_sleep wfi w
        | power_enter_stop_fn \<Rightarrow> power_enter_stop wfi w
        | power_reset_to_standby_fn \<Rightarrow> power_reset_to_standby system_reset w
      else w)"

definition power_cmd_on :: "'a board_scheme \<Rightarrow> 'a board_scheme" where
  "power_cmd_on w = power_set_run_reason POWER_RR_FORCE_ON w"

definition power_cmd_off :: "'a board_scheme \<Rightarrow> 'a board_scheme" where
  "power_cmd_off w = power_clear_run_reason POWER_RR_FORCE_ON w"

definition power_cmd_sleep :: "'a board_scheme \<Rightarrow> 'a board_scheme" where
  "power_cmd_sleep w = w\<lparr>pwr := (pwr w)\<lparr>low_power_fn := power_enter_sleep_fn\<rparr>\<rparr>"

definition power_cmd_stop :: "'a board_scheme \<Rightarrow> 'a board_scheme" where
  "power_cmd_stop w = w\<lparr>pwr := (pwr w)\<lparr>low_power_fn := power_enter_stop_fn\<rparr>\<rparr>"

definition power_cmd_standby :: "'a board_scheme \<Rightarrow> 'a board_scheme" where
  "power_cmd_standby w = w\<lparr>pwr := (pwr w)\<lparr>low_power_fn := power_reset_to_standby_fn\<rparr>\<rparr>"

lemma power_periodic_awake: "runs_for r w \<Longrightarrow> power_periodic wfi rst w = w"
  by (auto simp: runs_for_def power_periodic_def)

lemma led_sleep_fields [frame]:
  "led (led_sleep w) = (led w)\<lparr>led_colour := LED_COLOUR_OFF, blink_on := False\<rparr>"
  "pwr (led_sleep w) = pwr w"
  by (simp_all add: led_sleep_def Let_def frame)

lemma power_resume_fields:
  "gpio_clocked (gpio (power_resume w))" "adc_clocked (adc (power_resume w))"
  "tim14_enabled (tmr (power_resume w))" "systick_irq (tmr (power_resume w))"
  "pwr (power_resume w) = pwr w"
  by (simp_all add: power_resume_def adc_wake_def led_wake_def timer_wake_def gpio_clock_enable_def)

section \<open>Properties\<close>

lemma power_begin_fields:
  "\<not> adc_clocked (adc (power_begin_sleep_or_stop w))"
  "\<not> tim14_enabled (tmr (power_begin_sleep_or_stop w))"
  "\<not> systick_irq (tmr (power_begin_sleep_or_stop w))"
  "\<not> gpio_clocked (gpio (power_begin_sleep_or_stop w))"
  "led_colour (led (power_begin_sleep_or_stop w)) = LED_COLOUR_OFF"
  by (simp_all add: power_begin_sleep_or_stop_def Let_def gpio_clock_disable_def timer_sleep_def
      timer_comms_tick_stop_def adc_sleep_def frame)

text \<open>
  C26: The main loop suspends the processor only when no run reason is set. In the sleep and stop
  modes it suspends with the converter, the timers and the LED off, and whatever happens while it
  is suspended, it continues with the clocks and peripherals on again and its run reasons as the
  interrupts left them.
\<close>

theorem power_suspends_when_idle:
  "(runs_for r w \<longrightarrow> power_periodic wfi rst w = w) \<and>
   (power_reason_to_run (pwr w) = 0 \<and> low_power_fn (pwr w) \<noteq> power_reset_to_standby_fn \<longrightarrow>
     (\<exists>s. power_periodic wfi rst w = power_resume (wfi s) \<and>
          \<not> adc_clocked (adc s) \<and> \<not> tim14_enabled (tmr s) \<and> \<not> systick_irq (tmr s) \<and>
          \<not> gpio_clocked (gpio s) \<and> led_colour (led s) = LED_COLOUR_OFF \<and>
          gpio_clocked (gpio (power_resume (wfi s))) \<and> adc_clocked (adc (power_resume (wfi s))) \<and>
          tim14_enabled (tmr (power_resume (wfi s))) \<and> systick_irq (tmr (power_resume (wfi s))) \<and>
          pwr (power_resume (wfi s)) = pwr (wfi s)))"
proof (intro conjI impI)
  show "power_periodic wfi rst w = w" if "runs_for r w"
    using that by (rule power_periodic_awake)
  assume idle: "power_reason_to_run (pwr w) = 0 \<and> low_power_fn (pwr w) \<noteq> power_reset_to_standby_fn"
  have "\<exists>v. power_periodic wfi rst w = power_resume (wfi (power_begin_sleep_or_stop v))"
    using idle
    by (cases "low_power_fn (pwr w)")
       (auto simp: power_periodic_def power_enter_sleep_def power_enter_stop_def Let_def)
  then show "\<exists>s. power_periodic wfi rst w = power_resume (wfi s) \<and>
          \<not> adc_clocked (adc s) \<and> \<not> tim14_enabled (tmr s) \<and> \<not> systick_irq (tmr s) \<and>
          \<not> gpio_clocked (gpio s) \<and> led_colour (led s) = LED_COLOUR_OFF \<and>
          gpio_clocked (gpio (power_resume (wfi s))) \<and> adc_clocked (adc (power_resume (wfi s))) \<and>
          tim14_enabled (tmr (power_resume (wfi s))) \<and> systick_irq (tmr (power_resume (wfi s))) \<and>
          pwr (power_resume (wfi s)) = pwr (wfi s)"
    using power_begin_fields power_resume_fields by blast
qed

theorem power_suspends_when_idle_witness:
  "power_periodic id id (power_set_run_reason POWER_RR_DFU dark_board) =
   power_set_run_reason POWER_RR_DFU dark_board"
  using power_suspends_when_idle
    [of POWER_RR_DFU "power_set_run_reason POWER_RR_DFU dark_board" id id] by simp

text \<open>
  A request for standby survives the processor reset that follows it and is seen by the next
  start of the firmware, and only by that one: the start clears the saved copy, so a second reset
  starts normally.
\<close>

theorem standby_request_is_one_shot:
  assumes "length (cfg_data (ram_cfg (mem w))) = 12"
  shows "mem_cfg_standby (mem_init (restart_memory (mem_cfg_standby_set w))) \<and>
         \<not> mem_cfg_standby (mem_init (restart_memory
             (mem_init (restart_memory (mem_cfg_standby_set w)))))"
  using standby_is_one_shot_aux [OF assms] by blast

theorem standby_request_is_one_shot_witness:
  "mem_cfg_standby (mem_init (restart_memory (mem_cfg_standby_set dark_board)))"
  using standby_request_is_one_shot [of dark_board] by (simp add: dark_board_def)

end
