(* ===== verification/Charger_Comms.thy ===== *)
theory Charger_Comms
  imports Power_Modes
begin

text \<open>
  \<^verbatim>\<open>charger_comms.c\<close> and the device layer under it (\<^verbatim>\<open>charger_comms_device.c\<close>): the two-wire
  modem of the charger case. Transmit: each octet is sent LSB first as NRZ levels of the charger
  voltage, with a forced transition before every octet. Receive: threshold crossings of the load
  current are time-stamped in a buffer and turned back into octets.

  Reading an ADC edge into a full buffer and dividing by a zero calibration count are undefined
  in C; the functions in which that can happen return \<open>None\<close> there.
\<close>

definition "CHARGER_COMMS_MAX_MSG_LEN = (16 :: nat)"
definition "OVERSAMPLES = (10 :: nat)"
definition "ADC_BUF_LEN = (512 :: nat)"

lemmas comms_constant_defs [simp] =
  CHARGER_COMMS_MAX_MSG_LEN_def OVERSAMPLES_def ADC_BUF_LEN_def

section \<open>State\<close>

record earbud_channel =
  current_adc_val :: adc_no
  all_idx :: u16
  end_idx :: u16
  read_idx :: u16
  start_reading :: bool
  data_valid :: bool
  previous :: u16
  adc_buf :: "u16 list"
  wait :: u16
  is_reading_header :: bool
  num_rx_octets :: u8
  adc_thres :: u16
  adc_cal_cnt :: u16
  adc_calibrate :: u32

datatype charger_comms_states =
  CHARGER_COMMS_NOT_ACTIVE | CHARGER_COMMS_START_SEQUENCE
| CHARGER_COMMS_TRANSMITTING | CHARGER_COMMS_READING

datatype charger_comms_vreg_states =
  CHARGER_COMMS_VREG_LOW | CHARGER_COMMS_VREG_HIGH | CHARGER_COMMS_VREG_WAKE

record comms_state =
  charger_comm_state :: charger_comms_states
  charger_comm_vreg_state :: charger_comms_vreg_states
  start_idx :: u8
  write_idx :: u32
  bit_idx :: u32
  timer_idx :: u32
  num_tx_bits :: u16
  tx_buf :: "u8 list"
  expect_reply :: bool
  left_earbud :: earbud_channel
  right_earbud :: earbud_channel
  received_charger_comm_packet :: bool

record comms_board = board +
  comms :: comms_state

text \<open>The structure of function pointers and constants the device layer registers.\<close>

record 'w charger_comms_cfg =
  on_complete :: "'w \<Rightarrow> 'w"
  on_tx_start :: "u8 list \<Rightarrow> 'w \<Rightarrow> 'w"
  packet_reply_timeout_ms :: u16
  adc_threshold :: u16

section \<open>The regulator (charger_comms_device.c, charger_comms_if.h)\<close>

definition charger_comms_vreg_high :: "'a board_scheme \<Rightarrow> 'a board_scheme" where
  "charger_comms_vreg_high w = gpio_output GPIO_VREG_MOD (gpio_reset GPIO_VREG_MOD w)"

definition charger_comms_vreg_low :: "'a board_scheme \<Rightarrow> 'a board_scheme" where
  "charger_comms_vreg_low w = gpio_input GPIO_VREG_MOD w"

definition charger_comms_vreg_reset :: "'a board_scheme \<Rightarrow> 'a board_scheme" where
  "charger_comms_vreg_reset w = gpio_output GPIO_VREG_MOD (gpio_set GPIO_VREG_MOD w)"

definition vreg_high :: "'a comms_board_scheme \<Rightarrow> 'a comms_board_scheme" where
  "vreg_high w =
     charger_comms_vreg_high
       (w\<lparr>comms := (comms w)\<lparr>charger_comm_vreg_state := CHARGER_COMMS_VREG_HIGH\<rparr>\<rparr>)"

definition vreg_low :: "'a comms_board_scheme \<Rightarrow> 'a comms_board_scheme" where
  "vreg_low w =
     charger_comms_vreg_low
       (w\<lparr>comms := (comms w)\<lparr>charger_comm_vreg_state := CHARGER_COMMS_VREG_LOW\<rparr>\<rparr>)"

definition vreg_reset :: "'a comms_board_scheme \<Rightarrow> 'a comms_board_scheme" where
  "vreg_reset w =
     charger_comms_vreg_reset
       (w\<lparr>comms := (comms w)\<lparr>charger_comm_vreg_state := CHARGER_COMMS_VREG_WAKE\<rparr>\<rparr>)"

section \<open>Receiving: edges to octets\<close>

text \<open>
  Rounds the time between two edges to bit periods:
  \<open>(diff + OVERSAMPLES / 2) / OVERSAMPLES\<close>, in \<open>uint16_t\<close>.
\<close>

definition bit_periods :: "u16 \<Rightarrow> u16 \<Rightarrow> nat" where
  "bit_periods a b =
     ((nat \<bar>int (unat a) - int (unat b)\<bar> + OVERSAMPLES div 2) div OVERSAMPLES) mod 2 ^ 16"

definition shift_in_bit :: "u8 \<Rightarrow> nat \<Rightarrow> u8 list \<Rightarrow> u8 list" where
  "shift_in_bit level bit_pos buf =
     buf[bit_pos div 8 := drop_bit 1 (buf ! (bit_pos div 8)) OR level]"

definition toggle_level :: "u8 \<Rightarrow> u8" where
  "toggle_level l = (if l \<noteq> 0 then 0x0 else 0x80)"

text \<open>
  The inner loop of \<open>process_bits\<close>: writes \<open>n\<close> equal bits; the flag tells whether the buffer was
  full, in which case the C function returns.
\<close>

fun write_bits :: "nat \<Rightarrow> u8 \<Rightarrow> nat \<Rightarrow> u8 list \<Rightarrow> bool \<times> nat \<times> u8 list" where
  "write_bits 0 level bit_pos buf = (False, bit_pos, buf)"
| "write_bits (Suc n) level bit_pos buf =
     (if bit_pos = CHARGER_COMMS_MAX_MSG_LEN * 8 then (True, bit_pos, buf)
      else write_bits n level (Suc bit_pos) (shift_in_bit level bit_pos buf))"

text \<open>The tail loop: the level after the last edge fills the rest of the buffer.\<close>

fun fill_bits :: "nat \<Rightarrow> u8 \<Rightarrow> nat \<Rightarrow> u8 list \<Rightarrow> u8 list" where
  "fill_bits 0 level bit_pos buf = buf"
| "fill_bits (Suc n) level bit_pos buf =
     fill_bits n level (Suc bit_pos) (shift_in_bit level bit_pos buf)"

text \<open>
  The loop over the edges \<open>i = pmu_start_idx, \<dots>, pmu_int_idx - 1\<close>. The arguments are the
  loop-carried variables; the result is the buffer that \<open>process_bits\<close> leaves behind.
\<close>

function process_bits_loop ::
    "u16 list \<Rightarrow> nat \<Rightarrow> nat \<Rightarrow> u16 \<Rightarrow> nat \<Rightarrow> bool \<Rightarrow> u8 \<Rightarrow> nat \<Rightarrow> u8 list \<Rightarrow> u8 list" where
  "process_bits_loop edges n i stop_start ignore_idx ignore_bits level bit_pos buf =
     (if i < n then
        let ninth = (bit_periods (edges ! i) stop_start = 9);
            ignore_bits = (if ninth then i = ignore_idx else ignore_bits);
            stop_start = (if ninth then edges ! i else stop_start);
            ignore_idx = (if ninth then i + 1 else ignore_idx);
            conseq_bits = bit_periods (edges ! i) (edges ! (i - 1));
            level = toggle_level level
        in
        if conseq_bits = 0 then
          process_bits_loop edges n (i + 1) stop_start ignore_idx ignore_bits level bit_pos buf
        else
          let skip = (i = ignore_idx \<or> ignore_bits);
              conseq_bits = (if skip then conseq_bits - 1 else conseq_bits);
              ignore_bits = (if skip then False else ignore_bits)
          in
          if conseq_bits > 8 then buf
          else case write_bits conseq_bits level bit_pos buf of
            (full, bit_pos, buf) \<Rightarrow>
              if full then buf
              else process_bits_loop edges n (i + 1) stop_start ignore_idx ignore_bits level bit_pos buf
      else fill_bits (CHARGER_COMMS_MAX_MSG_LEN * 8 - bit_pos) (toggle_level level) bit_pos buf)"
  by pat_completeness auto
termination
  by (relation "measure (\<lambda>(edges, n, i, _). n - i)") auto

declare process_bits_loop.simps [simp del]

definition process_bits :: "u16 list \<Rightarrow> u16 \<Rightarrow> u16 \<Rightarrow> u16 \<Rightarrow> u16 \<Rightarrow> u8 list \<Rightarrow> u8 list" where
  "process_bits pmu_int_times pmu_int_idx pmu_start_idx stop_start_time ignore_idx buf =
     process_bits_loop pmu_int_times (unat pmu_int_idx) (unat pmu_start_idx) stop_start_time
       (unat ignore_idx) False 0x80 0 buf"

definition charger_comms_fetch_rx_data :: "earbud_channel \<Rightarrow> u8 list" where
  "charger_comms_fetch_rx_data earbud =
     process_bits (adc_buf earbud) (read_idx earbud) 2 (adc_buf earbud ! 1) 2
       (replicate CHARGER_COMMS_MAX_MSG_LEN 0)"

definition CHARGER_COMMS_GET_PAYLOAD_LENGTH :: "u8 list \<Rightarrow> u8" where
  "CHARGER_COMMS_GET_PAYLOAD_LENGTH buf = buf ! 0 AND 0xf"

definition read_earbud_channel_header :: "earbud_channel \<Rightarrow> earbud_channel" where
  "read_earbud_channel_header earbud =
     (let rx_buf = charger_comms_fetch_rx_data earbud;
          n = CHARGER_COMMS_GET_PAYLOAD_LENGTH rx_buf + 1
      in earbud\<lparr>num_rx_octets := n,
                end_idx := of_nat ((unat n * 9 + 15) * OVERSAMPLES),
                is_reading_header := False\<rparr>)"

definition charger_comms_should_read_header :: "'a comms_board_scheme \<Rightarrow> bool" where
  "charger_comms_should_read_header w =
     (is_reading_header (left_earbud (comms w)) \<or> is_reading_header (right_earbud (comms w)))"

definition charger_comms_read_header :: "'a comms_board_scheme \<Rightarrow> 'a comms_board_scheme" where
  "charger_comms_read_header w =
     (let w = (if is_reading_header (left_earbud (comms w))
               then w\<lparr>comms := (comms w)\<lparr>left_earbud :=
                       read_earbud_channel_header (left_earbud (comms w))\<rparr>\<rparr> else w)
      in (if is_reading_header (right_earbud (comms w))
          then w\<lparr>comms := (comms w)\<lparr>right_earbud :=
                  read_earbud_channel_header (right_earbud (comms w))\<rparr>\<rparr> else w))"

text \<open>
  One sample of one channel: whether the channel is still active, and the channel. The C function
  writes \<open>adc_buf[read_idx]\<close> without comparing \<open>read_idx\<close> with the size of the buffer.
\<close>

definition process_earbud :: "u16 \<Rightarrow> earbud_channel \<Rightarrow> (bool \<times> earbud_channel) option" where
  "process_earbud adc_val earbud =
     (if all_idx earbud \<ge> end_idx earbud then Some (False, earbud)
      else
        let earbud = (if all_idx earbud = of_nat (10 * OVERSAMPLES)
                      then earbud\<lparr>is_reading_header := True\<rparr> else earbud)
        in
        if start_reading earbud then
          let this = sint adc_val; prev = sint (previous earbud); thres = uint (adc_thres earbud);
              edge = ((this > thres \<and> prev \<le> thres) \<or> (this < thres \<and> prev \<ge> thres))
          in
          if edge \<and> unat (read_idx earbud) \<ge> ADC_BUF_LEN then None
          else
            let earbud = (if edge
                          then earbud\<lparr>adc_buf := (adc_buf earbud)[unat (read_idx earbud) := all_idx earbud],
                                      read_idx := read_idx earbud + 1\<rparr>
                          else earbud)
            in Some (True, earbud\<lparr>all_idx := all_idx earbud + 1, previous := adc_val\<rparr>)
        else
          let earbud = (if adc_val > adc_thres earbud
                        then earbud\<lparr>read_idx := 0, start_reading := True, previous := 0\<rparr>
                        else earbud)
          in Some (True, earbud\<lparr>wait := wait earbud + 1\<rparr>))"

section \<open>Transmitting\<close>

definition reset_earbud_channel :: "earbud_channel \<Rightarrow> earbud_channel" where
  "reset_earbud_channel earbud =
     earbud\<lparr>all_idx := 0, end_idx := 0, read_idx := 0, data_valid := False, previous := 0,
            wait := 0, num_rx_octets := 0, start_reading := False, is_reading_header := False,
            adc_thres := 400, adc_calibrate := 0, adc_cal_cnt := 0\<rparr>"

definition charger_comms_transmit ::
    "('a comms_board_scheme) charger_comms_cfg \<Rightarrow> u8 list \<Rightarrow> u8 \<Rightarrow> bool \<Rightarrow>
     'a comms_board_scheme \<Rightarrow> 'a comms_board_scheme" where
  "charger_comms_transmit cfg buf num_tx_octets reply w =
     (if unat num_tx_octets > CHARGER_COMMS_MAX_MSG_LEN then w
      else
        let data = take (unat num_tx_octets) buf;
            c = comms w;
            w = w\<lparr>comms := c\<lparr>num_tx_bits := ucast num_tx_octets * 8,
                               tx_buf := memcpy_at 0 data (tx_buf c),
                               expect_reply := reply, write_idx := 0, bit_idx := 0,
                               timer_idx := 0, start_idx := 0,
                               charger_comm_state := CHARGER_COMMS_START_SEQUENCE,
                               left_earbud := reset_earbud_channel (left_earbud c),
                               right_earbud := reset_earbud_channel (right_earbud c)\<rparr>\<rparr>
        in on_tx_start cfg data w)"

definition charger_comms_is_active :: "'a comms_board_scheme \<Rightarrow> bool" where
  "charger_comms_is_active w = (charger_comm_state (comms w) \<noteq> CHARGER_COMMS_NOT_ACTIVE)"

text \<open>The start sequence (\<open>VCHG_WAKE_IDX\<close> = 0, \<open>VCHG_OFF_IDX\<close> = 10, \<open>VCHG_HIGH_IDX\<close> = 15,
  \<open>VCHG_LOW_IDX\<close> = 19).\<close>

definition tick_start_sequence :: "'a comms_board_scheme \<Rightarrow> 'a comms_board_scheme" where
  "tick_start_sequence w =
     (let k = start_idx (comms w);
          w = (if k = 0 then vreg_reset w
               else if k = 10 then vreg_high w
               else if k = 15 then vreg_low w
               else if k = 19 then
                 w\<lparr>comms := (comms w)\<lparr>charger_comm_state := CHARGER_COMMS_TRANSMITTING\<rparr>\<rparr>
               else w)
      in w\<lparr>comms := (comms w)\<lparr>start_idx := start_idx (comms w) + 1\<rparr>\<rparr>)"

definition calibrate :: "u16 \<Rightarrow> earbud_channel \<Rightarrow> earbud_channel" where
  "calibrate adc_val earbud =
     (if adc_val \<noteq> 0
      then earbud\<lparr>adc_calibrate := adc_calibrate earbud + ucast adc_val,
                  adc_cal_cnt := adc_cal_cnt earbud + 1\<rparr>
      else earbud)"

text \<open>
  The threshold of a high bit. \<open>adc_calibrate / adc_cal_cnt\<close> is a division by zero when the
  channel has seen only zero readings, as the channel of an absent earbud does.
\<close>

definition calibrated_threshold :: "u16 \<Rightarrow> earbud_channel \<Rightarrow> u16 option" where
  "calibrated_threshold thr earbud =
     (if adc_cal_cnt earbud = 0 then None
      else Some (ucast (adc_calibrate earbud div ucast (adc_cal_cnt earbud) + ucast thr)))"

definition MAX_END_IDX :: u16 where
  "MAX_END_IDX = of_nat (CHARGER_COMMS_MAX_MSG_LEN * 9 * OVERSAMPLES + OVERSAMPLES * 15)"

text \<open>All bits sent: thresholds, drive the line high, wait for the reply or finish.\<close>

definition tick_end_of_message ::
    "('a comms_board_scheme) charger_comms_cfg \<Rightarrow> 'a comms_board_scheme \<Rightarrow>
     'a comms_board_scheme option" where
  "tick_end_of_message cfg w =
     (case (calibrated_threshold (adc_threshold cfg) (left_earbud (comms w)),
            calibrated_threshold (adc_threshold cfg) (right_earbud (comms w))) of
        (Some thr_l, Some thr_r) \<Rightarrow>
          let c = comms w;
              w = w\<lparr>comms := c\<lparr>left_earbud := (left_earbud c)\<lparr>adc_thres := thr_l\<rparr>,
                               right_earbud := (right_earbud c)\<lparr>adc_thres := thr_r\<rparr>\<rparr>\<rparr>;
              w = vreg_high w;
              c = comms w;
              w = w\<lparr>comms := c\<lparr>write_idx := write_idx c + 1,
                                left_earbud := (left_earbud c)\<lparr>end_idx := MAX_END_IDX\<rparr>,
                                right_earbud := (right_earbud c)\<lparr>end_idx := MAX_END_IDX\<rparr>\<rparr>\<rparr>
          in if expect_reply (comms w)
             then Some (w\<lparr>comms := (comms w)\<lparr>charger_comm_state := CHARGER_COMMS_READING\<rparr>\<rparr>)
             else Some (on_complete cfg
                    (w\<lparr>comms := (comms w)\<lparr>charger_comm_state := CHARGER_COMMS_NOT_ACTIVE\<rparr>\<rparr>))
      | _ \<Rightarrow> None)"

definition tick_transmit_bit :: "'a comms_board_scheme \<Rightarrow> 'a comms_board_scheme" where
  "tick_transmit_bit w =
     (let w = (if bit_idx (comms w) mod 9 = 0 then
                 if charger_comm_vreg_state (comms w) = CHARGER_COMMS_VREG_HIGH
                 then vreg_low w else vreg_high w
               else
                 let k = unat (write_idx (comms w));
                     w = (if drop_bit (k mod 8) (tx_buf (comms w) ! (k div 8)) AND 0x1 \<noteq> 0
                          then vreg_high w else vreg_low w)
                 in w\<lparr>comms := (comms w)\<lparr>write_idx := write_idx (comms w) + 1\<rparr>\<rparr>)
      in w\<lparr>comms := (comms w)\<lparr>bit_idx := bit_idx (comms w) + 1\<rparr>\<rparr>)"

definition tick_transmitting ::
    "('a comms_board_scheme) charger_comms_cfg \<Rightarrow> 'a comms_board_scheme \<Rightarrow>
     'a comms_board_scheme option" where
  "tick_transmitting cfg w =
     (let c = comms w;
          w = (if bit_idx c \<ge> 5
               then w\<lparr>comms := c\<lparr>left_earbud :=
                        calibrate (adc_value (adc w) (current_adc_val (left_earbud c))) (left_earbud c),
                      right_earbud :=
                        calibrate (adc_value (adc w) (current_adc_val (right_earbud c))) (right_earbud c)\<rparr>\<rparr>
               else w)
      in if write_idx (comms w) = ucast (num_tx_bits (comms w))
         then tick_end_of_message cfg w
         else Some (tick_transmit_bit w))"

definition tick_reading ::
    "('a comms_board_scheme) charger_comms_cfg \<Rightarrow> 'a comms_board_scheme \<Rightarrow>
     'a comms_board_scheme option" where
  "tick_reading cfg w =
     (let c = comms w in
      case (process_earbud (adc_value (adc w) (current_adc_val (right_earbud c))) (right_earbud c),
            process_earbud (adc_value (adc w) (current_adc_val (left_earbud c))) (left_earbud c)) of
        (Some (right_active, r), Some (left_active, l)) \<Rightarrow>
          let timeout_in_ticks = packet_reply_timeout_ms cfg * of_nat OVERSAMPLES;
              w = w\<lparr>comms := c\<lparr>right_earbud := r, left_earbud := l\<rparr>\<rparr>;
              r_out = wait r > timeout_in_ticks; l_out = wait l > timeout_in_ticks
          in
          if (\<not> right_active \<and> \<not> left_active) \<or> (r_out \<and> l_out) \<or> (r_out \<and> \<not> left_active) \<or>
             (\<not> right_active \<and> l_out)
          then
            Some (on_complete cfg
              (w\<lparr>comms := (comms w)\<lparr>right_earbud := r\<lparr>data_valid := read_idx r > 0\<rparr>,
                                     left_earbud := l\<lparr>data_valid := read_idx l > 0\<rparr>,
                                     charger_comm_state := CHARGER_COMMS_NOT_ACTIVE\<rparr>\<rparr>))
          else Some w
      | _ \<Rightarrow> None)"

definition charger_comms_tick ::
    "('a comms_board_scheme) charger_comms_cfg \<Rightarrow> 'a comms_board_scheme \<Rightarrow>
     'a comms_board_scheme option" where
  "charger_comms_tick cfg w =
     (let w = w\<lparr>comms := (comms w)\<lparr>timer_idx := timer_idx (comms w) + 1\<rparr>\<rparr>;
          st = charger_comm_state (comms w)
      in
      if st \<noteq> CHARGER_COMMS_READING \<and> timer_idx (comms w) mod of_nat OVERSAMPLES \<noteq> 0 then Some w
      else case st of
          CHARGER_COMMS_NOT_ACTIVE \<Rightarrow> Some w
        | CHARGER_COMMS_START_SEQUENCE \<Rightarrow> Some (tick_start_sequence w)
        | CHARGER_COMMS_TRANSMITTING \<Rightarrow> tick_transmitting cfg w
        | CHARGER_COMMS_READING \<Rightarrow> tick_reading cfg w)"

section \<open>The registered device functions (charger_comms_device.c)\<close>

definition on_complete_impl :: "'a comms_board_scheme \<Rightarrow> 'a comms_board_scheme" where
  "on_complete_impl w =
     (let w = power_clear_run_reason POWER_RR_CHARGER_COMMS (timer_comms_tick_stop w);
          w = gpio_disable GPIO_VREG_PFM_PWM (gpio_disable GPIO_CURRENT_SENSE_AMP w)
      in if data_valid (left_earbud (comms w)) \<or> data_valid (right_earbud (comms w))
         then w\<lparr>comms := (comms w)\<lparr>received_charger_comm_packet := True\<rparr>\<rparr> else w)"

definition on_tx_start_impl :: "u8 list \<Rightarrow> 'a comms_board_scheme \<Rightarrow> 'a comms_board_scheme" where
  "on_tx_start_impl buf w =
     (let w = power_set_run_reason POWER_RR_CHARGER_COMMS w;
          w = gpio_enable GPIO_VREG_PFM_PWM (gpio_enable GPIO_CURRENT_SENSE_AMP w)
      in timer_comms_tick_start w)"

definition device_cfg :: "('a comms_board_scheme) charger_comms_cfg" where
  "device_cfg = \<lparr>on_complete = on_complete_impl, on_tx_start = on_tx_start_impl,
                 packet_reply_timeout_ms = 20, adc_threshold = 110\<rparr>"

definition init_earbuds :: "'a comms_board_scheme \<Rightarrow> 'a comms_board_scheme" where
  "init_earbuds w =
     (let c = comms w in
      w\<lparr>comms := c\<lparr>left_earbud := (left_earbud c)\<lparr>current_adc_val := ADC_CURRENT_SENSE_L\<rparr>,
                    right_earbud := (right_earbud c)\<lparr>current_adc_val := ADC_CURRENT_SENSE_R\<rparr>\<rparr>\<rparr>)"

text \<open>The comms part of the TIM3 interrupt (\<open>timer.c\<close>), every 100 us while enabled.\<close>

definition TIM3_IRQHandler :: "'a comms_board_scheme \<Rightarrow> 'a comms_board_scheme option" where
  "TIM3_IRQHandler w =
     (if charger_comms_is_active w then charger_comms_tick device_cfg (adc_start_measuring w)
      else Some w)"

end
