(* ===== verification/Modem.thy ===== *)
theory Modem
  imports Charger_Comms
begin

text \<open>
  What the modem of \<^verbatim>\<open>charger_comms.c\<close> computes: a reference for the levels on the line
  (start transition, then eight data bits LSB first, for every octet), and the proof that the
  receiver recovers the octets from the edges of that line although every time stamp is off by up
  to two of the ten samples of a bit period.
\<close>

section \<open>The line code\<close>

definition octet_bits :: "u8 \<Rightarrow> bool list" where
  "octet_bits b = map (bit b) [0..<8]"

text \<open>Levels of consecutive bit periods after a period of level \<open>prev\<close>.\<close>

fun line_levels :: "bool \<Rightarrow> u8 list \<Rightarrow> bool list" where
  "line_levels prev [] = []"
| "line_levels prev (b # bs) = (\<not> prev) # octet_bits b @ line_levels (bit b 7) bs"

text \<open>Positions at which the level differs from the one before.\<close>

fun level_changes :: "nat \<Rightarrow> bool \<Rightarrow> bool list \<Rightarrow> nat list" where
  "level_changes p prev [] = []"
| "level_changes p prev (l # ls) =
     (if l = prev then level_changes (Suc p) l ls else p # level_changes (Suc p) l ls)"

definition line_edges :: "bool \<Rightarrow> u8 list \<Rightarrow> nat list" where
  "line_edges prev bs = level_changes 0 prev (line_levels prev bs)"

text \<open>A time stamp within two samples of bit position \<open>p\<close>.\<close>

definition stamp_of :: "int \<Rightarrow> u16 \<Rightarrow> nat \<Rightarrow> bool" where
  "stamp_of base t p \<longleftrightarrow> \<bar>int (unat t) - (base + int (OVERSAMPLES * p))\<bar> \<le> 2"

lemma bit_periods_stamps:
  assumes "stamp_of base a p" "stamp_of base b q" "q \<le> p"
  shows "bit_periods a b = p - q"
proof -
  let ?x = "int (unat a)" and ?y = "int (unat b)"
  obtain m where p: "p = q + m" using assms(3) le_Suc_ex by blast
  have "\<bar>(?x - ?y) - 10 * int m\<bar> \<le> 4"
    using assms(1,2) unfolding stamp_of_def p by simp
  then have m: "(nat \<bar>?x - ?y\<bar> + 5) div 10 = m" by linarith
  have "unat a < 65536" "unat b < 65536"
    using unsigned_less [of a, where 'a=nat] unsigned_less [of b, where 'a=nat] by simp_all
  then have "nat \<bar>?x - ?y\<bar> < 65536" by linarith
  then have "m < 65536" unfolding m [symmetric] by linarith
  with m show ?thesis unfolding bit_periods_def by (simp only: OVERSAMPLES_def p) simp
qed

section \<open>Shifting bits into the receive buffer\<close>

definition level_octet :: "bool \<Rightarrow> u8" where
  "level_octet l = (if l then 0x80 else 0)"

lemma toggle_level_octet [simp]: "toggle_level (level_octet l) = level_octet (\<not> l)"
  by (simp add: toggle_level_def level_octet_def)

fun shift_all :: "bool list \<Rightarrow> nat \<Rightarrow> u8 list \<Rightarrow> u8 list" where
  "shift_all [] pos buf = buf"
| "shift_all (x # xs) pos buf = shift_all xs (Suc pos) (shift_in_bit (level_octet x) pos buf)"

lemma shift_all_append:
  "shift_all (xs @ ys) pos buf = shift_all ys (pos + length xs) (shift_all xs pos buf)"
  by (induction xs arbitrary: pos buf) simp_all

lemma write_bits_shift:
  "pos + n \<le> 128 \<Longrightarrow>
   write_bits n (level_octet x) pos buf = (False, pos + n, shift_all (replicate n x) pos buf)"
  by (induction n arbitrary: pos buf) simp_all

lemma fill_bits_shift: "fill_bits n (level_octet x) pos buf = shift_all (replicate n x) pos buf"
  by (induction n arbitrary: pos buf) simp_all

section \<open>The receive loop\<close>

text \<open>The levels of the data periods, that is those not at a multiple of nine.\<close>

fun data_levels :: "nat \<Rightarrow> bool list \<Rightarrow> bool list" where
  "data_levels p [] = []"
| "data_levels p (l # ls) =
     (if 9 dvd p then data_levels (Suc p) ls else l # data_levels (Suc p) ls)"

fun start_transitions :: "nat \<Rightarrow> bool \<Rightarrow> bool list \<Rightarrow> bool" where
  "start_transitions p prev [] = True"
| "start_transitions p prev (l # ls) = ((9 dvd p \<longrightarrow> l \<noteq> prev) \<and> start_transitions (Suc p) l ls)"

definition pending_levels :: "nat \<Rightarrow> nat \<Rightarrow> bool \<Rightarrow> bool list" where
  "pending_levels q p lev = replicate (p - q - (if 9 dvd q then 1 else 0)) lev"

lemma pending_step:
  assumes "q < p"
  shows "pending_levels q (Suc p) lev = pending_levels q p lev @ [lev]"
proof -
  define d where "d = (if 9 dvd q then 1 else 0 :: nat)"
  have "d \<le> 1" by (simp add: d_def)
  then have "Suc p - q - d = Suc (p - q - d)" using assms by linarith
  then show ?thesis
    unfolding pending_levels_def d_def [symmetric] by (simp only: replicate_Suc replicate_append_same)
qed

lemma period_block:
  fixes p q :: nat
  assumes "q < p" "p \<le> q - q mod 9 + 9"
  shows "p - (q - q mod 9) = 9 \<longleftrightarrow> 9 dvd p"
    and "\<not> 9 dvd p \<Longrightarrow> p - p mod 9 = q - q mod 9"
proof -
  define k where "k = q div 9"
  have S: "q - q mod 9 = 9 * k" by (simp add: k_def minus_mod_eq_mult_div)
  obtain j where p: "p = 9 * k + j" "0 < j" "j \<le> 9"
  proof
    have "9 * k \<le> q" by (simp add: k_def)
    then show "p = 9 * k + (p - 9 * k)" "0 < p - 9 * k" "p - 9 * k \<le> 9"
      using assms unfolding S by linarith+
  qed
  show "p - (q - q mod 9) = 9 \<longleftrightarrow> 9 dvd p"
    unfolding S p(1) using p(2,3) by (auto dest: dvd_imp_le simp: dvd_add_right_iff)
  show "p - p mod 9 = q - q mod 9" if "\<not> 9 dvd p"
  proof -
    have "j \<noteq> 9" using that p(1) by auto
    then have "p mod 9 = j" using p by simp
    then show ?thesis unfolding S using p(1) by simp
  qed
qed

lemma process_bits_loop_edge:
  assumes "i < n" "bit_periods (es ! i) stop = 9 \<longleftrightarrow> ninth"
    and "bit_periods (es ! i) (es ! (i - 1)) = c" "c \<noteq> 0" "ign \<le> i"
    and "c - (if i = ign then 1 else 0) = d" "d \<le> 8" "pos + d \<le> 128"
  shows "process_bits_loop es n i stop ign False (level_octet (\<not> lev)) pos buf =
    process_bits_loop es n (Suc i) (if ninth then es ! i else stop) (if ninth then Suc i else ign)
      False (level_octet lev) (pos + d) (shift_all (replicate d lev) pos buf)"
proof -
  note facts = assms(1-5) assms(7)
  have d: "d = (if i = ign then c - 1 else c)" using assms(6) by auto
  have w: "write_bits d (level_octet lev) pos buf =
      (False, pos + d, shift_all (replicate d lev) pos buf)"
    by (rule write_bits_shift [OF assms(8)])
  show ?thesis
    by (subst process_bits_loop.simps, cases ninth; cases "i = ign")
       (use facts w d in \<open>simp_all add: Let_def\<close>)
qed

text \<open>
  The loop at edge \<open>i\<close>: the edge before it lies at bit position \<open>q\<close>, the line has been read up to
  position \<open>p\<close> at level \<open>lev\<close>, and \<open>rest\<close> are the levels still to come.
\<close>

lemma process_bits_loop_levels:
  assumes "list_all2 (stamp_of base) (drop i (take n es)) (level_changes p lev rest)"
    and "n \<le> length es" "0 < i" "stamp_of base (es ! (i - 1)) q"
    and "stamp_of base stop (q - q mod 9)"
    and "ign \<le> i" "ign = i \<longleftrightarrow> 9 dvd q"
    and "q < p" "p \<le> q - q mod 9 + 9" "start_transitions p lev rest"
    and "pos + length (pending_levels q p lev) + length (data_levels p rest) \<le> 128"
  shows "\<exists>k x. process_bits_loop es n i stop ign False (level_octet (\<not> lev)) pos buf =
           shift_all (pending_levels q p lev @ data_levels p rest @ replicate k x) pos buf"
  using assms
proof (induction rest arbitrary: i p q lev stop ign pos buf)
  case Nil
  then have "\<not> i < n" by simp
  then have eq: "process_bits_loop es n i stop ign False (level_octet (\<not> lev)) pos buf =
      shift_all (replicate (128 - pos) lev) pos buf"
    by (simp add: process_bits_loop.simps [of es n i] fill_bits_shift)
  have "128 - pos = length (pending_levels q p lev) + (128 - pos - length (pending_levels q p lev))"
    using Nil.prems(11) by simp
  then have "replicate (128 - pos) lev =
      pending_levels q p lev @ replicate (128 - pos - length (pending_levels q p lev)) lev"
    unfolding pending_levels_def by (metis length_replicate replicate_add)
  with eq show ?case by fastforce
next
  case (Cons l rest)
  show ?case
  proof (cases "l = lev")
    case True
    then have "\<not> 9 dvd p" using Cons.prems(10) by auto
    moreover have "9 dvd q - q mod 9 + 9" by presburger
    ultimately have "p \<noteq> q - q mod 9 + 9" by metis
    then have "Suc p \<le> q - q mod 9 + 9" using Cons.prems(9) by simp
    with Cons.prems True \<open>\<not> 9 dvd p\<close>
    obtain k x where "process_bits_loop es n i stop ign False (level_octet (\<not> lev)) pos buf =
       shift_all (pending_levels q (Suc p) lev @ data_levels (Suc p) rest @ replicate k x) pos buf"
      using Cons.IH [of i "Suc p" lev q stop ign pos buf] by (auto simp: pending_step)
    with Cons.prems(8) True \<open>\<not> 9 dvd p\<close> show ?thesis by (auto simp: pending_step)
  next
    case False
    then have "drop i (take n es) \<noteq> []" using Cons.prems(1) by auto
    then have i: "i < n" by simp
    then have ei: "drop i (take n es) = es ! i # drop (Suc i) (take n es)"
      using Cons.prems(2) by (metis Cons_nth_drop_Suc length_take min.absorb2 nth_take)
    have stamp: "stamp_of base (es ! i) p"
      and later: "list_all2 (stamp_of base) (drop (Suc i) (take n es)) (level_changes (Suc p) l rest)"
      using Cons.prems(1) False unfolding ei by auto
    let ?c = "p - q - (if 9 dvd q then 1 else 0)"
    have c: "?c \<le> 8"
    proof (cases "9 dvd q")
      case True
      then show ?thesis using Cons.prems(9) by simp
    next
      case False
      then have "0 < q mod 9" by (simp add: dvd_eq_mod_eq_0)
      then show ?thesis using Cons.prems(9) False mod_less_eq_dividend [of q 9] by simp
    qed
    have per: "bit_periods (es ! i) (es ! (i - 1)) = p - q"
      using bit_periods_stamps [OF stamp Cons.prems(4)] Cons.prems(8) by simp
    have stop: "bit_periods (es ! i) stop = p - (q - q mod 9)"
      using bit_periods_stamps [OF stamp Cons.prems(5)] Cons.prems(8) by simp
    let ?stop = "if 9 dvd p then es ! i else stop"
    let ?ign = "if 9 dvd p then Suc i else ign"
    note block = period_block [OF Cons.prems(8,9)]
    have ninth: "bit_periods (es ! i) stop = 9 \<longleftrightarrow> 9 dvd p"
      unfolding stop by (rule block(1))
    have fits: "pos + ?c \<le> 128"
      using Cons.prems(11) by (simp add: pending_levels_def)
    have c': "p - q - (if i = ign then 1 else 0) = ?c" using Cons.prems(7) by auto
    note step = process_bits_loop_edge [OF i ninth per _ Cons.prems(6) c' c fits, of lev buf]
    have levels: "pending_levels p (Suc p) l @ data_levels (Suc p) rest = data_levels p (l # rest)"
      by (simp add: pending_levels_def)
    have "\<exists>k x. process_bits_loop es n (Suc i) ?stop ?ign False (level_octet (\<not> l)) (pos + ?c)
         (shift_all (replicate ?c lev) pos buf) =
       shift_all (pending_levels p (Suc p) l @ data_levels (Suc p) rest @ replicate k x) (pos + ?c)
         (shift_all (replicate ?c lev) pos buf)"
    proof (rule Cons.IH [OF later Cons.prems(2)])
      show "stamp_of base (es ! (Suc i - 1)) p" using stamp by simp
      show "stamp_of base ?stop (p - p mod 9)"
        using stamp Cons.prems(5) block(2) by (cases "9 dvd p") auto
      show "?ign \<le> Suc i" "?ign = Suc i \<longleftrightarrow> 9 dvd p" using Cons.prems(6) by auto
      show "Suc p \<le> p - p mod 9 + 9"
        using mod_less_divisor [of 9 p] mod_less_eq_dividend [of p 9] by linarith
      show "start_transitions (Suc p) l rest" using Cons.prems(10) by simp
      have "length (pending_levels q p lev) = ?c" by (simp only: pending_levels_def length_replicate)
      then show "pos + ?c + length (pending_levels p (Suc p) l) + length (data_levels (Suc p) rest) \<le> 128"
        using Cons.prems(11) arg_cong [OF levels, of length] by simp
    qed simp_all
    then obtain k x where IH: "process_bits_loop es n (Suc i) ?stop ?ign False
         (level_octet (\<not> l)) (pos + ?c) (shift_all (replicate ?c lev) pos buf) =
       shift_all ((pending_levels p (Suc p) l @ data_levels (Suc p) rest) @ replicate k x) (pos + ?c)
         (shift_all (replicate ?c lev) pos buf)"
      by auto
    have rec: "process_bits_loop es n (Suc i) ?stop ?ign False (level_octet (\<not> l))
         (pos + ?c) (shift_all (replicate ?c lev) pos buf) =
       shift_all (pending_levels q p lev @ data_levels p (l # rest) @ replicate k x) pos buf"
      unfolding IH unfolding levels pending_levels_def [of q]
        shift_all_append [of "replicate ?c lev" _ pos] length_replicate ..
    have "level_octet lev = level_octet (\<not> l)" using False by (simp add: level_octet_def)
    moreover have "p - q \<noteq> 0" using Cons.prems(8) by simp
    ultimately show ?thesis using step rec by auto
  qed
qed

section \<open>Octets recovered\<close>

lemma shift_all_beyond: "8 * m \<le> pos \<Longrightarrow> take m (shift_all xs pos buf) = take m buf"
  by (induction xs arbitrary: pos buf) (simp_all add: shift_in_bit_def)

lemma length_shift_all [simp]: "length (shift_all xs pos buf) = length buf"
  by (induction xs arbitrary: pos buf) (simp_all add: shift_in_bit_def)

lemma octet_bits_upt: "octet_bits b = [bit b 0, bit b 1, bit b 2, bit b 3, bit b 4, bit b 5, bit b 6, bit b 7]"
  by (simp add: octet_bits_def upt_rec eval_nat_numeral)

lemma bit_level_octet: "bit (level_octet l) k \<longleftrightarrow> l \<and> k = 7" if "k < 8"
proof -
  have "k \<in> {0, 1, 2, 3, 4, 5, 6, 7}" using that by auto
  then show ?thesis by (elim insertE emptyE) (simp_all add: level_octet_def)
qed

definition shift_octet :: "bool \<Rightarrow> u8 \<Rightarrow> u8" where
  "shift_octet l x = drop_bit 1 x OR level_octet l"

lemma bit_shift_octet: "k < 8 \<Longrightarrow> bit (shift_octet l x) k = (if k = 7 then l else bit x (Suc k))"
  unfolding shift_octet_def bit_or_iff
  by (cases "k = 7") (auto simp: bit_level_octet bit_drop_bit_eq dest: bit_imp_le_length)

lemma shift_octet_8: "fold shift_octet (octet_bits b) x = b"
proof (rule bit_word_eqI)
  fix k assume "k < LENGTH(8)"
  then have "k \<in> {0, 1, 2, 3, 4, 5, 6, 7}" by auto
  then show "bit (fold shift_octet (octet_bits b) x) k = bit b k"
    by (elim insertE emptyE) (simp_all add: octet_bits_upt bit_shift_octet numeral_2_eq_2)
qed

lemma shift_all_in_octet:
  "m < length buf \<Longrightarrow> r + length xs \<le> 8 \<Longrightarrow>
   shift_all xs (8 * m + r) buf = buf[m := fold shift_octet xs (buf ! m)]"
proof (induction xs arbitrary: r buf)
  case (Cons x xs)
  have "r < 8" using Cons.prems(2) by simp
  then have "(8 * m + r) div 8 = m" by simp
  then have "shift_all (x # xs) (8 * m + r) buf =
      shift_all xs (8 * m + Suc r) (buf[m := shift_octet x (buf ! m)])"
    by (simp add: shift_in_bit_def shift_octet_def)
  also have "\<dots> = buf[m := fold shift_octet (x # xs) (buf ! m)]"
    using Cons.IH [of "buf[m := shift_octet x (buf ! m)]" "Suc r"] Cons.prems by simp
  finally show ?case .
qed simp

lemma shift_all_octets:
  "m + length bs \<le> length buf \<Longrightarrow>
   take (m + length bs) (shift_all (concat (map octet_bits bs)) (8 * m) buf) = take m buf @ bs"
proof (induction bs arbitrary: m buf)
  case (Cons b bs)
  have one: "shift_all (octet_bits b) (8 * m) buf = buf[m := b]"
    using shift_all_in_octet [of m buf 0 "octet_bits b"] Cons.prems
    by (simp add: shift_octet_8) (simp add: octet_bits_def)
  have "length (octet_bits b) = 8" by (simp add: octet_bits_def)
  then have "shift_all (concat (map octet_bits (b # bs))) (8 * m) buf =
      shift_all (concat (map octet_bits bs)) (8 * Suc m) (buf[m := b])"
    using one by (simp add: shift_all_append add.commute)
  then show ?case
    using Cons.IH [of "Suc m" "buf[m := b]"] Cons.prems by (simp add: take_Suc_conv_app_nth)
qed simp

lemma data_levels_line:
  "9 dvd p \<Longrightarrow> data_levels p (line_levels prev bs) = concat (map octet_bits bs)"
proof (induction bs arbitrary: p prev)
  case (Cons b bs)
  have nd: "\<not> 9 dvd Suc p" "\<not> 9 dvd Suc (Suc p)" "\<not> 9 dvd p + 3" "\<not> 9 dvd p + 4"
    "\<not> 9 dvd p + 5" "\<not> 9 dvd p + 6" "\<not> 9 dvd p + 7" "\<not> 9 dvd p + 8" "9 dvd p + 9"
    using Cons.prems by presburger+
  then show ?case
    using Cons.prems Cons.IH [of "p + 9" "bit b 7"]
    by (simp add: octet_bits_upt eval_nat_numeral)
qed simp

lemma start_transitions_line:
  "9 dvd p \<Longrightarrow> start_transitions p prev (line_levels prev bs)"
proof (induction bs arbitrary: p prev)
  case (Cons b bs)
  have nd: "\<not> 9 dvd Suc p" "\<not> 9 dvd Suc (Suc p)" "\<not> 9 dvd p + 3" "\<not> 9 dvd p + 4"
    "\<not> 9 dvd p + 5" "\<not> 9 dvd p + 6" "\<not> 9 dvd p + 7" "\<not> 9 dvd p + 8" "9 dvd p + 9"
    using Cons.prems by presburger+
  then show ?case
    using Cons.prems Cons.IH [of "p + 9" "bit b 7"]
    by (simp add: octet_bits_upt eval_nat_numeral)
qed simp

lemma data_levels_first:
  "data_levels 1 (octet_bits b @ line_levels (bit b 7) bs) = concat (map octet_bits (b # bs))"
  "start_transitions 1 False (octet_bits b @ line_levels (bit b 7) bs)"
  using data_levels_line [of 0 True "b # bs"] start_transitions_line [of 0 True "b # bs"] by simp_all

text \<open>
  What the channel buffer holds after a message: the stamp of the first rising edge, which the
  decoder ignores, then a stamp for every edge of the octets, sent after a high level.
\<close>

definition edges_recorded :: "int \<Rightarrow> u8 list \<Rightarrow> earbud_channel \<Rightarrow> bool" where
  "edges_recorded base bs ch \<longleftrightarrow>
     unat (read_idx ch) \<le> length (adc_buf ch) \<and> 0 < unat (read_idx ch) \<and>
     list_all2 (stamp_of base) (drop 1 (take (unat (read_idx ch)) (adc_buf ch))) (line_edges True bs)"

lemma fetch_rx_data_line:
  assumes rec: "edges_recorded base bs ch" and len: "bs \<noteq> []" "length bs \<le> 16"
  shows "take (length bs) (charger_comms_fetch_rx_data ch) = bs"
proof -
  obtain b bs' where bs: "bs = b # bs'" using len(1) by (cases bs) auto
  let ?n = "unat (read_idx ch)" and ?rest = "octet_bits b @ line_levels (bit b 7) bs'"
  have edges: "line_edges True bs = 0 # level_changes 1 False ?rest"
    by (simp add: line_edges_def bs)
  have all: "list_all2 (stamp_of base) (drop 1 (take ?n (adc_buf ch))) (0 # level_changes 1 False ?rest)"
    and le: "?n \<le> length (adc_buf ch)"
    using rec unfolding edges_recorded_def edges by simp_all
  have n: "1 < ?n"
  proof (rule ccontr)
    assume "\<not> 1 < ?n"
    then have "drop 1 (take ?n (adc_buf ch)) = []" by simp
    with all show False by simp
  qed
  have split: "drop 1 (take ?n (adc_buf ch)) = adc_buf ch ! 1 # drop 2 (take ?n (adc_buf ch))"
    using n le Cons_nth_drop_Suc [of 1 "take ?n (adc_buf ch)"] by (simp add: numeral_2_eq_2)
  have first: "stamp_of base (adc_buf ch ! 1) 0"
    and later: "list_all2 (stamp_of base) (drop 2 (take ?n (adc_buf ch))) (level_changes 1 False ?rest)"
    using all unfolding split by simp_all
  have data: "data_levels 1 ?rest = concat (map octet_bits bs)"
    unfolding bs by (rule data_levels_first)
  then have data': "data_levels (Suc 0) ?rest = concat (map octet_bits bs)" by simp
  have bits: "length (concat (map octet_bits xs)) = 8 * length xs" for xs
    by (induction xs) (simp_all add: octet_bits_def)
  have "\<exists>k x. process_bits_loop (adc_buf ch) ?n 2 (adc_buf ch ! 1) 2 False (level_octet (\<not> False)) 0
      (replicate 16 0) =
     shift_all (pending_levels 0 1 False @ data_levels 1 ?rest @ replicate k x) 0 (replicate 16 0)"
    by (rule process_bits_loop_levels [OF later le])
       (use first data_levels_first(2) len bits in
          \<open>simp_all add: data data' pending_levels_def\<close>)
  then obtain k x where "charger_comms_fetch_rx_data ch =
      shift_all (replicate k x) (8 * length bs)
        (shift_all (concat (map octet_bits bs)) 0 (replicate 16 0))"
    by (auto simp: charger_comms_fetch_rx_data_def process_bits_def level_octet_def
        pending_levels_def data data' shift_all_append bits)
  then show ?thesis
    using shift_all_octets [of 0 bs "replicate 16 0"] len by (simp add: shift_all_beyond)
qed

section \<open>The transmitted waveform\<close>

text \<open>
  The interrupt runs with whatever the converter read last: \<open>run_ticks\<close> lets the environment
  choose the converter state before every tick.
\<close>

fun run_ticks ::
    "('a comms_board_scheme) charger_comms_cfg \<Rightarrow> adc_state list \<Rightarrow> 'a comms_board_scheme \<Rightarrow>
     'a comms_board_scheme option" where
  "run_ticks cfg [] w = Some w"
| "run_ticks cfg (a # as) w = Option.bind (charger_comms_tick cfg (w\<lparr>adc := a\<rparr>)) (run_ticks cfg as)"

definition vreg_is_high :: "'a comms_board_scheme \<Rightarrow> bool" where
  "vreg_is_high w = (charger_comm_vreg_state (comms w) = CHARGER_COMMS_VREG_HIGH)"

text \<open>The level of the line \<open>k\<close> bit periods into the message, low before the first.\<close>

definition sent_level :: "u8 list \<Rightarrow> nat \<Rightarrow> bool" where
  "sent_level bs k = (False # line_levels False bs) ! k"

definition sent_bits :: "nat \<Rightarrow> nat" where
  "sent_bits k = k - (k + 8) div 9"

lemma length_line_levels [simp]: "length (line_levels prev bs) = 9 * length bs"
  by (induction bs arbitrary: prev) (simp_all add: octet_bits_def)

lemma line_levels_octet:
  assumes "m < length bs"
  shows "line_levels prev bs ! (9 * m) = (\<not> (prev # line_levels prev bs) ! (9 * m))"
    and "j < 8 \<Longrightarrow> line_levels prev bs ! (9 * m + Suc j) = bit (bs ! m) j"
  using assms
proof (induction bs arbitrary: prev m)
  case (Cons b bs)
  have len: "length (octet_bits b) = 8" by (simp add: octet_bits_def)
  { case 1
    show ?case
    proof (cases m)
      case (Suc m')
      have "((\<not> prev) # octet_bits b @ line_levels (bit b 7) bs) ! (9 + 9 * m') =
            line_levels (bit b 7) bs ! (9 * m')"
        using len by (simp add: nth_append)
      moreover have "(prev # (\<not> prev) # octet_bits b @ line_levels (bit b 7) bs) ! (9 + 9 * m') =
            (bit b 7 # line_levels (bit b 7) bs) ! (9 * m')"
        using len by (cases m') (simp_all add: nth_append octet_bits_def eval_nat_numeral)
      ultimately show ?thesis
        using Cons.IH(1) [of m' "bit b 7"] 1 Suc by simp
    qed simp }
  { case 2
    show ?case
    proof (cases m)
      case 0
      then show ?thesis using 2 len by (simp add: nth_append) (simp add: octet_bits_def)
    next
      case (Suc m')
      then show ?thesis
        using Cons.IH(2) [OF 2(1)] 2 len by (simp add: nth_append Cons.IH(2))
    qed }
qed simp_all

lemma sent_level_Suc:
  assumes "k < 9 * length bs"
  shows "sent_level bs (Suc k) =
    (if k mod 9 = 0 then \<not> sent_level bs k else bit (bs ! (sent_bits k div 8)) (sent_bits k mod 8))"
proof (cases "k mod 9 = 0")
  case True
  then obtain m where k: "k = 9 * m" by (metis div_mult_mod_eq add_0_right mult.commute)
  then show ?thesis using line_levels_octet(1) [of m bs False] assms by (simp add: sent_level_def)
next
  case False
  define m j where "m = k div 9" "j = k mod 9 - 1"
  then have k: "k = 9 * m + Suc j" and j: "j < 8"
    using False div_mult_mod_eq [of k 9] mod_less_divisor [of 9 k] by linarith+
  have s: "sent_bits k = 8 * m + j" unfolding sent_bits_def using k j by simp
  have "m < length bs" using assms k by simp
  with False s j show ?thesis
    using line_levels_octet(2) [of m bs j False] by (simp add: sent_level_def k)
qed

lemma sent_bits_Suc: "sent_bits (Suc k) = (if k mod 9 = 0 then sent_bits k else Suc (sent_bits k))"
proof -
  define m j where "m = k div 9" "j = k mod 9"
  then have k: "k = 9 * m + j" and j: "j < 9" by simp_all
  have "(k + 8) div 9 = (if j = 0 then m else Suc m)" using k j by auto
  moreover have "(Suc k + 8) div 9 = Suc m" using k j by auto
  moreover have "m \<le> k" using k by simp
  ultimately show ?thesis
    unfolding sent_bits_def m_j_def(2) [symmetric] using k by (cases "j = 0") auto
qed

text \<open>The state \<open>j\<close> bit periods after \<open>charger_comms_transmit\<close> was given the octets \<open>bs\<close>.\<close>

definition tx_stage :: "u8 list \<Rightarrow> nat \<Rightarrow> 'a comms_board_scheme \<Rightarrow> bool" where
  "tx_stage bs j w \<longleftrightarrow>
     (let c = comms w in
      length bs \<le> 16 \<and> length bs \<le> length (tx_buf c) \<and> take (length bs) (tx_buf c) = bs \<and>
      num_tx_bits c = of_nat (8 * length bs) \<and>
      (if j < 20 then
         charger_comm_state c = CHARGER_COMMS_START_SEQUENCE \<and> start_idx c = of_nat j \<and>
         bit_idx c = 0 \<and> write_idx c = 0 \<and> (15 < j \<longrightarrow> \<not> vreg_is_high w)
       else
         charger_comm_state c = CHARGER_COMMS_TRANSMITTING \<and> bit_idx c = of_nat (j - 20) \<and>
         write_idx c = of_nat (sent_bits (j - 20)) \<and> vreg_is_high w = sent_level bs (j - 20)))"

lemma vreg_comms [frame]:
  "comms (vreg_high w) = (comms w)\<lparr>charger_comm_vreg_state := CHARGER_COMMS_VREG_HIGH\<rparr>"
  "comms (vreg_low w) = (comms w)\<lparr>charger_comm_vreg_state := CHARGER_COMMS_VREG_LOW\<rparr>"
  "comms (vreg_reset w) = (comms w)\<lparr>charger_comm_vreg_state := CHARGER_COMMS_VREG_WAKE\<rparr>"
  by (simp_all add: vreg_high_def vreg_low_def vreg_reset_def charger_comms_vreg_high_def
      charger_comms_vreg_low_def charger_comms_vreg_reset_def gpio_input_def gpio_output_def
      gpio_set_def gpio_reset_def)

lemma tx_stage_start:
  assumes "tx_stage bs j w" "j < 20"
  shows "tx_stage bs (Suc j) (tick_start_sequence w)"
proof -
  have start: "(of_nat j :: u8) = 0 \<longleftrightarrow> j = 0" "(of_nat j :: u8) = 10 \<longleftrightarrow> j = 10"
    "(of_nat j :: u8) = 15 \<longleftrightarrow> j = 15" "(of_nat j :: u8) = 19 \<longleftrightarrow> j = 19"
    using assms(2) by (simp_all add: word_unat_eq_iff unat_of_nat)
  have idx: "start_idx (comms w) = of_nat j" using assms by (simp add: tx_stage_def Let_def)
  have eq: "tick_start_sequence w =
     (let w' = (if j = 0 then vreg_reset w else if j = 10 then vreg_high w
                else if j = 15 then vreg_low w
                else if j = 19 then
                  w\<lparr>comms := (comms w)\<lparr>charger_comm_state := CHARGER_COMMS_TRANSMITTING\<rparr>\<rparr>
                else w)
      in w'\<lparr>comms := (comms w')\<lparr>start_idx := start_idx (comms w') + 1\<rparr>\<rparr>)"
    unfolding tick_start_sequence_def Let_def idx start ..
  consider "j = 0" | "j = 10" | "j = 15" | "j = 19" | "j \<notin> {0, 10, 15, 19}" by blast
  then show ?thesis
    using assms unfolding eq
    by cases
       (simp_all add: tx_stage_def Let_def frame vreg_is_high_def sent_level_def sent_bits_def
         add.commute)
qed

lemma unat_u32: "k < 2 ^ 32 \<Longrightarrow> unat (of_nat k :: u32) = k"
  by (simp add: unat_of_nat)

lemma sent_bits_bound:
  assumes "k < 9 * n"
  shows "sent_bits k < 8 * n"
proof -
  define m j where "m = k div 9" "j = k mod 9"
  then have k: "k = 9 * m + j" and j: "j < 9" by simp_all
  have "(k + 8) div 9 = (if j = 0 then m else Suc m)" using k j by auto
  moreover have "m < n" using assms k by simp
  ultimately show ?thesis unfolding sent_bits_def using k j by auto
qed

lemma tx_stage_bit:
  assumes st: "tx_stage bs (k + 20) w" and k: "k < 9 * length bs"
  shows "tx_stage bs (Suc k + 20) (tick_transmit_bit w)"
proof -
  let ?c = "comms w" and ?s = "sent_bits k"
  have len: "length bs \<le> 16" "length bs \<le> length (tx_buf ?c)" "take (length bs) (tx_buf ?c) = bs"
    and bidx: "bit_idx ?c = of_nat k" and widx: "write_idx ?c = of_nat ?s"
    and lvl: "vreg_is_high w = sent_level bs k"
    using st unfolding tx_stage_def Let_def by simp_all
  have s: "?s < 8 * length bs" by (rule sent_bits_bound [OF k])
  have kw: "unat (of_nat k mod 9 :: u32) = k mod 9"
    using k len(1) by (simp add: unat_mod unat_u32)
  have b0: "(of_nat k mod 9 :: u32) = 0 \<longleftrightarrow> k mod 9 = 0"
    unfolding kw [symmetric] by (simp add: unat_eq_0)
  have ws: "unat (of_nat ?s :: u32) = ?s" using s len(1) by (simp add: unat_u32)
  have octet: "tx_buf ?c ! (?s div 8) = bs ! (?s div 8)"
    using s len(3) by (metis less_mult_imp_div_less mult.commute nth_take)
  show ?thesis
  proof (cases "k mod 9 = 0")
    case True
    with st lvl sent_level_Suc [OF k] sent_bits_Suc [of k] show ?thesis
      by (simp add: tx_stage_def tick_transmit_bit_def Let_def frame vreg_is_high_def b0 add.commute)
  next
    case False
    have "drop_bit (?s mod 8) (bs ! (?s div 8)) AND 1 \<noteq> 0 \<longleftrightarrow> bit (bs ! (?s div 8)) (?s mod 8)"
      by (simp add: and_one_eq mod_2_eq_odd bit_iff_odd_drop_bit)
    with False st lvl sent_level_Suc [OF k] sent_bits_Suc [of k] show ?thesis
      by (simp add: tx_stage_def tick_transmit_bit_def Let_def frame vreg_is_high_def b0 ws octet
          add.commute)
  qed
qed

lemma tx_stage_idle:
  "tx_stage bs j w \<Longrightarrow> tx_stage bs j (w\<lparr>comms := (comms w)\<lparr>timer_idx := t\<rparr>\<rparr>)"
  "tx_stage bs j w \<Longrightarrow> tx_stage bs j (w\<lparr>adc := a\<rparr>)"
  unfolding tx_stage_def vreg_is_high_def Let_def by simp_all

lemma calibrate_stage:
  "tx_stage bs j w \<Longrightarrow> tx_stage bs j (w\<lparr>comms := (comms w)\<lparr>left_earbud := l, right_earbud := r\<rparr>\<rparr>)"
  unfolding tx_stage_def vreg_is_high_def Let_def by simp

lemma tx_stage_transmitting:
  assumes st: "tx_stage bs (k + 20) w" and k: "k < 9 * length bs"
  obtains w' where "tick_transmitting cfg w = Some w'" "tx_stage bs (Suc k + 20) w'"
    "timer_idx (comms w') = timer_idx (comms w)"
proof -
  let ?w = "if bit_idx (comms w) \<ge> 5
    then w\<lparr>comms := (comms w)\<lparr>
       left_earbud := calibrate (adc_value (adc w) (current_adc_val (left_earbud (comms w)))) (left_earbud (comms w)),
       right_earbud := calibrate (adc_value (adc w) (current_adc_val (right_earbud (comms w)))) (right_earbud (comms w))\<rparr>\<rparr>
    else w"
  have st': "tx_stage bs (k + 20) ?w" using st calibrate_stage by auto
  have len: "length bs \<le> 16" and nb: "num_tx_bits (comms ?w) = of_nat (8 * length bs)"
    and wi: "write_idx (comms ?w) = of_nat (sent_bits k)"
    using st' unfolding tx_stage_def Let_def by simp_all
  have "unat (ucast (of_nat (8 * length bs) :: u16) :: u32) = 8 * length bs"
    using len by (simp add: unat_of_nat del: of_nat_mult)
  moreover have "unat (of_nat (sent_bits k) :: u32) = sent_bits k"
    using sent_bits_bound [OF k] len by (simp add: unat_u32)
  ultimately have "write_idx (comms ?w) \<noteq> ucast (num_tx_bits (comms ?w))"
    unfolding nb wi using sent_bits_bound [OF k] by (metis less_irrefl)
  then have "tick_transmitting cfg w = Some (tick_transmit_bit ?w)"
    by (simp only: tick_transmitting_def Let_def if_False)
  moreover have "timer_idx (comms (tick_transmit_bit ?w)) = timer_idx (comms w)"
    by (simp add: tick_transmit_bit_def Let_def frame)
  ultimately show ?thesis using that tx_stage_bit [OF st' k] by blast
qed

text \<open>\<open>t\<close> interrupts into the message; the machine acts on every tenth.\<close>

definition tx_at :: "u8 list \<Rightarrow> nat \<Rightarrow> 'a comms_board_scheme \<Rightarrow> bool" where
  "tx_at bs t w \<longleftrightarrow> timer_idx (comms w) = of_nat t \<and> tx_stage bs (t div 10) w"

lemma tx_at_step:
  assumes at: "tx_at bs t w" and t: "t < 10 * (20 + 9 * length bs) + 9"
  obtains w' where "charger_comms_tick cfg (w\<lparr>adc := a\<rparr>) = Some w'" "tx_at bs (Suc t) w'"
proof -
  let ?w = "(w\<lparr>adc := a\<rparr>)\<lparr>comms := (comms w)\<lparr>timer_idx := timer_idx (comms w) + 1\<rparr>\<rparr>"
  have ti: "timer_idx (comms ?w) = of_nat (Suc t)" using at by (simp add: tx_at_def)
  have st: "tx_stage bs (t div 10) ?w"
    using at tx_stage_idle by (fastforce simp: tx_at_def)
  have len: "length bs \<le> 16" using st by (simp add: tx_stage_def Let_def)
  have reading: "charger_comm_state (comms ?w) \<noteq> CHARGER_COMMS_READING"
    using st unfolding tx_stage_def Let_def by (auto split: if_splits)
  have "unat (of_nat (Suc t) mod 10 :: u32) = Suc t mod 10"
    using t len by (simp only: unat_mod) (simp add: unat_u32 del: of_nat_Suc)
  then have act: "(of_nat (Suc t) mod 10 :: u32) = 0 \<longleftrightarrow> Suc t mod 10 = 0"
    by (metis unat_eq_0)
  have tick: "charger_comms_tick cfg (w\<lparr>adc := a\<rparr>) =
      (if Suc t mod 10 \<noteq> 0 then Some ?w
       else case charger_comm_state (comms ?w) of
           CHARGER_COMMS_NOT_ACTIVE \<Rightarrow> Some ?w
         | CHARGER_COMMS_START_SEQUENCE \<Rightarrow> Some (tick_start_sequence ?w)
         | CHARGER_COMMS_TRANSMITTING \<Rightarrow> tick_transmitting cfg ?w
         | CHARGER_COMMS_READING \<Rightarrow> tick_reading cfg ?w)"
  proof -
    have "charger_comms_tick cfg (w\<lparr>adc := a\<rparr>) =
      (if charger_comm_state (comms ?w) \<noteq> CHARGER_COMMS_READING \<and>
          timer_idx (comms ?w) mod of_nat OVERSAMPLES \<noteq> 0 then Some ?w
       else case charger_comm_state (comms ?w) of
           CHARGER_COMMS_NOT_ACTIVE \<Rightarrow> Some ?w
         | CHARGER_COMMS_START_SEQUENCE \<Rightarrow> Some (tick_start_sequence ?w)
         | CHARGER_COMMS_TRANSMITTING \<Rightarrow> tick_transmitting cfg ?w
         | CHARGER_COMMS_READING \<Rightarrow> tick_reading cfg ?w)"
      by (simp add: charger_comms_tick_def Let_def)
    then show ?thesis unfolding ti using reading act by (simp del: of_nat_Suc)
  qed
  show ?thesis
  proof (cases "Suc t mod 10 = 0")
    case False
    then have "Suc t div 10 = t div 10" by (simp add: div_Suc)
    moreover have "charger_comms_tick cfg (w\<lparr>adc := a\<rparr>) = Some ?w"
      unfolding tick using False by simp
    ultimately show ?thesis using that st ti by (simp add: tx_at_def)
  next
    case True
    then have q: "Suc t div 10 = Suc (t div 10)" by (simp add: div_Suc)
    show ?thesis
    proof (cases "t div 10 < 20")
      case True
      then have "charger_comm_state (comms ?w) = CHARGER_COMMS_START_SEQUENCE"
        using st by (simp add: tx_stage_def Let_def)
      then have "charger_comms_tick cfg (w\<lparr>adc := a\<rparr>) = Some (tick_start_sequence ?w)"
        unfolding tick using \<open>Suc t mod 10 = 0\<close> by simp
      moreover have "timer_idx (comms (tick_start_sequence ?w)) = of_nat (Suc t)"
        using ti by (simp add: tick_start_sequence_def Let_def frame)
      ultimately show ?thesis
        using that tx_stage_start [OF st True] q by (simp add: tx_at_def)
    next
      case False
      define k where "k = t div 10 - 20"
      have tk: "t div 10 = k + 20" using False by (simp add: k_def)
      have "k < 9 * length bs"
      proof -
        have "Suc t = 10 * Suc (k + 20)" using True q tk div_mult_mod_eq [of "Suc t" 10] by simp
        then show ?thesis using t by simp
      qed
      then obtain w' where w': "tick_transmitting cfg ?w = Some w'" "tx_stage bs (Suc k + 20) w'"
        "timer_idx (comms w') = timer_idx (comms ?w)"
        using tx_stage_transmitting [of bs k ?w] st tk by auto
      have "charger_comm_state (comms ?w) = CHARGER_COMMS_TRANSMITTING"
        using st False by (simp add: tx_stage_def Let_def)
      then have "charger_comms_tick cfg (w\<lparr>adc := a\<rparr>) = Some w'"
        unfolding tick using w'(1) \<open>Suc t mod 10 = 0\<close> by simp
      moreover have "tx_at bs (Suc t) w'"
        using w' ti q tk by (simp add: tx_at_def)
      ultimately show ?thesis using that by blast
    qed
  qed
qed

lemma tx_at_run:
  "tx_at bs t w \<Longrightarrow> t + length as \<le> 10 * (20 + 9 * length bs) + 9 \<Longrightarrow>
   \<exists>w'. run_ticks cfg as w = Some w' \<and> tx_at bs (t + length as) w'"
proof (induction as arbitrary: t w)
  case (Cons a as)
  have "t < 10 * (20 + 9 * length bs) + 9" using Cons.prems(2) by simp
  then obtain w1 where "charger_comms_tick cfg (w\<lparr>adc := a\<rparr>) = Some w1" "tx_at bs (Suc t) w1"
    by (rule tx_at_step [OF Cons.prems(1)])
  then show ?case using Cons.IH [of "Suc t" w1] Cons.prems(2) by auto
qed simp

lemma tx_at_transmit:
  assumes "length bs \<le> 16" "length (tx_buf (comms w)) = 16"
    and "\<And>v. comms (on_tx_start cfg bs v) = comms v"
  shows "tx_at bs 0 (charger_comms_transmit cfg bs (of_nat (length bs)) reply w)"
proof -
  have "unat (of_nat (length bs) :: u8) = length bs" using assms(1) by (simp add: unat_of_nat)
  moreover have "(ucast (of_nat (length bs) :: u8) :: u16) * 8 = of_nat (8 * length bs)"
    by (rule word_unat_eq_iff [THEN iffD2]) (use assms(1) in \<open>simp add: unat_word_ariths unat_of_nat\<close>)
  ultimately show ?thesis
    using assms
    by (simp add: tx_at_def tx_stage_def charger_comms_transmit_def Let_def take_memcpy_at)
qed

text \<open>The level of the line over time: \<open>k < 9 n\<close> bit periods into a message of \<open>n\<close> octets.\<close>

lemma transmit_levels:
  assumes "length bs \<le> 16" "length (tx_buf (comms w)) = 16"
    and "\<And>v. comms (on_tx_start cfg bs v) = comms v"
    and "k < 9 * length bs" "length samples = 10 * (21 + k)"
  shows "\<exists>w'. run_ticks cfg samples (charger_comms_transmit cfg bs (of_nat (length bs)) reply w) = Some w' \<and>
           vreg_is_high w' = line_levels False bs ! k"
proof -
  obtain w' where "run_ticks cfg samples
      (charger_comms_transmit cfg bs (of_nat (length bs)) reply w) = Some w'"
      "tx_at bs (10 * (21 + k)) w'"
    using tx_at_run [OF tx_at_transmit [OF assms(1-3), where reply=reply], of samples cfg] assms(4,5)
    by auto
  moreover from this(2) have "vreg_is_high w' = sent_level bs (Suc k)"
    by (simp add: tx_at_def tx_stage_def Let_def add.commute)
  ultimately show ?thesis by (auto simp: sent_level_def)
qed

section \<open>Overrunning the edge buffer\<close>

fun sample_all :: "u16 list \<Rightarrow> earbud_channel \<Rightarrow> earbud_channel option" where
  "sample_all [] ch = Some ch"
| "sample_all (v # vs) ch = Option.bind (process_earbud v ch) (\<lambda>(active, ch). sample_all vs ch)"

text \<open>A channel that has recorded an edge on each of its last \<open>n\<close> samples.\<close>

definition noisy_at :: "nat \<Rightarrow> earbud_channel \<Rightarrow> bool" where
  "noisy_at n ch \<longleftrightarrow> start_reading ch \<and> adc_thres ch = 400 \<and> end_idx ch = MAX_END_IDX \<and>
     all_idx ch = of_nat n \<and> read_idx ch = of_nat n \<and> (sint (previous ch) > 400 \<longleftrightarrow> odd n) \<and>
     (sint (previous ch) < 400 \<longleftrightarrow> even n)"

lemma noisy_step:
  assumes "noisy_at n ch" "n < 512"
  shows "\<exists>ch'. process_earbud (if even n then 500 else 300) ch = Some (True, ch') \<and> noisy_at (Suc n) ch'"
proof -
  have lt: "\<not> (of_nat n :: u16) \<ge> MAX_END_IDX"
    using assms(2) by (simp add: MAX_END_IDX_def word_le_nat_alt unat_of_nat)
  have u: "unat (of_nat n :: u16) = n" using assms(2) by (simp add: unat_of_nat)
  show ?thesis
    using assms lt u
    by (cases "even n") (simp_all add: noisy_at_def process_earbud_def Let_def)
qed

lemma noisy_run:
  "noisy_at n ch \<Longrightarrow> n \<le> 512 \<Longrightarrow>
   sample_all (map (\<lambda>k. if even k then 500 else 300) [n..<512] @ [500]) ch = None"
proof (induction "512 - n" arbitrary: n ch)
  case 0
  then have n: "n = 512" by simp
  then show ?case
    using 0 by (simp add: noisy_at_def process_earbud_def Let_def MAX_END_IDX_def)
next
  case (Suc k)
  then have "n < 512" by simp
  then obtain ch' where "process_earbud (if even n then 500 else 300) ch = Some (True, ch')"
      "noisy_at (Suc n) ch'"
    using noisy_step [OF Suc.prems(1)] by blast
  then show ?case
    using Suc.hyps(1) [of "Suc n" ch'] Suc.hyps(2) \<open>n < 512\<close> by (simp add: upt_conv_Cons)
qed

section \<open>Properties\<close>

text \<open>
  C24: Receive: when the stamps in a channel's buffer are those of the edges of a message, each off
  by up to two of the ten samples of a bit period, the demodulator returns the octets of the
  message, for every message of up to sixteen octets. Start transitions that fall on an edge and
  start transitions that merge with the data edge before or after them are both covered.
\<close>

theorem receiver_recovers_octets:
  assumes "edges_recorded base bs ch" and "bs \<noteq> []" "length bs \<le> CHARGER_COMMS_MAX_MSG_LEN"
  shows "take (length bs) (charger_comms_fetch_rx_data ch) = bs"
  using fetch_rx_data_line [OF assms(1,2)] assms(3) by simp

definition idle_channel :: earbud_channel where
  "idle_channel = \<lparr>current_adc_val = ADC_CURRENT_SENSE_L, all_idx = 0, end_idx = 0, read_idx = 0,
     start_reading = False, data_valid = False, previous = 0, adc_buf = replicate ADC_BUF_LEN 0,
     wait = 0, is_reading_header = False, num_rx_octets = 0, adc_thres = 0, adc_cal_cnt = 0,
     adc_calibrate = 0\<rparr>"

theorem receiver_recovers_octets_witness:
  "take 1 (charger_comms_fetch_rx_data
     (idle_channel\<lparr>adc_buf := [0, 12, 18, 31, 79, 90], read_idx := 6\<rparr>)) = [0x41]"
proof -
  have "line_edges True [0x41] = [0, 1, 2, 7, 8]"
    by (simp add: line_edges_def octet_bits_upt eval_nat_numeral)
  then have "edges_recorded 10 [0x41] (idle_channel\<lparr>adc_buf := [0, 12, 18, 31, 79, 90], read_idx := 6\<rparr>)"
    by (simp add: edges_recorded_def stamp_of_def)
  then show ?thesis using receiver_recovers_octets by fastforce
qed

text \<open>
  Transmit: \<open>k\<close> bit periods into a message (after the twenty of the wake-up sequence) the line is
  at the level the line code prescribes: inverted at the start of every octet, then the bits of
  the octet, least significant first. The theorem runs the interrupt handler's state machine from
  the moment the message is handed over, ten interrupts to a bit period, for every converter
  reading in between.
\<close>

theorem transmitter_sends_line_code:
  fixes w :: "'a comms_board_scheme"
  assumes "length bs \<le> CHARGER_COMMS_MAX_MSG_LEN" "length (tx_buf (comms w)) = 16"
    and "k < 9 * length bs" "length samples = 10 * (21 + k)"
  shows "\<exists>w'. run_ticks device_cfg samples
                (charger_comms_transmit device_cfg bs (of_nat (length bs)) reply w) = Some w' \<and>
              vreg_is_high w' = line_levels False bs ! k"
proof -
  have "comms (on_tx_start device_cfg bs v) = comms v" for v :: "'a comms_board_scheme"
    by (simp add: device_cfg_def on_tx_start_impl_def Let_def gpio_enable_def gpio_set_def
        gpio_reset_def power_set_run_reason_def timer_comms_tick_start_def)
  from transmit_levels [OF assms(1) [unfolded CHARGER_COMMS_MAX_MSG_LEN_def] assms(2) this assms(3,4)]
  show ?thesis .
qed

definition comms_idle :: comms_state where
  "comms_idle = \<lparr>charger_comm_state = CHARGER_COMMS_NOT_ACTIVE,
     charger_comm_vreg_state = CHARGER_COMMS_VREG_HIGH, start_idx = 0, write_idx = 0, bit_idx = 0,
     timer_idx = 0, num_tx_bits = 0, tx_buf = replicate CHARGER_COMMS_MAX_MSG_LEN 0,
     expect_reply = False, left_earbud = idle_channel,
     right_earbud = idle_channel\<lparr>current_adc_val := ADC_CURRENT_SENSE_R\<rparr>,
     received_charger_comm_packet = False\<rparr>"

definition idle_comms_board :: comms_board where
  "idle_comms_board = board.extend dark_board \<lparr>comms = comms_idle\<rparr>"

theorem transmitter_sends_line_code_witness:
  "\<exists>w'. run_ticks device_cfg (replicate 220 (adc dark_board))
          (charger_comms_transmit device_cfg [0x41] 1 True idle_comms_board) = Some w' \<and> vreg_is_high w'"
proof -
  have "line_levels False [0x41] ! 1"
    by (simp add: octet_bits_upt)
  moreover have "length (tx_buf (comms idle_comms_board)) = 16"
    by (simp add: idle_comms_board_def board.defs comms_idle_def)
  ultimately show ?thesis
    using transmitter_sends_line_code [of "[0x41]" idle_comms_board 1 "replicate 220 (adc dark_board)" True]
    by simp
qed

text \<open>
  The sampler does not bound the number of edges it stores: a current that crosses the threshold
  on every sample fills the 512 entries of the channel's buffer and the next edge is written
  beyond its end, long before the end of a maximum-length message stops the sampling.
\<close>

theorem edge_buffer_overrun:
  "sample_all (500 # map (\<lambda>k. if even k then 500 else 300) [0..<ADC_BUF_LEN] @ [500])
     ((reset_earbud_channel ch)\<lparr>end_idx := MAX_END_IDX\<rparr>) = None"
proof -
  let ?ch = "(reset_earbud_channel ch)\<lparr>end_idx := MAX_END_IDX\<rparr>"
  have "process_earbud 500 ?ch = Some (True, ?ch\<lparr>start_reading := True, wait := 1\<rparr>)"
    by (simp add: process_earbud_def reset_earbud_channel_def Let_def MAX_END_IDX_def)
  moreover have "noisy_at 0 (?ch\<lparr>start_reading := True, wait := 1\<rparr>)"
    by (simp add: noisy_at_def reset_earbud_channel_def)
  ultimately show ?thesis using noisy_run [of 0] by simp
qed

end
