(* ===== verification/Wire.thy ===== *)
theory Wire
  imports Crc Modem
begin

text \<open>
  \<^verbatim>\<open>wire.c\<close>: the reliable single-packet transport to the two earbuds (header with sequence
  bits, checksum, retransmission, broadcasts) and \<open>charger_comms_periodic\<close>, which hands it the
  packets the modem has received. The user of the transport (\<^verbatim>\<open>ccp.c\<close>) is a record of
  callbacks on the whole state, as the C structure \<open>WIRE_USER_CB\<close> is; what the transport relies
  on is the locale \<open>wire_user\<close>.
\<close>

definition "WIRE_MAX_PACKET_SIZE = CHARGER_COMMS_MAX_MSG_LEN"
definition "WIRE_NO_OF_BYTES = (2 :: u8)"
definition "WIRE_NO_RESPONSE_TIMEOUT = (200 :: u8)"
definition "WIRE_MAX_RETRIES = (2 :: u8)"
definition "WIRE_BROADCAST_SENDS = (3 :: u8)"
definition "WIRE_BROADCAST_TIMEOUT = (10 :: u8)"

lemmas wire_constant_defs [simp] =
  WIRE_MAX_PACKET_SIZE_def WIRE_NO_OF_BYTES_def WIRE_NO_RESPONSE_TIMEOUT_def
  WIRE_MAX_RETRIES_def WIRE_BROADCAST_SENDS_def WIRE_BROADCAST_TIMEOUT_def

section \<open>State\<close>

record WIRE_TRANSACTION =
  tx_data :: "u8 list"
  tx_len :: u8
  rx_data :: "u8 list"
  rx_len :: u8
  retry :: bool
  no_response_timeout :: u8
  retry_count :: u8
  nack_count :: u8
  sn :: u8
  nesn :: u8
  need_answer :: bool

record wire_state =
  broadcast_data :: "u8 list"
  broadcast_len :: u8
  broadcast_timeout :: u8
  broadcast_count :: u8
  transaction :: "earbud \<Rightarrow> WIRE_TRANSACTION"

record wire_board = comms_board +
  wire :: wire_state

datatype WIRE_DESTINATION = WIRE_DEST_CASE | WIRE_DEST_RIGHT | WIRE_DEST_LEFT | WIRE_DEST_BROADCAST

fun dest_code :: "WIRE_DESTINATION \<Rightarrow> u8" where
  "dest_code WIRE_DEST_CASE = 0"
| "dest_code WIRE_DEST_RIGHT = 1"
| "dest_code WIRE_DEST_LEFT = 2"
| "dest_code WIRE_DEST_BROADCAST = 3"

fun wire_dest :: "earbud \<Rightarrow> WIRE_DESTINATION" where
  "wire_dest EARBUD_LEFT = WIRE_DEST_LEFT"
| "wire_dest EARBUD_RIGHT = WIRE_DEST_RIGHT"

record 'w WIRE_USER_CB =
  user_rx :: "earbud \<Rightarrow> u8 list \<Rightarrow> u8 \<Rightarrow> bool \<Rightarrow> 'w \<Rightarrow> 'w"
  user_ack :: "earbud \<Rightarrow> 'w \<Rightarrow> 'w"
  user_give_up :: "earbud \<Rightarrow> 'w \<Rightarrow> 'w"
  user_abort :: "earbud \<Rightarrow> 'w \<Rightarrow> 'w"
  user_broadcast_finished :: "'w \<Rightarrow> 'w"

definition zero_transaction :: WIRE_TRANSACTION where
  "zero_transaction = \<lparr>tx_data = replicate 16 0, tx_len = 0, rx_data = replicate 16 0, rx_len = 0,
     retry = False, no_response_timeout = 0, retry_count = 0, nack_count = 0, sn = 0, nesn = 0,
     need_answer = False\<rparr>"

definition wire_initial :: wire_state where
  "wire_initial = \<lparr>broadcast_data = replicate 16 0, broadcast_len = 0, broadcast_timeout = 0,
     broadcast_count = 0, transaction = (\<lambda>_. zero_transaction)\<rparr>"

abbreviation wt :: "earbud \<Rightarrow> 'a wire_board_scheme \<Rightarrow> WIRE_TRANSACTION" where
  "wt e w \<equiv> transaction (wire w) e"

text \<open>Assignment through the pointer \<open>wt = &wire_transaction[earbud]\<close>.\<close>

definition upd_wt ::
    "earbud \<Rightarrow> (WIRE_TRANSACTION \<Rightarrow> WIRE_TRANSACTION) \<Rightarrow> 'a wire_board_scheme \<Rightarrow> 'a wire_board_scheme" where
  "upd_wt e f w = w\<lparr>wire := (wire w)\<lparr>transaction := (transaction (wire w))(e := f (wt e w))\<rparr>\<rparr>"

section \<open>Packets\<close>

definition wire_checksum :: "u8 list \<Rightarrow> u8 \<Rightarrow> u8" where
  "wire_checksum data len = crc_calculate_crc8 data len"

definition WIRE_HDR_SN :: "u8 \<Rightarrow> u8" where "WIRE_HDR_SN v = bitmap_set 7 0x80 v"
definition WIRE_HDR_NESN :: "u8 \<Rightarrow> u8" where "WIRE_HDR_NESN v = bitmap_set 6 0x40 v"
definition WIRE_HDR_DEST :: "u8 \<Rightarrow> u8" where "WIRE_HDR_DEST v = bitmap_set 4 0x30 v"
definition WIRE_HDR_LENGTH :: "u8 \<Rightarrow> u8" where "WIRE_HDR_LENGTH v = bitmap_set 0 0x0F v"
definition WIRE_HDR_GET_SN :: "u8 \<Rightarrow> u8" where "WIRE_HDR_GET_SN d = bitmap_get 7 0x80 d"
definition WIRE_HDR_GET_NESN :: "u8 \<Rightarrow> u8" where "WIRE_HDR_GET_NESN d = bitmap_get 6 0x40 d"

definition wire_tx_stored_message :: "earbud \<Rightarrow> 'a wire_board_scheme \<Rightarrow> 'a wire_board_scheme" where
  "wire_tx_stored_message earbud w =
     (let t = wt earbud w;
          hdr = WIRE_HDR_SN (sn t) OR WIRE_HDR_NESN (nesn t) OR
                WIRE_HDR_LENGTH ((tx_len t - WIRE_NO_OF_BYTES) + 1) OR
                WIRE_HDR_DEST (dest_code (wire_dest earbud));
          w = upd_wt earbud (\<lambda>t. t\<lparr>tx_data := (tx_data t)[0 := hdr]\<rparr>) w;
          w = upd_wt earbud (\<lambda>t. t\<lparr>tx_data := (tx_data t)[unat (tx_len t - 1) :=
                               wire_checksum (tx_data t) (tx_len t - 1)]\<rparr>) w
      in charger_comms_transmit device_cfg (tx_data (wt earbud w)) (tx_len (wt earbud w)) True w)"

text \<open>\<open>data\<close> is empty where the C code passes \<open>NULL\<close>.\<close>

definition wire_setup_broadcast ::
    "u8 list \<Rightarrow> u8 \<Rightarrow> u8 \<Rightarrow> 'a wire_board_scheme \<Rightarrow> 'a wire_board_scheme" where
  "wire_setup_broadcast data len timeout w =
     (let s = wire w;
          d = (broadcast_data s)[0 := WIRE_HDR_DEST (dest_code WIRE_DEST_BROADCAST) OR
                                      WIRE_HDR_LENGTH (len + 1)];
          d = (if data \<noteq> [] \<and> len \<noteq> 0 then memcpy_at 1 (take (unat len) data) d else d);
          d = d[unat (len + 1) := wire_checksum d (len + 1)]
      in w\<lparr>wire := s\<lparr>broadcast_len := len + WIRE_NO_OF_BYTES, broadcast_data := d,
                      broadcast_timeout := timeout, broadcast_count := 0\<rparr>\<rparr>)"

definition wire_send_broadcast :: "'a wire_board_scheme \<Rightarrow> 'a wire_board_scheme" where
  "wire_send_broadcast w =
     (let w = w\<lparr>wire := (wire w)\<lparr>broadcast_count := broadcast_count (wire w) + 1\<rparr>\<rparr>
      in charger_comms_transmit device_cfg (broadcast_data (wire w)) (broadcast_len (wire w)) False w)"

section \<open>Sending\<close>

definition wire_tx ::
    "('a wire_board_scheme) WIRE_USER_CB \<Rightarrow> WIRE_DESTINATION \<Rightarrow> u8 list \<Rightarrow> u8 \<Rightarrow>
     'a wire_board_scheme \<Rightarrow> bool \<times> 'a wire_board_scheme" where
  "wire_tx user dest data len w =
     (if unat len \<le> WIRE_MAX_PACKET_SIZE - unat WIRE_NO_OF_BYTES then
        if broadcast_len (wire w) = 0 \<and> \<not> charger_comms_is_active w then
          if dest = WIRE_DEST_BROADCAST then
            let w = (if tx_len (wt EARBUD_LEFT w) \<noteq> 0 then user_abort user EARBUD_LEFT w else w);
                w = (if tx_len (wt EARBUD_RIGHT w) \<noteq> 0 then user_abort user EARBUD_RIGHT w else w);
                w = w\<lparr>wire := (wire w)\<lparr>transaction := (\<lambda>_. zero_transaction)\<rparr>\<rparr>
            in (True, wire_send_broadcast (wire_setup_broadcast data len WIRE_BROADCAST_TIMEOUT w))
          else
            let earbud = (if dest = WIRE_DEST_LEFT then EARBUD_LEFT else EARBUD_RIGHT) in
            if tx_len (wt earbud w) = 0 then
              let w = upd_wt earbud (\<lambda>t. t\<lparr>tx_len := len + WIRE_NO_OF_BYTES,
                        tx_data := memcpy_at 1 (take (unat len) data) (tx_data t)\<rparr>) w;
                  w = wire_tx_stored_message earbud w
              in (True, upd_wt earbud (\<lambda>t. t\<lparr>no_response_timeout := WIRE_NO_RESPONSE_TIMEOUT,
                        retry_count := 0, nack_count := 0, retry := False\<rparr>) w)
            else (False, w)
        else (False, w)
      else (False, w))"

section \<open>Receiving\<close>

definition wire_process_rx ::
    "('a wire_board_scheme) WIRE_USER_CB \<Rightarrow> earbud \<Rightarrow> 'a wire_board_scheme \<Rightarrow> 'a wire_board_scheme" where
  "wire_process_rx user earbud w =
     (if rx_len (wt earbud w) \<noteq> 0 then
        let pkt_sn = WIRE_HDR_GET_SN (rx_data (wt earbud w) ! 0);
            pkt_nesn = WIRE_HDR_GET_NESN (rx_data (wt earbud w) ! 0);
            w = (if pkt_sn = nesn (wt earbud w)
                 then upd_wt earbud (\<lambda>t. t\<lparr>nesn := if nesn t \<noteq> 0 then 0 else 1\<rparr>) w else w);
            w = (if pkt_nesn = sn (wt earbud w)
                 then upd_wt earbud (\<lambda>t. t\<lparr>retry := True, nack_count := nack_count t + 1\<rparr>) w
                 else
                   let w = upd_wt earbud (\<lambda>t. t\<lparr>sn := if sn t \<noteq> 0 then 0 else 1\<rparr>) w in
                   if rx_len (wt earbud w) > WIRE_NO_OF_BYTES then
                     upd_wt earbud (\<lambda>t. t\<lparr>tx_len := 2, retry_count := 0, retry := True\<rparr>)
                       (user_rx user earbud (drop 1 (rx_data (wt earbud w)))
                          (rx_len (wt earbud w) - WIRE_NO_OF_BYTES) True w)
                   else
                     upd_wt earbud (\<lambda>t. t\<lparr>tx_len := 0\<rparr>) (user_ack user earbud w))
        in upd_wt earbud (\<lambda>t. t\<lparr>rx_len := 0\<rparr>) w
      else w)"

text \<open>
  A packet from the modem. A length of zero makes the C code read \<open>data[-1]\<close>, hence \<open>None\<close>;
  \<open>data\<close> has 16 elements, so no other length that passes the test is out of range.
\<close>

definition wire_rx ::
    "earbud \<Rightarrow> u8 list \<Rightarrow> u8 \<Rightarrow> 'a wire_board_scheme \<Rightarrow> 'a wire_board_scheme option" where
  "wire_rx earbud data len w =
     (if unat len \<le> WIRE_MAX_PACKET_SIZE then
        if len = 0 then None
        else if wire_checksum data (len - 1) = data ! unat (len - 1) then
          Some (upd_wt earbud (\<lambda>t. t\<lparr>rx_data := memcpy_at 0 (take (unat len) data) (rx_data t),
                                     rx_len := len\<rparr>) w)
        else Some (upd_wt earbud (\<lambda>t. t\<lparr>retry := True\<rparr>) w)
      else Some w)"

section \<open>Transactions and the periodic function\<close>

definition wire_reset_transaction :: "WIRE_TRANSACTION \<Rightarrow> WIRE_TRANSACTION" where
  "wire_reset_transaction t =
     t\<lparr>sn := 0, nesn := 0, retry_count := 0, retry := True, nack_count := 0\<rparr>"

definition wire_manage_transaction ::
    "('a wire_board_scheme) WIRE_USER_CB \<Rightarrow> earbud \<Rightarrow> 'a wire_board_scheme \<Rightarrow> 'a wire_board_scheme" where
  "wire_manage_transaction user earbud w =
     (let w = wire_process_rx user earbud w; t = wt earbud w in
      if tx_len t \<noteq> 0 then
        if retry t then
          if retry_count t < WIRE_MAX_RETRIES then
            if \<not> charger_comms_is_active w then
              upd_wt earbud (\<lambda>t. t\<lparr>no_response_timeout := WIRE_NO_RESPONSE_TIMEOUT,
                                   retry_count := retry_count t + 1, retry := False\<rparr>)
                (wire_tx_stored_message earbud w)
            else w
          else if nack_count t \<noteq> 0 then
            wire_setup_broadcast [] 0 0 (fold (\<lambda>e. upd_wt e wire_reset_transaction) earbuds w)
          else user_give_up user earbud (upd_wt earbud (\<lambda>t. t\<lparr>tx_len := 0\<rparr>) w)
        else if no_response_timeout t = 0 then
          user_give_up user earbud (upd_wt earbud (\<lambda>t. t\<lparr>tx_len := 0\<rparr>) w)
        else upd_wt earbud (\<lambda>t. t\<lparr>no_response_timeout := no_response_timeout t - 1\<rparr>) w
      else w)"

definition wire_periodic ::
    "('a wire_board_scheme) WIRE_USER_CB \<Rightarrow> 'a wire_board_scheme \<Rightarrow> 'a wire_board_scheme" where
  "wire_periodic user w =
     (if broadcast_len (wire w) \<noteq> 0 then
        if broadcast_timeout (wire w) = 0 then
          if \<not> charger_comms_is_active w then
            let w = wire_send_broadcast w in
            if broadcast_count (wire w) < WIRE_BROADCAST_SENDS
            then w\<lparr>wire := (wire w)\<lparr>broadcast_timeout := WIRE_BROADCAST_TIMEOUT\<rparr>\<rparr>
            else user_broadcast_finished user (w\<lparr>wire := (wire w)\<lparr>broadcast_len := 0\<rparr>\<rparr>)
          else w
        else w\<lparr>wire := (wire w)\<lparr>broadcast_timeout := broadcast_timeout (wire w) - 1\<rparr>\<rparr>
      else wire_manage_transaction user EARBUD_RIGHT (wire_manage_transaction user EARBUD_LEFT w))"

text \<open>\<open>charger_comms_periodic\<close> of \<^verbatim>\<open>charger_comms_device.c\<close>.\<close>

definition charger_comms_deliver ::
    "earbud \<Rightarrow> earbud_channel \<Rightarrow> 'a wire_board_scheme \<Rightarrow> 'a wire_board_scheme option" where
  "charger_comms_deliver e ch w =
     (if data_valid ch then wire_rx e (charger_comms_fetch_rx_data ch) (num_rx_octets ch) w else Some w)"

definition charger_comms_periodic :: "'a wire_board_scheme \<Rightarrow> 'a wire_board_scheme option" where
  "charger_comms_periodic w =
     map_option
       (\<lambda>w. if charger_comms_should_read_header w then charger_comms_read_header w else w)
       (if received_charger_comm_packet (comms w) then
          let w = w\<lparr>comms := (comms w)\<lparr>received_charger_comm_packet := False\<rparr>\<rparr> in
          case charger_comms_deliver EARBUD_LEFT (left_earbud (comms w)) w of
            None \<Rightarrow> None
          | Some w \<Rightarrow> charger_comms_deliver EARBUD_RIGHT (right_earbud (comms w)) w
        else Some w)"

section \<open>Frames\<close>

lemma transmit_wire [frame]: "wire (charger_comms_transmit device_cfg d n r w) = wire w"
  by (simp add: charger_comms_transmit_def device_cfg_def on_tx_start_impl_def Let_def
      gpio_enable_def gpio_set_def gpio_reset_def power_set_run_reason_def timer_comms_tick_start_def)

lemma transmit_comms:
  assumes "unat n \<le> 16"
  shows "charger_comms_is_active (charger_comms_transmit device_cfg d n r w)"
    and "tx_buf (comms (charger_comms_transmit device_cfg d n r w)) =
           memcpy_at 0 (take (unat n) d) (tx_buf (comms w))"
  using assms
  by (simp_all add: charger_comms_transmit_def device_cfg_def on_tx_start_impl_def Let_def
      gpio_enable_def gpio_set_def gpio_reset_def power_set_run_reason_def
      timer_comms_tick_start_def charger_comms_is_active_def)

lemma upd_wt_simps [simp]:
  "wire (upd_wt e f w) = (wire w)\<lparr>transaction := (transaction (wire w))(e := f (wt e w))\<rparr>"
  "comms (upd_wt e f w) = comms w"
  "charger_comms_is_active (upd_wt e f w) = charger_comms_is_active w"
  by (simp_all add: upd_wt_def charger_comms_is_active_def)

lemma upd_wt_twice: "upd_wt e f (upd_wt e g w) = upd_wt e (f \<circ> g) w"
  by (simp add: upd_wt_def)

lemma active_wire_update [simp]:
  "charger_comms_is_active (w\<lparr>wire := s\<rparr>) = charger_comms_is_active w"
  by (simp add: charger_comms_is_active_def)

section \<open>The header\<close>

lemmas hdr_defs =
  WIRE_HDR_SN_def WIRE_HDR_NESN_def WIRE_HDR_DEST_def WIRE_HDR_LENGTH_def WIRE_HDR_GET_SN_def
  WIRE_HDR_GET_NESN_def bitmap_set_def bitmap_get_def

lemma header_fields:
  fixes a b n d :: u8
  defines "hdr \<equiv> WIRE_HDR_SN a OR WIRE_HDR_NESN b OR WIRE_HDR_LENGTH n OR WIRE_HDR_DEST d"
  shows "a \<in> {0, 1} \<Longrightarrow> WIRE_HDR_GET_SN hdr = a"
    and "b \<in> {0, 1} \<Longrightarrow> WIRE_HDR_GET_NESN hdr = b"
    and "unat n \<le> 15 \<Longrightarrow> hdr AND 0xf = n"
    and "unat d \<le> 3 \<Longrightarrow> drop_bit 4 (hdr AND 0x30) = d"
proof -
  have low: "n AND 15 = n" if "unat n \<le> 15"
  proof -
    have "take_bit 4 (unat n) = unat n" using that by (simp add: take_bit_nat_eq_self)
    then have "take_bit 4 n = n" by (simp add: word_unat_eq_iff unsigned_take_bit_eq)
    then show ?thesis by (simp add: take_bit_eq_mask mask_eq_exp_minus_1)
  qed
  show "WIRE_HDR_GET_SN hdr = a" if "a \<in> {0, 1}"
    using that by (auto simp: hdr_def hdr_defs bit.conj_disj_distrib2 and.assoc)
  show "WIRE_HDR_GET_NESN hdr = b" if "b \<in> {0, 1}"
    using that by (auto simp: hdr_def hdr_defs bit.conj_disj_distrib2 and.assoc)
  show "hdr AND 0xf = n" if "unat n \<le> 15"
    using low [OF that] by (simp add: hdr_def hdr_defs bit.conj_disj_distrib2 and.assoc)
  have "d \<in> {0, 1, 2, 3}" if "unat d \<le> 3"
  proof -
    have "unat d \<in> {0, 1, 2, 3}" using that by auto
    then show ?thesis by (auto simp: word_unat_eq_iff)
  qed
  then show "drop_bit 4 (hdr AND 0x30) = d" if "unat d \<le> 3"
    using that by (auto simp: hdr_def hdr_defs bit.conj_disj_distrib2 and.assoc)
qed

section \<open>Frames sent are accepted\<close>

definition tx_header :: "earbud \<Rightarrow> WIRE_TRANSACTION \<Rightarrow> u8" where
  "tx_header e t = WIRE_HDR_SN (sn t) OR WIRE_HDR_NESN (nesn t) OR
     WIRE_HDR_LENGTH ((tx_len t - WIRE_NO_OF_BYTES) + 1) OR WIRE_HDR_DEST (dest_code (wire_dest e))"

definition tx_frame :: "earbud \<Rightarrow> WIRE_TRANSACTION \<Rightarrow> u8 list" where
  "tx_frame e t =
     (let body = tx_header e t # take (unat (tx_len t) - 2) (drop 1 (tx_data t))
      in body @ [wire_checksum body (tx_len t - 1)])"

lemma wire_checksum_prefix: "wire_checksum d n = wire_checksum (take (unat n) d) n"
  by (simp add: wire_checksum_def crc_calculate_crc8_def crc_encoder_def)

lemma stored_message:
  assumes "2 \<le> unat (tx_len (wt e w))" "unat (tx_len (wt e w)) \<le> 16" "length (tx_data (wt e w)) = 16"
  shows "take (unat (tx_len (wt e w))) (tx_data (wt e (wire_tx_stored_message e w))) = tx_frame e (wt e w)"
    and "\<exists>d. length d = 16 \<and>
           wire (wire_tx_stored_message e w) = wire (upd_wt e (\<lambda>t. t\<lparr>tx_data := d\<rparr>) w)"
    and "length (tx_buf (comms w)) = 16 \<Longrightarrow>
         take (unat (tx_len (wt e w))) (tx_buf (comms (wire_tx_stored_message e w))) = tx_frame e (wt e w)"
    and "charger_comms_is_active (wire_tx_stored_message e w)"
proof -
  let ?n = "tx_len (wt e w)" and ?d = "(tx_data (wt e w))[0 := tx_header e (wt e w)]"
  let ?d2 = "?d[unat (?n - 1) := wire_checksum ?d (?n - 1)]"
  have n1: "unat (?n - 1) = unat ?n - 1" by (rule unat_minus_1) (use assms(1) in auto)
  have len: "length ?d = 16" using assms(3) by simp
  have body: "take (unat ?n - 1) ?d = tx_header e (wt e w) # take (unat ?n - 2) (drop 1 (tx_data (wt e w)))"
  proof -
    obtain m where m: "unat ?n = 2 + m" using assms(1) le_Suc_ex by blast
    show ?thesis using assms(3) by (cases "tx_data (wt e w)") (simp_all add: m)
  qed
  have "take (unat ?n) ?d2 = take (unat ?n - 1) ?d @ [wire_checksum ?d (?n - 1)]"
    unfolding n1 by (rule take_update_last) (use assms(1,2) len in simp_all)
  then have sent: "take (unat ?n) ?d2 = tx_frame e (wt e w)"
    unfolding body tx_frame_def Let_def
    using wire_checksum_prefix [of ?d "?n - 1"] n1 body by simp
  have eq: "wire_tx_stored_message e w =
      charger_comms_transmit device_cfg ?d2 ?n True
        (upd_wt e (\<lambda>t. t\<lparr>tx_data := (tx_data t)[unat (tx_len t - 1) :=
            wire_checksum (tx_data t) (tx_len t - 1)]\<rparr>)
          (upd_wt e (\<lambda>t. t\<lparr>tx_data := (tx_data t)[0 := tx_header e (wt e w)]\<rparr>) w))"
    unfolding wire_tx_stored_message_def tx_header_def Let_def by simp
  show "take (unat ?n) (tx_data (wt e (wire_tx_stored_message e w))) = tx_frame e (wt e w)"
    using sent by (simp add: eq frame)
  show "\<exists>d. length d = 16 \<and> wire (wire_tx_stored_message e w) = wire (upd_wt e (\<lambda>t. t\<lparr>tx_data := d\<rparr>) w)"
    by (rule exI [of _ ?d2]) (use len in \<open>simp add: eq frame\<close>)
  show "take (unat ?n) (tx_buf (comms (wire_tx_stored_message e w))) = tx_frame e (wt e w)"
    if "length (tx_buf (comms w)) = 16"
  proof -
    have "length (tx_frame e (wt e w)) = unat ?n"
      using sent [symmetric] len assms(2) by simp
    then show ?thesis using that sent assms(2) len by (simp add: eq transmit_comms memcpy_at_0)
  qed
  show "charger_comms_is_active (wire_tx_stored_message e w)"
    using assms(2) by (simp add: eq transmit_comms)
qed

lemma tx_frame_fields:
  assumes "2 \<le> unat (tx_len t)" "unat (tx_len t) \<le> 16" "length (tx_data t) = 16"
  shows "length (tx_frame e t) = unat (tx_len t)"
    and "take (unat (tx_len t) - 2) (drop 1 (tx_frame e t)) = take (unat (tx_len t) - 2) (drop 1 (tx_data t))"
    and "unat (CHARGER_COMMS_GET_PAYLOAD_LENGTH (tx_frame e t) + 1) = unat (tx_len t)"
    and "drop_bit 4 (tx_frame e t ! 0 AND 0x30) = dest_code (wire_dest e)"
    and "sn t \<in> {0, 1} \<Longrightarrow> WIRE_HDR_GET_SN (tx_frame e t ! 0) = sn t"
    and "nesn t \<in> {0, 1} \<Longrightarrow> WIRE_HDR_GET_NESN (tx_frame e t ! 0) = nesn t"
proof -
  show "length (tx_frame e t) = unat (tx_len t)"
    and "take (unat (tx_len t) - 2) (drop 1 (tx_frame e t)) = take (unat (tx_len t) - 2) (drop 1 (tx_data t))"
    using assms by (simp_all add: tx_frame_def Let_def)
  have hd: "tx_frame e t ! 0 = tx_header e t" by (simp add: tx_frame_def Let_def)
  have "tx_len t - 1 \<noteq> 0"
    using assms(1) by (metis diff_add_cancel add_0 unat_1 One_nat_def not_less_eq_eq numeral_2_eq_2 order_refl)
  have l: "tx_len t - 2 + 1 = tx_len t - 1" by simp
  have u: "unat (tx_len t - 1) = unat (tx_len t) - 1"
    by (rule unat_minus_1) (use assms(1) in auto)
  have "tx_header e t AND 0xf = tx_len t - 2 + 1"
    unfolding tx_header_def WIRE_NO_OF_BYTES_def
    by (rule header_fields(3)) (use assms(2) l u in simp)
  then show "unat (CHARGER_COMMS_GET_PAYLOAD_LENGTH (tx_frame e t) + 1) = unat (tx_len t)"
    unfolding CHARGER_COMMS_GET_PAYLOAD_LENGTH_def hd l by simp
  have "unat (dest_code (wire_dest e)) \<le> 3" by (cases e) simp_all
  then show "drop_bit 4 (tx_frame e t ! 0 AND 0x30) = dest_code (wire_dest e)"
    unfolding hd tx_header_def by (rule header_fields(4))
  show "WIRE_HDR_GET_SN (tx_frame e t ! 0) = sn t" if "sn t \<in> {0, 1}"
    unfolding hd tx_header_def by (rule header_fields(1) [OF that])
  show "WIRE_HDR_GET_NESN (tx_frame e t ! 0) = nesn t" if "nesn t \<in> {0, 1}"
    unfolding hd tx_header_def by (rule header_fields(2) [OF that])
qed

section \<open>The invariant of the transport\<close>

definition wt_ok :: "WIRE_TRANSACTION \<Rightarrow> bool" where
  "wt_ok t \<longleftrightarrow> length (tx_data t) = 16 \<and> length (rx_data t) = 16 \<and>
     (tx_len t = 0 \<or> 2 \<le> unat (tx_len t)) \<and> unat (tx_len t) \<le> 16 \<and> unat (rx_len t) \<le> 16 \<and>
     unat (retry_count t) \<le> 2 \<and> sn t \<in> {0, 1} \<and> nesn t \<in> {0, 1}"

definition wire_ok :: "wire_state \<Rightarrow> bool" where
  "wire_ok s \<longleftrightarrow> (\<forall>e. wt_ok (transaction s e)) \<and> length (broadcast_data s) = 16 \<and>
     unat (broadcast_len s) \<le> 16 \<and> unat (broadcast_count s) \<le> 3 \<and>
     (broadcast_len s \<noteq> 0 \<longrightarrow> 2 \<le> unat (broadcast_len s) \<and> unat (broadcast_count s) < 3)"

lemma wire_ok_initial: "wire_ok wire_initial"
  by (simp add: wire_ok_def wire_initial_def wt_ok_def zero_transaction_def)

lemma wire_ok_upd:
  "wire_ok s \<Longrightarrow> wt_ok t \<Longrightarrow> wire_ok (s\<lparr>transaction := (transaction s)(e := t)\<rparr>)"
  by (simp add: wire_ok_def)

lemma wire_okD: "wire_ok s \<Longrightarrow> wt_ok (transaction s e)"
  by (simp add: wire_ok_def)

lemma unat_plus_2: "unat n \<le> 14 \<Longrightarrow> unat (n + 2) = unat n + 2" for n :: u8
  by (simp add: unat_word_ariths)

lemma unat_plus_one: "unat n \<le> 14 \<Longrightarrow> unat (n + 1) = unat n + 1" for n :: u8
  by (simp add: unat_word_ariths)

lemma wire_ok_stored:
  assumes "wire_ok (wire w)" "tx_len (wt e w) \<noteq> 0"
  shows "wire_ok (wire (wire_tx_stored_message e w))"
proof -
  have t: "wt_ok (wt e w)" using assms(1) by (rule wire_okD)
  then obtain d where "length d = 16"
      "wire (wire_tx_stored_message e w) = wire (upd_wt e (\<lambda>t. t\<lparr>tx_data := d\<rparr>) w)"
    using stored_message(2) [of w e] assms(2) by (auto simp: wt_ok_def)
  with t show ?thesis by (simp add: wire_ok_upd [OF assms(1)] wt_ok_def)
qed

lemma wire_ok_setup_broadcast:
  assumes "wire_ok (wire w)" "unat len \<le> 14" "unat len \<le> length data \<or> data = []"
  shows "wire_ok (wire (wire_setup_broadcast data len timeout w))"
proof -
  have "unat (len + 2) \<le> 16" "2 \<le> unat (len + 2)"
    using assms(2) by (simp_all add: unat_plus_2)
  moreover have "data \<noteq> [] \<Longrightarrow> 1 + unat len \<le> 16" using assms(2) by simp
  ultimately show ?thesis
    using assms by (auto simp: wire_ok_def wire_setup_broadcast_def Let_def)
qed

lemma wire_ok_send_broadcast:
  assumes "wire_ok (wire w)" "broadcast_len (wire w) \<noteq> 0"
  shows "wire (wire_send_broadcast w) = (wire w)\<lparr>broadcast_count := broadcast_count (wire w) + 1\<rparr>"
    and "unat (broadcast_count (wire w) + 1) = Suc (unat (broadcast_count (wire w)))"
    and "charger_comms_is_active (wire_send_broadcast w)"
proof -
  show "wire (wire_send_broadcast w) = (wire w)\<lparr>broadcast_count := broadcast_count (wire w) + 1\<rparr>"
    by (simp add: wire_send_broadcast_def Let_def frame)
  show "unat (broadcast_count (wire w) + 1) = Suc (unat (broadcast_count (wire w)))"
    using assms by (intro unat_plus_1) (simp add: wire_ok_def)
  show "charger_comms_is_active (wire_send_broadcast w)"
    using assms(1) by (simp add: wire_send_broadcast_def Let_def transmit_comms wire_ok_def)
qed

text \<open>
  The effect of a received packet on its transaction alone, as a function: what \<open>wire_process_rx\<close>
  does apart from calling its user.
\<close>

definition rx_transaction :: "WIRE_TRANSACTION \<Rightarrow> WIRE_TRANSACTION" where
  "rx_transaction t =
     (if rx_len t = 0 then t
      else
        let n = (if WIRE_HDR_GET_SN (rx_data t ! 0) = nesn t
                 then (if nesn t \<noteq> 0 then 0 else 1) else nesn t)
        in
        if WIRE_HDR_GET_NESN (rx_data t ! 0) = sn t
        then t\<lparr>nesn := n, retry := True, nack_count := nack_count t + 1, rx_len := 0\<rparr>
        else if rx_len t > 2
        then t\<lparr>nesn := n, sn := if sn t \<noteq> 0 then 0 else 1, tx_len := 2, retry_count := 0,
               retry := True, rx_len := 0\<rparr>
        else t\<lparr>nesn := n, sn := if sn t \<noteq> 0 then 0 else 1, tx_len := 0, rx_len := 0\<rparr>)"

lemma wt_ok_rx_transaction: "wt_ok t \<Longrightarrow> wt_ok (rx_transaction t)"
  by (cases "nesn t = 0") (auto simp: rx_transaction_def Let_def wt_ok_def)

text \<open>What the transport relies on: its user's callbacks leave it and the modem alone.\<close>

locale wire_user =
  fixes user :: "('a wire_board_scheme) WIRE_USER_CB"
  assumes user_wire [simp]:
      "wire (user_rx user e d n f w) = wire w"
      "wire (user_ack user e w) = wire w"
      "wire (user_give_up user e w) = wire w"
      "wire (user_abort user e w) = wire w"
      "wire (user_broadcast_finished user w) = wire w"
    and user_comms [simp]:
      "comms (user_rx user e d n f w) = comms w"
      "comms (user_ack user e w) = comms w"
      "comms (user_give_up user e w) = comms w"
      "comms (user_abort user e w) = comms w"
      "comms (user_broadcast_finished user w) = comms w"
begin

lemma wire_ok_tx:
  assumes "wire_ok (wire w)" "unat len \<le> length data"
  shows "wire_ok (wire (snd (wire_tx user dest data len w)))"
proof (cases "unat len \<le> 14 \<and> broadcast_len (wire w) = 0 \<and> \<not> charger_comms_is_active w")
  case False
  then show ?thesis using assms(1) by (auto simp: wire_tx_def)
next
  case acc: True
  show ?thesis
  proof (cases "dest = WIRE_DEST_BROADCAST")
    case True
    define w1 where "w1 =
      (let w = (if tx_len (wt EARBUD_LEFT w) \<noteq> 0 then user_abort user EARBUD_LEFT w else w);
           w = (if tx_len (wt EARBUD_RIGHT w) \<noteq> 0 then user_abort user EARBUD_RIGHT w else w)
       in w\<lparr>wire := (wire w)\<lparr>transaction := (\<lambda>_. zero_transaction)\<rparr>\<rparr>)"
    have "wire w1 = (wire w)\<lparr>transaction := (\<lambda>_. zero_transaction)\<rparr>"
      by (simp add: w1_def Let_def)
    then have "wire_ok (wire w1)"
      using assms(1) by (auto simp: wire_ok_def wt_ok_def zero_transaction_def)
    then have ok: "wire_ok (wire (wire_setup_broadcast data len WIRE_BROADCAST_TIMEOUT w1))"
      using acc assms(2) by (intro wire_ok_setup_broadcast) auto
    have "broadcast_len (wire (wire_setup_broadcast data len WIRE_BROADCAST_TIMEOUT w1)) \<noteq> 0"
      using acc unat_plus_2 [of len]
      by (auto simp: wire_setup_broadcast_def Let_def dest!: arg_cong [where f=unat])
    from wire_ok_send_broadcast(1,2) [OF ok this] ok
    have "wire_ok (wire (wire_send_broadcast (wire_setup_broadcast data len WIRE_BROADCAST_TIMEOUT w1)))"
      by (auto simp: wire_ok_def wire_setup_broadcast_def Let_def)
    then show ?thesis
      using acc True by (simp add: wire_tx_def w1_def Let_def)
  next
    case False
    define e where "e = (if dest = WIRE_DEST_LEFT then EARBUD_LEFT else EARBUD_RIGHT)"
    let ?w = "upd_wt e (\<lambda>t. t\<lparr>tx_len := len + WIRE_NO_OF_BYTES,
                 tx_data := memcpy_at 1 (take (unat len) data) (tx_data t)\<rparr>) w"
    have t: "wt_ok (wt e w)" using assms(1) by (rule wire_okD)
    have l: "unat (len + 2) = unat len + 2" using acc by (simp add: unat_plus_2)
    have "wire_ok (wire ?w)"
      using acc t l assms(2) by (simp add: wire_ok_upd [OF assms(1)] wt_ok_def)
    moreover have "tx_len (wt e ?w) \<noteq> 0" using l by (auto dest!: arg_cong [where f=unat])
    ultimately have ok: "wire_ok (wire (wire_tx_stored_message e ?w))" by (rule wire_ok_stored)
    show ?thesis
    proof (cases "tx_len (wt e w) = 0")
      case True
      have "wire (snd (wire_tx user dest data len w)) =
          wire (upd_wt e (\<lambda>t. t\<lparr>no_response_timeout := WIRE_NO_RESPONSE_TIMEOUT, retry_count := 0,
             nack_count := 0, retry := False\<rparr>) (wire_tx_stored_message e ?w))"
        using acc False True by (simp add: wire_tx_def e_def [symmetric] Let_def)
      then show ?thesis
        using ok wire_okD [OF ok, of e] by (simp add: wire_ok_upd wt_ok_def)
    next
      case busy: False
      then show ?thesis using acc False assms(1) by (simp add: wire_tx_def e_def [symmetric] Let_def)
    qed
  qed
qed

lemma process_rx_wire:
  "wire (wire_process_rx user e w) =
     (wire w)\<lparr>transaction := (transaction (wire w))(e := rx_transaction (wt e w))\<rparr>"
  by (cases "rx_len (wt e w) = 0")
     (simp_all add: wire_process_rx_def rx_transaction_def Let_def)

lemma process_rx_comms: "comms (wire_process_rx user e w) = comms w"
  by (simp add: wire_process_rx_def Let_def)

lemma wire_ok_process_rx:
  assumes ok: "wire_ok (wire w)"
  shows "wire_ok (wire (wire_process_rx user e w))"
  unfolding process_rx_wire by (intro wire_ok_upd ok wt_ok_rx_transaction wire_okD)

lemma wire_ok_manage:
  assumes "wire_ok (wire w)"
  shows "wire_ok (wire (wire_manage_transaction user e w))"
proof -
  define v where "v = wire_process_rx user e w"
  have ok: "wire_ok (wire v)" unfolding v_def by (rule wire_ok_process_rx [OF assms])
  have t: "wt_ok (wt e v)" using ok by (rule wire_okD)
  have upd: "wire_ok ((wire v)\<lparr>transaction := (transaction (wire v))(e := f (wt e v))\<rparr>)"
    if "wt_ok (f (wt e v))" for f
    using ok that by (rule wire_ok_upd)
  consider (idle) "tx_len (wt e v) = 0"
    | (retry) "tx_len (wt e v) \<noteq> 0" "retry (wt e v)" "retry_count (wt e v) < 2"
    | (nacks) "tx_len (wt e v) \<noteq> 0" "retry (wt e v)" "\<not> retry_count (wt e v) < 2" "nack_count (wt e v) \<noteq> 0"
    | (give_up) "tx_len (wt e v) \<noteq> 0"
        "retry (wt e v) \<and> \<not> retry_count (wt e v) < 2 \<and> nack_count (wt e v) = 0 \<or>
         \<not> retry (wt e v) \<and> no_response_timeout (wt e v) = 0"
    | (waiting) "tx_len (wt e v) \<noteq> 0" "\<not> retry (wt e v)" "no_response_timeout (wt e v) \<noteq> 0"
    by blast
  then show ?thesis
  proof cases
    case retry
    have "unat (retry_count (wt e v) + 1) \<le> 2"
      using retry(3) by (simp add: word_less_nat_alt unat_word_ariths)
    moreover have "wire_ok (wire (wire_tx_stored_message e v))"
      using ok retry(1) by (rule wire_ok_stored)
    moreover have "wt_ok (wt e (wire_tx_stored_message e v))"
      and "retry_count (wt e (wire_tx_stored_message e v)) = retry_count (wt e v)"
      using calculation(2) wire_okD stored_message(2) [of v e] t retry(1)
      by (auto simp: wt_ok_def)
    ultimately show ?thesis
      using retry ok by (auto simp: wire_manage_transaction_def Let_def v_def [symmetric] wt_ok_def
          intro!: wire_ok_upd)
  next
    case nacks
    have "wire_ok (wire (fold (\<lambda>e. upd_wt e wire_reset_transaction) earbuds v))"
      using ok by (auto simp: earbuds_def wire_ok_def wt_ok_def wire_reset_transaction_def)
    then show ?thesis
      using nacks by (simp add: wire_manage_transaction_def Let_def v_def [symmetric]
          wire_ok_setup_broadcast)
  next
    case give_up
    then show ?thesis
      using t by (auto simp: wire_manage_transaction_def Let_def v_def [symmetric] wt_ok_def
          intro!: wire_ok_upd ok)
  qed (use t in \<open>auto simp: wire_manage_transaction_def Let_def v_def [symmetric] wt_ok_def
          intro!: wire_ok_upd ok\<close>)
qed

lemma wire_ok_periodic:
  assumes "wire_ok (wire w)"
  shows "wire_ok (wire (wire_periodic user w))"
proof (cases "broadcast_len (wire w) = 0")
  case True
  then show ?thesis using assms by (simp add: wire_periodic_def wire_ok_manage)
next
  case False
  note sent = wire_ok_send_broadcast(1,2) [OF assms False]
  have "wire_ok ((wire w)\<lparr>broadcast_timeout := x\<rparr>)" for x
    using assms by (simp add: wire_ok_def)
  moreover have "unat (broadcast_count (wire w)) < 3" using assms False by (simp add: wire_ok_def)
  ultimately show ?thesis
    using False assms sent
    by (auto simp: wire_periodic_def Let_def wire_ok_def word_less_nat_alt)
qed

end

lemma wire_ok_rx:
  assumes "wire_ok (wire w)" "length data = 16" "wire_rx e data n w = Some w'"
  shows "wire_ok (wire w')"
  using assms wire_okD [OF assms(1), of e]
  by (auto simp: wire_rx_def wt_ok_def split: if_splits intro!: wire_ok_upd)

text \<open>
  Everything that can happen to the transport: calls of its functions, and any change of the rest
  of the state between them.
\<close>

inductive wire_step ::
    "('a wire_board_scheme) WIRE_USER_CB \<Rightarrow> 'a wire_board_scheme \<Rightarrow> 'a wire_board_scheme \<Rightarrow> bool"
  for user where
  step_tx: "unat n \<le> length data \<Longrightarrow> wire_step user w (snd (wire_tx user dest data n w))"
| step_rx: "length data = 16 \<Longrightarrow> wire_rx e data n w = Some w' \<Longrightarrow> wire_step user w w'"
| step_periodic: "wire_step user w (wire_periodic user w)"
| step_environment: "wire w' = wire w \<Longrightarrow> wire_step user w w'"

inductive wire_reachable :: "('a wire_board_scheme) WIRE_USER_CB \<Rightarrow> 'a wire_board_scheme \<Rightarrow> bool"
  for user where
  start: "wire w = wire_initial \<Longrightarrow> wire_reachable user w"
| step: "wire_reachable user w \<Longrightarrow> wire_step user w w' \<Longrightarrow> wire_reachable user w'"

definition other :: "earbud \<Rightarrow> earbud" where
  "other e = (if e = EARBUD_LEFT then EARBUD_RIGHT else EARBUD_LEFT)"

text \<open>Nothing to do for the other earbud: a periodic call is a step of \<open>e\<close>'s transaction alone.\<close>

definition quiet :: "earbud \<Rightarrow> 'a wire_board_scheme \<Rightarrow> bool" where
  "quiet e w \<longleftrightarrow> broadcast_len (wire w) = 0 \<and> rx_len (wt e w) = 0 \<and>
     tx_len (wt (other e) w) = 0 \<and> rx_len (wt (other e) w) = 0"

text \<open>
  A silent or unintelligible earbud: between two periodic calls the transport's state is as it was,
  or a packet with a wrong checksum has asked for a repetition.
\<close>

definition lossy :: "earbud \<Rightarrow> ('a wire_board_scheme \<Rightarrow> 'a wire_board_scheme) \<Rightarrow> bool" where
  "lossy e env \<longleftrightarrow> (\<forall>w. \<not> charger_comms_is_active (env w) \<and>
     (wire (env w) = wire w \<or> wire (env w) = wire (upd_wt e (\<lambda>t. t\<lparr>retry := True\<rparr>) w)))"

fun wire_rounds ::
    "('a wire_board_scheme) WIRE_USER_CB \<Rightarrow> ('a wire_board_scheme \<Rightarrow> 'a wire_board_scheme) list \<Rightarrow>
     'a wire_board_scheme \<Rightarrow> 'a wire_board_scheme" where
  "wire_rounds user [] w = w"
| "wire_rounds user (env # envs) w = wire_rounds user envs (wire_periodic user (env w))"

text \<open>An upper bound for the periodic calls a transaction lasts when nothing is received.\<close>

definition tx_fuel :: "WIRE_TRANSACTION \<Rightarrow> nat" where
  "tx_fuel t = (if tx_len t = 0 then 0
     else Suc ((2 - unat (retry_count t)) * 202 + (if retry t then 0 else Suc (unat (no_response_timeout t)))))"

context wire_user
begin

lemma wire_ok_step: "wire_step user w w' \<Longrightarrow> wire_ok (wire w) \<Longrightarrow> wire_ok (wire w')"
  by (induction rule: wire_step.induct) (auto intro: wire_ok_tx wire_ok_rx wire_ok_periodic)

lemma wire_ok_reachable: "wire_reachable user w \<Longrightarrow> wire_ok (wire w)"
  by (induction rule: wire_reachable.induct) (auto intro: wire_ok_step simp: wire_ok_initial)

lemma process_rx_nack:
  assumes "WIRE_HDR_GET_NESN (rx_data (wt e w) ! 0) = sn (wt e w)"
  shows "wire_process_rx user e w = upd_wt e rx_transaction w"
  using assms
  by (cases "rx_len (wt e w) = 0")
     (simp_all add: wire_process_rx_def rx_transaction_def Let_def upd_wt_def)

lemma manage_quiet:
  assumes "rx_len (wt e w) = 0"
  shows "tx_len (wt e w) = 0 \<Longrightarrow> wire_manage_transaction user e w = w"
    and "\<lbrakk>tx_len (wt e w) \<noteq> 0; \<not> retry (wt e w); no_response_timeout (wt e w) \<noteq> 0\<rbrakk> \<Longrightarrow>
      wire_manage_transaction user e w =
        upd_wt e (\<lambda>t. t\<lparr>no_response_timeout := no_response_timeout t - 1\<rparr>) w"
    and "\<lbrakk>tx_len (wt e w) \<noteq> 0; \<not> retry (wt e w); no_response_timeout (wt e w) = 0\<rbrakk> \<Longrightarrow>
      wire_manage_transaction user e w = user_give_up user e (upd_wt e (\<lambda>t. t\<lparr>tx_len := 0\<rparr>) w)"
    and "\<lbrakk>tx_len (wt e w) \<noteq> 0; retry (wt e w); \<not> retry_count (wt e w) < 2; nack_count (wt e w) = 0\<rbrakk> \<Longrightarrow>
      wire_manage_transaction user e w = user_give_up user e (upd_wt e (\<lambda>t. t\<lparr>tx_len := 0\<rparr>) w)"
    and "\<lbrakk>tx_len (wt e w) \<noteq> 0; retry (wt e w); retry_count (wt e w) < 2; \<not> charger_comms_is_active w\<rbrakk> \<Longrightarrow>
      wire_manage_transaction user e w =
        upd_wt e (\<lambda>t. t\<lparr>no_response_timeout := 200, retry_count := retry_count t + 1, retry := False\<rparr>)
          (wire_tx_stored_message e w)"
  using assms by (simp_all add: wire_manage_transaction_def wire_process_rx_def)

lemma manage_other:
  assumes "rx_len (wt e w) = 0" "nack_count (wt e w) = 0" "wire_ok (wire w)"
  shows "wt (other e) (wire_manage_transaction user e w) = wt (other e) w"
    and "broadcast_len (wire (wire_manage_transaction user e w)) = broadcast_len (wire w)"
proof -
  have pr: "wire_process_rx user e w = w" using assms(1) by (simp add: wire_process_rx_def)
  have ne: "other e \<noteq> e" by (cases e) (simp_all add: other_def)
  have st: "wt (other e) (wire_tx_stored_message e w) = wt (other e) w"
      "broadcast_len (wire (wire_tx_stored_message e w)) = broadcast_len (wire w)"
    if "tx_len (wt e w) \<noteq> 0"
    using stored_message(2) [of w e] wire_okD [OF assms(3), of e] that ne by (auto simp: wt_ok_def)
  show "wt (other e) (wire_manage_transaction user e w) = wt (other e) w"
    "broadcast_len (wire (wire_manage_transaction user e w)) = broadcast_len (wire w)"
    using st ne assms(2) by (simp_all add: wire_manage_transaction_def pr Let_def)
qed

lemma periodic_quiet:
  assumes "quiet e w" "nack_count (wt e w) = 0" "wire_ok (wire w)"
  shows "wire_periodic user w = wire_manage_transaction user e w"
proof (cases e)
  case EARBUD_LEFT
  then have "rx_len (wt EARBUD_RIGHT (wire_manage_transaction user e w)) = 0"
      "tx_len (wt EARBUD_RIGHT (wire_manage_transaction user e w)) = 0"
    using manage_other(1) [of w e] assms by (simp_all add: quiet_def other_def)
  then show ?thesis
    using assms(1) EARBUD_LEFT by (simp add: wire_periodic_def quiet_def manage_quiet(1))
next
  case EARBUD_RIGHT
  then show ?thesis
    using assms(1) by (simp add: wire_periodic_def quiet_def other_def manage_quiet(1))
qed

text \<open>One silent period: the state of the transaction after it, and the call of its user.\<close>

lemma silent_period:
  assumes "quiet e w" "nack_count (wt e w) = 0" "wire_ok (wire w)" "tx_len (wt e w) \<noteq> 0"
    and "\<not> charger_comms_is_active w"
  defines "w' \<equiv> wire_periodic user w"
  shows "quiet e w'" and "nack_count (wt e w') = 0" and "wire_ok (wire w')"
    and "tx_fuel (wt e w') < tx_fuel (wt e w)"
proof -
  have eq: "w' = wire_manage_transaction user e w"
    unfolding w'_def by (rule periodic_quiet [OF assms(1-3)])
  have rx: "rx_len (wt e w) = 0" using assms(1) by (simp add: quiet_def)
  have t: "wt_ok (wt e w)" using assms(3) by (rule wire_okD)
  obtain d where st: "wire (wire_tx_stored_message e w) = wire (upd_wt e (\<lambda>t. t\<lparr>tx_data := d\<rparr>) w)"
    using stored_message(2) [of w e] t assms(4) by (auto simp: wt_ok_def)
  have rc: "unat (retry_count (wt e w) + 1) = Suc (unat (retry_count (wt e w)))"
    if "retry_count (wt e w) < 2"
    using that by (intro unat_plus_1) (simp add: word_less_nat_alt)
  have nt: "unat (no_response_timeout (wt e w) - 1) = unat (no_response_timeout (wt e w)) - 1"
    if "no_response_timeout (wt e w) \<noteq> 0" using that by (rule unat_minus_1)
  have self: "rx_len (wt e w') = 0 \<and> nack_count (wt e w') = 0 \<and> tx_fuel (wt e w') < tx_fuel (wt e w)"
  proof (cases "retry (wt e w)")
    case True
    show ?thesis
    proof (cases "retry_count (wt e w) < 2")
      case rl: True
      show ?thesis
        using rl True rc [OF rl] assms(2,4) rx st manage_quiet(5) [OF rx assms(4) True rl assms(5)]
        by (simp add: eq tx_fuel_def word_less_nat_alt)
    next
      case False
      then show ?thesis
        using assms(2,4) rx manage_quiet(4) [OF rx assms(4) True False assms(2)]
        by (simp add: eq tx_fuel_def)
    qed
  next
    case nr: False
    show ?thesis
    proof (cases "no_response_timeout (wt e w) = 0")
      case True
      then show ?thesis
        using assms(2,4) rx manage_quiet(3) [OF rx assms(4) nr True] by (simp add: eq tx_fuel_def)
    next
      case False
      then have "0 < unat (no_response_timeout (wt e w))" by (simp add: unat_gt_0)
      then show ?thesis
        using nr nt [OF False] assms(2,4) rx manage_quiet(2) [OF rx assms(4) nr False]
        by (simp add: eq tx_fuel_def)
    qed
  qed
  then show "nack_count (wt e w') = 0" "tx_fuel (wt e w') < tx_fuel (wt e w)" by simp_all
  show "quiet e w'"
    using self assms(1) manage_other [OF rx assms(2,3)] by (simp add: quiet_def eq)
  show "wire_ok (wire w')" unfolding w'_def by (rule wire_ok_periodic [OF assms(3)])
qed

lemma lossy_rounds_end:
  assumes "\<forall>env \<in> set envs. lossy e env" "tx_fuel (wt e w) \<le> length envs"
    and "quiet e w" "nack_count (wt e w) = 0" "wire_ok (wire w)"
  shows "\<exists>k \<le> length envs. tx_len (wt e (wire_rounds user (take k envs) w)) = 0"
  using assms
proof (induction envs arbitrary: w)
  case Nil
  then show ?case by (auto simp: tx_fuel_def split: if_splits)
next
  case (Cons env envs)
  show ?case
  proof (cases "tx_len (wt e w) = 0")
    case True
    then show ?thesis by (intro exI [of _ 0]) simp
  next
    case False
    let ?v = "env w"
    have e': "wire ?v = wire w \<or> wire ?v = wire (upd_wt e (\<lambda>t. t\<lparr>retry := True\<rparr>) w)"
      and na: "\<not> charger_comms_is_active ?v"
      using Cons.prems(1) by (auto simp: lossy_def)
    have ne: "other e \<noteq> e" by (cases e) (simp_all add: other_def)
    have v: "quiet e ?v" "nack_count (wt e ?v) = 0" "wire_ok (wire ?v)" "tx_len (wt e ?v) \<noteq> 0"
        "tx_fuel (wt e ?v) \<le> tx_fuel (wt e w)"
      using e' Cons.prems(3-5) False ne wire_okD [OF Cons.prems(5), of e]
      by (auto simp: quiet_def tx_fuel_def wt_ok_def intro!: wire_ok_upd)
    note sp = silent_period [OF v(1-4) na]
    have "tx_fuel (wt e (wire_periodic user ?v)) \<le> length envs"
      using sp(4) v(5) Cons.prems(2) by simp
    then obtain k where "k \<le> length envs"
        "tx_len (wt e (wire_rounds user (take k envs) (wire_periodic user ?v))) = 0"
      using Cons.IH [of "wire_periodic user ?v"] sp Cons.prems(1) by auto
    then show ?thesis by (intro exI [of _ "Suc k"]) simp
  qed
qed

lemma silent_rounds:
  assumes "\<forall>env \<in> set envs. \<forall>v. wire (env v) = wire v" "quiet e w" "nack_count (wt e w) = 0"
    and "wire_ok (wire w)" "tx_len (wt e w) \<noteq> 0" "\<not> retry (wt e w)"
    and "length envs \<le> unat (no_response_timeout (wt e w))"
  defines "w' \<equiv> wire_rounds user envs w"
  shows "quiet e w' \<and> nack_count (wt e w') = 0 \<and> wire_ok (wire w') \<and> tx_len (wt e w') \<noteq> 0 \<and>
    \<not> retry (wt e w') \<and>
    unat (no_response_timeout (wt e w')) = unat (no_response_timeout (wt e w)) - length envs"
  using assms(1-7) unfolding w'_def
proof (induction envs arbitrary: w)
  case (Cons env envs)
  have v: "wire (env w) = wire w" using Cons.prems(1) by simp
  let ?v = "env w" and ?n = "no_response_timeout (wt e w)"
  have q: "quiet e ?v" and nz: "?n \<noteq> 0" and rx: "rx_len (wt e ?v) = 0"
    using Cons.prems(2,7) by (auto simp: quiet_def v)
  have eq: "wire_periodic user ?v = upd_wt e (\<lambda>t. t\<lparr>no_response_timeout := no_response_timeout t - 1\<rparr>) ?v"
    using periodic_quiet [OF q] manage_quiet(2) [OF rx] Cons.prems nz by (simp add: v)
  have n1: "unat (?n - 1) = unat ?n - 1" using nz by (rule unat_minus_1)
  have ne: "other e \<noteq> e" by (cases e) (simp_all add: other_def)
  have "wire_ok (wire (wire_periodic user ?v))"
    using Cons.prems(4) by (intro wire_ok_periodic) (simp add: v)
  then show ?case
    using Cons.IH [of "wire_periodic user ?v"] Cons.prems n1 ne
    by (simp add: eq v quiet_def)
qed simp

lemma silent_end:
  assumes "quiet e w" "nack_count (wt e w) = 0" "wire_ok (wire w)" "tx_len (wt e w) \<noteq> 0"
    and "\<not> retry (wt e w)" "no_response_timeout (wt e w) = 0"
  shows "wire_periodic user w = user_give_up user e (upd_wt e (\<lambda>t. t\<lparr>tx_len := 0\<rparr>) w)"
  using assms periodic_quiet [OF assms(1-3)] manage_quiet(3) [of w e]
  by (simp add: quiet_def)

lemma broadcast_wait:
  assumes "\<forall>env \<in> set envs. \<forall>v. wire (env v) = wire v" "broadcast_len (wire w) \<noteq> 0"
    and "length envs \<le> unat (broadcast_timeout (wire w))"
  shows "wire (wire_rounds user envs w) =
    (wire w)\<lparr>broadcast_timeout := broadcast_timeout (wire w) - of_nat (length envs)\<rparr>"
  using assms
proof (induction envs arbitrary: w)
  case (Cons env envs)
  have v: "wire (env w) = wire w" using Cons.prems(1) by simp
  have nz: "broadcast_timeout (wire w) \<noteq> 0" using Cons.prems(3) by auto
  have eq: "wire (wire_periodic user (env w)) =
      (wire w)\<lparr>broadcast_timeout := broadcast_timeout (wire w) - 1\<rparr>"
    using nz Cons.prems(2) by (simp add: wire_periodic_def v)
  show ?case
    using Cons.IH [of "wire_periodic user (env w)"] Cons.prems unat_minus_1 [OF nz]
    by (simp add: eq)
qed simp

lemma broadcast_send:
  assumes "broadcast_len (wire w) \<noteq> 0" "broadcast_timeout (wire w) = 0" "\<not> charger_comms_is_active w"
    and "wire_ok (wire w)"
  shows "broadcast_count (wire w) + 1 < 3 \<Longrightarrow>
      wire (wire_periodic user w) =
        (wire w)\<lparr>broadcast_count := broadcast_count (wire w) + 1, broadcast_timeout := 10\<rparr>"
    and "\<not> broadcast_count (wire w) + 1 < 3 \<Longrightarrow>
      wire_periodic user w = user_broadcast_finished user
        ((wire_send_broadcast w)\<lparr>wire := (wire w)\<lparr>broadcast_count := broadcast_count (wire w) + 1,
           broadcast_len := 0\<rparr>\<rparr>)"
  using assms wire_ok_send_broadcast(1) [OF assms(4,1)]
  by (simp_all add: wire_periodic_def Let_def)

lemma wire_rounds_append:
  "wire_rounds user (as @ bs) w = wire_rounds user bs (wire_rounds user as w)"
  by (induction as arbitrary: w) simp_all

text \<open>Twenty-one periods after the first transmission the second has been sent, not the third.\<close>

lemma broadcast_rounds:
  assumes env: "\<forall>env \<in> set envs. \<forall>v. wire (env v) = wire v \<and> \<not> charger_comms_is_active (env v)"
    and "length envs = 21" "wire_ok (wire w)"
    and "broadcast_len (wire w) \<noteq> 0" "broadcast_timeout (wire w) = 10" "broadcast_count (wire w) = 1"
  shows "wire (wire_rounds user envs w) = (wire w)\<lparr>broadcast_count := 2, broadcast_timeout := 0\<rparr>"
proof -
  define as f bs where "as = take 10 envs" and "f = envs ! 10" and "bs = drop (Suc 10) envs"
  have envs: "envs = as @ f # bs"
    unfolding as_def f_def bs_def by (rule id_take_nth_drop) (simp add: assms(2))
  have len: "length as = 10" "length bs = 10" using assms(2) by (simp_all add: as_def bs_def)
  let ?w1 = "wire_rounds user as w"
  have w1: "wire ?w1 = (wire w)\<lparr>broadcast_timeout := 0\<rparr>"
    using broadcast_wait [of as w] env len assms(4,5) by (simp add: envs)
  have f: "wire (f ?w1) = wire ?w1" "\<not> charger_comms_is_active (f ?w1)"
    using env by (simp_all add: envs)
  have "wire_ok (wire (f ?w1))"
    using assms(3) by (simp add: f w1 wire_ok_def)
  then have w2: "wire (wire_periodic user (f ?w1)) =
      (wire w)\<lparr>broadcast_count := 2, broadcast_timeout := 10\<rparr>"
    using broadcast_send(1) [of "f ?w1"] f assms(4,6) by (simp add: w1)
  show ?thesis
    using broadcast_wait [of bs "wire_periodic user (f ?w1)"] env len assms(4)
    by (simp add: envs wire_rounds_append w2)
qed

text \<open>The state after an accepted message.\<close>

lemma tx_unicast:
  assumes "fst (wire_tx user (wire_dest e) data n w)" "wire_ok (wire w)" "unat n \<le> length data"
  defines "w' \<equiv> snd (wire_tx user (wire_dest e) data n w)"
  shows "tx_len (wt e w') = n + 2" "tx_len (wt e w') \<noteq> 0" "\<not> retry (wt e w')" "nack_count (wt e w') = 0"
    and "retry_count (wt e w') = 0" "no_response_timeout (wt e w') = 200"
    and "rx_len (wt e w') = rx_len (wt e w)" "wt (other e) w' = wt (other e) w"
    and "broadcast_len (wire w') = 0" "wire_ok (wire w')" "charger_comms_is_active w'"
    and "take (unat n) (drop 1 (tx_data (wt e w'))) = take (unat n) data"
proof -
  have g: "unat n \<le> 14" "broadcast_len (wire w) = 0" "\<not> charger_comms_is_active w" "tx_len (wt e w) = 0"
    using assms(1) by (cases e; auto simp: wire_tx_def Let_def split: if_splits)+
  let ?w = "upd_wt e (\<lambda>t. t\<lparr>tx_len := n + WIRE_NO_OF_BYTES,
               tx_data := memcpy_at 1 (take (unat n) data) (tx_data t)\<rparr>) w"
  have eq: "w' = upd_wt e (\<lambda>t. t\<lparr>no_response_timeout := WIRE_NO_RESPONSE_TIMEOUT,
      retry_count := 0, nack_count := 0, retry := False\<rparr>) (wire_tx_stored_message e ?w)"
    using g unfolding w'_def by (cases e) (simp_all add: wire_tx_def Let_def)
  have t: "wt_ok (wt e w)" using assms(2) by (rule wire_okD)
  have n2: "unat (n + 2) = unat n + 2" using g(1) by (rule unat_plus_2)
  have len: "2 \<le> unat (tx_len (wt e ?w))" "unat (tx_len (wt e ?w)) \<le> 16" "length (tx_data (wt e ?w)) = 16"
    using g(1) n2 t assms(3) by (simp_all add: wt_ok_def)
  obtain d where st: "wire (wire_tx_stored_message e ?w) = wire (upd_wt e (\<lambda>t. t\<lparr>tx_data := d\<rparr>) ?w)"
    using stored_message(2) [OF len] by blast
  have ne: "other e \<noteq> e" by (cases e) (simp_all add: other_def)
  show tl: "tx_len (wt e w') = n + 2" and "\<not> retry (wt e w')" "nack_count (wt e w') = 0"
    "retry_count (wt e w') = 0" "no_response_timeout (wt e w') = 200"
    "rx_len (wt e w') = rx_len (wt e w)" "wt (other e) w' = wt (other e) w"
    "broadcast_len (wire w') = 0"
    using g(2) st ne by (simp_all add: eq)
  show "tx_len (wt e w') \<noteq> 0" using n2 unfolding tl by (auto dest!: arg_cong [where f=unat])
  show "wire_ok (wire w')" unfolding w'_def by (rule wire_ok_tx [OF assms(2,3)])
  show "charger_comms_is_active w'" using stored_message(4) [OF len] by (simp add: eq)
  have "take (unat n + 2) (tx_data (wt e w')) = tx_frame e (wt e ?w)"
    using stored_message(1) [OF len] n2 by (simp add: eq)
  from arg_cong [OF this, of "\<lambda>x. take (unat n) (drop 1 x)"]
  have "take (unat n) (drop 1 (tx_data (wt e w'))) = take (unat n) (drop 1 (tx_frame e (wt e ?w)))"
    by (simp add: take_drop min_def)
  also have "\<dots> = take (unat n) (drop 1 (tx_data (wt e ?w)))"
    using tx_frame_fields(2) [OF len] n2 by simp
  also have "\<dots> = take (unat n) data"
    using t assms(3) by (simp add: memcpy_at_def wt_ok_def)
  finally show "take (unat n) (drop 1 (tx_data (wt e w'))) = take (unat n) data" .
qed

lemma tx_broadcast:
  assumes "fst (wire_tx user WIRE_DEST_BROADCAST data n w)" "wire_ok (wire w)" "unat n \<le> length data"
  defines "w' \<equiv> snd (wire_tx user WIRE_DEST_BROADCAST data n w)"
  shows "broadcast_len (wire w') = n + 2" "broadcast_len (wire w') \<noteq> 0" "broadcast_timeout (wire w') = 10"
    and "broadcast_count (wire w') = 1" "transaction (wire w') = (\<lambda>_. zero_transaction)"
    and "wire_ok (wire w')" "charger_comms_is_active w'"
proof -
  have g: "unat n \<le> 14" "broadcast_len (wire w) = 0" "\<not> charger_comms_is_active w"
    using assms(1) by (auto simp: wire_tx_def split: if_splits)
  have n2: "unat (n + 2) = unat n + 2" using g(1) by (rule unat_plus_2)
  show ok: "wire_ok (wire w')" unfolding w'_def by (rule wire_ok_tx [OF assms(2,3)])
  show bl: "broadcast_len (wire w') = n + 2" and "broadcast_timeout (wire w') = 10"
    "broadcast_count (wire w') = 1" "transaction (wire w') = (\<lambda>_. zero_transaction)"
    using g by (simp_all add: w'_def wire_tx_def wire_send_broadcast_def wire_setup_broadcast_def
        Let_def frame)
  show "broadcast_len (wire w') \<noteq> 0" using n2 unfolding bl by (auto dest!: arg_cong [where f=unat])
  show "charger_comms_is_active w'"
    using g n2 by (simp add: w'_def wire_tx_def wire_send_broadcast_def wire_setup_broadcast_def
        Let_def transmit_comms)
qed

end

lemma wire_tx_accept_iff:
  "fst (wire_tx user dest data n w) \<longleftrightarrow>
     unat n \<le> 14 \<and> broadcast_len (wire w) = 0 \<and> \<not> charger_comms_is_active w \<and>
     (dest = WIRE_DEST_BROADCAST \<or>
      tx_len (wt (if dest = WIRE_DEST_LEFT then EARBUD_LEFT else EARBUD_RIGHT) w) = 0)"
  by (simp add: wire_tx_def Let_def)

lemma wire_tx_refused: "\<not> fst (wire_tx user dest data n w) \<Longrightarrow> snd (wire_tx user dest data n w) = w"
  by (auto simp: wire_tx_def Let_def split: if_splits)

end
