(* ===== verification/Ccp.thy ===== *)
theory Ccp
  imports Wire
begin

text \<open>
  \<^verbatim>\<open>ccp.c\<close>: the Charger Case Protocol on top of the transport: status broadcasts, requests
  that want an answer, and the polling of an earbud that only acknowledges. Its user
  (\<^verbatim>\<open>case.c\<close>) is a record of callbacks; the locale \<open>ccp_user\<close> states what CCP relies on and gives,
  as a \<open>sublocale\<close>, the contract \<open>wire_user\<close> of the transport for the callbacks CCP registers.
\<close>

definition "CCP_POLL_TIMEOUT = (50 :: u8)"
definition "CCP_MAX_POLLS = (5 :: u8)"
definition "CCP_MAX_MSG_SIZE = (20 :: nat)"

lemmas ccp_constant_defs [simp] = CCP_POLL_TIMEOUT_def CCP_MAX_POLLS_def CCP_MAX_MSG_SIZE_def

section \<open>State\<close>

datatype CCP_MESSAGE = CCP_MSG_STATUS | CCP_MSG_EARBUD_STATUS | CCP_MSG_RESET | CCP_MSG_STATUS_REQ

fun msg_code :: "CCP_MESSAGE \<Rightarrow> u8" where
  "msg_code CCP_MSG_STATUS = 0"
| "msg_code CCP_MSG_EARBUD_STATUS = 1"
| "msg_code CCP_MSG_RESET = 2"
| "msg_code CCP_MSG_STATUS_REQ = 3"

datatype CCP_CHANNEL = CCP_CH_CASE_INFO | CCP_CH_DTS

fun chan_code :: "CCP_CHANNEL \<Rightarrow> u8" where
  "chan_code CCP_CH_CASE_INFO = 0"
| "chan_code CCP_CH_DTS = 1"

record CCP_TRANSACTION =
  busy :: bool
  poll_timeout :: u8
  poll_count :: u8

record ccp_board = wire_board +
  ccp :: "earbud \<Rightarrow> CCP_TRANSACTION"

record 'w CCP_USER_CB =
  on_rx_earbud_status :: "earbud \<Rightarrow> u8 \<Rightarrow> u8 \<Rightarrow> u8 \<Rightarrow> 'w \<Rightarrow> 'w"
  on_ack :: "earbud \<Rightarrow> 'w \<Rightarrow> 'w"
  on_give_up :: "earbud \<Rightarrow> 'w \<Rightarrow> 'w"
  on_abort :: "earbud \<Rightarrow> 'w \<Rightarrow> 'w"
  on_broadcast_finished :: "'w \<Rightarrow> 'w"

definition ccp_initial :: "earbud \<Rightarrow> CCP_TRANSACTION" where
  "ccp_initial = (\<lambda>_. \<lparr>busy = False, poll_timeout = 0, poll_count = 0\<rparr>)"

definition upd_ct ::
    "earbud \<Rightarrow> (CCP_TRANSACTION \<Rightarrow> CCP_TRANSACTION) \<Rightarrow> 'a ccp_board_scheme \<Rightarrow> 'a ccp_board_scheme" where
  "upd_ct e f w = w\<lparr>ccp := (ccp w)(e := f (ccp w e))\<rparr>"

section \<open>Bit fields\<close>

definition CCP_HDR :: "CCP_CHANNEL \<Rightarrow> CCP_MESSAGE \<Rightarrow> u8" where
  "CCP_HDR chan msg = bitmap_set 4 0x70 (chan_code chan) OR bitmap_set 0 0x0F (msg_code msg)"

definition CCP_HDR_GET_CHAN_ID :: "u8 \<Rightarrow> u8" where "CCP_HDR_GET_CHAN_ID d = bitmap_get 4 0x70 d"
definition CCP_HDR_GET_MSG_ID :: "u8 \<Rightarrow> u8" where "CCP_HDR_GET_MSG_ID d = bitmap_get 0 0x0F d"
definition CCP_EARBUD_STATUS_GET_PP :: "u8 \<Rightarrow> u8" where
  "CCP_EARBUD_STATUS_GET_PP d = bitmap_get 0 0x01 d"
definition CCP_BATTERY_GET_LEVEL :: "u8 \<Rightarrow> u8" where "CCP_BATTERY_GET_LEVEL d = bitmap_get 0 0x7F d"
definition CCP_BATTERY_GET_C :: "u8 \<Rightarrow> u8" where "CCP_BATTERY_GET_C d = bitmap_get 7 0x80 d"

definition CCP_STATUS_1 :: "bool \<Rightarrow> bool \<Rightarrow> u8" where
  "CCP_STATUS_1 l cc = bitmap_set 0 0x01 (of_bool l) OR bitmap_set 1 0x02 (of_bool cc)"

definition CCP_BATTERY :: "u8 \<Rightarrow> u8 \<Rightarrow> u8" where
  "CCP_BATTERY level c = bitmap_set 0 0x7F level OR bitmap_set 7 0x80 c"

definition CCP_RESET_R :: "bool \<Rightarrow> u8" where
  "CCP_RESET_R r = bitmap_set 0 0x01 (of_bool r)"

section \<open>Callbacks from the transport\<close>

definition ccp_rx ::
    "('a ccp_board_scheme) CCP_USER_CB \<Rightarrow> earbud \<Rightarrow> u8 list \<Rightarrow> u8 \<Rightarrow> bool \<Rightarrow>
     'a ccp_board_scheme \<Rightarrow> 'a ccp_board_scheme" where
  "ccp_rx user earbud data len final_piece w =
     (if final_piece then
        let w = (if CCP_HDR_GET_CHAN_ID (data ! 0) = chan_code CCP_CH_CASE_INFO then
                   if CCP_HDR_GET_MSG_ID (data ! 0) = msg_code CCP_MSG_EARBUD_STATUS then
                     on_rx_earbud_status user earbud (CCP_EARBUD_STATUS_GET_PP (data ! 1))
                       (CCP_BATTERY_GET_LEVEL (data ! 2)) (CCP_BATTERY_GET_C (data ! 2)) w
                   else w
                 else w)
        in upd_ct earbud (\<lambda>t. t\<lparr>busy := False\<rparr>) w
      else w)"

definition ccp_ack ::
    "('a ccp_board_scheme) CCP_USER_CB \<Rightarrow> earbud \<Rightarrow> 'a ccp_board_scheme \<Rightarrow> 'a ccp_board_scheme" where
  "ccp_ack user earbud w =
     (if busy (ccp w earbud) then upd_ct earbud (\<lambda>t. t\<lparr>poll_timeout := CCP_POLL_TIMEOUT\<rparr>) w
      else on_ack user earbud w)"

definition ccp_give_up ::
    "('a ccp_board_scheme) CCP_USER_CB \<Rightarrow> earbud \<Rightarrow> 'a ccp_board_scheme \<Rightarrow> 'a ccp_board_scheme" where
  "ccp_give_up user earbud w = upd_ct earbud (\<lambda>t. t\<lparr>busy := False\<rparr>) (on_give_up user earbud w)"

definition ccp_abort ::
    "('a ccp_board_scheme) CCP_USER_CB \<Rightarrow> earbud \<Rightarrow> 'a ccp_board_scheme \<Rightarrow> 'a ccp_board_scheme" where
  "ccp_abort user earbud w = upd_ct earbud (\<lambda>t. t\<lparr>busy := False\<rparr>) (on_abort user earbud w)"

definition ccp_broadcast_finished ::
    "('a ccp_board_scheme) CCP_USER_CB \<Rightarrow> 'a ccp_board_scheme \<Rightarrow> 'a ccp_board_scheme" where
  "ccp_broadcast_finished user w = on_broadcast_finished user w"

definition ccp_wire_cb ::
    "('a ccp_board_scheme) CCP_USER_CB \<Rightarrow> ('a ccp_board_scheme) WIRE_USER_CB" where
  "ccp_wire_cb user = \<lparr>user_rx = ccp_rx user, user_ack = ccp_ack user, user_give_up = ccp_give_up user,
     user_abort = ccp_abort user, user_broadcast_finished = ccp_broadcast_finished user\<rparr>"

lemma ccp_wire_cb_sel [simp]:
  "user_rx (ccp_wire_cb user) = ccp_rx user" "user_ack (ccp_wire_cb user) = ccp_ack user"
  "user_give_up (ccp_wire_cb user) = ccp_give_up user" "user_abort (ccp_wire_cb user) = ccp_abort user"
  "user_broadcast_finished (ccp_wire_cb user) = ccp_broadcast_finished user"
  by (simp_all add: ccp_wire_cb_def)

section \<open>Sending\<close>

text \<open>\<open>data\<close> is empty where the C code passes \<open>NULL\<close>; \<open>need_answer\<close> starts a transaction.\<close>

definition ccp_tx ::
    "('a ccp_board_scheme) CCP_USER_CB \<Rightarrow> CCP_MESSAGE \<Rightarrow> CCP_CHANNEL \<Rightarrow> WIRE_DESTINATION \<Rightarrow>
     u8 list \<Rightarrow> u8 \<Rightarrow> bool \<Rightarrow> 'a ccp_board_scheme \<Rightarrow> bool \<times> 'a ccp_board_scheme" where
  "ccp_tx user msg chan dest data len want_answer w =
     (if unat len + 2 \<le> CCP_MAX_MSG_SIZE then
        let buf = CCP_HDR chan msg # take (unat len) data in
        if dest = WIRE_DEST_BROADCAST then wire_tx (ccp_wire_cb user) dest buf (len + 1) w
        else
          let e = (if dest = WIRE_DEST_LEFT then EARBUD_LEFT else EARBUD_RIGHT) in
          if \<not> busy (ccp w e) then
            case wire_tx (ccp_wire_cb user) dest buf (len + 1) w of
              (True, w) \<Rightarrow>
                (True, if want_answer
                       then upd_ct e (\<lambda>t. t\<lparr>busy := True, poll_count := 0, poll_timeout := 0\<rparr>) w
                       else w)
            | (False, w) \<Rightarrow> (False, w)
          else (False, w)
      else (False, w))"

definition ccp_tx_short_status ::
    "('a ccp_board_scheme) CCP_USER_CB \<Rightarrow> bool \<Rightarrow> bool \<Rightarrow> 'a ccp_board_scheme \<Rightarrow>
     bool \<times> 'a ccp_board_scheme" where
  "ccp_tx_short_status user lid charger w =
     ccp_tx user CCP_MSG_STATUS CCP_CH_CASE_INFO WIRE_DEST_BROADCAST [CCP_STATUS_1 lid charger] 1 False w"

definition ccp_tx_status ::
    "('a ccp_board_scheme) CCP_USER_CB \<Rightarrow> bool \<Rightarrow> bool \<Rightarrow> bool \<Rightarrow> u8 \<Rightarrow> u8 \<Rightarrow> u8 \<Rightarrow> u8 \<Rightarrow> u8 \<Rightarrow>
     'a ccp_board_scheme \<Rightarrow> bool \<times> 'a ccp_board_scheme" where
  "ccp_tx_status user lid connected charging battery_case battery_left battery_right
     charging_left charging_right w =
     ccp_tx user CCP_MSG_STATUS CCP_CH_CASE_INFO WIRE_DEST_BROADCAST
       [CCP_STATUS_1 lid connected, CCP_BATTERY battery_case (of_bool charging),
        CCP_BATTERY battery_left charging_left, CCP_BATTERY battery_right charging_right] 4 False w"

definition ccp_tx_status_request ::
    "('a ccp_board_scheme) CCP_USER_CB \<Rightarrow> earbud \<Rightarrow> 'a ccp_board_scheme \<Rightarrow> bool \<times> 'a ccp_board_scheme" where
  "ccp_tx_status_request user earbud w =
     ccp_tx user CCP_MSG_STATUS_REQ CCP_CH_CASE_INFO (wire_dest earbud) [] 0 True w"

definition ccp_tx_reset ::
    "('a ccp_board_scheme) CCP_USER_CB \<Rightarrow> earbud \<Rightarrow> bool \<Rightarrow> 'a ccp_board_scheme \<Rightarrow>
     bool \<times> 'a ccp_board_scheme" where
  "ccp_tx_reset user earbud factory w =
     ccp_tx user CCP_MSG_RESET CCP_CH_CASE_INFO (wire_dest earbud) [CCP_RESET_R factory] 1 False w"

section \<open>The periodic function\<close>

definition ccp_manage_transaction ::
    "('a ccp_board_scheme) CCP_USER_CB \<Rightarrow> earbud \<Rightarrow> 'a ccp_board_scheme \<Rightarrow> 'a ccp_board_scheme" where
  "ccp_manage_transaction user earbud w =
     (if busy (ccp w earbud) \<and> poll_timeout (ccp w earbud) \<noteq> 0 then
        let w = upd_ct earbud (\<lambda>t. t\<lparr>poll_timeout := poll_timeout t - 1\<rparr>) w in
        if poll_timeout (ccp w earbud) = 0 then
          if poll_count (ccp w earbud) < CCP_MAX_POLLS then
            case wire_tx (ccp_wire_cb user) (wire_dest earbud) [] 0 w of
              (True, w) \<Rightarrow> upd_ct earbud (\<lambda>t. t\<lparr>poll_timeout := CCP_POLL_TIMEOUT,
                                               poll_count := poll_count t + 1\<rparr>) w
            | (False, w) \<Rightarrow> upd_ct earbud (\<lambda>t. t\<lparr>poll_timeout := poll_timeout t + 1\<rparr>) w
          else ccp_give_up user earbud (upd_ct earbud (\<lambda>t. t\<lparr>busy := False\<rparr>) w)
        else w
      else w)"

definition ccp_periodic ::
    "('a ccp_board_scheme) CCP_USER_CB \<Rightarrow> 'a ccp_board_scheme \<Rightarrow> 'a ccp_board_scheme" where
  "ccp_periodic user w =
     ccp_manage_transaction user EARBUD_RIGHT (ccp_manage_transaction user EARBUD_LEFT w)"

section \<open>What CCP relies on, and what it gives the transport\<close>

lemma upd_ct_simps [simp]:
  "ccp (upd_ct e f w) = (ccp w)(e := f (ccp w e))"
  "wire (upd_ct e f w) = wire w" "comms (upd_ct e f w) = comms w"
  "charger_comms_is_active (upd_ct e f w) = charger_comms_is_active w"
  by (simp_all add: upd_ct_def charger_comms_is_active_def)

locale ccp_user =
  fixes user :: "('a ccp_board_scheme) CCP_USER_CB"
  assumes leaves_ccp [simp]:
      "ccp (on_rx_earbud_status user e p b c w) = ccp w" "ccp (on_ack user e w) = ccp w"
      "ccp (on_give_up user e w) = ccp w" "ccp (on_abort user e w) = ccp w"
      "ccp (on_broadcast_finished user w) = ccp w"
    and leaves_wire [simp]:
      "wire (on_rx_earbud_status user e p b c w) = wire w" "wire (on_ack user e w) = wire w"
      "wire (on_give_up user e w) = wire w" "wire (on_abort user e w) = wire w"
      "wire (on_broadcast_finished user w) = wire w"
    and leaves_comms [simp]:
      "comms (on_rx_earbud_status user e p b c w) = comms w" "comms (on_ack user e w) = comms w"
      "comms (on_give_up user e w) = comms w" "comms (on_abort user e w) = comms w"
      "comms (on_broadcast_finished user w) = comms w"

sublocale ccp_user \<subseteq> transport: wire_user "ccp_wire_cb user"
  by unfold_locales
     (simp_all add: ccp_wire_cb_def ccp_rx_def ccp_ack_def ccp_give_up_def ccp_abort_def
       ccp_broadcast_finished_def Let_def)

section \<open>What the layers below leave alone\<close>

lemma ccp_lower [frame]:
  "ccp (charger_comms_transmit device_cfg d n r w) = ccp w"
  "ccp (upd_wt e f w) = ccp w"
  "ccp (wire_tx_stored_message e w) = ccp w"
  "ccp (wire_setup_broadcast d n t w) = ccp w"
  "ccp (wire_send_broadcast w) = ccp w"
proof -
  show *: "ccp (charger_comms_transmit device_cfg d n r w) = ccp w" for d n r and w :: "'a ccp_board_scheme"
    by (simp add: charger_comms_transmit_def device_cfg_def on_tx_start_impl_def Let_def
        gpio_enable_def gpio_set_def gpio_reset_def power_set_run_reason_def timer_comms_tick_start_def)
  show **: "ccp (upd_wt e f w) = ccp w" for e f and w :: "'a ccp_board_scheme"
    by (simp add: upd_wt_def)
  show "ccp (wire_tx_stored_message e w) = ccp w"
    by (simp add: wire_tx_stored_message_def Let_def * **)
  show "ccp (wire_setup_broadcast d n t w) = ccp w"
    by (simp add: wire_setup_broadcast_def Let_def)
  show "ccp (wire_send_broadcast w) = ccp w"
    by (simp add: wire_send_broadcast_def Let_def *)
qed

lemma wire_tx_unicast_ccp:
  "ccp (snd (wire_tx user (wire_dest e) d n w)) = ccp w"
  by (cases e) (auto simp: wire_tx_def Let_def frame)

lemma dest_earbud [simp]:
  "(if wire_dest e = WIRE_DEST_LEFT then EARBUD_LEFT else EARBUD_RIGHT) = e"
  "wire_dest e \<noteq> WIRE_DEST_BROADCAST"
  by (cases e; simp)+

section \<open>Polling\<close>

text \<open>The transport and the modem would take a message for the earbud now.\<close>

definition wire_ready :: "earbud \<Rightarrow> 'a wire_board_scheme \<Rightarrow> bool" where
  "wire_ready e w \<longleftrightarrow> broadcast_len (wire w) = 0 \<and> \<not> charger_comms_is_active w \<and> tx_len (wt e w) = 0"

text \<open>\<open>k\<close> periods after the acknowledgement of a request that wants an answer.\<close>

definition polling_at :: "nat \<Rightarrow> CCP_TRANSACTION \<Rightarrow> bool" where
  "polling_at k t \<longleftrightarrow> busy t \<and> unat (poll_timeout t) = 50 - k mod 50 \<and> unat (poll_count t) = k div 50"

fun poll_rounds ::
    "('a ccp_board_scheme) CCP_USER_CB \<Rightarrow> earbud \<Rightarrow> ('a ccp_board_scheme \<Rightarrow> 'a ccp_board_scheme) list \<Rightarrow>
     'a ccp_board_scheme \<Rightarrow> 'a ccp_board_scheme" where
  "poll_rounds user e [] w = w"
| "poll_rounds user e (env # envs) w = poll_rounds user e envs (ccp_manage_transaction user e (env w))"

lemma poll_rounds_append:
  "poll_rounds user e (as @ bs) w = poll_rounds user e bs (poll_rounds user e as w)"
  by (induction as arbitrary: w) simp_all

text \<open>The earbud acknowledges every poll at once and never answers.\<close>

definition only_acks :: "earbud \<Rightarrow> ('a ccp_board_scheme \<Rightarrow> 'a ccp_board_scheme) \<Rightarrow> bool" where
  "only_acks e env \<longleftrightarrow> (\<forall>w. ccp (env w) = ccp w \<and> wire_ready e (env w))"

lemma fifty_step:
  "Suc k mod 50 = 0 \<Longrightarrow> Suc k div 50 = Suc (k div 50)"
  "Suc k mod 50 \<noteq> 0 \<Longrightarrow> Suc k div 50 = k div 50"
  "Suc k mod 50 \<noteq> 0 \<Longrightarrow> 50 - Suc k mod 50 = 49 - k mod 50"
  "49 - k mod 50 = 0 \<longleftrightarrow> Suc k mod 50 = 0"
  "Suc k mod 50 = 0 \<Longrightarrow> k < 299 \<Longrightarrow> k div 50 < 5"
proof -
  show a: "Suc k mod 50 = 0 \<Longrightarrow> Suc k div 50 = Suc (k div 50)"
    and "Suc k mod 50 \<noteq> 0 \<Longrightarrow> Suc k div 50 = k div 50"
    by (simp_all add: div_Suc)
  have "k mod 50 < 50" by simp
  then show "Suc k mod 50 \<noteq> 0 \<Longrightarrow> 50 - Suc k mod 50 = 49 - k mod 50"
    and "49 - k mod 50 = 0 \<longleftrightarrow> Suc k mod 50 = 0"
    by (auto simp: mod_Suc)
  show "k div 50 < 5" if "Suc k mod 50 = 0" "k < 299"
    using a [OF that(1)] that div_mult_mod_eq [of "Suc k" 50] by linarith
qed

lemma poll_step:
  assumes "polling_at k (ccp w e)" "wire_ready e w" "k < 299"
  shows "polling_at (Suc k) (ccp (ccp_manage_transaction user e w) e)"
    and "Suc k mod 50 = 0 \<Longrightarrow> fst (wire_tx (ccp_wire_cb user) (wire_dest e) [] 0
      (upd_ct e (\<lambda>t. t\<lparr>poll_timeout := poll_timeout t - 1\<rparr>) w)) \<and>
      ccp_manage_transaction user e w =
        upd_ct e (\<lambda>t. t\<lparr>poll_timeout := CCP_POLL_TIMEOUT, poll_count := poll_count t + 1\<rparr>)
          (snd (wire_tx (ccp_wire_cb user) (wire_dest e) []  0
             (upd_ct e (\<lambda>t. t\<lparr>poll_timeout := poll_timeout t - 1\<rparr>) w)))"
proof -
  let ?w = "upd_ct e (\<lambda>t. t\<lparr>poll_timeout := poll_timeout t - 1\<rparr>) w"
  have pt: "unat (poll_timeout (ccp w e)) = 50 - k mod 50" "poll_timeout (ccp w e) \<noteq> 0"
    and b: "busy (ccp w e)" and pc: "unat (poll_count (ccp w e)) = k div 50"
    using assms(1) by (auto simp: polling_at_def unat_eq_0 [symmetric] simp del: unat_eq_0)
  have dec: "unat (poll_timeout (ccp w e) - 1) = 49 - k mod 50"
    using pt by (simp add: unat_minus_1)
  have acc: "fst (wire_tx (ccp_wire_cb user) (wire_dest e) [] 0 ?w)"
    using assms(2) by (simp add: wire_tx_accept_iff wire_ready_def)
  have cond: "poll_timeout (ccp ?w e) = 0 \<longleftrightarrow> Suc k mod 50 = 0"
    using dec unat_eq_0 [of "poll_timeout (ccp w e) - 1"] fifty_step(4) [of k] by simp
  have cnt: "poll_count (ccp ?w e) < CCP_MAX_POLLS" if "Suc k mod 50 = 0"
    using fifty_step(5) [OF that assms(3)] pc by (simp add: word_less_nat_alt)
  have due: "ccp_manage_transaction user e w =
        upd_ct e (\<lambda>t. t\<lparr>poll_timeout := CCP_POLL_TIMEOUT, poll_count := poll_count t + 1\<rparr>)
          (snd (wire_tx (ccp_wire_cb user) (wire_dest e) [] 0 ?w))" if "Suc k mod 50 = 0"
  proof -
    obtain v where v: "wire_tx (ccp_wire_cb user) (wire_dest e) [] 0 ?w = (True, v)"
      using acc by (cases "wire_tx (ccp_wire_cb user) (wire_dest e) [] 0 ?w") auto
    show ?thesis
      using b pt(2) cond cnt that by (simp add: ccp_manage_transaction_def Let_def v)
  qed
  then show "Suc k mod 50 = 0 \<Longrightarrow> fst (wire_tx (ccp_wire_cb user) (wire_dest e) [] 0 ?w) \<and>
      ccp_manage_transaction user e w =
        upd_ct e (\<lambda>t. t\<lparr>poll_timeout := CCP_POLL_TIMEOUT, poll_count := poll_count t + 1\<rparr>)
          (snd (wire_tx (ccp_wire_cb user) (wire_dest e) [] 0 ?w))"
    by (intro conjI acc)
  show "polling_at (Suc k) (ccp (ccp_manage_transaction user e w) e)"
  proof (cases "Suc k mod 50 = 0")
    case True
    note d = fifty_step(1) [OF True]
    have "unat (poll_count (ccp w e) + 1) = Suc (k div 50)"
      using pc fifty_step(5) [OF True assms(3)] by (subst unat_plus_1) simp_all
    with True d show ?thesis using b by (simp add: due polling_at_def wire_tx_unicast_ccp)
  next
    case False
    have "ccp_manage_transaction user e w = ?w"
      using b pt(2) cond False by (simp add: ccp_manage_transaction_def Let_def)
    then show ?thesis
      using b pc dec fifty_step(2,3) [OF False] by (simp add: polling_at_def)
  qed
qed

text \<open>No poll is left: the next time the poll timer runs out the transaction is given up.\<close>

lemma poll_end:
  assumes "polling_at 299 (ccp w e)"
  shows "ccp_manage_transaction user e w =
    ccp_give_up user e (upd_ct e (\<lambda>t. t\<lparr>poll_timeout := 0, busy := False\<rparr>) w)"
proof -
  have "poll_timeout (ccp w e) = 1" "poll_count (ccp w e) = 5" "busy (ccp w e)"
    using assms by (simp_all add: polling_at_def word_unat_eq_iff)
  then show ?thesis by (simp add: ccp_manage_transaction_def Let_def upd_ct_def)
qed

lemma poll_run:
  assumes "\<forall>env \<in> set envs. only_acks e env" "polling_at k (ccp w e)" "k + length envs \<le> 299"
  shows "polling_at (k + length envs) (ccp (poll_rounds user e envs w) e)"
  using assms
proof (induction envs arbitrary: k w)
  case (Cons env envs)
  have "polling_at k (ccp (env w) e)" "wire_ready e (env w)"
    using Cons.prems(1,2) by (auto simp: only_acks_def)
  then have "polling_at (Suc k) (ccp (ccp_manage_transaction user e (env w)) e)"
    using Cons.prems(3) by (intro poll_step) simp_all
  then show ?case using Cons.IH [of "Suc k"] Cons.prems by auto
qed simp

section \<open>Reachable states\<close>

definition ccp_ok :: "(earbud \<Rightarrow> CCP_TRANSACTION) \<Rightarrow> bool" where
  "ccp_ok c \<longleftrightarrow> (\<forall>e. unat (poll_count (c e)) \<le> 5 \<and> unat (poll_timeout (c e)) \<le> 50)"

lemma ccp_ok_initial: "ccp_ok ccp_initial"
  by (simp add: ccp_ok_def ccp_initial_def)

lemma ccp_ok_upd:
  "ccp_ok c \<Longrightarrow> unat (poll_count t) \<le> 5 \<Longrightarrow> unat (poll_timeout t) \<le> 50 \<Longrightarrow> ccp_ok (c(e := t))"
  by (simp add: ccp_ok_def)

lemma ccp_okD: "ccp_ok c \<Longrightarrow> unat (poll_count (c e)) \<le> 5" "ccp_ok c \<Longrightarrow> unat (poll_timeout (c e)) \<le> 50"
  by (simp_all add: ccp_ok_def)

context ccp_user
begin

lemma ccp_ok_callbacks:
  assumes "ccp_ok (ccp w)"
  shows "ccp_ok (ccp (ccp_rx user e d n f w))" "ccp_ok (ccp (ccp_ack user e w))"
    "ccp_ok (ccp (ccp_give_up user e w))" "ccp_ok (ccp (ccp_abort user e w))"
    "ccp_ok (ccp (ccp_broadcast_finished user w))"
  using assms ccp_okD [OF assms]
  by (auto simp: ccp_rx_def ccp_ack_def ccp_give_up_def ccp_abort_def ccp_broadcast_finished_def Let_def
      intro!: ccp_ok_upd)

lemma ccp_ok_wire_tx:
  assumes "ccp_ok (ccp w)"
  shows "ccp_ok (ccp (snd (wire_tx (ccp_wire_cb user) dest d n w)))"
proof (cases "dest = WIRE_DEST_BROADCAST")
  case True
  then show ?thesis
    using assms ccp_ok_callbacks(4)
    by (simp add: wire_tx_def Let_def frame ccp_wire_cb_def)
next
  case False
  then show ?thesis using assms by (simp add: wire_tx_def Let_def frame)
qed

lemma ccp_ok_tx:
  assumes "ccp_ok (ccp w)"
  shows "ccp_ok (ccp (snd (ccp_tx user msg chan dest d n a w)))"
proof -
  have "ccp_ok (ccp v)" if "wire_tx (ccp_wire_cb user) dest' d' n' w = (r, v)" for dest' d' n' r v
    using ccp_ok_wire_tx [OF assms, of dest' d' n'] that by simp
  then show ?thesis
    using assms
    by (auto simp: ccp_tx_def Let_def ccp_ok_wire_tx split: prod.splits bool.splits
        intro!: ccp_ok_upd intro: ccp_okD)
qed

lemma ccp_ok_manage:
  assumes ok: "ccp_ok (ccp w)"
  shows "ccp_ok (ccp (ccp_manage_transaction user e w))"
proof (cases "busy (ccp w e) \<and> poll_timeout (ccp w e) \<noteq> 0")
  case False
  then show ?thesis using ok by (auto simp: ccp_manage_transaction_def)
next
  case True
  let ?w = "upd_ct e (\<lambda>t. t\<lparr>poll_timeout := poll_timeout t - 1\<rparr>) w"
  have "unat (poll_timeout (ccp w e) - 1) = unat (poll_timeout (ccp w e)) - 1"
    using True by (intro unat_minus_1) simp
  then have le: "unat (poll_timeout (ccp w e) - 1) \<le> 49" using ccp_okD [OF ok, of e] by simp
  then have w: "ccp_ok (ccp ?w)" using ok ccp_okD [OF ok, of e] by (auto intro!: ccp_ok_upd)
  have tx: "ccp (snd (wire_tx (ccp_wire_cb user) (wire_dest e) [] 0 ?w)) = ccp ?w"
    by (rule wire_tx_unicast_ccp)
  obtain r v where v: "wire_tx (ccp_wire_cb user) (wire_dest e) [] 0 ?w = (r, v)"
    by (cases "wire_tx (ccp_wire_cb user) (wire_dest e) [] 0 ?w")
  then have cv: "ccp v = ccp ?w" using tx by simp
  have pc: "unat (poll_count (ccp w e) + 1) \<le> 5" if "poll_count (ccp w e) < 5"
  proof -
    have "unat (poll_count (ccp w e)) < 5" using that by (simp add: word_less_nat_alt)
    then show ?thesis by (subst unat_plus_1) simp_all
  qed
  consider "poll_timeout (ccp ?w e) \<noteq> 0" | "poll_timeout (ccp ?w e) = 0" "poll_count (ccp ?w e) < 5"
    | "poll_timeout (ccp ?w e) = 0" "\<not> poll_count (ccp ?w e) < 5" by blast
  then show ?thesis
  proof cases
    case 1
    then show ?thesis using True w by (simp add: ccp_manage_transaction_def Let_def)
  next
    case 2
    then show ?thesis
      using True ok ccp_okD [OF ok, of e] pc
      by (cases r) (auto simp: ccp_manage_transaction_def Let_def v cv intro!: ccp_ok_upd)
  next
    case 3
    have "ccp_ok (ccp (upd_ct e (\<lambda>t. t\<lparr>busy := False\<rparr>) ?w))"
      using ok ccp_okD [OF ok, of e] le by (auto intro!: ccp_ok_upd)
    from ccp_ok_callbacks(3) [OF this, of e] show ?thesis
      using True 3 by (simp add: ccp_manage_transaction_def Let_def)
  qed
qed

lemma ccp_ok_periodic: "ccp_ok (ccp w) \<Longrightarrow> ccp_ok (ccp (ccp_periodic user w))"
  by (simp add: ccp_periodic_def ccp_ok_manage)

end

context ccp_user
begin

lemma wire_ok_ccp_tx:
  assumes "wire_ok (wire w)" "unat n \<le> length d"
  shows "wire_ok (wire (snd (ccp_tx user msg chan dest d n a w)))"
proof -
  let ?buf = "CCP_HDR chan msg # take (unat n) d"
  have "unat (n + 1) = unat n + 1" if "unat n + 2 \<le> 20"
    using that by (subst unat_plus_1) simp_all
  then have "wire_ok (wire (snd (wire_tx (ccp_wire_cb user) dest' ?buf (n + 1) w)))"
    if "unat n + 2 \<le> 20" for dest'
    using that assms by (intro transport.wire_ok_tx) simp_all
  then have ok: "wire_ok (wire v)"
    if "unat n + 2 \<le> 20" "wire_tx (ccp_wire_cb user) dest' ?buf (n + 1) w = (r, v)" for dest' r v
    using that by (metis snd_conv)
  show ?thesis
    using assms(1)
    by (auto simp: ccp_tx_def Let_def split: prod.splits bool.splits intro: ok)
qed

lemma wire_ok_ccp_manage:
  assumes "wire_ok (wire w)"
  shows "wire_ok (wire (ccp_manage_transaction user e w))"
proof -
  let ?w = "upd_ct e (\<lambda>t. t\<lparr>poll_timeout := poll_timeout t - 1\<rparr>) w"
  obtain r v where v: "wire_tx (ccp_wire_cb user) (wire_dest e) [] 0 ?w = (r, v)"
    by (cases "wire_tx (ccp_wire_cb user) (wire_dest e) [] 0 ?w")
  have "wire_ok (wire v)"
    using transport.wire_ok_tx [of ?w 0 "[]" "wire_dest e"] assms v by simp
  then show ?thesis
    using assms by (cases r) (simp_all add: ccp_manage_transaction_def Let_def v ccp_give_up_def)
qed

lemma wire_ok_ccp_periodic: "wire_ok (wire w) \<Longrightarrow> wire_ok (wire (ccp_periodic user w))"
  by (simp add: ccp_periodic_def wire_ok_ccp_manage)

lemma ccp_ok_process_rx:
  assumes "ccp_ok (ccp w)"
  shows "ccp_ok (ccp (wire_process_rx (ccp_wire_cb user) e w))"
  using assms ccp_ok_callbacks(1,2)
  by (auto simp: wire_process_rx_def Let_def frame intro!: ccp_ok_callbacks(1,2))

lemma ccp_ok_wire_manage:
  assumes "ccp_ok (ccp w)"
  shows "ccp_ok (ccp (wire_manage_transaction (ccp_wire_cb user) e w))"
proof -
  define v where "v = wire_process_rx (ccp_wire_cb user) e w"
  have "ccp_ok (ccp v)" unfolding v_def by (rule ccp_ok_process_rx [OF assms])
  then show ?thesis
    by (auto simp: wire_manage_transaction_def v_def [symmetric] Let_def frame earbuds_def
        intro!: ccp_ok_callbacks(3))
qed

lemma ccp_ok_wire_periodic: "ccp_ok (ccp w) \<Longrightarrow> ccp_ok (ccp (wire_periodic (ccp_wire_cb user) w))"
  by (auto simp: wire_periodic_def Let_def frame ccp_ok_wire_manage intro!: ccp_ok_callbacks(5))

end

end
