(* ===== verification/Single_Float.thy ===== *)
theory Single_Float
  imports Complex_Main Prelude
begin

text \<open>
  The single-precision arithmetic that \<^verbatim>\<open>case.c\<close> uses for the battery voltage: every C operation
  on \<open>float\<close> is the exact rational operation followed by rounding to 24 significant bits, to
  nearest, ties to even. All intermediate values of that computation are zero or normal numbers,
  so subnormals, infinities and NaN do not occur. Shown: rounding is monotone.
\<close>

definition pow2 :: "int \<Rightarrow> rat" where
  "pow2 k = (if 0 \<le> k then 2 ^ nat k else 1 / 2 ^ nat (- k))"

text \<open>The binary logarithm of a positive rational, rounded down, found from its parts.\<close>

fun nat_bits :: "nat \<Rightarrow> nat" where
  "nat_bits n = (if n = 0 then 0 else Suc (nat_bits (n div 2)))"

declare nat_bits.simps [simp del]

definition rat_log :: "rat \<Rightarrow> int" where
  "rat_log q =
     (let (n, d) = quotient_of q; k = int (nat_bits (nat n)) - int (nat_bits (nat d))
      in if pow2 k \<le> q then k else k - 1)"

definition round_even :: "rat \<Rightarrow> int" where
  "round_even x =
     (let f = \<lfloor>x\<rfloor>; d = x - of_int f in
      if d < 1 / 2 then f else if d > 1 / 2 then f + 1 else if even f then f else f + 1)"

definition round_single :: "rat \<Rightarrow> rat" where
  "round_single q =
     (if q \<le> 0 then 0
      else let e = rat_log q - 23 in of_int (round_even (q / pow2 e)) * pow2 e)"

section \<open>Binary logarithm\<close>

lemma pow2_pos [simp]: "0 < pow2 k"
  by (simp add: pow2_def)

lemma pow2_nonneg: "0 \<le> pow2 k"
  by (simp add: less_imp_le)

lemma pow2_powi: "pow2 k = 2 powi k"
  by (cases "0 \<le> k") (simp_all only: pow2_def power_int_def divide_inverse power_inverse mult_1_left if_True if_False)

lemma pow2_add: "pow2 (a + b) = pow2 a * pow2 b"
  by (simp add: pow2_powi power_int_add)

lemma pow2_Suc: "pow2 (k + 1) = 2 * pow2 k"
  using pow2_add [of k 1] by (simp add: pow2_def)

lemma pow2_mono: "a \<le> b \<Longrightarrow> pow2 a \<le> pow2 b"
  unfolding pow2_powi by (rule power_int_increasing) simp_all

lemma nat_bits_bounds: "0 < n \<Longrightarrow> 2 ^ (nat_bits n - 1) \<le> n \<and> n < 2 ^ nat_bits n"
proof (induction n rule: nat_bits.induct)
  case (1 n)
  show ?case
  proof (cases "n div 2 = 0")
    case True
    then have "n = 1" using 1(2) by simp
    then show ?thesis by (simp add: nat_bits.simps)
  next
    case False
    let ?b = "nat_bits (n div 2)"
    have ih: "2 ^ (?b - 1) \<le> n div 2" "n div 2 < 2 ^ ?b" using 1 False by simp_all
    have "0 < ?b" using False by (simp add: nat_bits.simps [of "n div 2"])
    then have "(2::nat) ^ ?b = 2 * 2 ^ (?b - 1)" by (cases ?b) simp_all
    moreover define x :: nat where "x = 2 ^ (?b - 1)"
    ultimately have "2 * x \<le> n" "n < 2 * (2 * x)" "2 ^ ?b = 2 * x" using ih by linarith+
    then show ?thesis using 1(2) by (simp add: nat_bits.simps [of n])
  qed
qed

lemma rat_log_bounds:
  assumes "0 < q"
  shows "pow2 (rat_log q) \<le> q" "q < pow2 (rat_log q + 1)"
proof -
  obtain n d where nd: "quotient_of q = (n, d)" by (cases "quotient_of q")
  then have d: "0 < d" and q: "q = of_int n / of_int d"
    using quotient_of_denom_pos quotient_of_div by blast+
  have n: "0 < n" using assms d q by (simp add: zero_less_divide_iff)
  define N D where "N = nat_bits (nat n)" and "D = nat_bits (nat d)"
  have bn: "2 ^ (N - 1) \<le> nat n \<and> nat n < 2 ^ N" and bd: "2 ^ (D - 1) \<le> nat d \<and> nat d < 2 ^ D"
    unfolding N_def D_def using n d by (intro nat_bits_bounds; simp)+
  have pos: "0 < N" "0 < D"
    using n d by (simp_all add: N_def D_def nat_bits.simps [of "nat n"] nat_bits.simps [of "nat d"])
  have p: "pow2 (int a) = 2 ^ a" for a by (simp add: pow2_def)
  have ub: "q < pow2 (int N - int D + 1)"
  proof -
    have "(of_int n :: rat) < 2 ^ N" using bn by (metis nat_less_iff n of_int_less_iff of_int_numeral of_int_power
        less_imp_le nat_less_numeral_power_cancel_iff)
    moreover have "(2 :: rat) ^ (D - 1) \<le> of_int d" using bd d
      by (metis numeral_power_le_nat_cancel_iff of_int_le_iff of_int_numeral of_int_power)
    ultimately have "q < 2 ^ N / 2 ^ (D - 1)"
      unfolding q using n by (intro frac_less) simp_all
    also have "\<dots> = pow2 (int N - int D + 1)"
    proof -
      have "int N - int D + 1 + int (D - 1) = int N" using pos by (simp add: of_nat_diff)
      then have "2 ^ N = pow2 (int N - int D + 1) * 2 ^ (D - 1)"
        using pow2_add [of "int N - int D + 1" "int (D - 1)"] by (simp only: p)
      then show ?thesis by simp
    qed
    finally show ?thesis .
  qed
  have lb: "pow2 (int N - int D - 1) < q"
  proof -
    have "(2 :: rat) ^ (N - 1) \<le> of_int n" using bn n
      by (metis numeral_power_le_nat_cancel_iff of_int_le_iff of_int_numeral of_int_power)
    moreover have "(of_int d :: rat) < 2 ^ D" using bd d
      by (metis nat_less_numeral_power_cancel_iff of_int_less_iff of_int_numeral of_int_power)
    ultimately have "2 ^ (N - 1) / 2 ^ D < q"
      unfolding q using d n by (intro frac_less2) simp_all
    moreover have "pow2 (int N - int D - 1) = 2 ^ (N - 1) / 2 ^ D"
    proof -
      have "int N - int D - 1 + int D = int (N - 1)" using pos by (simp add: of_nat_diff)
      then have "2 ^ (N - 1) = pow2 (int N - int D - 1) * 2 ^ D"
        using pow2_add [of "int N - int D - 1" "int D"] by (simp only: p)
      then show ?thesis by simp
    qed
    ultimately show ?thesis by simp
  qed
  show "pow2 (rat_log q) \<le> q" "q < pow2 (rat_log q + 1)"
    using ub lb by (simp_all add: rat_log_def nd Let_def N_def [symmetric] D_def [symmetric])
qed

lemma rat_log_mono:
  assumes "0 < q" "q \<le> r"
  shows "rat_log q \<le> rat_log r"
proof (rule ccontr)
  assume "\<not> rat_log q \<le> rat_log r"
  then have "pow2 (rat_log r + 1) \<le> pow2 (rat_log q)" by (intro pow2_mono) simp
  with rat_log_bounds [of q] rat_log_bounds [of r] assms show False by simp
qed

section \<open>Rounding is monotone\<close>

lemma round_even_bounds: "\<lfloor>x\<rfloor> \<le> round_even x" "round_even x \<le> \<lfloor>x\<rfloor> + 1" "round_even (of_int n) = n"
  by (simp_all add: round_even_def Let_def)

lemma round_even_mono:
  assumes "x \<le> y"
  shows "round_even x \<le> round_even y"
proof (cases "\<lfloor>x\<rfloor> = \<lfloor>y\<rfloor>")
  case True
  then show ?thesis using assms by (auto simp: round_even_def Let_def)
next
  case False
  then have "\<lfloor>x\<rfloor> + 1 \<le> \<lfloor>y\<rfloor>" using floor_mono [OF assms] by simp
  then show ?thesis using round_even_bounds(2) [of x] round_even_bounds(1) [of y] by linarith
qed

lemma round_single_nonneg: "0 \<le> round_single q"
proof (cases "q \<le> 0")
  case False
  let ?e = "rat_log q - 23"
  have "0 \<le> q / pow2 ?e" using False by (intro divide_nonneg_pos) simp_all
  then have "0 \<le> \<lfloor>q / pow2 ?e\<rfloor>" by simp
  then have "0 \<le> round_even (q / pow2 ?e)" using round_even_bounds(1) [of "q / pow2 ?e"] by linarith
  then show ?thesis using pow2_nonneg [of ?e] by (simp add: round_single_def Let_def mult_nonneg_nonneg)
qed (simp add: round_single_def)

lemma round_single_binade:
  assumes "0 < q"
  shows "pow2 (rat_log q) \<le> round_single q" "round_single q \<le> pow2 (rat_log q + 1)"
proof -
  let ?k = "rat_log q" and ?e = "rat_log q - 23"
  have s: "pow2 (?k + j) = of_int (2 ^ nat (23 + j)) * pow2 ?e" if "j \<in> {0, 1}" for j
  proof -
    have "pow2 (?k + j) = pow2 (23 + j) * pow2 ?e"
      using pow2_add [of "23 + j" ?e] by (simp add: add.commute)
    moreover have "pow2 (23 + j) = of_int (2 ^ nat (23 + j))" using that by (auto simp: pow2_def)
    ultimately show ?thesis by simp
  qed
  have lo: "of_int (2 ^ 23) \<le> q / pow2 ?e" and hi: "q / pow2 ?e \<le> of_int (2 ^ 24)"
    using rat_log_bounds [OF assms] s [of 0] s [of 1] pow2_pos [of ?e]
    by (simp_all add: pos_le_divide_eq pos_divide_le_eq)
  have "2 ^ 23 \<le> round_even (q / pow2 ?e)" "round_even (q / pow2 ?e) \<le> 2 ^ 24"
    using round_even_mono [OF lo] round_even_mono [OF hi]
      round_even_bounds(3) [of "2 ^ 23"] round_even_bounds(3) [of "2 ^ 24"] by linarith+
  then have "(of_int (2 ^ 23) :: rat) \<le> of_int (round_even (q / pow2 ?e))"
    "(of_int (round_even (q / pow2 ?e)) :: rat) \<le> of_int (2 ^ 24)"
    by (simp_all only: of_int_le_iff)
  then show "pow2 ?k \<le> round_single q" "round_single q \<le> pow2 (?k + 1)"
    using assms s [of 0] s [of 1] pow2_pos [of ?e]
    by (simp_all add: round_single_def Let_def mult_right_mono)
qed

lemma round_single_mono:
  assumes "q \<le> r"
  shows "round_single q \<le> round_single r"
proof (cases "0 < q")
  case False
  then have "round_single q = 0" by (simp add: round_single_def)
  then show ?thesis using round_single_nonneg by simp
next
  case True
  then have r: "0 < r" using assms by simp
  show ?thesis
  proof (cases "rat_log q = rat_log r")
    case eq: True
    have "q / pow2 (rat_log r - 23) \<le> r / pow2 (rat_log r - 23)"
      by (rule divide_right_mono [OF assms pow2_nonneg])
    then show ?thesis
      using True r pow2_nonneg [of "rat_log r - 23"]
      by (simp add: round_single_def Let_def eq mult_right_mono round_even_mono)
  next
    case False
    then have "rat_log q + 1 \<le> rat_log r" using rat_log_mono [OF True assms] by simp
    then have "pow2 (rat_log q + 1) \<le> pow2 (rat_log r)" by (rule pow2_mono)
    then show ?thesis
      using round_single_binade(2) [OF True] round_single_binade(1) [OF r] by simp
  qed
qed

text \<open>Rounding a number whose binade is known.\<close>

lemma rat_log_eq:
  assumes "pow2 k \<le> q" "q < pow2 (k + 1)"
  shows "rat_log q = k"
proof -
  have "0 < q" using pow2_pos assms(1) by (rule less_le_trans)
  note b = rat_log_bounds [OF this]
  have "\<not> rat_log q < k" using pow2_mono [of "rat_log q + 1" k] b(2) assms(1) by linarith
  moreover have "\<not> k < rat_log q" using pow2_mono [of "k + 1" "rat_log q"] b(1) assms(2) by linarith
  ultimately show ?thesis by linarith
qed

lemma round_even_near:
  assumes "of_int n - 1 / 2 < x" "x < of_int n + 1 / 2"
  shows "round_even x = n"
proof -
  consider "\<lfloor>x\<rfloor> = n" | "\<lfloor>x\<rfloor> = n - 1" using assms by linarith
  then show ?thesis by cases (use assms in \<open>simp_all add: round_even_def Let_def\<close>)
qed

lemma round_single_eq:
  assumes "pow2 (e + 23) \<le> q" "q < pow2 (e + 24)"
    and "of_int n - 1 / 2 < q / pow2 e" "q / pow2 e < of_int n + 1 / 2"
  shows "round_single q = of_int n * pow2 e"
proof -
  have "0 < q" using pow2_pos assms(1) by (rule less_le_trans)
  moreover have "rat_log q = e + 23" using assms(1,2) by (intro rat_log_eq) (simp_all add: add.commute)
  ultimately show ?thesis using round_even_near [OF assms(3,4)] by (simp add: round_single_def Let_def)
qed

end
