(* ===== verification/Case_Status.thy ===== *)
theory Case_Status
  imports Ccp Single_Float
begin

text \<open>
  \<^verbatim>\<open>case.c\<close>: the application of the charger case. It reads lid and charger events, measures the
  case battery, asks one earbud after the other for its status, broadcasts the result, and runs
  the earbud reset sequence. The factory calibration word of the converter, read from a fixed
  address, is the parameter \<open>cal\<close>. Converting a voltage beyond the range of \<open>uint16_t\<close> and
  indexing an array with an unchecked number are undefined in C and give \<open>None\<close>.
\<close>

definition "CASE_RESET_DELAY_TIME = (100 :: u16)"
definition "CASE_BATTERY_READ_DELAY_TIME = (200 :: u16)"
definition "CASE_BATTERY_ADC_DELAY_TIME = (30 :: u16)"
definition "BATTERY_MV_100_PERCENT = (4200 :: nat)"
definition "BATTERY_MV_0_PERCENT = (3400 :: nat)"

lemmas case_constant_defs [simp] =
  CASE_RESET_DELAY_TIME_def CASE_BATTERY_READ_DELAY_TIME_def CASE_BATTERY_ADC_DELAY_TIME_def
  BATTERY_MV_100_PERCENT_def BATTERY_MV_0_PERCENT_def

section \<open>State\<close>

datatype CASE_STATE =
  CS_IDLE | CS_STATUS_WANTED | CS_SENT_STATUS_REQUEST | CS_RESET_WANTED | CS_SENT_RESET
| CS_RESET_DELAY | CS_RESETTING

record CASE_EARBUD_STATUS =
  es_state :: CASE_STATE
  es_time :: u16
  es_valid :: bool
  es_pp :: u8
  es_battery :: u8
  es_charging :: u8
  es_ack :: bool
  es_give_up :: bool
  es_abort :: bool

datatype CASE_BATTERY_STATE =
  CASE_BATTERY_IDLE | CASE_BATTERY_START_READING | CASE_BATTERY_READING
| CASE_BATTERY_STOP_READING | CASE_BATTERY_DONE

record CASE_BATTERY_STATUS =
  bat_state :: CASE_BATTERY_STATE
  current_battery_percent :: u8
  delay_ticks :: u16
  bat_led :: bool

record case_statics =
  lid_now :: bool
  lid_before :: bool
  chg_now :: bool
  chg_before :: bool
  case_event :: bool
  case_dfu_planned :: bool
  case_earbud_status :: "earbud \<Rightarrow> CASE_EARBUD_STATUS"
  case_battery_status :: CASE_BATTERY_STATUS

record case_board = ccp_board +
  cs :: case_statics

abbreviation ces :: "earbud \<Rightarrow> 'a case_board_scheme \<Rightarrow> CASE_EARBUD_STATUS" where
  "ces e w \<equiv> case_earbud_status (cs w) e"

abbreviation bat :: "'a case_board_scheme \<Rightarrow> CASE_BATTERY_STATUS" where
  "bat w \<equiv> case_battery_status (cs w)"

definition upd_ces ::
    "earbud \<Rightarrow> (CASE_EARBUD_STATUS \<Rightarrow> CASE_EARBUD_STATUS) \<Rightarrow> 'a case_board_scheme \<Rightarrow> 'a case_board_scheme" where
  "upd_ces e f w =
     w\<lparr>cs := (cs w)\<lparr>case_earbud_status := (case_earbud_status (cs w))(e := f (ces e w))\<rparr>\<rparr>"

definition upd_bat ::
    "(CASE_BATTERY_STATUS \<Rightarrow> CASE_BATTERY_STATUS) \<Rightarrow> 'a case_board_scheme \<Rightarrow> 'a case_board_scheme" where
  "upd_bat f w = w\<lparr>cs := (cs w)\<lparr>case_battery_status := f (bat w)\<rparr>\<rparr>"

definition case_initial :: case_statics where
  "case_initial = \<lparr>lid_now = False, lid_before = False, chg_now = False, chg_before = False,
     case_event = True, case_dfu_planned = False,
     case_earbud_status = (\<lambda>_. \<lparr>es_state = CS_IDLE, es_time = 0, es_valid = False, es_pp = 0,
        es_battery = 0, es_charging = 0, es_ack = False, es_give_up = False, es_abort = False\<rparr>),
     case_battery_status = \<lparr>bat_state = CASE_BATTERY_IDLE, current_battery_percent = 0,
        delay_ticks = 0, bat_led = False\<rparr>\<rparr>"

fun case_earbud_rr :: "earbud \<Rightarrow> u16" where
  "case_earbud_rr EARBUD_LEFT = POWER_RR_STATUS_L"
| "case_earbud_rr EARBUD_RIGHT = POWER_RR_STATUS_R"

section \<open>Battery voltage\<close>

definition vbat_millivolts :: "u16 \<Rightarrow> u16 \<Rightarrow> u16 \<Rightarrow> rat" where
  "vbat_millivolts cal ref vbat =
     (let ratio = round_single (rat_of_nat (unat cal) / rat_of_nat (unat ref));
          scaled = round_single (round_single (66 / 10) * ratio);
          reading = round_single (rat_of_nat (unat vbat) / 4095);
          volts = round_single (scaled * reading)
      in round_single (volts * 1000))"

definition get_vbat_mv :: "u16 \<Rightarrow> 'a board_scheme \<Rightarrow> u16 option" where
  "get_vbat_mv cal w =
     (let vbat = adc_read ADC_VBAT w; ref = adc_read ADC_VREF w;
          ref = (if ref = 0 then cal else ref);
          mv = \<lfloor>vbat_millivolts cal ref vbat\<rfloor>
      in if mv < 2 ^ 16 then Some (of_int mv) else None)"

definition percent_of_mv :: "nat \<Rightarrow> nat" where
  "percent_of_mv mv =
     (if mv > BATTERY_MV_0_PERCENT then
        if mv < BATTERY_MV_100_PERCENT then
          (100 * (mv - BATTERY_MV_0_PERCENT) + (BATTERY_MV_100_PERCENT - BATTERY_MV_0_PERCENT) div 2)
            div (BATTERY_MV_100_PERCENT - BATTERY_MV_0_PERCENT)
        else 100
      else 0)"

definition case_battery_percentage :: "u16 \<Rightarrow> 'a board_scheme \<Rightarrow> u8 option" where
  "case_battery_percentage cal w = map_option (\<lambda>mv. of_nat (percent_of_mv (unat mv))) (get_vbat_mv cal w)"

section \<open>Events and callbacks\<close>

definition case_event_occurred :: "'a case_board_scheme \<Rightarrow> 'a case_board_scheme" where
  "case_event_occurred w =
     (let w = power_set_run_reason POWER_RR_CASE_EVENT w in w\<lparr>cs := (cs w)\<lparr>case_event := True\<rparr>\<rparr>)"

definition case_init :: "'a case_board_scheme \<Rightarrow> 'a case_board_scheme" where
  "case_init w =
     upd_ces EARBUD_RIGHT (\<lambda>s. s\<lparr>es_battery := 0xFF\<rparr>) (upd_ces EARBUD_LEFT (\<lambda>s. s\<lparr>es_battery := 0xFF\<rparr>) w)"

definition case_rx_earbud_status ::
    "earbud \<Rightarrow> u8 \<Rightarrow> u8 \<Rightarrow> u8 \<Rightarrow> 'a case_board_scheme \<Rightarrow> 'a case_board_scheme" where
  "case_rx_earbud_status earbud pp battery charging =
     upd_ces earbud (\<lambda>s. s\<lparr>es_valid := True, es_pp := pp, es_battery := battery, es_charging := charging\<rparr>)"

definition case_new_state :: "earbud \<Rightarrow> CASE_STATE \<Rightarrow> 'a case_board_scheme \<Rightarrow> 'a case_board_scheme" where
  "case_new_state earbud new_state w =
     (let w = upd_ces earbud (\<lambda>s. s\<lparr>es_state := new_state, es_time := 0\<rparr>) w in
      if es_state (ces earbud w) = CS_IDLE then power_clear_run_reason (case_earbud_rr earbud) w
      else power_set_run_reason (case_earbud_rr earbud) w)"

definition case_start_status_sequence ::
    "earbud \<Rightarrow> 'a case_board_scheme \<Rightarrow> bool \<times> 'a case_board_scheme" where
  "case_start_status_sequence earbud w =
     (if es_state (ces earbud w) = CS_IDLE then (True, case_new_state earbud CS_STATUS_WANTED w)
      else (False, w))"

definition case_status_time :: "bool \<Rightarrow> 'a case_board_scheme \<Rightarrow> 'a case_board_scheme" where
  "case_status_time led_wanted w =
     (if \<not> case_dfu_planned (cs w) then
        let w = (if bat_state (bat w) = CASE_BATTERY_IDLE \<or> bat_state (bat w) = CASE_BATTERY_DONE
                 then upd_bat (\<lambda>b. b\<lparr>bat_state := CASE_BATTERY_START_READING, bat_led := led_wanted\<rparr>) w
                 else if led_wanted then upd_bat (\<lambda>b. b\<lparr>bat_led := True\<rparr>) w
                 else w);
            (started, w) = case_start_status_sequence EARBUD_LEFT w
        in if \<not> started then snd (case_start_status_sequence EARBUD_RIGHT w) else w
      else w)"

definition case_ack :: "earbud \<Rightarrow> 'a case_board_scheme \<Rightarrow> 'a case_board_scheme" where
  "case_ack earbud = upd_ces earbud (\<lambda>s. s\<lparr>es_ack := True\<rparr>)"

definition case_give_up :: "earbud \<Rightarrow> 'a case_board_scheme \<Rightarrow> 'a case_board_scheme" where
  "case_give_up earbud = upd_ces earbud (\<lambda>s. s\<lparr>es_give_up := True\<rparr>)"

definition case_abort :: "earbud \<Rightarrow> 'a case_board_scheme \<Rightarrow> 'a case_board_scheme" where
  "case_abort earbud = upd_ces earbud (\<lambda>s. s\<lparr>es_abort := True\<rparr>)"

definition case_broadcast_finished :: "'a case_board_scheme \<Rightarrow> 'a case_board_scheme" where
  "case_broadcast_finished w = power_clear_run_reason POWER_RR_BROADCAST w"

definition case_ccp_cb :: "('a case_board_scheme) CCP_USER_CB" where
  "case_ccp_cb = \<lparr>on_rx_earbud_status = case_rx_earbud_status, on_ack = case_ack,
     on_give_up = case_give_up, on_abort = case_abort, on_broadcast_finished = case_broadcast_finished\<rparr>"

definition case_allow_dfu :: "'a case_board_scheme \<Rightarrow> bool \<times> 'a case_board_scheme" where
  "case_allow_dfu w =
     (es_state (ces EARBUD_LEFT w) = CS_IDLE \<and> es_state (ces EARBUD_RIGHT w) = CS_IDLE,
      w\<lparr>cs := (cs w)\<lparr>case_dfu_planned := True\<rparr>\<rparr>)"

definition case_dfu_finished :: "'a case_board_scheme \<Rightarrow> 'a case_board_scheme" where
  "case_dfu_finished w = w\<lparr>cs := (cs w)\<lparr>case_dfu_planned := False\<rparr>\<rparr>"

section \<open>The periodic function\<close>

definition case_battery_status_periodic ::
    "u16 \<Rightarrow> 'a case_board_scheme \<Rightarrow> 'a case_board_scheme option" where
  "case_battery_status_periodic cal w =
     (case bat_state (bat w) of
        CASE_BATTERY_START_READING \<Rightarrow>
          Some (upd_bat (\<lambda>b. b\<lparr>delay_ticks := CASE_BATTERY_READ_DELAY_TIME,
                               bat_state := CASE_BATTERY_READING\<rparr>)
                 (gpio_enable GPIO_VBAT_MONITOR_ON_OFF w))
      | CASE_BATTERY_READING \<Rightarrow>
          Some (if delay_ticks (bat w) = 0
                then upd_bat (\<lambda>b. b\<lparr>delay_ticks := CASE_BATTERY_ADC_DELAY_TIME,
                                    bat_state := CASE_BATTERY_STOP_READING\<rparr>) (adc_start_measuring w)
                else upd_bat (\<lambda>b. b\<lparr>delay_ticks := delay_ticks b - 1\<rparr>) w)
      | CASE_BATTERY_STOP_READING \<Rightarrow>
          if delay_ticks (bat w) = 0 then
            case case_battery_percentage cal w of
              None \<Rightarrow> None
            | Some percent \<Rightarrow>
                let w = upd_bat (\<lambda>b. b\<lparr>current_battery_percent := percent\<rparr>) w;
                    w = gpio_disable GPIO_VBAT_MONITOR_ON_OFF w;
                    w = upd_bat (\<lambda>b. b\<lparr>bat_state := CASE_BATTERY_DONE\<rparr>) w
                in Some (if bat_led (bat w)
                         then led_indicate_battery (current_battery_percent (bat w)) w else w)
          else Some (upd_bat (\<lambda>b. b\<lparr>delay_ticks := delay_ticks b - 1\<rparr>) w)
      | CASE_BATTERY_IDLE \<Rightarrow> Some w
      | CASE_BATTERY_DONE \<Rightarrow> Some w)"

text \<open>
  The event branch of \<open>case_periodic\<close>: the inputs are read, an opened lid starts a status exchange,
  a change is announced, and the run reason is released unless another event has come in.
\<close>

definition case_read_inputs :: "'a case_board_scheme \<Rightarrow> 'a case_board_scheme" where
  "case_read_inputs w =
     w\<lparr>cs := (cs w)\<lparr>case_event := False, lid_now := gpio_active GPIO_MAG_SENSOR w,
                    chg_now := charger_connected w\<rparr>\<rparr>"

definition case_lid_opened :: "'a case_board_scheme \<Rightarrow> 'a case_board_scheme" where
  "case_lid_opened w =
     (if lid_now (cs w) \<and> lid_now (cs w) \<noteq> lid_before (cs w) then case_status_time True w else w)"

definition case_announce :: "'a case_board_scheme \<Rightarrow> 'a case_board_scheme" where
  "case_announce w =
     (if lid_now (cs w) \<noteq> lid_before (cs w) \<or> chg_now (cs w) \<noteq> chg_before (cs w) then
        let (sent, w) = ccp_tx_short_status case_ccp_cb (lid_now (cs w)) (chg_now (cs w)) w in
        if sent then
          let w = power_set_run_reason POWER_RR_BROADCAST w
          in w\<lparr>cs := (cs w)\<lparr>lid_before := lid_now (cs w), chg_before := chg_now (cs w)\<rparr>\<rparr>
        else w
      else w)"

definition case_handle_event :: "'a case_board_scheme \<Rightarrow> 'a case_board_scheme" where
  "case_handle_event w =
     (let w = case_announce (case_lid_opened (case_read_inputs w))
      in if \<not> case_event (cs w) then power_clear_run_reason POWER_RR_CASE_EVENT w else w)"

text \<open>The \<open>switch\<close> of \<open>case_periodic\<close> for one earbud.\<close>

definition case_earbud_switch :: "earbud \<Rightarrow> 'a case_board_scheme \<Rightarrow> 'a case_board_scheme" where
  "case_earbud_switch e w =
     (case es_state (ces e w) of
        CS_IDLE \<Rightarrow> w
      | CS_RESET_WANTED \<Rightarrow>
          let (sent, w) = ccp_tx_reset case_ccp_cb e True w
          in if sent then case_new_state e CS_SENT_RESET w else w
      | CS_SENT_RESET \<Rightarrow>
          if es_ack (ces e w) then
            case_new_state e CS_RESET_DELAY
              (upd_ces e (\<lambda>s. s\<lparr>es_valid := False, es_battery := 0xFF\<rparr>) w)
          else if es_abort (ces e w) then case_new_state e CS_RESET_WANTED w
          else if es_give_up (ces e w) then case_new_state e CS_IDLE w
          else w
      | CS_RESET_DELAY \<Rightarrow>
          if es_time (ces e w) > CASE_RESET_DELAY_TIME then
            let (sent, w) = ccp_tx_status_request case_ccp_cb e w
            in if sent then case_new_state e CS_RESETTING w else w
          else w
      | CS_RESETTING \<Rightarrow>
          if es_valid (ces e w) then case_new_state e CS_IDLE w
          else if es_give_up (ces e w) \<or> es_abort (ces e w) then case_new_state e CS_RESET_DELAY w
          else w
      | CS_STATUS_WANTED \<Rightarrow>
          let w = upd_ces e (\<lambda>s. s\<lparr>es_valid := False, es_battery := 0xFF\<rparr>) w;
              (sent, w) = ccp_tx_status_request case_ccp_cb e w
          in if sent then case_new_state e CS_SENT_STATUS_REQUEST w else w
      | CS_SENT_STATUS_REQUEST \<Rightarrow>
          if es_valid (ces e w) \<and> bat_state (bat w) = CASE_BATTERY_DONE then
            let (sent, w) = ccp_tx_status case_ccp_cb (lid_now (cs w)) (chg_now (cs w))
                   (charger_is_charging w) (current_battery_percent (bat w))
                   (es_battery (ces EARBUD_LEFT w)) (es_battery (ces EARBUD_RIGHT w))
                   (es_charging (ces EARBUD_LEFT w)) (es_charging (ces EARBUD_RIGHT w)) w
            in if sent then
                 let w = case_new_state e CS_IDLE (power_set_run_reason POWER_RR_BROADCAST w)
                 in if e = EARBUD_LEFT then snd (case_start_status_sequence EARBUD_RIGHT w) else w
               else w
          else if es_abort (ces e w) then case_new_state e CS_STATUS_WANTED w
          else if es_give_up (ces e w) then
            let w = case_new_state e CS_IDLE w
            in if e = EARBUD_LEFT then snd (case_start_status_sequence EARBUD_RIGHT w) else w
          else w)"

definition case_earbud_step :: "earbud \<Rightarrow> 'a case_board_scheme \<Rightarrow> 'a case_board_scheme" where
  "case_earbud_step e w =
     upd_ces e (\<lambda>s. s\<lparr>es_ack := False, es_abort := False, es_give_up := False\<rparr>) (case_earbud_switch e w)"

definition case_periodic :: "u16 \<Rightarrow> 'a case_board_scheme \<Rightarrow> 'a case_board_scheme option" where
  "case_periodic cal w =
     (let w = upd_ces EARBUD_LEFT (\<lambda>s. s\<lparr>es_time := es_time s + 1\<rparr>) w;
          w = upd_ces EARBUD_RIGHT (\<lambda>s. s\<lparr>es_time := es_time s + 1\<rparr>) w
      in if case_event (cs w) then Some (case_handle_event w)
         else map_option (fold case_earbud_step earbuds) (case_battery_status_periodic cal w))"

section \<open>Commands\<close>

definition case_cmd_status :: "'a case_board_scheme \<Rightarrow> 'a case_board_scheme" where
  "case_cmd_status w = case_status_time True w"

text \<open>
  \<open>param\<close> is what the command line parser returns for the first parameter; only the low octet is
  used, and every value but 0 and 1 writes outside the array.
\<close>

definition case_cmd_reset :: "int option \<Rightarrow> 'a case_board_scheme \<Rightarrow> 'a case_board_scheme option" where
  "case_cmd_reset param w =
     (if \<not> case_dfu_planned (cs w) then
        case param of
          None \<Rightarrow> Some w
        | Some n \<Rightarrow>
            if n mod 256 = 0 then Some (case_new_state EARBUD_LEFT CS_RESET_WANTED w)
            else if n mod 256 = 1 then Some (case_new_state EARBUD_RIGHT CS_RESET_WANTED w)
            else None
      else Some w)"

section \<open>The callbacks keep CCP's contract\<close>

lemma upd_ces_simps [simp]:
  "cs (upd_ces e f w) = (cs w)\<lparr>case_earbud_status := (case_earbud_status (cs w))(e := f (ces e w))\<rparr>"
  "ccp (upd_ces e f w) = ccp w" "wire (upd_ces e f w) = wire w" "comms (upd_ces e f w) = comms w"
  "pwr (upd_ces e f w) = pwr w" "runs_for r (upd_ces e f w) = runs_for r w"
  "charger_comms_is_active (upd_ces e f w) = charger_comms_is_active w"
  by (simp_all add: upd_ces_def runs_for_def charger_comms_is_active_def)

lemma upd_bat_simps [simp]:
  "cs (upd_bat g w) = (cs w)\<lparr>case_battery_status := g (bat w)\<rparr>"
  "ccp (upd_bat g w) = ccp w" "wire (upd_bat g w) = wire w" "comms (upd_bat g w) = comms w"
  "runs_for r (upd_bat g w) = runs_for r w"
  by (simp_all add: upd_bat_def runs_for_def)

lemma run_reason_comms [frame]:
  "comms (power_set_run_reason r w) = comms w" "comms (power_clear_run_reason r w) = comms w"
  by (simp_all add: power_set_run_reason_def power_clear_run_reason_def)

lemma run_reason_wire [frame]:
  "wire (power_set_run_reason r w) = wire w" "wire (power_clear_run_reason r w) = wire w"
  by (simp_all add: power_set_run_reason_def power_clear_run_reason_def)

lemma run_reason_ccp [frame]:
  "ccp (power_set_run_reason r w) = ccp w" "ccp (power_clear_run_reason r w) = ccp w"
  by (simp_all add: power_set_run_reason_def power_clear_run_reason_def)

lemma run_reason_cs [frame]:
  "cs (power_set_run_reason r w) = cs w" "cs (power_clear_run_reason r w) = cs w"
  by (simp_all add: power_set_run_reason_def power_clear_run_reason_def)

interpretation app: ccp_user case_ccp_cb
  by unfold_locales
     (simp_all add: case_ccp_cb_def case_rx_earbud_status_def case_ack_def case_give_up_def
       case_abort_def case_broadcast_finished_def frame)

section \<open>What the layers below leave of the application's state\<close>

lemma rr_disjoint [simp]:
  "0x4 AND case_earbud_rr e = 0" "0x10 AND case_earbud_rr e = 0" "0x80 AND case_earbud_rr e = 0"
  "0x200 AND case_earbud_rr e = 0" "0x1000 AND case_earbud_rr e = 0"
  "e \<noteq> e' \<Longrightarrow> case_earbud_rr e AND case_earbud_rr e' = 0" "case_earbud_rr e \<noteq> 0"
  by (cases e; cases e'; simp)+

lemma cs_lower [frame]:
  "cs (charger_comms_transmit device_cfg d n r w) = cs w" "cs (upd_wt e f w) = cs w"
  "cs (upd_ct e g w) = cs w" "cs (gpio_enable p w) = cs w" "cs (gpio_disable p w) = cs w"
  "cs (adc_start_measuring w) = cs w" "cs (w\<lparr>wire := s\<rparr>) = cs w"
  by (simp_all add: charger_comms_transmit_def device_cfg_def on_tx_start_impl_def Let_def
      gpio_enable_def gpio_disable_def gpio_set_def gpio_reset_def power_set_run_reason_def
      timer_comms_tick_start_def upd_wt_def upd_ct_def adc_start_measuring_def)

lemma runs_for_transmit:
  "POWER_RR_CHARGER_COMMS AND r = 0 \<Longrightarrow>
   runs_for r (charger_comms_transmit device_cfg d n reply w) = runs_for r w"
  by (auto simp: charger_comms_transmit_def device_cfg_def on_tx_start_impl_def Let_def
      gpio_enable_def gpio_set_def gpio_reset_def timer_comms_tick_start_def runs_for_def
      power_set_run_reason_def bit.conj_disj_distrib2)

lemma runs_for_wire_fields [frame]:
  "runs_for r (upd_wt e f w) = runs_for r w" "runs_for r (w\<lparr>wire := s\<rparr>) = runs_for r w"
  by (simp_all add: runs_for_def upd_wt_def)

lemma runs_for_upd_ct [frame]: "runs_for r (upd_ct e g w) = runs_for r w"
  by (simp add: runs_for_def upd_ct_def)

lemma runs_for_pins [frame]:
  "runs_for r (gpio_enable p w) = runs_for r w" "runs_for r (gpio_disable p w) = runs_for r w"
  "runs_for r (adc_start_measuring w) = runs_for r w"
  by (simp_all add: runs_for_def gpio_enable_def gpio_disable_def gpio_set_def gpio_reset_def
      adc_start_measuring_def)

lemma runs_for_cs [frame]: "runs_for r (w\<lparr>cs := c\<rparr>) = runs_for r w"
  by (simp add: runs_for_def)

lemma cs_wire [frame]:
  "cs (wire_tx_stored_message e w) = cs w" "cs (wire_setup_broadcast d n t w) = cs w"
  "cs (wire_send_broadcast w) = cs w"
  by (simp_all add: wire_tx_stored_message_def wire_setup_broadcast_def wire_send_broadcast_def Let_def frame)

lemma runs_for_wire:
  assumes "POWER_RR_CHARGER_COMMS AND r = 0"
  shows "runs_for r (wire_tx_stored_message e w) = runs_for r w"
    "runs_for r (wire_setup_broadcast d n t w) = runs_for r w"
    "runs_for r (wire_send_broadcast w) = runs_for r w"
  using assms
  by (simp_all add: wire_tx_stored_message_def wire_setup_broadcast_def wire_send_broadcast_def Let_def
      frame runs_for_transmit)

text \<open>The state of the earbud machines, the run reasons tied to them, and the flags.\<close>

definition case_flags :: "case_statics \<Rightarrow> (bool \<times> bool \<times> bool) \<times> bool \<times> bool \<times> bool" where
  "case_flags c = ((lid_now c, lid_before c, chg_now c), chg_before c, case_event c, case_dfu_planned c)"

lemma case_flags_update [simp]:
  "case_flags (c\<lparr>case_earbud_status := s\<rparr>) = case_flags c"
  "case_flags (c\<lparr>case_battery_status := b\<rparr>) = case_flags c"
  by (simp_all add: case_flags_def)

definition same_case :: "'a case_board_scheme \<Rightarrow> 'a case_board_scheme \<Rightarrow> bool" where
  "same_case w w' \<longleftrightarrow> case_flags (cs w') = case_flags (cs w) \<and>
     (\<forall>e. es_state (ces e w') = es_state (ces e w) \<and>
        runs_for (case_earbud_rr e) w' = runs_for (case_earbud_rr e) w)"

lemma same_case_refl [simp, intro]: "same_case w w"
  by (simp add: same_case_def)

lemma same_case_trans [trans]: "same_case u v \<Longrightarrow> same_case v w \<Longrightarrow> same_case u w"
  by (simp add: same_case_def)

lemma same_case_callbacks:
  "same_case w (case_rx_earbud_status e p b c w)" "same_case w (case_ack e w)"
  "same_case w (case_give_up e w)" "same_case w (case_abort e w)" "same_case w (case_broadcast_finished w)"
  by (simp_all add: same_case_def case_rx_earbud_status_def case_ack_def case_give_up_def
      case_abort_def case_broadcast_finished_def frame)

lemma same_case_ccp:
  "same_case w (ccp_rx case_ccp_cb e d n f w)" "same_case w (ccp_ack case_ccp_cb e w)"
  "same_case w (ccp_give_up case_ccp_cb e w)" "same_case w (ccp_abort case_ccp_cb e w)"
  "same_case w (ccp_broadcast_finished case_ccp_cb w)"
  using same_case_callbacks [of w]
  by (auto simp: same_case_def ccp_rx_def ccp_ack_def ccp_give_up_def ccp_abort_def
      ccp_broadcast_finished_def case_ccp_cb_def Let_def frame)

lemma same_case_rewrite:
  assumes "same_case w w'"
  shows "es_state (ces e w') = es_state (ces e w)"
    "runs_for (case_earbud_rr e) w' = runs_for (case_earbud_rr e) w"
    "case_flags (cs w') = case_flags (cs w)"
  using assms by (simp_all add: same_case_def)

lemmas same_case_eqs =
  same_case_ccp [THEN same_case_rewrite(1)] same_case_ccp [THEN same_case_rewrite(2)]
  same_case_ccp [THEN same_case_rewrite(3)]

lemma same_case_stored: "same_case w (wire_tx_stored_message e w)"
  by (simp add: same_case_def frame runs_for_wire)

lemma same_case_upd_wt: "same_case w (upd_wt e f w)"
  by (simp add: same_case_def frame)

lemma same_case_wire_tx: "same_case w (snd (wire_tx (ccp_wire_cb case_ccp_cb) dest d n w))"
  by (auto simp: wire_tx_def Let_def same_case_def frame runs_for_wire same_case_eqs)

lemma same_case_ccp_tx: "same_case w (snd (ccp_tx case_ccp_cb msg chan dest d n a w))"
proof -
  have "same_case w v" if "wire_tx (ccp_wire_cb case_ccp_cb) dest' d' n' w = (r, v)" for dest' d' n' r v
    using same_case_wire_tx [of w dest' d' n'] that by simp
  then show ?thesis
    by (auto simp: ccp_tx_def Let_def same_case_wire_tx same_case_def frame split: prod.splits bool.splits)
qed

lemma same_case_process_rx: "same_case w (wire_process_rx (ccp_wire_cb case_ccp_cb) e w)"
  by (simp add: wire_process_rx_def Let_def same_case_def frame same_case_eqs)

lemma same_case_manage: "same_case w (wire_manage_transaction (ccp_wire_cb case_ccp_cb) e w)"
proof -
  define v where "v = wire_process_rx (ccp_wire_cb case_ccp_cb) e w"
  have "same_case w v" unfolding v_def by (rule same_case_process_rx)
  moreover have "same_case v (wire_manage_transaction (ccp_wire_cb case_ccp_cb) e w)"
    by (simp add: wire_manage_transaction_def v_def [symmetric] Let_def same_case_def
        frame runs_for_wire earbuds_def same_case_eqs)
  ultimately show ?thesis by (rule same_case_trans)
qed

lemma same_case_wire_periodic: "same_case w (wire_periodic (ccp_wire_cb case_ccp_cb) w)"
proof -
  have "same_case w (wire_manage_transaction (ccp_wire_cb case_ccp_cb) EARBUD_RIGHT
          (wire_manage_transaction (ccp_wire_cb case_ccp_cb) EARBUD_LEFT w))"
    using same_case_manage same_case_trans by blast
  then show ?thesis
    by (simp add: wire_periodic_def Let_def same_case_def frame runs_for_wire same_case_eqs)
qed

lemma same_case_ccp_manage: "same_case w (ccp_manage_transaction case_ccp_cb e w)"
proof -
  let ?w = "upd_ct e (\<lambda>t. t\<lparr>poll_timeout := poll_timeout t - 1\<rparr>) w"
  have "same_case ?w v" if "wire_tx (ccp_wire_cb case_ccp_cb) (wire_dest e) [] 0 ?w = (r, v)" for r v
    using same_case_wire_tx [of ?w "wire_dest e" "[]" 0] that by simp
  then show ?thesis
    by (auto simp: ccp_manage_transaction_def Let_def same_case_def frame same_case_eqs
        split: prod.splits bool.splits)
qed

lemma same_case_ccp_periodic: "same_case w (ccp_periodic case_ccp_cb w)"
  unfolding ccp_periodic_def using same_case_ccp_manage same_case_trans by blast

section \<open>A machine is busy exactly while its run reason is set\<close>

definition case_awake :: "'a case_board_scheme \<Rightarrow> bool" where
  "case_awake w \<longleftrightarrow> (\<forall>e. runs_for (case_earbud_rr e) w \<longleftrightarrow> es_state (ces e w) \<noteq> CS_IDLE)"

lemma case_awake_same: "same_case w w' \<Longrightarrow> case_awake w \<Longrightarrow> case_awake w'"
  by (simp add: case_awake_def same_case_def)

lemma case_awake_new_state: "case_awake w \<Longrightarrow> case_awake (case_new_state e s w)"
proof -
  assume inv: "case_awake w"
  show ?thesis
    unfolding case_awake_def
  proof
    fix e'
    show "runs_for (case_earbud_rr e') (case_new_state e s w) =
          (es_state (ces e' (case_new_state e s w)) \<noteq> CS_IDLE)"
      using inv by (cases "e' = e") (simp_all add: case_awake_def case_new_state_def Let_def frame)
  qed
qed

lemma case_awake_start: "case_awake w \<Longrightarrow> case_awake (snd (case_start_status_sequence e w))"
  by (simp add: case_start_status_sequence_def case_awake_new_state)

lemma case_awake_bat: "case_awake w \<Longrightarrow> case_awake (upd_bat g w)"
  by (simp add: case_awake_def)

lemma case_awake_flags:
  "case_awake w \<Longrightarrow> (\<And>s. es_state (f s) = es_state s) \<Longrightarrow> case_awake (upd_ces e f w)"
  by (simp add: case_awake_def)

lemma case_awake_status_time: "case_awake w \<Longrightarrow> case_awake (case_status_time l w)"
proof -
  assume inv: "case_awake w"
  have s: "case_awake v'" if "case_start_status_sequence e v = (r, v')" "case_awake v" for e r v v'
    using case_awake_start [OF that(2), of e] that(1) by simp
  show ?thesis
    using inv by (auto simp: case_status_time_def Let_def case_awake_bat case_awake_start
        split: prod.splits dest: s)
qed

lemma led_indicate_cs [frame]:
  "cs (led_indicate_battery p w) = cs w"
  "POWER_RR_LED AND r = 0 \<Longrightarrow> runs_for r (led_indicate_battery p w) = runs_for r w"
proof -
  have pin: "cs (led_set_pin c n w) = cs w" for c n and w :: "'a case_board_scheme"
    by (simp add: led_set_pin_def Let_def frame)
  have col: "cs (led_set_colour c w) = cs w" for c and w :: "'a case_board_scheme"
    by (simp add: led_set_colour_def Let_def pin)
  have new: "cs (led_new_sequence s w) = cs w" for s and w :: "'a case_board_scheme"
    by (simp add: led_new_sequence_def Let_def col)
  show "cs (led_indicate_battery p w) = cs w"
    by (simp add: led_indicate_battery_alt new frame)
  show "runs_for r (led_indicate_battery p w) = runs_for r w" if "POWER_RR_LED AND r = 0"
    using that by (simp add: led_indicate_battery_alt)
qed

lemma same_case_battery:
  "case_battery_status_periodic cal w = Some w' \<Longrightarrow> same_case w w'"
  by (auto simp: case_battery_status_periodic_def same_case_def frame Let_def
      split: CASE_BATTERY_STATE.splits if_splits option.splits)

lemma same_case_run_reason:
  "r AND case_earbud_rr EARBUD_LEFT = 0 \<Longrightarrow> r AND case_earbud_rr EARBUD_RIGHT = 0 \<Longrightarrow>
   same_case w (power_set_run_reason r w)"
  "r AND case_earbud_rr EARBUD_LEFT = 0 \<Longrightarrow> r AND case_earbud_rr EARBUD_RIGHT = 0 \<Longrightarrow>
   same_case w (power_clear_run_reason r w)"
  by (simp_all add: same_case_def all_earbud frame)

text \<open>A call of CCP's sending functions and what its result is used for.\<close>

lemma case_awake_sent:
  assumes "ccp_tx case_ccp_cb msg chan dest d n a w = (sent, w')" "case_awake w"
  shows "case_awake w'"
  using same_case_ccp_tx [of w msg chan dest d n a] assms by (auto intro: case_awake_same)

lemmas ccp_tx_calls =
  ccp_tx_short_status_def ccp_tx_status_def ccp_tx_status_request_def ccp_tx_reset_def

lemma case_awake_fields:
  "case_earbud_status c = case_earbud_status (cs w) \<Longrightarrow> case_awake (w\<lparr>cs := c\<rparr>) = case_awake w"
  by (simp add: case_awake_def frame)

lemma case_awake_run_reason:
  "case_awake w \<Longrightarrow> case_awake (power_set_run_reason POWER_RR_BROADCAST w)"
  "case_awake w \<Longrightarrow> case_awake (power_clear_run_reason POWER_RR_CASE_EVENT w)"
  "case_awake w \<Longrightarrow> case_awake (power_set_run_reason POWER_RR_CASE_EVENT w)"
proof -
  assume inv: "case_awake w"
  show "case_awake (power_set_run_reason POWER_RR_BROADCAST w)"
    by (rule case_awake_same [OF same_case_run_reason(1) inv]) simp_all
  show "case_awake (power_clear_run_reason POWER_RR_CASE_EVENT w)"
    by (rule case_awake_same [OF same_case_run_reason(2) inv]) simp_all
  show "case_awake (power_set_run_reason POWER_RR_CASE_EVENT w)"
    by (rule case_awake_same [OF same_case_run_reason(1) inv]) simp_all
qed

lemma case_awake_announce:
  assumes inv: "case_awake w"
  shows "case_awake (case_announce w)"
proof -
  obtain sent v where tx:
      "ccp_tx_short_status case_ccp_cb (lid_now (cs w)) (chg_now (cs w)) w = (sent, v)"
    by (cases "ccp_tx_short_status case_ccp_cb (lid_now (cs w)) (chg_now (cs w)) w")
  then have v: "case_awake v"
    using inv unfolding ccp_tx_short_status_def by (rule case_awake_sent)
  show ?thesis
    unfolding case_announce_def tx
    by (simp add: Let_def inv v case_awake_fields frame case_awake_run_reason(1) del: run_reason_defs)
qed

lemma case_awake_event: "case_awake w \<Longrightarrow> case_awake (case_handle_event w)"
  unfolding case_handle_event_def Let_def case_lid_opened_def case_read_inputs_def
  by (simp add: case_awake_announce case_awake_status_time case_awake_fields
      case_awake_run_reason(2) del: run_reason_defs)

lemma case_awake_switch:
  assumes inv: "case_awake w"
  shows "case_awake (case_earbud_switch e w)"
proof -
  have new: "case_awake (case_new_state e' s v)" if "case_awake v" for e' s v
    using that by (rule case_awake_new_state)
  have start: "case_awake (snd (case_start_status_sequence e' v))" if "case_awake v" for e' v
    using that by (rule case_awake_start)
  have clear: "case_awake (upd_ces e (\<lambda>s. s\<lparr>es_valid := False, es_battery := 0xFF\<rparr>) w)"
    using inv by (rule case_awake_flags) simp
  have bc: "case_awake (power_set_run_reason POWER_RR_BROADCAST v)" if "case_awake v" for v
    using that by (rule case_awake_run_reason)
  show ?thesis
  proof (cases "es_state (ces e w)")
    case CS_STATUS_WANTED
    then show ?thesis
      using clear new by (auto simp: case_earbud_switch_def Let_def ccp_tx_calls
          split: prod.splits dest!: case_awake_sent)
  next
    case CS_SENT_STATUS_REQUEST
    obtain sent v where tx: "ccp_tx_status case_ccp_cb (lid_now (cs w)) (chg_now (cs w))
        (charger_is_charging w) (current_battery_percent (bat w))
        (es_battery (ces EARBUD_LEFT w)) (es_battery (ces EARBUD_RIGHT w))
        (es_charging (ces EARBUD_LEFT w)) (es_charging (ces EARBUD_RIGHT w)) w = (sent, v)"
      by fastforce
    then have v: "case_awake v"
      using inv unfolding ccp_tx_status_def by (rule case_awake_sent)
    show ?thesis
      by (simp add: case_earbud_switch_def CS_SENT_STATUS_REQUEST tx Let_def inv v new start bc
          del: run_reason_defs)
  next
    case CS_RESET_WANTED
    then show ?thesis
      using inv new by (auto simp: case_earbud_switch_def Let_def ccp_tx_calls
          split: prod.splits dest!: case_awake_sent)
  next
    case CS_RESET_DELAY
    then show ?thesis
      using inv new by (auto simp: case_earbud_switch_def Let_def ccp_tx_calls
          split: prod.splits dest!: case_awake_sent)
  qed (simp_all add: case_earbud_switch_def inv new clear)
qed

lemma case_awake_step: "case_awake w \<Longrightarrow> case_awake (case_earbud_step e w)"
  unfolding case_earbud_step_def by (intro case_awake_flags case_awake_switch) simp_all

lemma case_awake_periodic:
  assumes inv: "case_awake w" and run: "case_periodic cal w = Some w'"
  shows "case_awake w'"
proof -
  let ?w = "upd_ces EARBUD_RIGHT (\<lambda>s. s\<lparr>es_time := es_time s + 1\<rparr>)
              (upd_ces EARBUD_LEFT (\<lambda>s. s\<lparr>es_time := es_time s + 1\<rparr>) w)"
  have t: "case_awake ?w" using inv by (intro case_awake_flags) simp_all
  show ?thesis
  proof (cases "case_event (cs ?w)")
    case True
    then have "w' = case_handle_event ?w" using run by (simp add: case_periodic_def Let_def)
    then show ?thesis using case_awake_event [OF t] by simp
  next
    case False
    then obtain v where v: "case_battery_status_periodic cal ?w = Some v"
        and w': "w' = fold case_earbud_step earbuds v"
      using run by (auto simp: case_periodic_def Let_def)
    have "case_awake v" using same_case_battery [OF v] t by (rule case_awake_same)
    then show ?thesis unfolding w' earbuds_def by (simp add: case_awake_step)
  qed
qed

lemma case_awake_cmd_reset: "case_awake w \<Longrightarrow> case_cmd_reset p w = Some w' \<Longrightarrow> case_awake w'"
  by (auto simp: case_cmd_reset_def case_awake_new_state split: if_splits option.splits)

section \<open>The transitions of the earbud machines\<close>

inductive case_edge :: "CASE_STATE \<Rightarrow> CASE_STATE \<Rightarrow> bool" where
  "case_edge CS_IDLE CS_STATUS_WANTED"
| "case_edge CS_STATUS_WANTED CS_SENT_STATUS_REQUEST"
| "case_edge CS_SENT_STATUS_REQUEST CS_IDLE"
| "case_edge CS_SENT_STATUS_REQUEST CS_STATUS_WANTED"
| "case_edge CS_RESET_WANTED CS_SENT_RESET"
| "case_edge CS_SENT_RESET CS_RESET_DELAY"
| "case_edge CS_SENT_RESET CS_RESET_WANTED"
| "case_edge CS_SENT_RESET CS_IDLE"
| "case_edge CS_RESET_DELAY CS_RESETTING"
| "case_edge CS_RESETTING CS_IDLE"
| "case_edge CS_RESETTING CS_RESET_DELAY"

code_pred case_edge .

inductive_cases case_edgeE: "case_edge s t"

definition case_moves :: "'a case_board_scheme \<Rightarrow> 'a case_board_scheme \<Rightarrow> bool" where
  "case_moves w w' \<longleftrightarrow> (\<forall>e. case_edge\<^sup>*\<^sup>* (es_state (ces e w)) (es_state (ces e w')))"

lemma case_moves_trans: "case_moves u v \<Longrightarrow> case_moves v w \<Longrightarrow> case_moves u w"
  unfolding case_moves_def by (meson rtranclp_trans)

lemma case_moves_same: "(\<And>e. es_state (ces e w') = es_state (ces e w)) \<Longrightarrow> case_moves w w'"
  by (simp add: case_moves_def)

lemma case_moves_same_case: "same_case w w' \<Longrightarrow> case_moves w w'"
  by (rule case_moves_same) (simp add: same_case_def)

lemma new_state_ces:
  "es_state (ces e' (case_new_state e s w)) = (if e' = e then s else es_state (ces e' w))"
  by (simp add: case_new_state_def Let_def frame)

lemma case_moves_new_state:
  "case_moves u w \<Longrightarrow> case_edge (es_state (ces e w)) s \<Longrightarrow> case_moves u (case_new_state e s w)"
  unfolding case_moves_def new_state_ces by (auto intro: rtranclp.rtrancl_into_rtrancl)

lemma case_moves_start: "case_moves u w \<Longrightarrow> case_moves u (snd (case_start_status_sequence e w))"
  by (simp add: case_start_status_sequence_def case_moves_new_state case_edge.intros)

lemma case_moves_if: "case_moves u v \<Longrightarrow> case_moves u w \<Longrightarrow> case_moves u (if c then v else w)"
  by simp

lemma case_moves_sent:
  "ccp_tx case_ccp_cb msg chan dest d n a w = (sent, w') \<Longrightarrow> same_case w w'"
  using same_case_ccp_tx [of w msg chan dest d n a] by simp

lemma case_moves_switch: "case_moves w (case_earbud_switch e w)"
proof -
  have refl: "case_moves w w" by (simp add: case_moves_same)
  have clear: "case_moves w (upd_ces e (\<lambda>s. s\<lparr>es_valid := False, es_battery := 0xFF\<rparr>) w)"
    by (rule case_moves_same) simp
  have sent: "case_moves w v \<and> es_state (ces e v) = es_state (ces e w)" if "same_case w v" for v
    using that case_moves_same_case same_case_rewrite(1) by blast
  show ?thesis
  proof (cases "es_state (ces e w)")
    case CS_STATUS_WANTED
    let ?w = "upd_ces e (\<lambda>s. s\<lparr>es_valid := False, es_battery := 0xFF\<rparr>) w"
    obtain b v where tx: "ccp_tx_status_request case_ccp_cb e ?w = (b, v)" by fastforce
    then have "same_case ?w v" unfolding ccp_tx_status_request_def by (rule case_moves_sent)
    then have "same_case w v" by (simp add: same_case_def)
    from sent [OF this] show ?thesis
      using CS_STATUS_WANTED
      by (auto simp: case_earbud_switch_def tx Let_def intro!: case_moves_new_state case_edge.intros)
  next
    case CS_SENT_STATUS_REQUEST
    obtain b v where tx: "ccp_tx_status case_ccp_cb (lid_now (cs w)) (chg_now (cs w))
        (charger_is_charging w) (current_battery_percent (bat w))
        (es_battery (ces EARBUD_LEFT w)) (es_battery (ces EARBUD_RIGHT w))
        (es_charging (ces EARBUD_LEFT w)) (es_charging (ces EARBUD_RIGHT w)) w = (b, v)"
      by fastforce
    then have "same_case w v" unfolding ccp_tx_status_def by (rule case_moves_sent)
    then have v: "case_moves w v" "es_state (ces e v) = CS_SENT_STATUS_REQUEST"
      using sent CS_SENT_STATUS_REQUEST by auto
    have bc: "case_moves w (power_set_run_reason r v)" for r
      using v(1) by (simp add: case_moves_def frame)
    have "es_state (ces e (power_set_run_reason r v)) = CS_SENT_STATUS_REQUEST" for r
      using v(2) by (simp add: frame)
    then have idle: "case_moves w (case_new_state e CS_IDLE (power_set_run_reason r v))" for r
      by (intro case_moves_new_state bc) (simp add: case_edge.intros)
    have other: "case_moves w (case_new_state e CS_IDLE w)" "case_moves w (case_new_state e CS_STATUS_WANTED w)"
      using CS_SENT_STATUS_REQUEST by (auto intro!: case_moves_new_state refl case_edge.intros)
    show ?thesis
      unfolding case_earbud_switch_def CS_SENT_STATUS_REQUEST CASE_STATE.case tx Let_def prod.case
      by (intro case_moves_if case_moves_start idle other v refl)
  next
    case CS_RESET_WANTED
    obtain b v where tx: "ccp_tx_reset case_ccp_cb e True w = (b, v)" by fastforce
    then have "same_case w v" unfolding ccp_tx_reset_def by (rule case_moves_sent)
    from sent [OF this] show ?thesis
      using CS_RESET_WANTED
      by (auto simp: case_earbud_switch_def tx Let_def intro!: case_moves_new_state case_edge.intros)
  next
    case CS_RESET_DELAY
    obtain b v where tx: "ccp_tx_status_request case_ccp_cb e w = (b, v)" by fastforce
    then have "same_case w v" unfolding ccp_tx_status_request_def by (rule case_moves_sent)
    from sent [OF this] show ?thesis
      using CS_RESET_DELAY refl
      by (auto simp: case_earbud_switch_def tx Let_def intro!: case_moves_new_state case_edge.intros)
  qed (use refl clear in \<open>auto simp: case_earbud_switch_def intro!: case_moves_new_state case_edge.intros\<close>)
qed

lemma case_moves_status_time: "case_moves w (case_status_time l w)"
proof -
  have b: "case_moves w (upd_bat g w)" for g by (rule case_moves_same) simp
  have "case_moves w w" by (rule case_moves_same) simp
  then show ?thesis
    using b case_moves_start
    by (auto simp: case_status_time_def Let_def case_start_status_sequence_def
        intro!: case_moves_new_state case_edge.intros split: if_splits)
qed

lemma case_moves_announce: "case_moves w (case_announce w)"
proof -
  obtain sent v where tx:
      "ccp_tx_short_status case_ccp_cb (lid_now (cs w)) (chg_now (cs w)) w = (sent, v)"
    by (cases "ccp_tx_short_status case_ccp_cb (lid_now (cs w)) (chg_now (cs w)) w")
  then have "same_case w v" unfolding ccp_tx_short_status_def by (rule case_moves_sent)
  then have "case_moves w v" by (rule case_moves_same_case)
  then show ?thesis
    unfolding case_announce_def tx by (simp add: Let_def case_moves_def frame)
qed

lemma case_moves_event: "case_moves w (case_handle_event w)"
proof -
  have "case_moves w (case_read_inputs w)" by (rule case_moves_same) (simp add: case_read_inputs_def)
  moreover have "case_moves v (case_lid_opened v)" for v :: "'a case_board_scheme"
    by (simp add: case_lid_opened_def case_moves_status_time case_moves_same)
  ultimately have "case_moves w (case_announce (case_lid_opened (case_read_inputs w)))"
    using case_moves_announce case_moves_trans by blast
  then show ?thesis by (simp add: case_handle_event_def Let_def case_moves_def frame)
qed

lemma case_moves_step: "case_moves w (case_earbud_step e w)"
  using case_moves_switch [of w e] by (simp add: case_earbud_step_def case_moves_def)

lemma case_moves_periodic:
  assumes "case_periodic cal w = Some w'"
  shows "case_moves w w'"
proof -
  let ?w = "upd_ces EARBUD_RIGHT (\<lambda>s. s\<lparr>es_time := es_time s + 1\<rparr>)
              (upd_ces EARBUD_LEFT (\<lambda>s. s\<lparr>es_time := es_time s + 1\<rparr>) w)"
  have t: "case_moves w ?w" by (rule case_moves_same) simp
  show ?thesis
  proof (cases "case_event (cs ?w)")
    case True
    then have "w' = case_handle_event ?w" using assms by (simp add: case_periodic_def Let_def)
    then show ?thesis using case_moves_trans [OF t case_moves_event] by simp
  next
    case False
    then obtain v where v: "case_battery_status_periodic cal ?w = Some v"
        and w': "w' = fold case_earbud_step earbuds v"
      using assms by (auto simp: case_periodic_def Let_def)
    have "case_moves w v"
      using t case_moves_same_case [OF same_case_battery [OF v]] by (rule case_moves_trans)
    then show ?thesis
      unfolding w' earbuds_def by (simp, meson case_moves_step case_moves_trans)
  qed
qed

section \<open>Quiet periods leave the flags alone\<close>

lemma new_state_flags [frame]: "case_flags (cs (case_new_state e s w)) = case_flags (cs w)"
  by (simp add: case_new_state_def Let_def frame)

lemma start_flags [frame]: "case_flags (cs (snd (case_start_status_sequence e w))) = case_flags (cs w)"
  by (simp add: case_start_status_sequence_def frame)

lemma tx_flags:
  "ccp_tx case_ccp_cb msg chan dest d n a u = (b, v) \<Longrightarrow> case_flags (cs v) = case_flags (cs u)"
  by (drule case_moves_sent) (simp add: same_case_def)

lemma switch_flags: "case_flags (cs (case_earbud_switch e w)) = case_flags (cs w)"
proof (cases "es_state (ces e w)")
  case CS_STATUS_WANTED
  then show ?thesis
    by (auto simp: case_earbud_switch_def Let_def ccp_tx_calls frame split: prod.splits dest!: tx_flags)
next
  case CS_SENT_STATUS_REQUEST
  obtain b v where tx: "ccp_tx_status case_ccp_cb (lid_now (cs w)) (chg_now (cs w))
      (charger_is_charging w) (current_battery_percent (bat w))
      (es_battery (ces EARBUD_LEFT w)) (es_battery (ces EARBUD_RIGHT w))
      (es_charging (ces EARBUD_LEFT w)) (es_charging (ces EARBUD_RIGHT w)) w = (b, v)"
    by fastforce
  then have "case_flags (cs v) = case_flags (cs w)" unfolding ccp_tx_status_def by (rule tx_flags)
  then show ?thesis
    by (simp add: case_earbud_switch_def CS_SENT_STATUS_REQUEST tx Let_def frame)
next
  case CS_RESET_WANTED
  then show ?thesis
    by (auto simp: case_earbud_switch_def Let_def ccp_tx_calls frame split: prod.splits dest!: tx_flags)
next
  case CS_RESET_DELAY
  then show ?thesis
    by (auto simp: case_earbud_switch_def Let_def ccp_tx_calls frame split: prod.splits dest!: tx_flags)
qed (simp_all add: case_earbud_switch_def frame)

lemma periodic_flags:
  assumes "case_periodic cal w = Some w'" "\<not> case_event (cs w)"
  shows "case_flags (cs w') = case_flags (cs w)"
proof -
  let ?w = "upd_ces EARBUD_RIGHT (\<lambda>s. s\<lparr>es_time := es_time s + 1\<rparr>)
              (upd_ces EARBUD_LEFT (\<lambda>s. s\<lparr>es_time := es_time s + 1\<rparr>) w)"
  obtain v where v: "case_battery_status_periodic cal ?w = Some v"
      and w': "w' = fold case_earbud_step earbuds v"
    using assms by (auto simp: case_periodic_def Let_def)
  have "case_flags (cs v) = case_flags (cs w)"
    using same_case_battery [OF v] by (simp add: same_case_def)
  then show ?thesis
    unfolding w' earbuds_def by (simp add: case_earbud_step_def switch_flags)
qed

section \<open>The battery measurement\<close>

fun battery_rounds ::
    "u16 \<Rightarrow> ('a case_board_scheme \<Rightarrow> 'a case_board_scheme) list \<Rightarrow> 'a case_board_scheme \<Rightarrow>
     'a case_board_scheme option" where
  "battery_rounds cal [] w = Some w"
| "battery_rounds cal (env # envs) w =
     Option.bind (case_battery_status_periodic cal (env w)) (battery_rounds cal envs)"

text \<open>Where the measurement stands \<open>k\<close> periods after it was requested.\<close>

definition measuring_at :: "nat \<Rightarrow> CASE_BATTERY_STATUS \<Rightarrow> bool" where
  "measuring_at k b \<longleftrightarrow>
     (if k = 0 then bat_state b = CASE_BATTERY_START_READING
      else if k \<le> 201 then bat_state b = CASE_BATTERY_READING \<and> unat (delay_ticks b) = 201 - k
      else bat_state b = CASE_BATTERY_STOP_READING \<and> unat (delay_ticks b) = 232 - k)"

lemma measuring_step:
  assumes "measuring_at k (bat w)" "k < 232"
  shows "\<exists>w'. case_battery_status_periodic cal w = Some w' \<and> measuring_at (Suc k) (bat w') \<and>
           bat_led (bat w') = bat_led (bat w)"
proof -
  consider "k = 0" | "0 < k" "k < 201" | "k = 201" | "201 < k" by linarith
  then show ?thesis
  proof cases
    case 2
    then have d: "unat (delay_ticks (bat w)) = 201 - k" "bat_state (bat w) = CASE_BATTERY_READING"
      using assms(1) by (simp_all add: measuring_at_def)
    then have nz: "delay_ticks (bat w) \<noteq> 0" using 2 by auto
    show ?thesis
      using d 2 nz unat_minus_1 [OF nz]
      by (simp add: measuring_at_def case_battery_status_periodic_def)
  next
    case 3
    then have "delay_ticks (bat w) = 0" "bat_state (bat w) = CASE_BATTERY_READING"
      using assms(1) by (simp_all add: measuring_at_def unat_eq_0)
    then show ?thesis
      using 3 by (simp add: measuring_at_def case_battery_status_periodic_def frame)
  next
    case 4
    then have d: "unat (delay_ticks (bat w)) = 232 - k" "bat_state (bat w) = CASE_BATTERY_STOP_READING"
      using assms(1) by (simp_all add: measuring_at_def)
    then have nz: "delay_ticks (bat w) \<noteq> 0" using 4 assms(2) by auto
    show ?thesis
      using d 4 nz unat_minus_1 [OF nz]
      by (simp add: measuring_at_def case_battery_status_periodic_def)
  qed (use assms in \<open>simp_all add: measuring_at_def case_battery_status_periodic_def frame\<close>)
qed

lemma measuring_run:
  assumes "measuring_at k (bat w)" "k + length envs \<le> 232" "\<forall>env \<in> set envs. \<forall>v. cs (env v) = cs v"
  shows "\<exists>w'. battery_rounds cal envs w = Some w' \<and> measuring_at (k + length envs) (bat w') \<and>
           bat_led (bat w') = bat_led (bat w)"
  using assms
proof (induction envs arbitrary: k w)
  case (Cons env envs)
  have "measuring_at k (bat (env w))" "bat_led (bat (env w)) = bat_led (bat w)"
    using Cons.prems(1,3) by simp_all
  then obtain v where "case_battery_status_periodic cal (env w) = Some v" "measuring_at (Suc k) (bat v)"
      "bat_led (bat v) = bat_led (bat w)"
    using measuring_step [of k "env w" cal] Cons.prems(2) by auto
  then show ?case using Cons.IH [of "Suc k" v] Cons.prems(2,3) by auto
qed simp

lemma measuring_end:
  assumes "measuring_at 232 (bat w)" "case_battery_percentage cal w = Some p"
  shows "\<exists>w'. case_battery_status_periodic cal w = Some w' \<and> bat_state (bat w') = CASE_BATTERY_DONE \<and>
           current_battery_percent (bat w') = p \<and>
           \<not> gpio_driven_active GPIO_VBAT_MONITOR_ON_OFF w' \<and>
           (bat_led (bat w) \<longrightarrow> runs_for POWER_RR_LED w' \<and> led_seq (led w') = battery_sequence p)"
proof -
  have pin: "gpio_driven_active GPIO_VBAT_MONITOR_ON_OFF (led_indicate_battery q v) =
      gpio_driven_active GPIO_VBAT_MONITOR_ON_OFF v" for q and v :: "'a case_board_scheme"
  proof -
    have "gpio_driven_active 0x12 (led_set_pin c n v) = gpio_driven_active 0x12 v"
      if "n < 3" for c n and v :: "'a case_board_scheme"
      using that unfolding less_3_cases led_set_pin_def by (auto simp: gpio_pad_def split: if_splits)
    then have col: "gpio_driven_active 0x12 (led_set_colour c v) = gpio_driven_active 0x12 v"
      for c and v :: "'a case_board_scheme"
      by (simp add: led_set_colour_def Let_def gpio_driven_active_def)
    show ?thesis
      by (simp add: led_indicate_battery_alt led_new_sequence_def Let_def col)
         (simp add: gpio_driven_active_def power_set_run_reason_def)
  qed
  have "bat_state (bat w) = CASE_BATTERY_STOP_READING" "delay_ticks (bat w) = 0"
    using assms(1) by (simp_all add: measuring_at_def unat_eq_0)
  then show ?thesis
    using assms(2) pin
    by (simp add: case_battery_status_periodic_def Let_def frame)
       (simp add: led_indicate_battery_alt frame gpio_driven_active_def upd_bat_def gpio_disable_def
        gpio_reset_def)
qed

section \<open>Battery percentage\<close>

lemma percent_le_100: "percent_of_mv mv \<le> 100"
proof -
  have "(100 * (mv - 3400) + 400) div 800 \<le> 80300 div 800" if "mv < 4200"
    using that by (intro div_le_mono) simp
  then show ?thesis by (simp add: percent_of_mv_def)
qed

lemma percent_mono:
  assumes "mv \<le> mv'"
  shows "percent_of_mv mv \<le> percent_of_mv mv'"
proof (cases "3400 < mv \<and> mv' < 4200")
  case True
  then show ?thesis using assms by (simp add: percent_of_mv_def div_le_mono)
next
  case False
  then have "percent_of_mv mv = 0 \<or> percent_of_mv mv' = 100"
    using assms by (auto simp: percent_of_mv_def)
  then show ?thesis using percent_le_100 by auto
qed

lemma percent_nearest:
  assumes "3400 \<le> mv" "mv \<le> 4200"
  shows "\<bar>int (8 * percent_of_mv mv) - (int mv - 3400)\<bar> \<le> 4"
proof -
  define x where "x = mv - 3400"
  have mv: "mv = x + 3400" using assms(1) by (simp add: x_def)
  define q r where "q = (100 * x + 400) div 800" and "r = (100 * x + 400) mod 800"
  have qr: "100 * x + 400 = 800 * q + r" "r < 800" by (simp_all add: q_def r_def)
  have "percent_of_mv mv = (if x = 0 then 0 else if x < 800 then q else 100)"
    by (simp add: percent_of_mv_def mv q_def)
  then show ?thesis using qr assms(2) mv by (auto split: if_splits)
qed

lemma millivolts_mono:
  assumes "vbat \<le> vbat'"
  shows "vbat_millivolts cal ref vbat \<le> vbat_millivolts cal ref vbat'"
proof -
  have "rat_of_nat (unat vbat) / 4095 \<le> rat_of_nat (unat vbat') / 4095"
  proof (rule divide_right_mono)
    show "rat_of_nat (unat vbat) \<le> rat_of_nat (unat vbat')"
      using assms by (simp only: word_le_nat_alt of_nat_le_iff)
  qed simp
  then show ?thesis
    unfolding vbat_millivolts_def Let_def
    by (intro round_single_mono mult_right_mono mult_left_mono round_single_nonneg) simp_all
qed

lemma percentage_mono:
  assumes "case_battery_percentage cal w = Some p" "case_battery_percentage cal w' = Some p'"
    and "adc_read ADC_VREF w' = adc_read ADC_VREF w" "adc_read ADC_VBAT w \<le> adc_read ADC_VBAT w'"
  shows "p \<le> p'"
proof -
  define r where "r = (if adc_read ADC_VREF w = 0 then cal else adc_read ADC_VREF w)"
  define a b where "a = \<lfloor>vbat_millivolts cal r (adc_read ADC_VBAT w)\<rfloor>"
    and "b = \<lfloor>vbat_millivolts cal r (adc_read ADC_VBAT w')\<rfloor>"
  have ab: "a < 65536" "b < 65536" "p = of_nat (percent_of_mv (unat (of_int a :: u16)))"
      "p' = of_nat (percent_of_mv (unat (of_int b :: u16)))"
    using assms(1-3)
    by (auto simp: case_battery_percentage_def get_vbat_mv_def Let_def r_def a_def b_def split: if_splits)
  have "a \<le> b" unfolding a_def b_def by (intro floor_mono millivolts_mono assms(4))
  moreover have "0 \<le> a" unfolding a_def by (simp add: vbat_millivolts_def Let_def round_single_nonneg)
  moreover have u: "unat (of_int c :: u16) = nat c" if "0 \<le> c" "c < 65536" for c
  proof -
    have "uint (of_int c :: u16) = c" using that by (simp add: uint_word_of_int_eq take_bit_int_eq_self)
    then show ?thesis by (simp only: unat_eq_nat_uint)
  qed
  ultimately have "unat (of_int a :: u16) = nat a" "unat (of_int b :: u16) = nat b" "nat a \<le> nat b"
    using ab(1,2) u [of a] u [of b] by linarith+
  then have "percent_of_mv (unat (of_int a :: u16)) \<le> percent_of_mv (unat (of_int b :: u16))"
    by (simp add: percent_mono)
  then show ?thesis
    unfolding ab(3,4) word_le_nat_alt
    using percent_le_100 [of "unat (of_int a :: u16)"] percent_le_100 [of "unat (of_int b :: u16)"]
    by (simp add: unat_of_nat)
qed

end
