(* ===== verification/Case_System.thy ===== *)
theory Case_System
  imports Case_Status
begin

text \<open>
  The charger case as a whole: the interrupt handlers of \<^verbatim>\<open>timer.c\<close> and
  \<^verbatim>\<open>interrupt.c\<close>, \<^verbatim>\<open>wdog.c\<close>, and the table of periodic functions that the main
  loop runs (\<^verbatim>\<open>pfn.c\<close>). The modules of that table which are not modelled here (serial ports,
  USB and firmware update) are the parameter \<open>io\<close>, the processor's wait for an interrupt and its
  reset are \<open>wfi\<close> and \<open>rst\<close>. The properties of the transport and of CCP are stated here for the
  callbacks the firmware really registers.
\<close>

abbreviation case_wire_cb :: "('a case_board_scheme) WIRE_USER_CB" where
  "case_wire_cb \<equiv> ccp_wire_cb case_ccp_cb"

section \<open>Watchdog and interrupt handlers\<close>

text \<open>\<open>wdog_periodic\<close> without the write that reloads the watchdog counter.\<close>

definition wdog_periodic :: "'a board_scheme \<Rightarrow> 'a board_scheme" where
  "wdog_periodic w = power_clear_run_reason POWER_RR_WATCHDOG w"

definition "STATUS_PERIOD_MS = (60000 :: nat)"
definition "WATCHDOG_KICK_PERIOD_MS = (1000 :: nat)"

definition TIM17_IRQHandler :: "'a case_board_scheme \<Rightarrow> 'a case_board_scheme" where
  "TIM17_IRQHandler w =
     (let w = power_set_run_reason POWER_RR_WATCHDOG w;
          w = w\<lparr>tmr := (tmr w)\<lparr>tim17_ctr :=
                of_nat ((unat (tim17_ctr (tmr w)) + 1) mod (STATUS_PERIOD_MS div WATCHDOG_KICK_PERIOD_MS))\<rparr>\<rparr>
      in if tim17_ctr (tmr w) = 0 then case_status_time False w else w)"

text \<open>\<open>pr\<close> is what the handler reads from the pending register.\<close>

definition EXTI0_1_IRQHandler :: "u32 \<Rightarrow> 'a case_board_scheme \<Rightarrow> 'a case_board_scheme" where
  "EXTI0_1_IRQHandler pr w =
     (if (pr AND 0x3) AND push_bit (unat (GPIO_MAG_SENSOR AND 0xF)) 1 \<noteq> 0
      then case_event_occurred w else w)"

definition EXTI4_15_IRQHandler :: "u32 \<Rightarrow> 'a case_board_scheme \<Rightarrow> 'a case_board_scheme" where
  "EXTI4_15_IRQHandler pr w =
     (if (pr AND 0xFFF0) AND push_bit (unat (GPIO_CHG_SENSE AND 0xF)) 1 \<noteq> 0
      then case_event_occurred w else w)"

section \<open>The periodic functions (pfn.c)\<close>

record system = case_board +
  pfn_running :: "bool list"

definition pfn_names :: "string list" where
  "pfn_names = [''wdog'', ''uart_tx'', ''uart_rx'', ''led'', ''ccp'', ''dfu'', ''usb_tx'', ''usb_rx'',
     ''wire'', ''case'', ''power'', ''c_comms'']"

definition pfn_all_running :: "bool list" where
  "pfn_all_running = replicate (length pfn_names) True"

text \<open>The function pointers of the table; entries that are not modelled are \<open>io n\<close>.\<close>

definition pfn_fn ::
    "u16 \<Rightarrow> ('a system_scheme \<Rightarrow> 'a system_scheme) \<Rightarrow> ('a system_scheme \<Rightarrow> 'a system_scheme) \<Rightarrow>
     (nat \<Rightarrow> 'a system_scheme \<Rightarrow> 'a system_scheme) \<Rightarrow> nat \<Rightarrow> 'a system_scheme \<Rightarrow> 'a system_scheme option" where
  "pfn_fn cal wfi rst io n w =
     (if n = 0 then Some (wdog_periodic w)
      else if n = 3 then Some (led_periodic w)
      else if n = 4 then Some (ccp_periodic case_ccp_cb w)
      else if n = 8 then Some (wire_periodic case_wire_cb w)
      else if n = 9 then case_periodic cal w
      else if n = 10 then Some (power_periodic wfi rst w)
      else if n = 11 then charger_comms_periodic w
      else Some (io n w))"

text \<open>The loop of \<open>pfn_periodic\<close>, without the statistics it keeps of the run times.\<close>

fun pfn_loop ::
    "(nat \<Rightarrow> 'a system_scheme \<Rightarrow> 'a system_scheme option) \<Rightarrow> nat list \<Rightarrow> 'a system_scheme \<Rightarrow>
     'a system_scheme option" where
  "pfn_loop fn [] w = Some w"
| "pfn_loop fn (n # ns) w =
     (if \<not> pfn_running w ! n then pfn_loop fn ns w
      else case fn n w of None \<Rightarrow> None | Some w \<Rightarrow> pfn_loop fn ns w)"

definition pfn_periodic ::
    "u16 \<Rightarrow> ('a system_scheme \<Rightarrow> 'a system_scheme) \<Rightarrow> ('a system_scheme \<Rightarrow> 'a system_scheme) \<Rightarrow>
     (nat \<Rightarrow> 'a system_scheme \<Rightarrow> 'a system_scheme) \<Rightarrow> 'a system_scheme \<Rightarrow> 'a system_scheme option" where
  "pfn_periodic cal wfi rst io w = pfn_loop (pfn_fn cal wfi rst io) [0..<length pfn_names] w"

text \<open>\<open>pfn_set_runnable\<close>: the first entry with the name.\<close>

fun first_index :: "'b \<Rightarrow> 'b list \<Rightarrow> nat option" where
  "first_index x [] = None"
| "first_index x (y # ys) = (if x = y then Some 0 else map_option Suc (first_index x ys))"

definition pfn_set_runnable :: "string \<Rightarrow> bool \<Rightarrow> 'a system_scheme \<Rightarrow> 'a system_scheme" where
  "pfn_set_runnable name running w =
     (case first_index name pfn_names of
        None \<Rightarrow> w
      | Some n \<Rightarrow> w\<lparr>pfn_running := (pfn_running w)[n := running]\<rparr>)"

section \<open>The invariant of the system\<close>

definition system_ok :: "'a case_board_scheme \<Rightarrow> bool" where
  "system_ok w \<longleftrightarrow> case_awake w \<and> wire_ok (wire w) \<and> ccp_ok (ccp w)"

text \<open>An operation that leaves the statics of wire, CCP and case, and their run reasons, alone.\<close>

definition lower :: "('a case_board_scheme \<Rightarrow> 'a case_board_scheme) \<Rightarrow> bool" where
  "lower f \<longleftrightarrow> (\<forall>w. cs (f w) = cs w \<and> ccp (f w) = ccp w \<and> wire (f w) = wire w \<and>
     (\<forall>e. runs_for (case_earbud_rr e) (f w) = runs_for (case_earbud_rr e) w))"

lemma lower_ok: "lower f \<Longrightarrow> system_ok w \<Longrightarrow> system_ok (f w)"
  by (simp add: lower_def system_ok_def case_awake_def)

lemma lower_comp: "lower f \<Longrightarrow> lower g \<Longrightarrow> lower (\<lambda>w. f (g w))"
  by (simp add: lower_def)

lemma lower_id: "lower (\<lambda>w. w)"
  by (simp add: lower_def)

lemma lower_if: "lower f \<Longrightarrow> lower g \<Longrightarrow> lower (\<lambda>w. if c w then f w else g w)"
  by (simp add: lower_def)

lemma lower_fields:
  "lower (\<lambda>w. w\<lparr>led := l w\<rparr>)" "lower (\<lambda>w. w\<lparr>tmr := t w\<rparr>)" "lower (\<lambda>w. w\<lparr>adc := a w\<rparr>)"
  "lower (\<lambda>w. w\<lparr>gpio := g w\<rparr>)" "lower (\<lambda>w. w\<lparr>comms := c w\<rparr>)" "lower (\<lambda>w. w\<lparr>mem := m w\<rparr>)"
  "lower (\<lambda>w. w\<lparr>pwr := (pwr w)\<lparr>sleep_count := n w\<rparr>\<rparr>)" "lower (\<lambda>w. w\<lparr>pwr := (pwr w)\<lparr>low_power_fn := p w\<rparr>\<rparr>)"
  by (simp_all add: lower_def runs_for_def)

lemma lower_run_reason:
  "r \<in> {0x4, 0x10, 0x80, 0x200, 0x1000} \<Longrightarrow> lower (power_set_run_reason r)"
  "r \<in> {0x4, 0x10, 0x80, 0x200, 0x1000} \<Longrightarrow> lower (power_clear_run_reason r)"
  by (auto simp: lower_def frame)

lemma lower_pins:
  "lower (gpio_enable p)" "lower (gpio_disable p)" "lower (gpio_set p)" "lower (gpio_reset p)"
  "lower (gpio_input p)" "lower (gpio_output p)" "lower gpio_clock_enable" "lower gpio_clock_disable"
  by (simp_all add: lower_def runs_for_def gpio_enable_def gpio_disable_def gpio_set_def gpio_reset_def
      gpio_input_def gpio_output_def gpio_clock_enable_def gpio_clock_disable_def)

lemma lowerD:
  assumes "lower f"
  shows "cs (f w) = cs w" "ccp (f w) = ccp w" "wire (f w) = wire w"
    "runs_for (case_earbud_rr e) (f w) = runs_for (case_earbud_rr e) w"
  using assms by (simp_all add: lower_def)

lemmas pin_eqs = lower_pins [THEN lowerD(1)] lower_pins [THEN lowerD(2)] lower_pins [THEN lowerD(3)]
  lower_pins [THEN lowerD(4)]

lemma lower_led_set_pin: "lower (led_set_pin c n)"
  by (simp add: lower_def led_set_pin_def Let_def pin_eqs)

lemmas led_pin_eqs = lower_led_set_pin [THEN lowerD(1)] lower_led_set_pin [THEN lowerD(2)]
  lower_led_set_pin [THEN lowerD(3)] lower_led_set_pin [THEN lowerD(4)]

lemma lower_led_set_colour: "lower (led_set_colour c)"
  by (simp add: lower_def led_set_colour_def Let_def led_pin_eqs)

lemmas led_colour_eqs = lower_led_set_colour [THEN lowerD(1)] lower_led_set_colour [THEN lowerD(2)]
  lower_led_set_colour [THEN lowerD(3)] lower_led_set_colour [THEN lowerD(4)]

lemma lower_led_new_sequence: "lower (led_new_sequence s)"
  by (simp add: lower_def led_new_sequence_def Let_def led_colour_eqs)

lemmas led_sequence_eqs = lower_led_new_sequence [THEN lowerD(1)] lower_led_new_sequence [THEN lowerD(2)]
  lower_led_new_sequence [THEN lowerD(3)] lower_led_new_sequence [THEN lowerD(4)]

lemmas clear_eqs = lower_run_reason(2) [THEN lowerD(1)] lower_run_reason(2) [THEN lowerD(2)]
  lower_run_reason(2) [THEN lowerD(3)] lower_run_reason(2) [THEN lowerD(4)]

lemma lower_led_periodic: "lower led_periodic"
  by (simp add: lower_def led_periodic_def Let_def led_sequence_eqs led_colour_eqs clear_eqs)

lemma lower_led_sleep: "lower led_sleep" "lower led_wake"
  by (simp_all add: lower_def led_sleep_def led_wake_def Let_def led_colour_eqs)

lemmas led_sleep_eqs = lower_led_sleep [THEN lowerD(1)] lower_led_sleep [THEN lowerD(2)]
  lower_led_sleep [THEN lowerD(3)] lower_led_sleep [THEN lowerD(4)]

lemma lower_timer:
  "lower timer_sleep" "lower timer_wake" "lower timer_comms_tick_stop" "lower timer_comms_tick_start"
  "lower adc_sleep" "lower adc_wake" "lower adc_start_measuring" "lower SysTick_Handler"
  "lower (ADC1_IRQHandler v)"
  by (simp_all add: lower_def runs_for_def timer_sleep_def timer_wake_def timer_comms_tick_stop_def
      timer_comms_tick_start_def adc_sleep_def adc_wake_def adc_start_measuring_def SysTick_Handler_def
      ADC1_IRQHandler_def Let_def)

lemmas timer_eqs = lower_timer [THEN lowerD(1)] lower_timer [THEN lowerD(2)]
  lower_timer [THEN lowerD(3)] lower_timer [THEN lowerD(4)]

lemma field_eqs:
  "runs_for r (w\<lparr>tmr := t\<rparr>) = runs_for r w" "runs_for r (w\<lparr>adc := a\<rparr>) = runs_for r w"
  by (simp_all add: runs_for_def)

lemma comms_eqs: "runs_for r (w\<lparr>comms := c\<rparr>) = runs_for r w"
  by (simp add: runs_for_def)

lemma lower_begin_sleep: "lower power_begin_sleep_or_stop"
  by (simp add: lower_def power_begin_sleep_or_stop_def Let_def pin_eqs timer_eqs led_sleep_eqs field_eqs)

lemma lower_resume: "lower power_resume"
  by (simp add: lower_def power_resume_def Let_def pin_eqs timer_eqs led_sleep_eqs field_eqs)

text \<open>The modem's interrupt: it touches neither the statics above it nor their run reasons.\<close>

lemma lower_vreg: "lower vreg_high" "lower vreg_low" "lower vreg_reset"
  by (simp_all add: lower_def vreg_high_def vreg_low_def vreg_reset_def charger_comms_vreg_high_def
      charger_comms_vreg_low_def charger_comms_vreg_reset_def pin_eqs comms_eqs)

lemmas vreg_eqs = lower_vreg [THEN lowerD(1)] lower_vreg [THEN lowerD(2)]
  lower_vreg [THEN lowerD(3)] lower_vreg [THEN lowerD(4)]

lemma lower_on_complete: "lower on_complete_impl"
  by (simp add: lower_def on_complete_impl_def Let_def pin_eqs timer_eqs clear_eqs comms_eqs)

lemmas complete_eqs = lower_on_complete [THEN lowerD(1)] lower_on_complete [THEN lowerD(2)]
  lower_on_complete [THEN lowerD(3)] lower_on_complete [THEN lowerD(4)]

definition lower_to :: "'a case_board_scheme \<Rightarrow> 'a case_board_scheme \<Rightarrow> bool" where
  "lower_to w w' \<longleftrightarrow> cs w' = cs w \<and> ccp w' = ccp w \<and> wire w' = wire w \<and>
     (\<forall>e. runs_for (case_earbud_rr e) w' = runs_for (case_earbud_rr e) w)"

lemma lower_to_ok: "lower_to w w' \<Longrightarrow> system_ok w \<Longrightarrow> system_ok w'"
  by (simp add: lower_to_def system_ok_def case_awake_def)

lemma lower_to_simps:
  "lower_to w w" "lower_to u (v\<lparr>comms := c\<rparr>) = lower_to u v" "lower_to u (vreg_high v) = lower_to u v"
  "lower_to u (vreg_low v) = lower_to u v" "lower_to u (vreg_reset v) = lower_to u v"
  "lower_to u (on_complete_impl v) = lower_to u v" "lower_to u (adc_start_measuring v) = lower_to u v"
  by (simp_all add: lower_to_def vreg_eqs complete_eqs timer_eqs comms_eqs)

lemma lower_tick_bits:
  "lower_to w (tick_start_sequence w)" "lower_to w (tick_transmit_bit w)"
  by (simp_all add: tick_start_sequence_def tick_transmit_bit_def Let_def lower_to_simps)

lemma lower_tick_end:
  assumes "tick_end_of_message device_cfg w = Some w'"
  shows "lower_to w w'"
proof -
  have cfg: "on_complete device_cfg = (on_complete_impl :: 'a case_board_scheme \<Rightarrow> _)"
    "adc_threshold (device_cfg :: ('a case_board_scheme) charger_comms_cfg) = 110"
    by (simp_all add: device_cfg_def)
  obtain l r where eqs: "calibrated_threshold 110 (left_earbud (comms w)) = Some l"
      "calibrated_threshold 110 (right_earbud (comms w)) = Some r"
    using assms unfolding tick_end_of_message_def cfg by (auto split: option.splits)
  show ?thesis
    using assms unfolding tick_end_of_message_def cfg eqs option.case prod.case Let_def
    by (cases "expect_reply (comms w)") (auto simp: lower_to_simps frame)
qed

lemma lower_tick_reading:
  assumes "tick_reading device_cfg w = Some w'"
  shows "lower_to w w'"
proof -
  obtain ra r la l where
      "process_earbud (adc_value (adc w) (current_adc_val (right_earbud (comms w)))) (right_earbud (comms w)) = Some (ra, r)"
      "process_earbud (adc_value (adc w) (current_adc_val (left_earbud (comms w)))) (left_earbud (comms w)) = Some (la, l)"
    using assms by (auto simp: tick_reading_def Let_def split: option.splits)
  note eqs = this
  have oc: "on_complete device_cfg = (on_complete_impl :: 'a case_board_scheme \<Rightarrow> _)"
    by (simp add: device_cfg_def)
  show ?thesis
    using assms unfolding tick_reading_def Let_def eqs option.case prod.case oc
    by (auto simp: lower_to_simps simp del: split_paired_All split: if_splits)
qed

lemma lower_tick:
  assumes "charger_comms_tick device_cfg w = Some w'"
  shows "lower_to w w'"
proof -
  have tr: "lower_to w v'" if "tick_transmitting device_cfg v = Some v'" "lower_to w v" for v v'
  proof -
    let ?v = "if bit_idx (comms v) \<ge> 5
      then v\<lparr>comms := (comms v)\<lparr>
         left_earbud := calibrate (adc_value (adc v) (current_adc_val (left_earbud (comms v)))) (left_earbud (comms v)),
         right_earbud := calibrate (adc_value (adc v) (current_adc_val (right_earbud (comms v)))) (right_earbud (comms v))\<rparr>\<rparr>
      else v"
    have "lower_to w ?v" using that(2) by (simp add: lower_to_simps)
    moreover have "lower_to ?v v'"
      using that(1) lower_tick_end [of ?v v'] lower_tick_bits(2) [of ?v]
      unfolding tick_transmitting_def Let_def by (cases "write_idx (comms ?v) = ucast (num_tx_bits (comms ?v))") simp_all
    ultimately show ?thesis by (simp add: lower_to_def)
  qed
  let ?w = "w\<lparr>comms := (comms w)\<lparr>timer_idx := timer_idx (comms w) + 1\<rparr>\<rparr>"
  have w: "lower_to w ?w" by (simp add: lower_to_simps)
  have trans: "lower_to w v" if "lower_to ?w v" for v using w that by (simp add: lower_to_def)
  show ?thesis
  proof (cases "charger_comm_state (comms ?w) \<noteq> CHARGER_COMMS_READING \<and>
                timer_idx (comms ?w) mod of_nat OVERSAMPLES \<noteq> 0")
    case True
    then have "w' = ?w" using assms by (simp add: charger_comms_tick_def Let_def)
    then show ?thesis using w by simp
  next
    case False
    then have "(case charger_comm_state (comms ?w) of CHARGER_COMMS_NOT_ACTIVE \<Rightarrow> Some ?w
        | CHARGER_COMMS_START_SEQUENCE \<Rightarrow> Some (tick_start_sequence ?w)
        | CHARGER_COMMS_TRANSMITTING \<Rightarrow> tick_transmitting device_cfg ?w
        | CHARGER_COMMS_READING \<Rightarrow> tick_reading device_cfg ?w) = Some w'"
      using assms unfolding charger_comms_tick_def Let_def by (simp only: if_False)
    then show ?thesis
      using w tr [of ?w w'] lower_tick_bits(1) [of ?w] lower_tick_reading [of ?w w']
      by (auto intro: trans split: charger_comms_states.splits)
  qed
qed

lemma lower_TIM3: "TIM3_IRQHandler w = Some w' \<Longrightarrow> lower_to w w'"
  using lower_tick [of "adc_start_measuring w" w']
  by (auto simp: TIM3_IRQHandler_def lower_to_def timer_eqs split: if_splits)

section \<open>Every operation keeps the invariant\<close>

lemma wire_ok_new_state [simp]: "wire (case_new_state e s w) = wire w" "ccp (case_new_state e s w) = ccp w"
  by (simp_all add: case_new_state_def Let_def frame)

lemma start_lower [simp]:
  "wire (snd (case_start_status_sequence e w)) = wire w" "ccp (snd (case_start_status_sequence e w)) = ccp w"
  by (simp_all add: case_start_status_sequence_def)

lemma status_time_lower [simp]:
  "wire (case_status_time l w) = wire w" "ccp (case_status_time l w) = ccp w"
  by (auto simp: case_status_time_def Let_def case_start_status_sequence_def split: prod.splits)

definition transport_ok :: "'a case_board_scheme \<Rightarrow> bool" where
  "transport_ok w \<longleftrightarrow> wire_ok (wire w) \<and> ccp_ok (ccp w)"

lemma transport_ok_same:
  "wire w' = wire w \<Longrightarrow> ccp w' = ccp w \<Longrightarrow> transport_ok w' = transport_ok w"
  by (simp add: transport_ok_def)

lemma transport_ok_sent:
  assumes "ccp_tx case_ccp_cb msg chan dest d n a w = (b, v)" "transport_ok w" "unat n \<le> length d"
  shows "transport_ok v"
proof -
  have "wire_ok (wire (snd (ccp_tx case_ccp_cb msg chan dest d n a w)))"
    using assms(2,3) by (intro app.wire_ok_ccp_tx) (simp_all add: transport_ok_def)
  moreover have "ccp_ok (ccp (snd (ccp_tx case_ccp_cb msg chan dest d n a w)))"
    using assms(2) by (intro app.ccp_ok_tx) (simp add: transport_ok_def)
  ultimately show ?thesis using assms(1) by (simp add: transport_ok_def)
qed

lemma transport_ok_switch:
  assumes ok: "transport_ok w"
  shows "transport_ok (case_earbud_switch e w)"
proof -
  have same: "transport_ok (case_new_state e' s v) = transport_ok v"
    "transport_ok (snd (case_start_status_sequence e' v)) = transport_ok v"
    "transport_ok (upd_ces e' f v) = transport_ok v"
    "transport_ok (power_set_run_reason r v) = transport_ok v"
    for e' s f r and v :: "'a case_board_scheme"
    by (simp_all add: transport_ok_def frame)
  show ?thesis
  proof (cases "es_state (ces e w)")
    case CS_STATUS_WANTED
    obtain b v where tx: "ccp_tx_status_request case_ccp_cb e
        (upd_ces e (\<lambda>s. s\<lparr>es_valid := False, es_battery := 0xFF\<rparr>) w) = (b, v)" by fastforce
    then have "transport_ok v" unfolding ccp_tx_status_request_def
      by (rule transport_ok_sent) (simp_all add: same ok)
    then show ?thesis by (simp add: case_earbud_switch_def CS_STATUS_WANTED Let_def tx same)
  next
    case CS_SENT_STATUS_REQUEST
    obtain b v where tx: "ccp_tx_status case_ccp_cb (lid_now (cs w)) (chg_now (cs w))
        (charger_is_charging w) (current_battery_percent (bat w))
        (es_battery (ces EARBUD_LEFT w)) (es_battery (ces EARBUD_RIGHT w))
        (es_charging (ces EARBUD_LEFT w)) (es_charging (ces EARBUD_RIGHT w)) w = (b, v)"
      by fastforce
    then have "transport_ok v" unfolding ccp_tx_status_def
      by (rule transport_ok_sent) (simp_all add: ok)
    then show ?thesis using ok
      by (simp add: case_earbud_switch_def CS_SENT_STATUS_REQUEST Let_def tx same)
  next
    case CS_RESET_WANTED
    obtain b v where tx: "ccp_tx_reset case_ccp_cb e True w = (b, v)" by fastforce
    then have "transport_ok v" unfolding ccp_tx_reset_def
      by (rule transport_ok_sent) (simp_all add: ok)
    then show ?thesis by (simp add: case_earbud_switch_def CS_RESET_WANTED Let_def tx same)
  next
    case CS_RESET_DELAY
    obtain b v where tx: "ccp_tx_status_request case_ccp_cb e w = (b, v)" by fastforce
    then have "transport_ok v" unfolding ccp_tx_status_request_def
      by (rule transport_ok_sent) (simp_all add: ok)
    then show ?thesis using ok by (simp add: case_earbud_switch_def CS_RESET_DELAY Let_def tx same)
  qed (simp_all add: case_earbud_switch_def same ok)
qed

lemma transport_ok_event:
  assumes ok: "transport_ok w"
  shows "transport_ok (case_handle_event w)"
proof -
  have "transport_ok (case_announce v)" if ok: "transport_ok v" for v :: "'a case_board_scheme"
  proof -
    obtain b u where tx: "ccp_tx_short_status case_ccp_cb (lid_now (cs v)) (chg_now (cs v)) v = (b, u)"
      by fastforce
    then have "transport_ok u" unfolding ccp_tx_short_status_def
      by (rule transport_ok_sent) (simp_all add: ok)
    then show ?thesis using ok
      by (simp add: case_announce_def Let_def tx transport_ok_def frame)
  qed
  moreover have "transport_ok (case_lid_opened (case_read_inputs w))"
    using ok by (simp add: case_lid_opened_def case_read_inputs_def transport_ok_def)
  ultimately show ?thesis by (simp add: case_handle_event_def Let_def transport_ok_def frame)
qed

lemma battery_lower: "case_battery_status_periodic cal w = Some w' \<Longrightarrow> wire w' = wire w \<and> ccp w' = ccp w"
proof -
  have "lower (\<lambda>w. led_indicate_battery p w)" for p
    by (simp add: lower_def led_indicate_battery_alt led_sequence_eqs lower_run_reason(1) [THEN lowerD(1)]
        lower_run_reason(1) [THEN lowerD(2)] lower_run_reason(1) [THEN lowerD(3)]
        lower_run_reason(1) [THEN lowerD(4)])
  note led_eqs = lowerD(2) [OF this] lowerD(3) [OF this]
  assume "case_battery_status_periodic cal w = Some w'"
  then show ?thesis
    by (auto simp: case_battery_status_periodic_def Let_def pin_eqs timer_eqs led_eqs
        split: CASE_BATTERY_STATE.splits if_splits option.splits)
qed

lemma transport_ok_case_periodic:
  assumes run: "case_periodic cal w = Some w'" and ok: "transport_ok w"
  shows "transport_ok w'"
proof -
  let ?w = "upd_ces EARBUD_RIGHT (\<lambda>s. s\<lparr>es_time := es_time s + 1\<rparr>)
              (upd_ces EARBUD_LEFT (\<lambda>s. s\<lparr>es_time := es_time s + 1\<rparr>) w)"
  have t: "transport_ok ?w" using ok by (simp add: transport_ok_def)
  show ?thesis
  proof (cases "case_event (cs ?w)")
    case True
    then have "w' = case_handle_event ?w" using run by (simp add: case_periodic_def Let_def)
    then show ?thesis using transport_ok_event [OF t] by simp
  next
    case False
    then obtain v where v: "case_battery_status_periodic cal ?w = Some v"
        and w': "w' = fold case_earbud_step earbuds v"
      using run by (auto simp: case_periodic_def Let_def)
    have "transport_ok v" using battery_lower [OF v] t by (simp add: transport_ok_def)
    moreover have "transport_ok (case_earbud_step e u)" if "transport_ok u" for e and u :: "'a case_board_scheme"
      using transport_ok_switch [OF that, of e] by (simp add: case_earbud_step_def transport_ok_def)
    ultimately show ?thesis unfolding w' earbuds_def by simp
  qed
qed

lemma system_ok_alt: "system_ok w \<longleftrightarrow> case_awake w \<and> transport_ok w"
  by (simp add: system_ok_def transport_ok_def)

lemma system_ok_case_periodic: "case_periodic cal w = Some w' \<Longrightarrow> system_ok w \<Longrightarrow> system_ok w'"
  unfolding system_ok_alt using case_awake_periodic transport_ok_case_periodic by blast

lemma system_ok_wire_periodic: "system_ok w \<Longrightarrow> system_ok (wire_periodic case_wire_cb w)"
  unfolding system_ok_def
  using case_awake_same [OF same_case_wire_periodic] app.transport.wire_ok_periodic
    app.ccp_ok_wire_periodic by blast

lemma system_ok_ccp_periodic: "system_ok w \<Longrightarrow> system_ok (ccp_periodic case_ccp_cb w)"
  unfolding system_ok_def
  using case_awake_same [OF same_case_ccp_periodic] app.wire_ok_ccp_periodic app.ccp_ok_periodic by blast

lemma length_shift_in_bit [simp]: "length (shift_in_bit l p b) = length b"
  by (simp add: shift_in_bit_def)

lemma length_write_bits: "length (snd (snd (write_bits n l p b))) = length b"
  by (induction n arbitrary: p b) simp_all

lemma length_fill_bits [simp]: "length (fill_bits n l p b) = length b"
  by (induction n arbitrary: p b) simp_all

lemma length_process_bits_loop [simp]:
  "length (process_bits_loop es n i st ig ib l p b) = length b"
proof (induction "n - i" arbitrary: i st ig ib l p b rule: less_induct)
  case less
  show ?case
  proof (cases "i < n")
    case True
    then show ?thesis
      by (subst process_bits_loop.simps)
         (simp add: Let_def less length_write_bits case_prod_beta)
  next
    case False
    then show ?thesis by (subst process_bits_loop.simps) simp
  qed
qed

lemma length_fetch: "length (charger_comms_fetch_rx_data ch) = 16"
  by (simp add: charger_comms_fetch_rx_data_def process_bits_def)

lemma deliver_step:
  assumes "charger_comms_deliver e ch w = Some w'" "system_ok w"
  shows "system_ok w'"
proof -
  have w: "cs w' = cs w \<and> ccp w' = ccp w \<and> (\<forall>r. runs_for r w' = runs_for r w)"
    using assms(1) by (auto simp: charger_comms_deliver_def wire_rx_def frame split: if_splits)
  have "wire_ok (wire w')"
    using assms wire_ok_rx [of w "charger_comms_fetch_rx_data ch" e "num_rx_octets ch" w']
    by (auto simp: charger_comms_deliver_def system_ok_def length_fetch split: if_splits)
  with w show ?thesis using assms(2) by (simp add: system_ok_def case_awake_def)
qed

lemma system_ok_cs:
  "case_earbud_status c = case_earbud_status (cs w) \<Longrightarrow> system_ok (w\<lparr>cs := c\<rparr>) = system_ok w"
  by (simp add: system_ok_def case_awake_fields)

lemma system_ok_comms: "system_ok (w\<lparr>comms := c\<rparr>) = system_ok w"
  by (simp add: system_ok_def case_awake_def comms_eqs)

lemma system_ok_read_header: "system_ok (charger_comms_read_header w) = system_ok w"
  by (simp add: charger_comms_read_header_def Let_def system_ok_comms)

lemma system_ok_c_comms:
  assumes "charger_comms_periodic w = Some w'" "system_ok w"
  shows "system_ok w'"
proof -
  let ?w = "w\<lparr>comms := (comms w)\<lparr>received_charger_comm_packet := False\<rparr>\<rparr>"
  have head: "system_ok (if charger_comms_should_read_header v then charger_comms_read_header v else v)"
    if "system_ok v" for v :: "'a case_board_scheme"
    using that by (simp add: system_ok_read_header)
  have ok: "system_ok ?w" using assms(2) by (simp add: system_ok_comms)
  show ?thesis
  proof (cases "received_charger_comm_packet (comms w)")
    case True
    obtain v u where v: "charger_comms_deliver EARBUD_LEFT (left_earbud (comms ?w)) ?w = Some v"
        and u: "charger_comms_deliver EARBUD_RIGHT (right_earbud (comms v)) v = Some u"
        and w': "w' = (if charger_comms_should_read_header u then charger_comms_read_header u else u)"
      using assms(1) True by (auto simp: charger_comms_periodic_def Let_def split: option.splits)
    show ?thesis
      unfolding w' by (intro head deliver_step [OF u] deliver_step [OF v] ok)
  next
    case False
    then have "w' = (if charger_comms_should_read_header w then charger_comms_read_header w else w)"
      using assms(1) by (simp add: charger_comms_periodic_def)
    then show ?thesis using head [OF assms(2)] by simp
  qed
qed

lemma system_ok_reason:
  assumes "r \<in> {0x4, 0x10, 0x80, 0x200, 0x1000}" "system_ok w"
  shows "system_ok (power_set_run_reason r w)" "system_ok (power_clear_run_reason r w)"
  by (rule lower_ok [OF lower_run_reason(1) [OF assms(1)] assms(2)],
      rule lower_ok [OF lower_run_reason(2) [OF assms(1)] assms(2)])

lemma system_ok_event: "system_ok w \<Longrightarrow> system_ok (case_event_occurred w)"
proof -
  assume "system_ok w"
  then have "system_ok (power_set_run_reason POWER_RR_CASE_EVENT w)"
    by (intro system_ok_reason(1)) simp_all
  then show ?thesis
    by (simp add: case_event_occurred_def Let_def system_ok_alt transport_ok_def case_awake_fields
        del: run_reason_defs)
qed

lemma system_ok_status_time: "system_ok w \<Longrightarrow> system_ok (case_status_time l w)"
  by (simp add: system_ok_alt transport_ok_def case_awake_status_time)

lemma system_ok_TIM17: "system_ok w \<Longrightarrow> system_ok (TIM17_IRQHandler w)"
proof -
  assume "system_ok w"
  then have "system_ok (power_set_run_reason POWER_RR_WATCHDOG w)"
    by (intro system_ok_reason(1)) simp_all
  then have "system_ok ((power_set_run_reason POWER_RR_WATCHDOG w)\<lparr>tmr := t\<rparr>)" for t
    by (simp add: system_ok_def case_awake_def field_eqs del: run_reason_defs)
  then show ?thesis
    by (simp add: TIM17_IRQHandler_def Let_def system_ok_status_time del: run_reason_defs)
qed

text \<open>What the parameters of the main loop must do: run code that keeps the invariant.\<close>

definition keeps_ok :: "('a system_scheme \<Rightarrow> 'a system_scheme) \<Rightarrow> bool" where
  "keeps_ok f \<longleftrightarrow> (\<forall>w. system_ok w \<longrightarrow> system_ok (f w))"

lemma system_ok_power:
  assumes "keeps_ok wfi" "keeps_ok rst" "system_ok w"
  shows "system_ok (power_periodic wfi rst w)"
proof -
  have wake: "system_ok (power_resume (wfi (power_begin_sleep_or_stop v)))" if "system_ok v"
    for v :: "'a system_scheme"
  proof -
    have "system_ok (power_begin_sleep_or_stop v)" by (rule lower_ok [OF lower_begin_sleep that])
    then have "system_ok (wfi (power_begin_sleep_or_stop v))"
      using assms(1) unfolding keeps_ok_def by blast
    then show ?thesis by (rule lower_ok [OF lower_resume])
  qed
  moreover have "system_ok (w\<lparr>pwr := (pwr w)\<lparr>sleep_count := n\<rparr>\<rparr>)" for n
    by (rule lower_ok [OF lower_fields(7) [of "\<lambda>_. n"] assms(3)])
  moreover have "system_ok (mem_cfg_standby_set w)"
    using assms(3) by (simp add: mem_cfg_standby_set_def mem_cfg_update_def Let_def system_ok_def
        case_awake_def runs_for_def)
  ultimately show ?thesis
    using assms wake by (auto simp: power_periodic_def power_enter_sleep_def power_enter_stop_def
        power_reset_to_standby_def Let_def keeps_ok_def split: low_power_fn.splits)
qed

lemma system_ok_pfn_fn:
  assumes "keeps_ok wfi" "keeps_ok rst" "\<forall>n. keeps_ok (io n)"
    and "pfn_fn cal wfi rst io n w = Some w'" "system_ok w"
  shows "system_ok w'"
proof -
  have wd: "system_ok (wdog_periodic w)"
    unfolding wdog_periodic_def using assms(5) by (intro system_ok_reason(2)) simp_all
  show ?thesis
    using assms(3-5) wd lower_ok [OF lower_led_periodic] system_ok_ccp_periodic
      system_ok_wire_periodic system_ok_case_periodic system_ok_power [OF assms(1,2)] system_ok_c_comms
    by (auto simp: pfn_fn_def keeps_ok_def split: if_splits)
qed

lemma system_ok_pfn:
  assumes "keeps_ok wfi" "keeps_ok rst" "\<forall>n. keeps_ok (io n)"
  shows "pfn_loop (pfn_fn cal wfi rst io) ns w = Some w' \<Longrightarrow> system_ok w \<Longrightarrow> system_ok w'"
proof (induction ns arbitrary: w)
  case (Cons n ns)
  then show ?case
    using system_ok_pfn_fn [OF assms] by (auto split: if_splits option.splits)
qed simp

section \<open>Reachable states of the system\<close>

text \<open>
  The machine's steps: a pass of the main loop, the interrupts, and the commands and calls that
  other modules make into the case's application. The parameters are as in \<open>pfn_periodic\<close>.
\<close>

inductive system_step ::
    "u16 \<Rightarrow> ('a system_scheme \<Rightarrow> 'a system_scheme) \<Rightarrow> ('a system_scheme \<Rightarrow> 'a system_scheme) \<Rightarrow>
     (nat \<Rightarrow> 'a system_scheme \<Rightarrow> 'a system_scheme) \<Rightarrow> 'a system_scheme \<Rightarrow> 'a system_scheme \<Rightarrow> bool"
  for cal wfi rst io where
  main_loop: "pfn_periodic cal wfi rst io w = Some w' \<Longrightarrow> system_step cal wfi rst io w w'"
| comms_timer: "TIM3_IRQHandler w = Some w' \<Longrightarrow> system_step cal wfi rst io w w'"
| second_timer: "system_step cal wfi rst io w (TIM17_IRQHandler w)"
| systick: "system_step cal wfi rst io w (SysTick_Handler w)"
| adc_done: "system_step cal wfi rst io w (ADC1_IRQHandler v w)"
| lid: "system_step cal wfi rst io w (EXTI0_1_IRQHandler pr w)"
| charger_plug: "system_step cal wfi rst io w (EXTI4_15_IRQHandler pr w)"
| cmd_status: "system_step cal wfi rst io w (case_cmd_status w)"
| cmd_reset: "case_cmd_reset p w = Some w' \<Longrightarrow> system_step cal wfi rst io w w'"
| dfu_begins: "system_step cal wfi rst io w (snd (case_allow_dfu w))"
| dfu_ends: "system_step cal wfi rst io w (case_dfu_finished w)"
| cmd_pfn: "system_step cal wfi rst io w (pfn_set_runnable name b w)"

definition system_initial :: "'a system_scheme \<Rightarrow> bool" where
  "system_initial w \<longleftrightarrow> wire w = wire_initial \<and> ccp w = ccp_initial \<and> cs w = case_initial \<and>
     power_reason_to_run (pwr w) = 0 \<and> pfn_running w = pfn_all_running"

inductive system_reachable ::
    "u16 \<Rightarrow> ('a system_scheme \<Rightarrow> 'a system_scheme) \<Rightarrow> ('a system_scheme \<Rightarrow> 'a system_scheme) \<Rightarrow>
     (nat \<Rightarrow> 'a system_scheme \<Rightarrow> 'a system_scheme) \<Rightarrow> 'a system_scheme \<Rightarrow> bool"
  for cal wfi rst io where
  boot: "system_initial w \<Longrightarrow> system_reachable cal wfi rst io (case_init w)"
| run: "system_reachable cal wfi rst io w \<Longrightarrow> system_step cal wfi rst io w w' \<Longrightarrow>
        system_reachable cal wfi rst io w'"

lemma system_ok_step:
  assumes "keeps_ok wfi" "keeps_ok rst" "\<forall>n. keeps_ok (io n)"
  shows "system_step cal wfi rst io w w' \<Longrightarrow> system_ok w \<Longrightarrow> system_ok w'"
proof (induction rule: system_step.induct)
  case (main_loop w w')
  then show ?case using system_ok_pfn [OF assms] unfolding pfn_periodic_def by blast
next
  case (comms_timer w w')
  then show ?case using lower_to_ok [OF lower_TIM3] by blast
next
  case (cmd_reset p w w')
  have "wire w' = wire w \<and> ccp w' = ccp w"
    using cmd_reset(1) by (auto simp: case_cmd_reset_def split: if_splits option.splits)
  then show ?case
    using cmd_reset case_awake_cmd_reset by (auto simp: system_ok_def)
next
  case (cmd_pfn w name b)
  then show ?case
    by (auto simp: pfn_set_runnable_def system_ok_def case_awake_def runs_for_def split: option.splits)
next
  case (systick w)
  then show ?case by (rule lower_ok [OF lower_timer(8)])
next
  case (adc_done w v)
  then show ?case by (rule lower_ok [OF lower_timer(9)])
qed (simp_all add: EXTI0_1_IRQHandler_def EXTI4_15_IRQHandler_def case_cmd_status_def case_allow_dfu_def
      case_dfu_finished_def system_ok_event system_ok_status_time system_ok_TIM17 system_ok_cs)

end
