(* ===== verification/Case_Properties.thy ===== *)
theory Case_Properties
  imports Case_System
begin

text \<open>
  Properties of the charger case that span the modem, the transport, CCP and the application, for
  the callbacks the firmware registers (\<open>case_wire_cb\<close>, \<open>case_ccp_cb\<close>). They rest on the facts of the
  interpretation \<open>app\<close> of \<open>ccp_user\<close> in \<open>Case_Status\<close>. The concrete state of the witnesses is
  \<open>idle_system\<close>, the case after start-up with nothing on the line.
\<close>

definition idle_system :: system where
  "idle_system = comms_board.extend idle_comms_board
     \<lparr>wire = wire_initial, ccp = ccp_initial, cs = case_initial, pfn_running = pfn_all_running\<rparr>"

lemma idle_system_fields [simp]:
  "wire idle_system = wire_initial" "ccp idle_system = ccp_initial" "cs idle_system = case_initial"
  "comms idle_system = comms_idle" "pwr idle_system = pwr dark_board" "adc idle_system = adc dark_board"
  "pfn_running idle_system = pfn_all_running" "gpio idle_system = gpio dark_board"
  by (simp_all add: idle_system_def comms_board.defs idle_comms_board_def board.defs)

lemma idle_system_inactive [simp]: "\<not> charger_comms_is_active idle_system"
  by (simp add: charger_comms_is_active_def comms_idle_def)

section \<open>The transport\<close>

lemma unicast_frame:
  assumes "fst (wire_tx user (wire_dest e) payload n w)" "wire_ok (wire w)" "length payload = unat n"
    and "length (tx_buf (comms w)) = 16"
  obtains t where "take (unat n + 2) (tx_buf (comms (snd (wire_tx user (wire_dest e) payload n w)))) = tx_frame e t"
    and "tx_len t = n + 2" "length (tx_data t) = 16" "take (unat n) (drop 1 (tx_data t)) = payload"
    and "sn t = sn (wt e w)" "nesn t = nesn (wt e w)" "unat n \<le> 14"
proof -
  have g: "unat n \<le> 14" "broadcast_len (wire w) = 0" "\<not> charger_comms_is_active w" "tx_len (wt e w) = 0"
    using assms(1) by (cases e; auto simp: wire_tx_accept_iff)+
  let ?w = "upd_wt e (\<lambda>t. t\<lparr>tx_len := n + WIRE_NO_OF_BYTES,
               tx_data := memcpy_at 1 (take (unat n) payload) (tx_data t)\<rparr>) w"
  have eq: "comms (snd (wire_tx user (wire_dest e) payload n w)) = comms (wire_tx_stored_message e ?w)"
    using g by (cases e) (simp_all add: wire_tx_def Let_def)
  have t: "wt_ok (wt e w)" using assms(2) by (rule wire_okD)
  have n2: "unat (n + 2) = unat n + 2" using g(1) by (rule unat_plus_2)
  have len: "2 \<le> unat (tx_len (wt e ?w))" "unat (tx_len (wt e ?w)) \<le> 16" "length (tx_data (wt e ?w)) = 16"
    using g(1) n2 t assms(3) by (simp_all add: wt_ok_def)
  have b: "length (tx_buf (comms ?w)) = 16" using assms(4) by simp
  show ?thesis
  proof (rule that [of "wt e ?w"])
    show "take (unat n + 2) (tx_buf (comms (snd (wire_tx user (wire_dest e) payload n w)))) = tx_frame e (wt e ?w)"
      using stored_message(3) [OF len b] n2 by (simp add: eq)
    show "take (unat n) (drop 1 (tx_data (wt e ?w))) = payload"
      using t assms(3) by (simp add: memcpy_at_def wt_ok_def)
  qed (use len g in simp_all)
qed

lemma frame_accepted:
  assumes "2 \<le> unat (tx_len t)" "unat (tx_len t) \<le> 16" "length (tx_data t) = 16"
    and "take (unat (tx_len t)) d = tx_frame e t" "wire_ok (wire v)"
  shows "wire_rx e' d (tx_len t) v = Some (upd_wt e' (\<lambda>s. s\<lparr>rx_data :=
           memcpy_at 0 (tx_frame e t) (rx_data s), rx_len := tx_len t\<rparr>) v)"
    and "take (unat (tx_len t)) (memcpy_at 0 (tx_frame e t) (rx_data (wt e' v))) = tx_frame e t"
proof -
  have u: "unat (tx_len t - 1) = unat (tx_len t) - 1"
    by (rule unat_minus_1) (use assms(1) in auto)
  let ?body = "tx_header e t # take (unat (tx_len t) - 2) (drop 1 (tx_data t))"
  have fr: "tx_frame e t = ?body @ [wire_checksum ?body (tx_len t - 1)]"
    by (simp add: tx_frame_def Let_def)
  have lb: "length ?body = unat (tx_len t) - 1" using assms(1-3) by simp
  have "take (unat (tx_len t) - 1) d = take (unat (tx_len t) - 1) (take (unat (tx_len t)) d)"
    by (simp add: min_def)
  also have "\<dots> = ?body" unfolding assms(4) fr lb [symmetric] by (metis append_eq_conv_conj)
  finally have body: "take (unat (tx_len t) - 1) d = ?body" .
  have "d ! (unat (tx_len t) - 1) = take (unat (tx_len t)) d ! (unat (tx_len t) - 1)"
    using assms(1) by simp
  also have "\<dots> = wire_checksum ?body (tx_len t - 1)"
    unfolding assms(4) fr using lb by (metis nth_append_length)
  finally have "wire_checksum d (tx_len t - 1) = d ! unat (tx_len t - 1)"
    using wire_checksum_prefix [of d "tx_len t - 1"] body u by simp
  then show "wire_rx e' d (tx_len t) v = Some (upd_wt e' (\<lambda>s. s\<lparr>rx_data :=
           memcpy_at 0 (tx_frame e t) (rx_data s), rx_len := tx_len t\<rparr>) v)"
    using assms(1,2,4) by (auto simp: wire_rx_def CHARGER_COMMS_MAX_MSG_LEN_def)
  show "take (unat (tx_len t)) (memcpy_at 0 (tx_frame e t) (rx_data (wt e' v))) = tx_frame e t"
    using tx_frame_fields(1) [OF assms(1-3)] by (simp add: memcpy_at_0)
qed


definition status_poll_edges :: earbud_channel where
  "status_poll_edges = idle_channel\<lparr>adc_buf := [5, 10, 20, 30, 70, 80, 100, 120, 130, 150, 180],
     read_idx := 11, data_valid := True, num_rx_octets := 2\<rparr>"

lemma poll_frame:
  "take 2 (tx_buf (comms (snd (wire_tx case_wire_cb WIRE_DEST_LEFT [] 0 idle_system)))) = [0x21, 0x8d]"
  by code_simp

lemma idle_system_ok [simp]: "wire_ok (wire idle_system)"
  by (simp add: wire_ok_initial)

lemma idle_system_accepts [simp]: "unat n \<le> 14 \<Longrightarrow> fst (wire_tx user dest data n idle_system)"
  by (simp add: wire_tx_accept_iff wire_initial_def zero_transaction_def)


lemma nesn_bit: "WIRE_HDR_GET_NESN d \<in> {0, 1}" "WIRE_HDR_GET_SN d \<in> {0, 1}"
proof -
  have "drop_bit k (d AND push_bit k 1) = (if bit d k then 1 else 0)" if "k < 8" for k
    by (rule bit_word_eqI) (use that in \<open>auto simp: bit_simps intro!: gr0I\<close>)
  from this [of 6] this [of 7] show "WIRE_HDR_GET_NESN d \<in> {0, 1}" "WIRE_HDR_GET_SN d \<in> {0, 1}"
    by (auto simp: hdr_defs)
qed

text \<open>
  C2: A frame with one wrong octet, header, payload or checksum, is never stored: \<open>wire_rx\<close> only
  asks for a repetition.
\<close>

theorem corrupt_frame_asks_retry:
  assumes "2 \<le> unat n" "unat n \<le> 16" "length good = 16"
    and "wire_checksum good (n - 1) = good ! unat (n - 1)"
    and "i < unat n" "x \<noteq> good ! i"
  shows "wire_rx e (good[i := x]) n w = Some (upd_wt e (\<lambda>t. t\<lparr>retry := True\<rparr>) w)"
proof -
  let ?m = "unat n - 1"
  have m: "unat (n - 1) = ?m" by (rule unat_minus_1) (use assms(1) in auto)
  have "wire_checksum (good[i := x]) (n - 1) \<noteq> good[i := x] ! ?m"
  proof (cases "i = ?m")
    case True
    then have "take ?m (good[i := x]) = take ?m good" by simp
    then have "wire_checksum (good[i := x]) (n - 1) = wire_checksum good (n - 1)"
      using wire_checksum_prefix [of good "n - 1"] wire_checksum_prefix [of "good[i := x]" "n - 1"]
      by (simp add: m)
    then show ?thesis using True assms m by simp
  next
    case False
    then have i: "i < ?m" using assms(5) by simp
    let ?xs = "take i good" and ?ys = "drop (Suc i) (take ?m good)"
    have im: "i < length (take ?m good)" using i assms(2,3) by simp
    have a: "take ?m good = ?xs @ good ! i # ?ys"
      using id_take_nth_drop [OF im] i by (simp add: min_def)
    have b: "take ?m (good[i := x]) = ?xs @ x # ?ys"
      using upd_conv_take_nth_drop [OF im, of x] i by (simp add: take_update_swap min_def)
    have l: "length ?xs = i" "length ?ys = ?m - Suc i" using i assms(2,3) by simp_all
    have "n - 1 = of_nat (Suc (length ?xs + length ?ys))"
    proof -
      have "of_nat (unat (n - 1)) = n - 1" by simp
      moreover have "unat (n - 1) = Suc (length ?xs + length ?ys)" unfolding m l using i by simp
      ultimately show ?thesis by metis
    qed
    then have "wire_checksum (?xs @ good ! i # ?ys) (n - 1) \<noteq> wire_checksum (?xs @ x # ?ys) (n - 1)"
      unfolding wire_checksum_def using i l assms(2,6) by (intro crc_octet_error) simp_all
    moreover have "wire_checksum good (n - 1) = wire_checksum (?xs @ good ! i # ?ys) (n - 1)"
      using wire_checksum_prefix [of good "n - 1", unfolded m] arg_cong [OF a, of "\<lambda>d. wire_checksum d (n - 1)"]
      by (rule trans)
    moreover have "wire_checksum (good[i := x]) (n - 1) = wire_checksum (?xs @ x # ?ys) (n - 1)"
      using wire_checksum_prefix [of "good[i := x]" "n - 1", unfolded m]
        arg_cong [OF b, of "\<lambda>d. wire_checksum d (n - 1)"] by (rule trans)
    ultimately show ?thesis using assms(4) i m by simp
  qed
  then show ?thesis using assms(1,2) m by (auto simp: wire_rx_def)
qed

theorem corrupt_frame_asks_retry_witness:
  "wire_rx EARBUD_LEFT ((0x21 # 0x8d # replicate 14 0)[0 := 0x61]) 2 idle_system =
     Some (upd_wt EARBUD_LEFT (\<lambda>t. t\<lparr>retry := True\<rparr>) idle_system)"
proof -
  have "wire_checksum (0x21 # 0x8d # replicate 14 0) (2 - 1) = 0x8d" by code_simp
  then show ?thesis
    using corrupt_frame_asks_retry [of 2 "0x21 # 0x8d # replicate 14 0" 0 "0x61" EARBUD_LEFT idle_system]
    by simp
qed

text \<open>
  C3: An earbud that has not seen our acknowledgement repeats its packet. However often the packet
  arrives, it is given to CCP once: when the packet that carried an acknowledgement of our message
  comes a second time, the transport counts it and asks for a repetition of its own
  acknowledgement, and calls nobody.
\<close>

theorem duplicate_not_delivered:
  assumes "wire_ok (wire w)" "rx_len (wt e w) \<noteq> 0"
    and "WIRE_HDR_GET_NESN (rx_data (wt e w) ! 0) \<noteq> sn (wt e w)"
    and "w2 = upd_wt e (\<lambda>t. t\<lparr>rx_data := rx_data (wt e w), rx_len := rx_len (wt e w)\<rparr>)
                (wire_process_rx case_wire_cb e w)"
  shows "wire_process_rx case_wire_cb e w2 = upd_wt e rx_transaction w2 \<and>
    retry (wt e (wire_process_rx case_wire_cb e w2)) \<and>
    rx_len (wt e (wire_process_rx case_wire_cb e w2)) = 0"
proof -
  have t: "sn (wt e w) \<in> {0, 1}" using wire_okD [OF assms(1), of e] by (simp add: wt_ok_def)
  have "wt e w2 = (rx_transaction (wt e w))\<lparr>rx_data := rx_data (wt e w), rx_len := rx_len (wt e w)\<rparr>"
    unfolding assms(4) by (simp add: app.transport.process_rx_wire)
  then have "WIRE_HDR_GET_NESN (rx_data (wt e w2) ! 0) = sn (wt e w2)" and "rx_len (wt e w2) \<noteq> 0"
    using assms(2,3) t nesn_bit(1) [of "rx_data (wt e w) ! 0"] by (auto simp: rx_transaction_def)
  then show ?thesis
    by (auto simp: app.transport.process_rx_nack rx_transaction_def Let_def)
qed

text \<open>A state with a packet of the left earbud in the transport: an answer of three octets.\<close>

definition answered_system :: system where
  "answered_system = upd_wt EARBUD_LEFT (\<lambda>t. t\<lparr>tx_len := 3, rx_len := 5,
     rx_data := [0x44, 0x01, 0x01, 0xD0, 0x00] @ replicate 11 0\<rparr>) idle_system"

lemma answered_system_ok: "wire_ok (wire answered_system)"
  by (simp add: answered_system_def wire_ok_def wt_ok_def wire_initial_def zero_transaction_def)

lemma answered_system_fields:
  "rx_len (wt EARBUD_LEFT answered_system) = 5"
  "rx_data (wt EARBUD_LEFT answered_system) = [0x44, 0x01, 0x01, 0xD0, 0x00] @ replicate 11 0"
  "sn (wt EARBUD_LEFT answered_system) = 0"
  by (simp_all add: answered_system_def wire_initial_def zero_transaction_def)

theorem duplicate_not_delivered_witness:
  "retry (wt EARBUD_LEFT (wire_process_rx case_wire_cb EARBUD_LEFT
     (upd_wt EARBUD_LEFT (\<lambda>t. t\<lparr>rx_data := rx_data (wt EARBUD_LEFT answered_system),
        rx_len := rx_len (wt EARBUD_LEFT answered_system)\<rparr>)
      (wire_process_rx case_wire_cb EARBUD_LEFT answered_system))))"
  using duplicate_not_delivered [OF answered_system_ok _ _ refl, of EARBUD_LEFT]
    answered_system_fields(1,3) arg_cong [OF answered_system_fields(2), of "\<lambda>d. d ! 0"]
  by (auto simp: hdr_defs)

text \<open>
  C4: Every state the transport can reach from start-up, by any calls of its functions and any
  changes of the rest of the state in between, keeps its buffers at sixteen octets, its lengths
  within them, its sequence bits 0 or 1, at most two retries and at most three broadcasts.
\<close>

theorem transport_invariant:
  assumes "wire_reachable case_wire_cb w"
  shows "length (broadcast_data (wire w)) = 16 \<and> unat (broadcast_len (wire w)) \<le> 16 \<and>
    unat (broadcast_count (wire w)) \<le> 3 \<and>
    length (tx_data (wt e w)) = 16 \<and> length (rx_data (wt e w)) = 16 \<and>
    unat (tx_len (wt e w)) \<noteq> 1 \<and> unat (tx_len (wt e w)) \<le> 16 \<and>
    unat (rx_len (wt e w)) \<le> 16 \<and> unat (retry_count (wt e w)) \<le> 2 \<and>
    sn (wt e w) \<in> {0, 1} \<and> nesn (wt e w) \<in> {0, 1}"
proof -
  have ok: "wire_ok (wire w)" by (rule app.transport.wire_ok_reachable [OF assms])
  then have t: "wt_ok (wt e w)" by (rule wire_okD)
  then have "unat (tx_len (wt e w)) \<noteq> 1" by (auto simp: wt_ok_def)
  with t ok show ?thesis unfolding wire_ok_def wt_ok_def by blast
qed

theorem transport_invariant_witness:
  "unat (retry_count (wt EARBUD_LEFT (snd (wire_tx case_wire_cb WIRE_DEST_LEFT [0x03] 1 idle_system)))) \<le> 2"
proof -
  have "wire_reachable case_wire_cb idle_system" by (rule wire_reachable.start) simp
  moreover have "wire_step case_wire_cb idle_system (snd (wire_tx case_wire_cb WIRE_DEST_LEFT [0x03] 1 idle_system))"
    by (rule wire_step.step_tx) simp
  ultimately have "wire_reachable case_wire_cb (snd (wire_tx case_wire_cb WIRE_DEST_LEFT [0x03] 1 idle_system))"
    by (rule wire_reachable.step)
  then show ?thesis using transport_invariant by blast
qed

section \<open>Timeouts of the transport\<close>

text \<open>
  C6: A silent earbud: the message accepted at some moment is still waiting after two hundred
  periodic calls, and the next one gives it up, tells CCP, which frees its channel, and sets the
  give-up flag of the earbud's status machine.
\<close>

theorem silent_earbud_given_up:
  assumes "fst (wire_tx case_wire_cb (wire_dest e) data n w)" "wire_ok (wire w)" "unat n \<le> length data"
    and "rx_len (wt e w) = 0" "tx_len (wt (other e) w) = 0" "rx_len (wt (other e) w) = 0"
    and "length envs = 200" "\<forall>env' \<in> set (env # envs). \<forall>v. wire (env' v) = wire v"
    and "v = wire_rounds case_wire_cb envs (snd (wire_tx case_wire_cb (wire_dest e) data n w))"
  shows "tx_len (wt e v) \<noteq> 0 \<and>
    tx_len (wt e (wire_periodic case_wire_cb (env v))) = 0 \<and>
    \<not> busy (ccp (wire_periodic case_wire_cb (env v)) e) \<and>
    es_give_up (ces e (wire_periodic case_wire_cb (env v)))"
proof -
  define u where "u = snd (wire_tx case_wire_cb (wire_dest e) data n w)"
  note tx = app.transport.tx_unicast [OF assms(1-3), folded u_def]
  have q: "quiet e u" using tx assms(4-6) by (simp add: quiet_def)
  have "quiet e v \<and> nack_count (wt e v) = 0 \<and> wire_ok (wire v) \<and> tx_len (wt e v) \<noteq> 0 \<and>
      \<not> retry (wt e v) \<and> unat (no_response_timeout (wt e v)) = 200 - length envs"
    unfolding assms(9) u_def [symmetric]
    using app.transport.silent_rounds [OF _ q tx(4) tx(10) tx(2,3), of envs] assms(7,8) tx(6) by auto
  moreover from this have "no_response_timeout (wt e v) = 0" using assms(7) by (simp add: unat_eq_0)
  moreover have v: "wire (env v) = wire v" using assms(8) by simp
  ultimately have t: "tx_len (wt e v) \<noteq> 0" and "wire_periodic case_wire_cb (env v) =
      ccp_give_up case_ccp_cb e (upd_wt e (\<lambda>t. t\<lparr>tx_len := 0\<rparr>) (env v))"
    using app.transport.silent_end [of e "env v"] by (simp_all add: quiet_def)
  then show ?thesis
    by (simp add: ccp_give_up_def case_ccp_cb_def case_give_up_def frame)
qed

theorem silent_earbud_given_up_witness:
  "es_give_up (ces EARBUD_LEFT (wire_periodic case_wire_cb (wire_rounds case_wire_cb (replicate 200 id)
     (snd (wire_tx case_wire_cb WIRE_DEST_LEFT [0x03] 1 idle_system)))))"
  using silent_earbud_given_up [of EARBUD_LEFT "[0x03]" 1 idle_system "replicate 200 id" id, OF _ _ _ _ _ _ _ _ refl]
  by (simp add: wire_initial_def zero_transaction_def other_def wire_ok_initial [unfolded wire_initial_def zero_transaction_def])


text \<open>The line goes idle and every third packet of the earbud is damaged.\<close>

definition damaged_line :: "nat \<Rightarrow> system \<Rightarrow> system" where
  "damaged_line k w =
     (let w = w\<lparr>comms := comms_idle\<rparr>
      in if k mod 3 = 0 then upd_wt EARBUD_LEFT (\<lambda>t. t\<lparr>retry := True\<rparr>) w else w)"


text \<open>
  A broadcast is sent three times: at once, and again eleven and twenty-two periods later if
  the line is free; then the channel is released and the run reason that keeps the processor awake
  for it is cleared.
\<close>

theorem broadcast_sent_three_times:
  assumes "fst (wire_tx case_wire_cb WIRE_DEST_BROADCAST data n w)" "wire_ok (wire w)" "unat n \<le> length data"
    and "length envs = 21"
    and env: "\<forall>env' \<in> set (env # envs). \<forall>v. wire (env' v) = wire v \<and> \<not> charger_comms_is_active (env' v)"
    and "u = snd (wire_tx case_wire_cb WIRE_DEST_BROADCAST data n w)"
    and "v = wire_rounds case_wire_cb envs u"
  shows "broadcast_count (wire u) = 1 \<and> charger_comms_is_active u \<and>
    broadcast_len (wire v) = n + 2 \<and> broadcast_count (wire v) = 2 \<and>
    broadcast_data (wire v) = broadcast_data (wire u) \<and>
    broadcast_count (wire (wire_periodic case_wire_cb (env v))) = 3 \<and>
    broadcast_len (wire (wire_periodic case_wire_cb (env v))) = 0 \<and>
    \<not> runs_for POWER_RR_BROADCAST (wire_periodic case_wire_cb (env v))"
proof -
  note tx = app.transport.tx_broadcast [OF assms(1-3), folded assms(6)]
  have w: "wire v = (wire u)\<lparr>broadcast_count := 2, broadcast_timeout := 0\<rparr>"
    unfolding assms(7) using app.transport.broadcast_rounds [OF _ assms(4) tx(6,2,3,4)] env by simp
  have v: "wire (env v) = wire v" "\<not> charger_comms_is_active (env v)" using env by simp_all
  have ok: "wire_ok (wire (env v))" using tx(6) by (simp add: v w wire_ok_def)
  have "wire_periodic case_wire_cb (env v) = case_broadcast_finished
      ((wire_send_broadcast (env v))\<lparr>wire := (wire (env v))\<lparr>broadcast_count := broadcast_count (wire (env v)) + 1,
         broadcast_len := 0\<rparr>\<rparr>)"
    using app.transport.broadcast_send(2) [OF _ _ v(2) ok] tx(2)
    by (simp add: v w ccp_broadcast_finished_def case_ccp_cb_def)
  then show ?thesis
    using tx by (simp add: v w case_broadcast_finished_def frame)
qed

theorem broadcast_sent_three_times_witness:
  "broadcast_len (wire (wire_periodic case_wire_cb ((\<lambda>w. w\<lparr>comms := comms_idle\<rparr>)
     (wire_rounds case_wire_cb (replicate 21 (\<lambda>w. w\<lparr>comms := comms_idle\<rparr>))
       (snd (wire_tx case_wire_cb WIRE_DEST_BROADCAST [0x00, 0x01] 2 idle_system)))))) = 0"
  using broadcast_sent_three_times [of "[0x00, 0x01]" 2 idle_system
      "replicate 21 (\<lambda>w. w\<lparr>comms := comms_idle\<rparr>)" "\<lambda>w. w\<lparr>comms := comms_idle\<rparr>", OF _ _ _ _ _ refl refl]
  by (simp add: wire_ok_initial charger_comms_is_active_def comms_idle_def)

section \<open>Polling\<close>

text \<open>
  An earbud that acknowledges a request but never answers is polled every fifty periods, five
  times, and given up at the three hundredth period: \<open>k\<close> periods after the acknowledgement the
  transaction is still open with \<open>k div 50\<close> polls sent.
\<close>

theorem polled_five_times:
  assumes "busy (ccp w e)" "poll_timeout (ccp w e) = 0" "poll_count (ccp w e) = 0"
    and "length envs = 299" "\<forall>env' \<in> set (env # envs). only_acks e env'"
    and "u = ccp_ack case_ccp_cb e w" "v = poll_rounds case_ccp_cb e envs u"
  shows "(\<forall>k \<le> 299. busy (ccp (poll_rounds case_ccp_cb e (take k envs) u) e) \<and>
      unat (poll_count (ccp (poll_rounds case_ccp_cb e (take k envs) u) e)) = k div 50) \<and>
    \<not> busy (ccp (ccp_manage_transaction case_ccp_cb e (env v)) e) \<and>
    es_give_up (ces e (ccp_manage_transaction case_ccp_cb e (env v)))"
proof -
  have u: "polling_at 0 (ccp u e)" using assms(1,3,6) by (simp add: ccp_ack_def polling_at_def)
  have run: "polling_at (0 + length es) (ccp (poll_rounds case_ccp_cb e es u) e)"
    if "length es \<le> 299" "set es \<subseteq> set envs" for es
    using that assms(5) by (intro poll_run [OF _ u]) auto
  have "polling_at k (ccp (poll_rounds case_ccp_cb e (take k envs) u) e)" if "k \<le> 299" for k
    using run [of "take k envs"] that assms(4) set_take_subset [of k envs] by (simp add: min_def)
  then have all: "busy (ccp (poll_rounds case_ccp_cb e (take k envs) u) e) \<and>
      unat (poll_count (ccp (poll_rounds case_ccp_cb e (take k envs) u) e)) = k div 50" if "k \<le> 299" for k
    using that unfolding polling_at_def by blast
  have "polling_at 299 (ccp v e)" using run [of envs] assms(4,7) by simp
  moreover have "ccp (env v) = ccp v" using assms(5) by (simp add: only_acks_def)
  ultimately have "ccp_manage_transaction case_ccp_cb e (env v) =
      ccp_give_up case_ccp_cb e (upd_ct e (\<lambda>t. t\<lparr>poll_timeout := 0, busy := False\<rparr>) (env v))"
    by (intro poll_end) simp
  then show ?thesis
    using all by (simp add: ccp_give_up_def case_ccp_cb_def case_give_up_def frame)
qed

definition free_line :: "system \<Rightarrow> system" where
  "free_line w = w\<lparr>comms := comms_idle, wire := wire_initial\<rparr>"

theorem polled_five_times_witness:
  "es_give_up (ces EARBUD_LEFT (ccp_manage_transaction case_ccp_cb EARBUD_LEFT (free_line
     (poll_rounds case_ccp_cb EARBUD_LEFT (replicate 299 free_line)
       (ccp_ack case_ccp_cb EARBUD_LEFT (upd_ct EARBUD_LEFT (\<lambda>t. t\<lparr>busy := True\<rparr>) idle_system))))))"
proof -
  have "only_acks EARBUD_LEFT free_line"
    by (simp add: only_acks_def free_line_def wire_ready_def wire_initial_def zero_transaction_def
        charger_comms_is_active_def comms_idle_def)
  then show ?thesis
    using polled_five_times [of "upd_ct EARBUD_LEFT (\<lambda>t. t\<lparr>busy := True\<rparr>) idle_system" EARBUD_LEFT
        "replicate 299 free_line" free_line, OF _ _ _ _ _ refl refl]
    by (simp add: ccp_initial_def)
qed

section \<open>Messages\<close>

lemma low_bit_seven: "push_bit 7 c AND 0x80 = (if odd c then 0x80 else 0)" for c :: u8
proof -
  have "push_bit 7 c AND push_bit 7 1 = push_bit 7 (c AND 1)" by (simp add: push_bit_and)
  then show ?thesis by (simp add: and_one_eq odd_iff_mod_2_eq_one)
qed

lemma battery_octet:
  "CCP_BATTERY_GET_LEVEL (CCP_BATTERY level c) = level AND 0x7F"
  "CCP_BATTERY_GET_C (CCP_BATTERY level c) = c AND 1"
  by (simp_all add: CCP_BATTERY_GET_LEVEL_def CCP_BATTERY_GET_C_def CCP_BATTERY_def bitmap_set_def
      bitmap_get_def bit.conj_disj_distrib2 and.assoc low_bit_seven and_one_eq odd_iff_mod_2_eq_one)

lemma message_header:
  "CCP_HDR_GET_MSG_ID (CCP_HDR chan msg) = msg_code msg"
  "CCP_HDR_GET_CHAN_ID (CCP_HDR chan msg) = chan_code chan"
  by (cases chan; cases msg; simp add: CCP_HDR_GET_MSG_ID_def CCP_HDR_GET_CHAN_ID_def CCP_HDR_def
      bitmap_set_def bitmap_get_def)+

lemma status_flags_octet:
  "CCP_STATUS_1 l cc AND 0x01 = of_bool l" "drop_bit 1 (CCP_STATUS_1 l cc AND 0x02) = of_bool cc"
  by (cases l; cases cc; simp add: CCP_STATUS_1_def bitmap_set_def)+

text \<open>What a broadcast leaves in the modem's transmit buffer.\<close>

definition broadcast_header :: "u8 \<Rightarrow> u8" where
  "broadcast_header n = WIRE_HDR_DEST (dest_code WIRE_DEST_BROADCAST) OR WIRE_HDR_LENGTH (n + 1)"

lemma broadcast_frame:
  assumes "fst (wire_tx case_wire_cb WIRE_DEST_BROADCAST payload n w)" "length payload = unat n"
    and "payload \<noteq> []" "wire_ok (wire w)" "length (tx_buf (comms w)) = 16"
  shows "take (unat n + 2) (tx_buf (comms (snd (wire_tx case_wire_cb WIRE_DEST_BROADCAST payload n w)))) =
    (broadcast_header n # payload) @ [wire_checksum (broadcast_header n # payload) (n + 1)]"
proof -
  have g: "unat n \<le> 14" "broadcast_len (wire w) = 0" "\<not> charger_comms_is_active w"
    using assms(1) by (auto simp: wire_tx_accept_iff)
  have n0: "n \<noteq> 0" using assms(2,3) by auto
  have u: "unat (n + 1) = unat n + 1" "unat (n + 2) = unat n + 2"
    using g(1) by (simp_all add: unat_plus_one unat_plus_2)
  let ?d = "memcpy_at 1 payload ((broadcast_data (wire w))[0 := broadcast_header n])"
  let ?d2 = "?d[unat (n + 1) := wire_checksum ?d (n + 1)]"
  have b: "length (broadcast_data (wire w)) = 16" using assms(4) by (simp add: wire_ok_def)
  then have len: "length ?d = 16" using g(1) assms(2) by simp
  have body: "take (unat n + 1) ?d = broadcast_header n # payload"
    using b g(1) assms(2) by (cases "broadcast_data (wire w)") (simp_all add: memcpy_at_def)
  have "take (unat n + 2) ?d2 = take (unat n + 1) ?d @ [wire_checksum ?d (n + 1)]"
    using take_update_last [of "unat n + 2" ?d "wire_checksum ?d (n + 1)"] u(1) g(1) len by simp
  moreover have "wire_checksum ?d (n + 1) = wire_checksum (broadcast_header n # payload) (n + 1)"
    using wire_checksum_prefix [of ?d "n + 1"] u(1) body by simp
  ultimately have sent: "take (unat n + 2) ?d2 =
      (broadcast_header n # payload) @ [wire_checksum (broadcast_header n # payload) (n + 1)]"
    unfolding body by metis
  have "tx_buf (comms (snd (wire_tx case_wire_cb WIRE_DEST_BROADCAST payload n w))) =
      memcpy_at 0 (take (unat n + 2) ?d2) (tx_buf (comms w))"
    using g assms(2,3) n0 u
    by (simp add: wire_tx_def Let_def wire_send_broadcast_def wire_setup_broadcast_def transmit_comms
        broadcast_header_def app.transport.user_wire(4) app.transport.user_comms(4) del: ccp_wire_cb_sel)
  then show ?thesis
    using sent assms(2,5) g(1) by (simp add: memcpy_at_0)
qed

text \<open>
  C8: A status broadcast says what it was given: the octets CCP hands to the modem pass the CRC
  check, carry the STATUS message of the case-information channel, and reading them with the
  protocol's own field macros gives back the lid and charger bits, the three battery levels (modulo
  128) and the three charging bits.
\<close>

theorem status_message_decodes:
  assumes "ccp_tx_status case_ccp_cb l cc charging bc bl br cl cr w = (True, w')"
    and "wire_ok (wire w)" "length (tx_buf (comms w)) = 16" "f = take 7 (tx_buf (comms w'))"
  shows "crc_verify_crc8 f 6 \<and> unat (CHARGER_COMMS_GET_PAYLOAD_LENGTH f) = 6 \<and>
    CCP_HDR_GET_MSG_ID (f ! 1) = msg_code CCP_MSG_STATUS \<and>
    CCP_HDR_GET_CHAN_ID (f ! 1) = chan_code CCP_CH_CASE_INFO \<and>
    f ! 2 AND 0x01 = of_bool l \<and> drop_bit 1 (f ! 2 AND 0x02) = of_bool cc \<and>
    map CCP_BATTERY_GET_LEVEL [f ! 3, f ! 4, f ! 5] = [bc AND 0x7F, bl AND 0x7F, br AND 0x7F] \<and>
    map CCP_BATTERY_GET_C [f ! 3, f ! 4, f ! 5] = [of_bool charging, cl AND 1, cr AND 1]"
proof -
  define p where "p = [CCP_HDR CCP_CH_CASE_INFO CCP_MSG_STATUS, CCP_STATUS_1 l cc,
      CCP_BATTERY bc (of_bool charging), CCP_BATTERY bl cl, CCP_BATTERY br cr]"
  have tx: "wire_tx case_wire_cb WIRE_DEST_BROADCAST p 5 w = (True, w')"
    using assms(1) by (simp add: ccp_tx_status_def ccp_tx_def Let_def p_def)
  have f: "f = (broadcast_header 5 # p) @ [wire_checksum (broadcast_header 5 # p) 6]"
    using broadcast_frame [of p 5 w] tx assms(2-4) by (simp add: p_def)
  have "crc_verify_crc8 f 6"
    using crc_verify_eq [of 6 "broadcast_header 5 # p"] by (simp add: f wire_checksum_def p_def)
  moreover have "of_bool charging AND 1 = (of_bool charging :: u8)" by simp
  moreover have "f ! 2 = CCP_STATUS_1 l cc" by (simp add: f p_def)
  then have "f ! 2 AND 0x01 = of_bool l \<and> drop_bit 1 (f ! 2 AND 0x02) = of_bool cc"
    using status_flags_octet by metis
  moreover have "unat (CHARGER_COMMS_GET_PAYLOAD_LENGTH f) = 6"
    by (simp add: f CHARGER_COMMS_GET_PAYLOAD_LENGTH_def broadcast_header_def hdr_defs)
  ultimately show ?thesis by (simp add: f p_def message_header battery_octet)
qed

theorem status_message_decodes_witness:
  "crc_verify_crc8 (take 7 (tx_buf (comms (snd
     (ccp_tx_status case_ccp_cb True False True 80 0xFF 42 0 1 idle_system))))) 6"
proof -
  obtain w' where w': "ccp_tx_status case_ccp_cb True False True 80 0xFF 42 0 1 idle_system = (True, w')"
    by (cases "ccp_tx_status case_ccp_cb True False True 80 0xFF 42 0 1 idle_system")
       (auto simp: ccp_tx_status_def ccp_tx_def Let_def dest: arg_cong [where f=fst])
  show ?thesis
    using status_message_decodes [OF w' _ _ refl] by (simp add: w' wire_ok_initial comms_idle_def)
qed

text \<open>
  An earbud's status reaches the application: when the transport processes a packet that
  acknowledges our request and carries an EARBUD\_STATUS message, the earbud's entry is marked valid
  with the battery level, the charging bit and the peer-present bit of the message, the CCP channel
  is free again, and the transport goes on to acknowledge the packet.
\<close>

theorem earbud_status_delivered:
  assumes "rx_len (wt e w) = 5" "WIRE_HDR_GET_NESN (rx_data (wt e w) ! 0) \<noteq> sn (wt e w)"
    and "take 3 (drop 1 (rx_data (wt e w))) = [CCP_HDR CCP_CH_CASE_INFO CCP_MSG_EARBUD_STATUS, pp, CCP_BATTERY level c]"
    and "w' = wire_process_rx case_wire_cb e w"
  shows "es_valid (ces e w') \<and> es_pp (ces e w') = (pp AND 1) \<and>
    es_battery (ces e w') = level AND 0x7F \<and> es_charging (ces e w') = c AND 1 \<and>
    \<not> busy (ccp w' e) \<and> rx_len (wt e w') = 0 \<and> tx_len (wt e w') = 2 \<and> retry (wt e w')"
proof -
  have l: "length (take 3 (drop 1 (rx_data (wt e w)))) = 3" unfolding assms(3) by simp
  have d: "rx_data (wt e w) ! 1 = CCP_HDR CCP_CH_CASE_INFO CCP_MSG_EARBUD_STATUS"
      "rx_data (wt e w) ! 2 = pp" "rx_data (wt e w) ! 3 = CCP_BATTERY level c"
    using arg_cong [OF assms(3), of "\<lambda>x. x ! 0"] arg_cong [OF assms(3), of "\<lambda>x. x ! 1"]
      arg_cong [OF assms(3), of "\<lambda>x. x ! 2"] l by (simp_all add: eval_nat_numeral)
  have "wt e w' = rx_transaction (wt e w)"
    unfolding assms(4) by (simp add: app.transport.process_rx_wire)
  moreover have "5 > (2 :: u8)" by simp
  ultimately have "rx_len (wt e w') = 0" "tx_len (wt e w') = 2" "retry (wt e w')"
    using assms(1,2) by (simp_all add: rx_transaction_def Let_def)
  moreover have "es_valid (ces e w') \<and> es_pp (ces e w') = (pp AND 1) \<and>
      es_battery (ces e w') = level AND 0x7F \<and> es_charging (ces e w') = c AND 1 \<and> \<not> busy (ccp w' e)"
    unfolding assms(4) wire_process_rx_def
    using assms(1,2) d [unfolded numeral_2_eq_2 numeral_3_eq_3] l
    by (simp add: Let_def frame ccp_rx_def message_header battery_octet case_ccp_cb_def
        case_rx_earbud_status_def CCP_EARBUD_STATUS_GET_PP_def bitmap_get_def)
  ultimately show ?thesis by blast
qed

theorem earbud_status_delivered_witness:
  "es_battery (ces EARBUD_LEFT (wire_process_rx case_wire_cb EARBUD_LEFT answered_system)) = 0x50"
proof -
  have "take 3 (drop 1 (rx_data (wt EARBUD_LEFT answered_system))) =
      [CCP_HDR CCP_CH_CASE_INFO CCP_MSG_EARBUD_STATUS, 1, CCP_BATTERY 0x50 1]"
    by (simp add: answered_system_fields CCP_HDR_def CCP_BATTERY_def bitmap_set_def)
  from earbud_status_delivered [OF _ _ this refl] show ?thesis
    using arg_cong [OF answered_system_fields(2), of "\<lambda>d. d ! 0"] answered_system_fields(1,3)
    by (simp add: hdr_defs)
qed

section \<open>The application\<close>





lemma event_state:
  assumes "case_event (cs w)"
  obtains v where "case_periodic cal w = Some (case_handle_event v)"
    and "wire v = wire w" "comms v = comms w" "gpio v = gpio w" "case_flags (cs v) = case_flags (cs w)"
proof (rule that)
  let ?w = "upd_ces EARBUD_RIGHT (\<lambda>s. s\<lparr>es_time := es_time s + 1\<rparr>)
              (upd_ces EARBUD_LEFT (\<lambda>s. s\<lparr>es_time := es_time s + 1\<rparr>) w)"
  show "case_periodic cal w = Some (case_handle_event ?w)"
    using assms by (simp add: case_periodic_def Let_def)
  show "wire ?w = wire w" "comms ?w = comms w" "gpio ?w = gpio w" "case_flags (cs ?w) = case_flags (cs w)"
    by simp_all (simp add: upd_ces_def)
qed

lemma inputs_of_gpio:
  "gpio v = gpio w \<Longrightarrow> gpio_active p v = gpio_active p w"
  "gpio v = gpio w \<Longrightarrow> charger_connected v = charger_connected w"
  by (simp_all add: gpio_active_def charger_connected_def)

lemma status_time_keeps:
  "wire (case_status_time l w) = wire w" "comms (case_status_time l w) = comms w"
  "case_flags (cs (case_status_time l w)) = case_flags (cs w)"
  by (simp_all add: case_status_time_def Let_def case_start_status_sequence_def case_new_state_def
      frame split: prod.splits)

lemma lid_opened_keeps:
  "wire (case_lid_opened w) = wire w" "comms (case_lid_opened w) = comms w"
  "case_flags (cs (case_lid_opened w)) = case_flags (cs w)"
  by (simp_all add: case_lid_opened_def status_time_keeps)

lemma case_flagsD:
  assumes "case_flags c = case_flags d"
  shows "lid_now c = lid_now d" "lid_before c = lid_before d" "chg_now c = chg_now d"
    "chg_before c = chg_before d" "case_event c = case_event d"
  using assms by (simp_all add: case_flags_def)


text \<open>Periods of the application, with any change of the rest of the state before each.\<close>

fun case_rounds ::
    "u16 \<Rightarrow> ('a case_board_scheme \<Rightarrow> 'a case_board_scheme) list \<Rightarrow> 'a case_board_scheme \<Rightarrow>
     'a case_board_scheme option" where
  "case_rounds cal [] w = Some w"
| "case_rounds cal (env # envs) w = Option.bind (case_periodic cal (env w)) (case_rounds cal envs)"

lemma rounds_flags:
  "\<lbrakk>case_rounds cal envs w = Some w'; \<forall>env \<in> set envs. \<forall>v. cs (env v) = cs v; \<not> case_event (cs w)\<rbrakk> \<Longrightarrow>
   case_flags (cs w') = case_flags (cs w)"
proof (induction envs arbitrary: w)
  case (Cons env envs)
  then obtain v where v: "case_periodic cal (env w) = Some v" "case_rounds cal envs v = Some w'"
    by (auto split: bind_splits)
  have "case_flags (cs v) = case_flags (cs w)"
    using periodic_flags [OF v(1)] Cons.prems(2,3) by simp
  then show ?case
    using Cons.IH [OF v(2)] Cons.prems(2,3) case_flagsD(5) [of "cs v" "cs w"] by simp
qed simp

text \<open>
  If the line is busy when the change is handled, the announcement is lost: the event and its
  run reason are cleared although nothing was sent, and whatever number of periods follow without a
  new edge on an input, the announced inputs stay as they were.
\<close>

theorem input_change_lost_on_busy_line:
  assumes "case_event (cs w)" "broadcast_len (wire w) \<noteq> 0 \<or> charger_comms_is_active w"
    and "case_periodic cal w = Some w'"
  shows "\<not> case_event (cs w') \<and> \<not> runs_for POWER_RR_CASE_EVENT w' \<and> wire w' = wire w \<and>
    lid_now (cs w') = gpio_active GPIO_MAG_SENSOR w \<and> lid_before (cs w') = lid_before (cs w) \<and>
    chg_before (cs w') = chg_before (cs w) \<and>
    (\<forall>envs w2. (\<forall>env \<in> set envs. \<forall>v. cs (env v) = cs v) \<and> case_rounds cal envs w' = Some w2 \<longrightarrow>
       lid_before (cs w2) = lid_before (cs w) \<and> chg_before (cs w2) = chg_before (cs w) \<and>
       \<not> case_event (cs w2))"
proof -
  obtain v where v: "case_periodic cal w = Some (case_handle_event v)" "wire v = wire w" "comms v = comms w"
      "gpio v = gpio w" "case_flags (cs v) = case_flags (cs w)"
    using assms(1) by (rule event_state)
  define u where "u = case_lid_opened (case_read_inputs v)"
  have i: "gpio_active GPIO_MAG_SENSOR v = gpio_active GPIO_MAG_SENSOR w"
    by (rule inputs_of_gpio(1) [OF v(4)])
  have u: "wire u = wire w" "comms u = comms w" "case_flags (cs u) = case_flags (cs (case_read_inputs v))"
    unfolding u_def by (simp_all add: lid_opened_keeps case_read_inputs_def v)
  have f: "lid_now (cs u) = gpio_active GPIO_MAG_SENSOR w" "lid_before (cs u) = lid_before (cs w)"
      "chg_before (cs u) = chg_before (cs w)" "\<not> case_event (cs u)"
    using case_flagsD [OF u(3)] case_flagsD [OF v(5)] i by (simp_all add: case_read_inputs_def)
  have "\<not> fst (wire_tx case_wire_cb WIRE_DEST_BROADCAST p n u)" for p n
    using assms(2) u(1,2) by (simp add: wire_tx_accept_iff charger_comms_is_active_def)
  moreover from this have "snd (wire_tx case_wire_cb WIRE_DEST_BROADCAST p n u) = u" for p n
    by (rule wire_tx_refused)
  ultimately have tx: "ccp_tx_short_status case_ccp_cb l c u = (False, u)" for l c
    by (simp add: ccp_tx_short_status_def ccp_tx_def prod_eq_iff)
  have "case_handle_event v = power_clear_run_reason POWER_RR_CASE_EVENT u"
    unfolding case_handle_event_def u_def [symmetric] case_announce_def tx using f(4) by simp
  then have "w' = power_clear_run_reason POWER_RR_CASE_EVENT u"
    using assms(3) unfolding v(1) by simp
  then have w': "cs w' = cs u" "wire w' = wire w" "\<not> runs_for POWER_RR_CASE_EVENT w'"
    using u(1) by (simp_all add: frame)
  have later: "case_flags (cs w2) = case_flags (cs u)"
    if "case_rounds cal envs w' = Some w2" "\<forall>env \<in> set envs. \<forall>v. cs (env v) = cs v" for cal envs w2
    using rounds_flags [OF that] f(4) w'(1) by simp
  show ?thesis
    using w' f case_flagsD [OF later] by (simp del: run_reason_defs) blast
qed

text \<open>The lid, remembered as closed, is open.\<close>

definition opened_system :: system where
  "opened_system = idle_system\<lparr>gpio := (gpio idle_system)\<lparr>gpio_idr := \<lambda>_. True\<rparr>\<rparr>"


theorem input_change_lost_on_busy_line_witness:
  "\<exists>w'. case_periodic 0 (opened_system\<lparr>wire := wire_initial\<lparr>broadcast_len := 4\<rparr>\<rparr>) = Some w' \<and>
     \<not> case_event (cs w') \<and> wire w' = wire_initial\<lparr>broadcast_len := 4\<rparr> \<and> lid_now (cs w') \<noteq> lid_before (cs w')"
proof -
  let ?w = "opened_system\<lparr>wire := wire_initial\<lparr>broadcast_len := 4\<rparr>\<rparr>"
  have e: "case_event (cs ?w)" by (simp add: opened_system_def case_initial_def)
  then obtain w' where w': "case_periodic 0 ?w = Some w'" by (simp add: case_periodic_def Let_def)
  have "gpio_active GPIO_MAG_SENSOR ?w" "\<not> lid_before (cs ?w)"
    by (simp_all add: opened_system_def gpio_active_def case_initial_def)
  then show ?thesis
    using w' input_change_lost_on_busy_line [OF e _ w'] by simp
qed

section \<open>The battery\<close>

text \<open>
  C11: A battery measurement that has been asked for is finished after exactly 233 periods: the
  result is the percentage of the converter's readings at that moment, the measuring circuit is
  switched off, and the LED shows the result if that was asked for.
\<close>

theorem battery_measured_in_233_periods:
  assumes "bat_state (bat w) = CASE_BATTERY_START_READING" "length envs = 232"
    and "\<forall>env' \<in> set (env # envs). \<forall>v. cs (env' v) = cs v"
    and "\<forall>v. case_battery_percentage cal (env v) = Some p"
  shows "\<exists>v w'. battery_rounds cal envs w = Some v \<and> bat_state (bat v) \<noteq> CASE_BATTERY_DONE \<and>
    battery_rounds cal (envs @ [env]) w = Some w' \<and> bat_state (bat w') = CASE_BATTERY_DONE \<and>
    current_battery_percent (bat w') = p \<and> \<not> gpio_driven_active GPIO_VBAT_MONITOR_ON_OFF w' \<and>
    (bat_led (bat w) \<longrightarrow> runs_for POWER_RR_LED w' \<and> led_seq (led w') = battery_sequence p)"
proof -
  have "measuring_at 0 (bat w)" using assms(1) by (simp add: measuring_at_def)
  from measuring_run [OF this, of envs cal] assms(2,3)
  obtain v where v: "battery_rounds cal envs w = Some v" "measuring_at 232 (bat v)"
      "bat_led (bat v) = bat_led (bat w)" by auto
  have e: "bat (env v) = bat v" using assms(3) by simp
  then obtain w' where w': "case_battery_status_periodic cal (env v) = Some w'"
      "bat_state (bat w') = CASE_BATTERY_DONE" "current_battery_percent (bat w') = p"
      "\<not> gpio_driven_active GPIO_VBAT_MONITOR_ON_OFF w'"
      "bat_led (bat v) \<longrightarrow> runs_for POWER_RR_LED w' \<and> led_seq (led w') = battery_sequence p"
    using measuring_end [of "env v" cal p] v(2) assms(4) by auto
  have "battery_rounds cal (es @ fs) u = Option.bind (battery_rounds cal es u) (battery_rounds cal fs)"
    for es fs and u :: "'a case_board_scheme"
    by (induction es arbitrary: u) (auto split: bind_splits)
  then have "battery_rounds cal (envs @ [env]) w = Some w'" by (simp add: v(1) w'(1))
  moreover have "bat_state (bat v) \<noteq> CASE_BATTERY_DONE" using v(2) by (simp add: measuring_at_def)
  ultimately show ?thesis using v(1,3) w'(2-5) by blast
qed

text \<open>Readings of 2400 for the battery and 1500, the calibration value, for the reference.\<close>

definition charged_board :: "system \<Rightarrow> system" where
  "charged_board w = w\<lparr>adc := (adc w)\<lparr>adc_value := \<lambda>n. if n = ADC_VBAT then 2400 else 1500\<rparr>\<rparr>"

lemma charged_millivolts: "vbat_millivolts 1500 1500 2400 = 3960967 / 1024"
proof -
  have r1: "round_single (33 / 5) = 13841203 / 2097152"
    by (subst round_single_eq [of "-21" _ 13841203]) (simp_all add: pow2_def)
  have r6: "round_single (13841203 / 2097152) = 13841203 / 2097152"
    by (subst round_single_eq [of "-21" _ 13841203]) (simp_all add: pow2_def)
  have r2: "round_single (160 / 273) = 9832801 / 16777216"
    by (subst round_single_eq [of "-24" _ 9832801]) (simp_all add: pow2_def)
  have r3: "round_single (136097794699603 / 35184372088832) = 16224121 / 4194304"
    by (subst round_single_eq [of "-22" _ 16224121]) (simp_all add: pow2_def)
  have r4: "round_single (2028015125 / 524288) = 3960967 / 1024"
    by (subst round_single_eq [of "-12" _ 15843868]) (simp_all add: pow2_def)
  have r5: "round_single 1 = 1"
    by (subst round_single_eq [of "-23" _ 8388608]) (simp_all add: pow2_def)
  show ?thesis by (simp add: vbat_millivolts_def Let_def r1 r2 r3 r4 r5 r6)
qed

lemma charged_board_millivolts: "get_vbat_mv 1500 (charged_board w) = Some 3868"
proof -
  have "\<lfloor>3960967 / 1024 :: rat\<rfloor> = 3868" by (simp add: floor_eq_iff)
  then show ?thesis by (simp add: get_vbat_mv_def charged_board_def adc_read_def charged_millivolts)
qed

lemma charged_board_percentage: "case_battery_percentage 1500 (charged_board w) = Some 59"
  by (simp add: case_battery_percentage_def charged_board_millivolts percent_of_mv_def)

theorem battery_measured_in_233_periods_witness:
  "\<exists>w'. battery_rounds 1500 (replicate 232 id @ [charged_board]) (case_cmd_status idle_system) = Some w' \<and>
     current_battery_percent (bat w') = 59 \<and> runs_for POWER_RR_LED w'"
proof -
  have b: "bat (case_cmd_status idle_system) =
      (bat idle_system)\<lparr>bat_state := CASE_BATTERY_START_READING, bat_led := True\<rparr>"
    by (simp add: case_cmd_status_def case_status_time_def case_initial_def Let_def
        case_start_status_sequence_def case_new_state_def frame)
  have "cs (charged_board v) = cs v" for v by (simp add: charged_board_def)
  then show ?thesis
    using battery_measured_in_233_periods [of "case_cmd_status idle_system" "replicate 232 id" charged_board 1500 59]
      charged_board_percentage b by auto
qed

text \<open>
  C12: The percentage shown for a voltage is never above 100, is 0 up to 3400 mV and 100 from
  4200 mV, and in between is within half a percentage point (4 mV) of the exact proportion.
\<close>

theorem percentage_is_nearest:
  assumes "case_battery_percentage cal w = Some p" "get_vbat_mv cal w = Some mv"
  shows "unat p \<le> 100 \<and> (unat mv > 3400 \<or> p = 0) \<and> (unat mv < 4200 \<or> p = 100) \<and>
    (unat mv < 3400 \<or> unat mv > 4200 \<or> \<bar>int (8 * unat p) - (int (unat mv) - 3400)\<bar> \<le> 4)"
proof -
  have p: "p = of_nat (percent_of_mv (unat mv))" using assms by (simp add: case_battery_percentage_def)
  have "percent_of_mv (unat mv) \<le> 100" by (rule percent_le_100)
  then have u: "unat p = percent_of_mv (unat mv)" unfolding p by (simp add: unat_of_nat)
  moreover have "p = 0" if "\<not> unat mv > 3400" using that by (simp add: p percent_of_mv_def)
  moreover have "p = 100" if "\<not> unat mv < 4200" using that by (simp add: p percent_of_mv_def)
  moreover note percent_le_100 [of "unat mv"] percent_nearest [of "unat mv"]
  ultimately show ?thesis by force
qed

theorem percentage_is_nearest_witness: "\<bar>int (8 * unat (59 :: u8)) - (int (unat (3868 :: u16)) - 3400)\<bar> \<le> 4"
  using percentage_is_nearest [OF charged_board_percentage charged_board_millivolts] by simp

text \<open>
  A higher reading of the battery never shows a lower percentage, in spite of the four
  single-precision roundings of the conversion.
\<close>

theorem percentage_follows_reading:
  assumes "case_battery_percentage cal w = Some p" "case_battery_percentage cal w' = Some p'"
    and "adc_read ADC_VREF w' = adc_read ADC_VREF w" "adc_read ADC_VBAT w \<le> adc_read ADC_VBAT w'"
  shows "p \<le> p'"
  using percentage_mono [OF assms] .

theorem percentage_follows_reading_witness: "(59 :: u8) \<le> 59"
  by (rule percentage_follows_reading [OF charged_board_percentage [of idle_system] charged_board_percentage [of idle_system]])
     simp_all

end
