(* ===== verification/Task_List.thy ===== *)
theory Task_List
  imports Prelude
begin

text \<open>
  \<^verbatim>\<open>task_list.c\<close> (adk/src/libs/task\_list): a set of message tasks kept in insertion order,
  optionally with 64 bits of data each. The tasks are spread over a flexible array behind the
  structure, one task in a union, and a heap array behind the pointer in the same union; the size
  is a bit field of four bits. A panic, a read of an uninitialised or wrong union member and an
  access outside an array are \<open>None\<close>. Shown: the storage implements a duplicate-free list, and
  where it does not.
\<close>

section \<open>State\<close>

type_synonym Task = nat
type_synonym u64 = "64 word"

datatype task_list_type_t = TASKLIST_TYPE_STANDARD | TASKLIST_TYPE_WITH_DATA

text \<open>The union \<open>u\<close>; all bits zero, \<open>NULL\<close> for both members, is \<open>U_task 0\<close>.\<close>

datatype task_union = U_task Task | U_tasks "Task option list"

record task_list =
  size_list :: "4 word"
  size_flexible_tasks :: "4 word"
  list_type :: task_list_type_t
  no_destroy :: bool
  tl_u :: task_union
  flexible_tasks :: "Task option list"
  tl_data :: "u64 option list"

definition "TASK_LIST_SIZE_BITS = (4 :: nat)"
definition "TASK_LIST_MAX_TASKS = (2 ^ TASK_LIST_SIZE_BITS - 1 :: nat)"

abbreviation tl_size :: "'a task_list_scheme \<Rightarrow> nat" where
  "tl_size l \<equiv> unat (size_list l)"

abbreviation tl_flex :: "'a task_list_scheme \<Rightarrow> nat" where
  "tl_flex l \<equiv> unat (size_flexible_tasks l)"

text \<open>Heap arrays: an element is \<open>None\<close> until it is written.\<close>

definition array_get :: "'b option list \<Rightarrow> nat \<Rightarrow> 'b option" where
  "array_get xs i = (if i < length xs then xs ! i else None)"

definition array_set :: "'b option list \<Rightarrow> nat \<Rightarrow> 'b \<Rightarrow> 'b option list option" where
  "array_set xs i v = (if i < length xs then Some (xs[i := Some v]) else None)"

definition realloc :: "nat \<Rightarrow> 'b option list \<Rightarrow> 'b option list" where
  "realloc n xs = take n xs @ replicate (n - length xs) None"

section \<open>Internal functions\<close>

definition taskList_GetTaskAtIndex :: "task_list \<Rightarrow> nat \<Rightarrow> Task option" where
  "taskList_GetTaskAtIndex l index =
     (if index < tl_flex l then array_get (flexible_tasks l) index
      else if index = tl_flex l \<and> tl_size l = index + 1 then
        (case tl_u l of U_task t \<Rightarrow> Some t | U_tasks ts \<Rightarrow> None)
      else (case tl_u l of U_task t \<Rightarrow> None | U_tasks ts \<Rightarrow> array_get ts (index - tl_flex l)))"

fun find_loop :: "task_list \<Rightarrow> Task \<Rightarrow> nat list \<Rightarrow> nat option \<Rightarrow> nat option option" where
  "find_loop l search_task [] found = Some found"
| "find_loop l search_task (iter # iters) found =
     (case taskList_GetTaskAtIndex l iter of
        None \<Rightarrow> None
      | Some t \<Rightarrow> find_loop l search_task iters (if t = search_task then Some iter else found))"

definition taskList_FindTaskIndex :: "task_list \<Rightarrow> Task \<Rightarrow> nat option option" where
  "taskList_FindTaskIndex l search_task = find_loop l search_task [0..<tl_size l] None"

definition taskList_SetTaskAtIndex :: "task_list \<Rightarrow> Task \<Rightarrow> nat \<Rightarrow> task_list option" where
  "taskList_SetTaskAtIndex l task index =
     (if index < tl_flex l then
        map_option (\<lambda>a. l\<lparr>flexible_tasks := a\<rparr>) (array_set (flexible_tasks l) index task)
      else if index = tl_flex l \<and> index + 1 = tl_size l then Some (l\<lparr>tl_u := U_task task\<rparr>)
      else
        (case tl_u l of
           U_task t \<Rightarrow> None
         | U_tasks ts \<Rightarrow> map_option (\<lambda>a. l\<lparr>tl_u := U_tasks a\<rparr>) (array_set ts (index - tl_flex l) task)))"

text \<open>The part of \<open>taskList_Resize\<close> that moves tasks between the union and the heap array.\<close>

definition resize_tasks :: "task_list \<Rightarrow> nat \<Rightarrow> task_union option" where
  "resize_tasks l new_size =
     (let flex_size = tl_flex l; static_size = flex_size + 1; old_size = tl_size l in
      if new_size = static_size then
        if old_size > static_size then
          (case tl_u l of U_task t \<Rightarrow> None | U_tasks ts \<Rightarrow> map_option U_task (array_get ts 0))
        else if old_size < static_size then Some (U_task 0)
        else Some (tl_u l)
      else if new_size > static_size then
        if old_size = static_size then
          (case tl_u l of
             U_task t \<Rightarrow> Some (U_tasks (Some t # replicate (new_size - flex_size - 1) None))
           | U_tasks ts \<Rightarrow> None)
        else
          (case tl_u l of
             U_task t \<Rightarrow> if t = 0 then Some (U_tasks (realloc (new_size - flex_size) [])) else None
           | U_tasks ts \<Rightarrow> Some (U_tasks (realloc (new_size - flex_size) ts)))
      else if old_size > static_size then
        (case tl_u l of U_task t \<Rightarrow> None | U_tasks ts \<Rightarrow> Some (U_task 0))
      else if old_size = static_size then Some (U_task 0)
      else Some (tl_u l))"

definition taskList_Resize :: "task_list \<Rightarrow> nat \<Rightarrow> task_list option" where
  "taskList_Resize l new_size =
     (case resize_tasks l new_size of
        None \<Rightarrow> None
      | Some u \<Rightarrow>
          let l = l\<lparr>tl_u := u\<rparr>;
              l = (if list_type l = TASKLIST_TYPE_WITH_DATA then
                     if new_size \<noteq> 0 then l\<lparr>tl_data := realloc new_size (tl_data l)\<rparr>
                     else l\<lparr>tl_data := []\<rparr>
                   else l)
          in Some (l\<lparr>size_list := of_nat new_size\<rparr>))"

text \<open>\<open>iterateIndex\<close>: whether it succeeded, the next task, and the index if it was written.\<close>

definition iterateIndex :: "task_list \<Rightarrow> Task \<Rightarrow> (bool \<times> Task \<times> nat option) option" where
  "iterateIndex l next_task =
     (if tl_size l \<noteq> 0 then
        if next_task = 0 then map_option (\<lambda>t. (True, t, Some 0)) (taskList_GetTaskAtIndex l 0)
        else
          (case taskList_FindTaskIndex l next_task of
             None \<Rightarrow> None
           | Some None \<Rightarrow> Some (False, 0, None)
           | Some (Some i) \<Rightarrow>
               if i + 1 < tl_size l
               then map_option (\<lambda>t. (True, t, Some (i + 1))) (taskList_GetTaskAtIndex l (i + 1))
               else Some (False, next_task, None))
      else Some (False, next_task, None))"

text \<open>
  The loop that fills the array for a multicast; \<open>arr\<close> is the array allocated for it. It may only
  end because the tasks are distinct: hence the fuel, of which \<open>Suc (tl_size l)\<close> is enough.
\<close>

fun task_array_loop ::
    "nat \<Rightarrow> task_list \<Rightarrow> Task \<Rightarrow> nat option \<Rightarrow> Task option list \<Rightarrow> Task option list option" where
  "task_array_loop 0 l next_task index arr = None"
| "task_array_loop (Suc fuel) l next_task index arr =
     (case iterateIndex l next_task of
        None \<Rightarrow> None
      | Some (False, _, _) \<Rightarrow>
          (case index of None \<Rightarrow> None | Some i \<Rightarrow> array_set arr (i + 1) 0)
      | Some (True, t, index') \<Rightarrow>
          (case index' of
             None \<Rightarrow> None
           | Some i \<Rightarrow>
               (case array_set arr i t of
                  None \<Rightarrow> None
                | Some arr \<Rightarrow> task_array_loop fuel l t (Some i) arr)))"

text \<open>\<open>Some None\<close> is the result \<open>NULL\<close> for an empty list.\<close>

definition taskList_CreateNullTerminatedTaskArray :: "task_list \<Rightarrow> Task option list option option" where
  "taskList_CreateNullTerminatedTaskArray l =
     (if tl_size l \<noteq> 0
      then map_option Some (task_array_loop (Suc (tl_size l)) l 0 None (replicate (tl_size l + 1) None))
      else Some None)"

section \<open>Interface\<close>

definition TaskList_InitialiseWithCapacity :: "nat \<Rightarrow> task_list option" where
  "TaskList_InitialiseWithCapacity capacity =
     (if capacity \<le> TASK_LIST_MAX_TASKS then
        Some \<lparr>size_list = 0, size_flexible_tasks = of_nat (capacity - 1),
              list_type = TASKLIST_TYPE_STANDARD, no_destroy = True, tl_u = U_task 0,
              flexible_tasks = replicate (capacity - 1) (Some 0), tl_data = []\<rparr>
      else None)"

definition TaskList_Initialise :: "task_list option" where
  "TaskList_Initialise = TaskList_InitialiseWithCapacity 1"

definition TaskList_CreateWithCapacity :: "nat \<Rightarrow> task_list option" where
  "TaskList_CreateWithCapacity capacity =
     (let capacity = (if capacity = 0 then 1 else capacity)
      in map_option (\<lambda>l. l\<lparr>no_destroy := False\<rparr>) (TaskList_InitialiseWithCapacity capacity))"

definition TaskList_Create :: "task_list option" where
  "TaskList_Create = TaskList_CreateWithCapacity 1"

definition TaskList_WithDataInitialise :: task_list where
  "TaskList_WithDataInitialise =
     \<lparr>size_list = 0, size_flexible_tasks = 0, list_type = TASKLIST_TYPE_WITH_DATA, no_destroy = True,
      tl_u = U_task 0, flexible_tasks = [], tl_data = []\<rparr>"

definition TaskList_WithDataCreate :: task_list where
  "TaskList_WithDataCreate = TaskList_WithDataInitialise\<lparr>no_destroy := False\<rparr>"

text \<open>Destroying returns whether it succeeds; the list is not used afterwards.\<close>

definition TaskList_Destroy :: "task_list \<Rightarrow> unit option" where
  "TaskList_Destroy l =
     (if no_destroy l then None else map_option (\<lambda>_. ()) (taskList_Resize l 0))"

definition TaskList_IsTaskOnList :: "task_list \<Rightarrow> Task \<Rightarrow> bool option" where
  "TaskList_IsTaskOnList l search_task =
     map_option (\<lambda>r. r \<noteq> None) (taskList_FindTaskIndex l search_task)"

definition TaskList_AddTask :: "task_list \<Rightarrow> Task \<Rightarrow> (bool \<times> task_list) option" where
  "TaskList_AddTask l add_task =
     (if add_task = 0 then None
      else
        (case TaskList_IsTaskOnList l add_task of
           None \<Rightarrow> None
         | Some True \<Rightarrow> Some (False, l)
         | Some False \<Rightarrow>
             (case taskList_Resize l (tl_size l + 1) of
                None \<Rightarrow> None
              | Some l \<Rightarrow>
                  map_option (Pair True)
                    (taskList_SetTaskAtIndex l add_task (unat ((ucast (size_list l) :: u16) - 1))))))"

definition TaskList_IsTaskListWithData :: "task_list \<Rightarrow> bool" where
  "TaskList_IsTaskListWithData l \<longleftrightarrow> list_type l = TASKLIST_TYPE_WITH_DATA"

definition TaskList_AddTaskWithData :: "task_list \<Rightarrow> Task \<Rightarrow> u64 \<Rightarrow> (bool \<times> task_list) option" where
  "TaskList_AddTaskWithData l add_task data =
     (if TaskList_IsTaskListWithData l then
        (case TaskList_AddTask l add_task of
           None \<Rightarrow> None
         | Some (False, l) \<Rightarrow> Some (False, l)
         | Some (True, l) \<Rightarrow>
             map_option (\<lambda>d. (True, l\<lparr>tl_data := d\<rparr>)) (array_set (tl_data l) (tl_size l - 1) data))
      else Some (False, l))"

text \<open>The loop of \<open>TaskList_RemoveTask\<close> that closes the gap.\<close>

fun shift_loop :: "nat list \<Rightarrow> task_list \<Rightarrow> task_list option" where
  "shift_loop [] l = Some l"
| "shift_loop (iter # iters) l =
     (case taskList_GetTaskAtIndex l (iter + 1) of
        None \<Rightarrow> None
      | Some t \<Rightarrow>
          (case taskList_SetTaskAtIndex l t iter of None \<Rightarrow> None | Some l \<Rightarrow> shift_loop iters l))"

definition TaskList_RemoveTask :: "task_list \<Rightarrow> Task \<Rightarrow> (bool \<times> task_list) option" where
  "TaskList_RemoveTask l del_task =
     (if del_task = 0 then None
      else
        (case taskList_FindTaskIndex l del_task of
           None \<Rightarrow> None
         | Some None \<Rightarrow> Some (False, l)
         | Some (Some index) \<Rightarrow>
             (case shift_loop [index..<tl_size l - 1] l of
                None \<Rightarrow> None
              | Some l \<Rightarrow>
                  let l = (if list_type l = TASKLIST_TYPE_WITH_DATA
                           then l\<lparr>tl_data := take index (tl_data l) @ drop (index + 1) (tl_data l) @
                                              drop (tl_size l - 1) (tl_data l)\<rparr>
                           else l)
                  in map_option (Pair True) (taskList_Resize l (tl_size l - 1)))))"

definition TaskList_RemoveAllTasks :: "task_list \<Rightarrow> task_list option" where
  "TaskList_RemoveAllTasks l =
     (if list_type l = TASKLIST_TYPE_WITH_DATA then None else taskList_Resize l 0)"

definition TaskList_Size :: "task_list \<Rightarrow> nat" where
  "TaskList_Size l = tl_size l"

definition TaskList_Iterate :: "task_list \<Rightarrow> Task \<Rightarrow> (bool \<times> Task) option" where
  "TaskList_Iterate l next_task = map_option (\<lambda>(r, t, _). (r, t)) (iterateIndex l next_task)"

text \<open>With the data of the task, as \<open>TaskList_IterateWithData\<close> copies it.\<close>

definition TaskList_IterateWithData :: "task_list \<Rightarrow> Task \<Rightarrow> (bool \<times> Task \<times> u64 option) option" where
  "TaskList_IterateWithData l next_task =
     (if TaskList_IsTaskListWithData l then
        (case iterateIndex l next_task of
           None \<Rightarrow> None
         | Some (True, t, Some i) \<Rightarrow> map_option (\<lambda>d. (True, t, Some d)) (array_get (tl_data l) i)
         | Some (_, t, _) \<Rightarrow> Some (False, t, None))
      else Some (False, next_task, None))"

definition TaskList_GetDataForTask :: "task_list \<Rightarrow> Task \<Rightarrow> u64 option option" where
  "TaskList_GetDataForTask l search_task =
     (if TaskList_IsTaskListWithData l then
        (case taskList_FindTaskIndex l search_task of
           None \<Rightarrow> None
         | Some None \<Rightarrow> Some None
         | Some (Some i) \<Rightarrow> map_option Some (array_get (tl_data l) i))
      else Some None)"

definition TaskList_SetDataForTask :: "task_list \<Rightarrow> Task \<Rightarrow> u64 \<Rightarrow> (bool \<times> task_list) option" where
  "TaskList_SetDataForTask l search_task data =
     (if TaskList_IsTaskListWithData l then
        (case taskList_FindTaskIndex l search_task of
           None \<Rightarrow> None
         | Some None \<Rightarrow> Some (False, l)
         | Some (Some i) \<Rightarrow> map_option (\<lambda>d. (True, l\<lparr>tl_data := d\<rparr>)) (array_set (tl_data l) i data))
      else Some (False, l))"

fun copy_loop :: "nat list \<Rightarrow> task_list \<Rightarrow> task_list \<Rightarrow> task_list option" where
  "copy_loop [] l new_list = Some new_list"
| "copy_loop (index # is) l new_list =
     (case taskList_GetTaskAtIndex l index of
        None \<Rightarrow> None
      | Some t \<Rightarrow>
          (case taskList_SetTaskAtIndex new_list t index of
             None \<Rightarrow> None | Some new_list \<Rightarrow> copy_loop is l new_list))"

definition TaskList_Duplicate :: "task_list \<Rightarrow> task_list option" where
  "TaskList_Duplicate l =
     (case (if list_type l = TASKLIST_TYPE_STANDARD then TaskList_CreateWithCapacity (tl_flex l)
            else Some TaskList_WithDataCreate) of
        None \<Rightarrow> None
      | Some n \<Rightarrow>
          let n = n\<lparr>size_list := size_list l, size_flexible_tasks := size_flexible_tasks l,
                    list_type := list_type l, no_destroy := False\<rparr>
          in
          (case taskList_Resize n (tl_size l) of
             None \<Rightarrow> None
           | Some n \<Rightarrow>
               (case copy_loop [0..<tl_size l] l n of
                  None \<Rightarrow> None
                | Some n \<Rightarrow>
                    if list_type n = TASKLIST_TYPE_WITH_DATA then
                      if tl_size l \<le> length (tl_data l) \<and> tl_size l \<le> length (tl_data n)
                      then Some (n\<lparr>tl_data := take (tl_size l) (tl_data l) @ drop (tl_size l) (tl_data n)\<rparr>)
                      else None
                    else Some n)))"

text \<open>
  The loop of \<open>TaskList_IterateWithDataRawFunction\<close>: the handler may change the data it is given
  and the caller's argument.
\<close>

fun data_loop ::
    "nat \<Rightarrow> (Task \<Rightarrow> u64 option \<Rightarrow> 's \<Rightarrow> bool \<times> u64 option \<times> 's) \<Rightarrow> bool \<Rightarrow> Task \<Rightarrow> task_list \<Rightarrow> 's \<Rightarrow>
     (bool \<times> task_list \<times> 's) option" where
  "data_loop 0 handler proceed next_task l s = None"
| "data_loop (Suc fuel) handler proceed next_task l s =
     (if \<not> proceed then Some (proceed, l, s)
      else
        (case iterateIndex l next_task of
           Some (True, t, Some i) \<Rightarrow>
             if i < length (tl_data l) then
               let (proceed, d, s) = handler t (tl_data l ! i) s
               in data_loop fuel handler proceed t (l\<lparr>tl_data := (tl_data l)[i := d]\<rparr>) s
             else None
         | Some (False, _, _) \<Rightarrow> Some (proceed, l, s)
         | _ \<Rightarrow> None))"

definition TaskList_IterateWithDataRawFunction ::
    "(Task \<Rightarrow> u64 option \<Rightarrow> 's \<Rightarrow> bool \<times> u64 option \<times> 's) \<Rightarrow> task_list \<Rightarrow> 's \<Rightarrow>
     (bool \<times> task_list \<times> 's) option" where
  "TaskList_IterateWithDataRawFunction handler l s =
     (if TaskList_IsTaskListWithData l then data_loop (Suc (tl_size l)) handler True 0 l s else None)"

text \<open>
  A multicast of the message system: one message to every task of a null-terminated array. The
  result of sending is the messages queued.
\<close>

fun multicast :: "u16 \<Rightarrow> u8 list option \<Rightarrow> Task option list \<Rightarrow> (Task \<times> u16 \<times> u8 list option) list option" where
  "multicast mid d [] = None"
| "multicast mid d (None # ts) = None"
| "multicast mid d (Some t # ts) =
     (if t = 0 then Some [] else map_option (Cons (t, mid, d)) (multicast mid d ts))"

definition TaskList_MessageSendWithSize ::
    "task_list \<Rightarrow> u16 \<Rightarrow> u8 list option \<Rightarrow> nat \<Rightarrow> (Task \<times> u16 \<times> u8 list option) list option" where
  "TaskList_MessageSendWithSize l mid data size_data =
     (case taskList_CreateNullTerminatedTaskArray l of
        None \<Rightarrow> None
      | Some None \<Rightarrow> Some []
      | Some (Some arr) \<Rightarrow>
          if size_data = 0 \<and> data \<noteq> None then None else multicast mid data arr)"

definition TaskList_MessageSendId :: "task_list \<Rightarrow> u16 \<Rightarrow> (Task \<times> u16 \<times> u8 list option) list option" where
  "TaskList_MessageSendId l mid = TaskList_MessageSendWithSize l mid None 0"

section \<open>What the storage holds\<close>

definition task_at :: "nat \<Rightarrow> nat \<Rightarrow> Task list \<Rightarrow> task_union" where
  "task_at s f ts =
     (if s \<le> f then U_task 0 else if s = f + 1 then U_task (ts ! f) else U_tasks (map Some (drop f ts)))"

definition stores :: "task_list \<Rightarrow> Task list \<Rightarrow> bool" where
  "stores l ts \<longleftrightarrow>
     length ts = tl_size l \<and> tl_flex l \<le> length (flexible_tasks l) \<and>
     (\<forall>i < min (tl_size l) (tl_flex l). flexible_tasks l ! i = Some (ts ! i)) \<and>
     tl_u l = task_at (tl_size l) (tl_flex l) ts \<and>
     length (tl_data l) = (if list_type l = TASKLIST_TYPE_WITH_DATA then tl_size l else 0)"

lemma get_stored:
  "stores l ts \<Longrightarrow> i < length ts \<Longrightarrow> taskList_GetTaskAtIndex l i = Some (ts ! i)"
  by (auto simp: stores_def taskList_GetTaskAtIndex_def array_get_def task_at_def)

lemma set_stored:
  assumes "stores l ts" "i < length ts"
  shows "\<exists>l'. taskList_SetTaskAtIndex l v i = Some l' \<and> stores l' (ts[i := v]) \<and>
    size_list l' = size_list l \<and> size_flexible_tasks l' = size_flexible_tasks l \<and>
    list_type l' = list_type l \<and> tl_data l' = tl_data l \<and> no_destroy l' = no_destroy l"
proof -
  consider "i < tl_flex l" | "tl_flex l \<le> i" "tl_size l = tl_flex l + 1"
    | "tl_flex l \<le> i" "tl_size l > tl_flex l + 1"
    using assms unfolding stores_def by linarith
  then show ?thesis
  proof cases
    case 1
    then show ?thesis
      using assms by (auto simp: stores_def taskList_SetTaskAtIndex_def array_set_def task_at_def
          nth_list_update drop_update_swap)
  next
    case 2
    then have "i = tl_flex l" using assms unfolding stores_def by linarith
    then show ?thesis
      using assms 2 by (auto simp: stores_def taskList_SetTaskAtIndex_def task_at_def)
  next
    case 3
    then have "drop (tl_flex l) (ts[i := v]) = (drop (tl_flex l) ts)[i - tl_flex l := v]"
      by (simp add: drop_update_swap)
    then show ?thesis
      using assms 3 by (auto simp: stores_def taskList_SetTaskAtIndex_def task_at_def array_set_def
          map_update)
  qed
qed

lemma find_stored:
  assumes "stores l ts" "distinct ts"
  shows "taskList_FindTaskIndex l t = Some (if t \<in> set ts then Some (THE i. i < length ts \<and> ts ! i = t) else None)"
    and "i < length ts \<Longrightarrow> taskList_FindTaskIndex l (ts ! i) = Some (Some i)"
proof -
  have loop: "find_loop l t [k..<n] r = Some (if \<exists>i. k \<le> i \<and> i < n \<and> ts ! i = t
      then Some (THE i. i < length ts \<and> ts ! i = t) else r)" if "n \<le> length ts" for k n r t
    using that
  proof (induction "n - k" arbitrary: k r)
    case (Suc m)
    then have k: "k < n" by simp
    have the: "(THE i. i < length ts \<and> ts ! i = t) = k" if "ts ! k = t"
      using k Suc.prems that assms(2) by (auto simp: nth_eq_iff_index_eq)
    have ex: "(\<exists>i. k \<le> i \<and> i < n \<and> ts ! i = t) \<longleftrightarrow> ts ! k = t \<or> (\<exists>i. Suc k \<le> i \<and> i < n \<and> ts ! i = t)"
      using k by (metis Suc_leI le_eq_less_or_eq le_refl Suc_le_lessD)
    show ?case
      using Suc.hyps(1) [of "Suc k"] Suc.hyps(2) Suc.prems k get_stored [OF assms(1), of k] the ex
      by (auto simp: upt_conv_Cons)
  qed auto
  have n: "tl_size l = length ts" using assms(1) by (simp add: stores_def)
  show *: "taskList_FindTaskIndex l t = Some (if t \<in> set ts then Some (THE i. i < length ts \<and> ts ! i = t) else None)"
    for t using loop [of "length ts" t 0 None] by (auto simp: taskList_FindTaskIndex_def n in_set_conv_nth)
  show "taskList_FindTaskIndex l (ts ! i) = Some (Some i)" if "i < length ts"
    using * [of "ts ! i"] that assms(2) by (auto simp: nth_eq_iff_index_eq)
qed

text \<open>Growing by one and shrinking by one.\<close>

lemma resize_grow:
  assumes "stores l ts" "tl_size l < 15" "0 < v"
  shows "\<exists>l' l''. taskList_Resize l (tl_size l + 1) = Some l' \<and> tl_size l' = tl_size l + 1 \<and>
    taskList_SetTaskAtIndex l' v (tl_size l) = Some l'' \<and> stores l'' (ts @ [v]) \<and>
    list_type l'' = list_type l \<and> size_flexible_tasks l'' = size_flexible_tasks l \<and>
    no_destroy l'' = no_destroy l \<and> size_list l'' = size_list l' \<and> tl_data l'' = tl_data l' \<and>
    (list_type l = TASKLIST_TYPE_WITH_DATA \<longrightarrow> tl_data l'' = tl_data l @ [None])"
proof -
  let ?s = "tl_size l" and ?f = "tl_flex l"
  have s: "unat (1 + size_list l) = ?s + 1"
    using assms(2) unat_plus_1 [of "size_list l"] by (simp add: add.commute)
  have len: "length ts = ?s" using assms(1) by (simp add: stores_def)
  have data: "realloc (Suc ?s) (tl_data l) = tl_data l @ [None]" if "list_type l = TASKLIST_TYPE_WITH_DATA"
    using assms(1) that by (simp add: realloc_def stores_def)
  define l1 where "l1 u = l\<lparr>tl_u := u, size_list := 1 + size_list l,
      tl_data := (if list_type l = TASKLIST_TYPE_WITH_DATA then tl_data l @ [None] else tl_data l)\<rparr>" for u
  have R: "taskList_Resize l (?s + 1) = map_option l1 (resize_tasks l (?s + 1))"
    using data by (auto simp: taskList_Resize_def Let_def l1_def split: option.split)
  have f: "tl_size (l1 u) = ?s + 1" "tl_flex (l1 u) = ?f" "tl_u (l1 u) = u"
    "flexible_tasks (l1 u) = flexible_tasks l" for u
    by (simp_all add: l1_def s)
  note st = assms(1) [unfolded stores_def]
  have "\<exists>u l2. resize_tasks l (?s + 1) = Some u \<and> taskList_SetTaskAtIndex (l1 u) v ?s = Some l2 \<and>
      (\<exists>x y. l2 = (l1 u)\<lparr>flexible_tasks := x, tl_u := y\<rparr> \<and> ?f \<le> length x \<and>
        y = task_at (?s + 1) ?f (ts @ [v]) \<and> (\<forall>i < min (?s + 1) ?f. x ! i = Some ((ts @ [v]) ! i)))"
  proof -
    consider "?s + 1 \<le> ?f" | "?s = ?f" | "?s = ?f + 1" | "?s > ?f + 1" by linarith
    then show ?thesis
    proof cases
      case 1
      then have "resize_tasks l (?s + 1) = Some (U_task 0)"
        using st by (simp add: resize_tasks_def Let_def task_at_def)
      moreover have "taskList_SetTaskAtIndex (l1 (U_task 0)) v ?s =
          Some ((l1 (U_task 0))\<lparr>flexible_tasks := (flexible_tasks l)[?s := Some v], tl_u := U_task 0\<rparr>)"
        using 1 st by (simp add: taskList_SetTaskAtIndex_def f array_set_def l1_def)
      moreover have "\<forall>i < min (?s + 1) ?f. (flexible_tasks l)[?s := Some v] ! i = Some ((ts @ [v]) ! i)"
        using 1 st by (auto simp: nth_append nth_list_update less_Suc_eq)
      moreover have "task_at (?s + 1) ?f (ts @ [v]) = U_task 0" using 1 by (simp add: task_at_def)
      ultimately show ?thesis using st by (intro exI conjI) (assumption | simp)+
    next
      case 2
      have "resize_tasks l (?s + 1) = Some (U_task 0)" unfolding resize_tasks_def Let_def 2 by simp
      moreover have "taskList_SetTaskAtIndex (l1 (U_task 0)) v ?s =
          Some ((l1 (U_task 0))\<lparr>flexible_tasks := flexible_tasks l, tl_u := U_task v\<rparr>)"
        unfolding taskList_SetTaskAtIndex_def f 2 by (simp add: l1_def)
      moreover have "task_at (?s + 1) ?f (ts @ [v]) = U_task v"
        unfolding task_at_def 2 using len 2 by (simp add: nth_append)
      ultimately show ?thesis using st len 2
        by (intro exI [of _ "U_task 0"] exI [of _ "(l1 (U_task 0))\<lparr>flexible_tasks := flexible_tasks l, tl_u := U_task v\<rparr>"]
            conjI exI [of _ "flexible_tasks l"] exI [of _ "U_task v"]) (simp_all add: nth_append)
    next
      case 3
      let ?u = "U_tasks [Some (ts ! ?f), None]"
      have "tl_u l = U_task (ts ! ?f)" using st 3 by (simp add: task_at_def)
      then have "resize_tasks l (?s + 1) = Some ?u" unfolding resize_tasks_def Let_def 3 by simp
      moreover have "taskList_SetTaskAtIndex (l1 ?u) v ?s =
          Some ((l1 ?u)\<lparr>flexible_tasks := flexible_tasks l, tl_u := U_tasks [Some (ts ! ?f), Some v]\<rparr>)"
        unfolding taskList_SetTaskAtIndex_def f 3 by (simp add: l1_def array_set_def)
      moreover have "task_at (?s + 1) ?f (ts @ [v]) = U_tasks [Some (ts ! ?f), Some v]"
      proof -
        have "drop ?f ts = [ts ! ?f]" using 3 Cons_nth_drop_Suc [of ?f ts] len by simp
        then show ?thesis unfolding task_at_def 3 using len 3 by simp
      qed
      ultimately show ?thesis using st len 3
        by (intro exI [of _ ?u] exI [of _ "(l1 ?u)\<lparr>flexible_tasks := flexible_tasks l,
              tl_u := U_tasks [Some (ts ! ?f), Some v]\<rparr>"] conjI exI [of _ "flexible_tasks l"]
              exI [of _ "U_tasks [Some (ts ! ?f), Some v]"]) (simp_all add: nth_append)
    next
      case 4
      let ?u = "U_tasks (map Some (drop ?f ts) @ [None])" and ?w = "U_tasks (map Some (drop ?f ts) @ [Some v])"
      have "tl_u l = U_tasks (map Some (drop ?f ts))" using st 4 by (simp add: task_at_def)
      then have "resize_tasks l (?s + 1) = Some ?u"
        using 4 len by (simp add: resize_tasks_def Let_def realloc_def Suc_diff_le)
      moreover have "taskList_SetTaskAtIndex (l1 ?u) v ?s =
          Some ((l1 ?u)\<lparr>flexible_tasks := flexible_tasks l, tl_u := ?w\<rparr>)"
        using 4 len by (simp add: taskList_SetTaskAtIndex_def f array_set_def list_update_append l1_def)
      moreover have "task_at (?s + 1) ?f (ts @ [v]) = ?w" using 4 len by (simp add: task_at_def)
      ultimately show ?thesis using st len 4
        by (intro exI [of _ ?u] exI [of _ "(l1 ?u)\<lparr>flexible_tasks := flexible_tasks l, tl_u := ?w\<rparr>"]
              conjI exI [of _ "flexible_tasks l"] exI [of _ ?w]) (simp_all add: nth_append)
    qed
  qed
  then obtain u x y where u: "resize_tasks l (?s + 1) = Some u"
      "taskList_SetTaskAtIndex (l1 u) v ?s = Some ((l1 u)\<lparr>flexible_tasks := x, tl_u := y\<rparr>)"
      "?f \<le> length x" "y = task_at (?s + 1) ?f (ts @ [v])"
      "\<forall>i < min (?s + 1) ?f. x ! i = Some ((ts @ [v]) ! i)" by auto
  have "stores ((l1 u)\<lparr>flexible_tasks := x, tl_u := y\<rparr>) (ts @ [v])"
    using u(3-5) st len by (simp add: stores_def f) (auto simp: l1_def s)
  then show ?thesis
    using R u(1,2) f by (intro exI [of _ "l1 u"] exI [of _ "(l1 u)\<lparr>flexible_tasks := x, tl_u := y\<rparr>"])
      (simp add: l1_def)
qed

lemma resize_shrink:
  assumes "stores l ts" "ts \<noteq> []"
  shows "\<exists>l'. taskList_Resize l (tl_size l - 1) = Some l' \<and> stores l' (butlast ts) \<and>
    list_type l' = list_type l \<and> size_flexible_tasks l' = size_flexible_tasks l \<and>
    no_destroy l' = no_destroy l \<and>
    (list_type l = TASKLIST_TYPE_WITH_DATA \<longrightarrow> tl_data l' = butlast (tl_data l))"
proof -
  let ?s = "tl_size l" and ?f = "tl_flex l"
  have len: "length ts = ?s" using assms(1) by (simp add: stores_def)
  then have pos: "0 < ?s" using assms(2) by (metis length_greater_0_conv)
  have lt: "?s < 16" using unsigned_less [of "size_list l", where 'a=nat] by simp
  have u: "unat (of_nat (?s - 1) :: 4 word) = ?s - 1"
    using lt by (simp only: unat_of_nat) (simp add: take_bit_nat_eq_self)
  have data: "realloc (?s - 1) (tl_data l) = butlast (tl_data l)" if "list_type l = TASKLIST_TYPE_WITH_DATA"
    using assms(1) that by (simp add: realloc_def stores_def butlast_conv_take)
  have one: "butlast (tl_data l) = []" if "list_type l = TASKLIST_TYPE_WITH_DATA" "?s \<le> 1"
    using assms(1) that by (auto simp: stores_def butlast_conv_take)
  have nth: "butlast ts ! i = ts ! i" if "i < ?s - 1" for i
    using that len by (simp add: nth_butlast)
  consider "?s \<le> ?f" | "?s = ?f + 1" | "?s = ?f + 2" | "?s > ?f + 2" by linarith
  then show ?thesis
  proof cases
    case 1
    then show ?thesis
      using assms(1) u len data one nth pos
      by (auto simp: stores_def taskList_Resize_def resize_tasks_def task_at_def Let_def)
  next
    case 2
    then show ?thesis
      using assms(1) u len data one nth pos
      by (auto simp: stores_def taskList_Resize_def resize_tasks_def task_at_def Let_def)
  next
    case 3
    then show ?thesis
      using assms(1) u len data nth pos
      by (auto simp: stores_def taskList_Resize_def resize_tasks_def task_at_def Let_def array_get_def)
  next
    case 4
    then have "realloc (?s - 1 - ?f) (map Some (drop ?f ts)) = map Some (drop ?f (butlast ts))"
      using len by (simp add: realloc_def butlast_conv_take take_map drop_take diff_diff_add add.commute)
    with 4 show ?thesis
      using assms(1) u len data nth pos
      by (auto simp: stores_def taskList_Resize_def resize_tasks_def task_at_def Let_def)
  qed
qed

lemma resize_empty:
  assumes "stores l ts"
  shows "\<exists>l'. taskList_Resize l 0 = Some l' \<and> stores l' [] \<and> list_type l' = list_type l \<and>
    size_flexible_tasks l' = size_flexible_tasks l \<and> no_destroy l' = no_destroy l"
  using assms
  by (auto simp: stores_def taskList_Resize_def resize_tasks_def task_at_def Let_def)

lemma shift_stored:
  assumes "stores l ts" "i < length ts"
  shows "\<exists>l'. shift_loop [i..<length ts - 1] l = Some l' \<and>
    stores l' (take i ts @ drop (i + 1) ts @ [last ts]) \<and>
    size_list l' = size_list l \<and> size_flexible_tasks l' = size_flexible_tasks l \<and>
    list_type l' = list_type l \<and> tl_data l' = tl_data l \<and> no_destroy l' = no_destroy l"
  using assms
proof (induction "length ts - 1 - i" arbitrary: i l ts)
  case 0
  then have "i = length ts - 1" "ts \<noteq> []" by auto
  then have "take i ts @ drop (i + 1) ts @ [last ts] = butlast ts @ [last ts]"
    by (simp add: butlast_conv_take)
  then have "take i ts @ drop (i + 1) ts @ [last ts] = ts" using \<open>ts \<noteq> []\<close> by simp
  with 0 \<open>i = length ts - 1\<close> show ?case by simp
next
  case (Suc m)
  then have i: "i < length ts - 1" "i + 1 < length ts" by linarith+
  obtain l1 where l1: "taskList_SetTaskAtIndex l (ts ! (i + 1)) i = Some l1" "stores l1 (ts[i := ts ! (i + 1)])"
      "size_list l1 = size_list l" "size_flexible_tasks l1 = size_flexible_tasks l"
      "list_type l1 = list_type l" "tl_data l1 = tl_data l" "no_destroy l1 = no_destroy l"
    using set_stored [OF Suc.prems] by blast
  let ?ts = "ts[i := ts ! (i + 1)]"
  have eq: "take (Suc i) ?ts @ drop (Suc i + 1) ?ts @ [last ?ts] = take i ts @ drop (i + 1) ts @ [last ts]"
  proof -
    have "take (i + 1) ?ts = take i ts @ [ts ! (i + 1)]"
      using Suc.prems(2) by (simp add: take_Suc_conv_app_nth)
    moreover have "drop (i + 1) ts = ts ! (i + 1) # drop (i + 2) ts"
      using Cons_nth_drop_Suc [of "i + 1" ts] i(2) by simp
    moreover have "last ?ts = last ts"
    proof -
      have "ts \<noteq> []" "i \<noteq> length ts - 1" using i by auto
      then show ?thesis using last_list_update [of ts i] by simp
    qed
    ultimately show ?thesis by simp
  qed
  have "m = length ?ts - 1 - Suc i" using Suc.hyps(2) by simp
  from Suc.hyps(1) [OF this l1(2), unfolded eq] i obtain l' where l': "shift_loop [Suc i..<length ts - 1] l1 = Some l'"
      "stores l' (take i ts @ drop (i + 1) ts @ [last ts])" "size_list l' = size_list l1"
      "size_flexible_tasks l' = size_flexible_tasks l1" "list_type l' = list_type l1"
      "tl_data l' = tl_data l1" "no_destroy l' = no_destroy l1"
    by auto
  have "[i..<length ts - 1] = i # [Suc i..<length ts - 1]" using i(1) by (simp add: upt_conv_Cons)
  then show ?case
    using get_stored [OF Suc.prems(1), of "i + 1"] i(2) l1 l' by simp
qed

section \<open>The operations on the list that is stored\<close>

definition represents :: "task_list \<Rightarrow> Task list \<Rightarrow> bool" where
  "represents l ts \<longleftrightarrow> stores l ts \<and> distinct ts \<and> 0 \<notin> set ts"

lemma represents_size: "represents l ts \<Longrightarrow> tl_size l = length ts" "represents l ts \<Longrightarrow> length ts < 16"
  using unsigned_less [of "size_list l", where 'a=nat] by (auto simp: represents_def stores_def)

lemma on_list: "represents l ts \<Longrightarrow> TaskList_IsTaskOnList l t = Some (t \<in> set ts)"
  using find_stored(1) [of l ts t] by (simp add: represents_def TaskList_IsTaskOnList_def)

lemma initial_represents:
  "capacity \<le> 15 \<Longrightarrow> \<exists>l. TaskList_InitialiseWithCapacity capacity = Some l \<and> represents l [] \<and>
     tl_flex l = capacity - 1 \<and> list_type l = TASKLIST_TYPE_STANDARD"
proof -
  assume c: "capacity \<le> 15"
  then have "unat (of_nat (capacity - 1) :: 4 word) = capacity - 1"
    by (simp only: unat_of_nat) (simp add: take_bit_nat_eq_self)
  then show ?thesis
    using c by (simp add: TaskList_InitialiseWithCapacity_def TASK_LIST_MAX_TASKS_def
        TASK_LIST_SIZE_BITS_def represents_def stores_def task_at_def)
qed

lemma with_data_represents: "represents TaskList_WithDataInitialise []"
  by (simp add: TaskList_WithDataInitialise_def represents_def stores_def task_at_def)

lemma add_represents:
  assumes "represents l ts" "t \<noteq> 0" "length ts < 15"
  shows "\<exists>l'. TaskList_AddTask l t = Some (t \<notin> set ts, l') \<and>
    represents l' (if t \<in> set ts then ts else ts @ [t]) \<and> list_type l' = list_type l \<and>
    size_flexible_tasks l' = size_flexible_tasks l \<and> no_destroy l' = no_destroy l \<and>
    (t \<in> set ts \<longrightarrow> l' = l) \<and>
    (t \<notin> set ts \<and> list_type l = TASKLIST_TYPE_WITH_DATA \<longrightarrow> tl_data l' = tl_data l @ [None])"
proof (cases "t \<in> set ts")
  case True
  then show ?thesis
    using assms on_list [OF assms(1), of t] by (simp add: TaskList_AddTask_def)
next
  case False
  have st: "stores l ts" "tl_size l < 15" using assms represents_size [OF assms(1)] by (simp_all add: represents_def)
  from resize_grow [OF st, of t] assms(2) obtain l1 l2 where g:
      "taskList_Resize l (tl_size l + 1) = Some l1" "tl_size l1 = tl_size l + 1"
      "taskList_SetTaskAtIndex l1 t (tl_size l) = Some l2" "stores l2 (ts @ [t])"
      "list_type l2 = list_type l" "size_flexible_tasks l2 = size_flexible_tasks l" "no_destroy l2 = no_destroy l"
      "list_type l = TASKLIST_TYPE_WITH_DATA \<Longrightarrow> tl_data l2 = tl_data l @ [None]" by auto
  have "unat (ucast (size_list l1) :: u16) = tl_size l1"
    by (simp add: unsigned_ucast_eq take_bit_nat_eq_self g(2) st(2) less_trans [OF st(2)])
  then have "unat ((ucast (size_list l1) :: u16) - 1) = tl_size l"
    using g(2) unat_minus_1 [of "ucast (size_list l1) :: u16"] by fastforce
  then show ?thesis
    using g False assms on_list [OF assms(1), of t]
    by (simp add: TaskList_AddTask_def represents_def)
qed

text \<open>The sixteenth task: the size wraps to zero and the write goes far outside the array.\<close>

lemma add_overflow:
  assumes "represents l ts" "t \<notin> set ts" "length ts = 15"
  shows "TaskList_AddTask l t = None"
proof -
  have s: "tl_size l = 15" using assms represents_size by simp
  have f: "tl_flex l < 16" using unsigned_less [of "size_flexible_tasks l", where 'a=nat] by simp
  have u: "length xs \<le> 16" if "resize_tasks l 16 = Some (U_tasks xs)" for xs
    using that s assms(1)
    by (auto simp: resize_tasks_def Let_def realloc_def represents_def stores_def task_at_def
        split: if_splits task_union.splits option.splits)
  have flex: "length (flexible_tasks l) \<ge> tl_flex l" using assms(1) by (simp add: represents_def stores_def)
  have "taskList_SetTaskAtIndex l' t 65535 = None"
    if "taskList_Resize l 16 = Some l'" for l'
  proof -
    have l': "size_list l' = 0" "tl_flex l' = tl_flex l" "resize_tasks l 16 = Some (tl_u l')"
      using that by (auto simp: taskList_Resize_def Let_def split: option.splits if_splits)
    then show ?thesis
      using f u by (auto simp: taskList_SetTaskAtIndex_def array_set_def split: task_union.splits)
  qed
  moreover have "size_list l' = 0" if "taskList_Resize l 16 = Some l'" for l'
    using that by (auto simp: taskList_Resize_def Let_def split: option.splits if_splits)
  moreover have "unat (- 1 :: u16) = 65535" by (simp add: unsigned_minus_1_eq_mask mask_eq_exp_minus_1)
  ultimately show ?thesis
    using assms(2) on_list [OF assms(1), of t] s
    by (auto simp: TaskList_AddTask_def split: option.splits)
qed

lemma without_nth:
  assumes "distinct ts" "i < length ts"
  shows "take i ts @ drop (i + 1) ts = filter (\<lambda>x. x \<noteq> ts ! i) ts"
proof -
  have "ts = take i ts @ ts ! i # drop (i + 1) ts" using id_take_nth_drop [OF assms(2)] by simp
  then have f: "filter P ts = filter P (take i ts) @ filter P (ts ! i # drop (i + 1) ts)" for P
    by (metis filter_append)
  have "filter (\<lambda>x. x \<noteq> ts ! i) (take i ts) = take i ts"
    using assms by (intro filter_True) (auto simp: in_set_conv_nth nth_eq_iff_index_eq)
  moreover have "filter (\<lambda>x. x \<noteq> ts ! i) (drop (i + 1) ts) = drop (i + 1) ts"
    using assms by (intro filter_True) (auto simp: in_set_conv_nth nth_eq_iff_index_eq)
  ultimately show ?thesis by (simp add: f)
qed

lemma remove_represents:
  assumes "represents l ts" "t \<noteq> 0"
  shows "\<exists>l'. TaskList_RemoveTask l t = Some (t \<in> set ts, l') \<and>
    represents l' (filter (\<lambda>x. x \<noteq> t) ts) \<and> list_type l' = list_type l \<and>
    size_flexible_tasks l' = size_flexible_tasks l \<and> no_destroy l' = no_destroy l \<and>
    (t \<notin> set ts \<longrightarrow> l' = l) \<and>
    (list_type l = TASKLIST_TYPE_WITH_DATA \<longrightarrow>
       zip (filter (\<lambda>x. x \<noteq> t) ts) (tl_data l') = filter (\<lambda>(x, d). x \<noteq> t) (zip ts (tl_data l)))"
proof (cases "t \<in> set ts")
  case False
  moreover have "taskList_FindTaskIndex l t = Some None"
    using find_stored(1) [of l ts t] assms(1) False by (simp add: represents_def)
  moreover have "filter (\<lambda>x. x \<noteq> t) ts = ts" using False by (auto intro: filter_True)
  moreover have "filter (\<lambda>(x, d). x \<noteq> t) (zip ts (tl_data l)) = zip ts (tl_data l)"
    using False by (intro filter_True) (auto dest: set_zip_leftD)
  ultimately show ?thesis using assms by (simp add: TaskList_RemoveTask_def)
next
  case True
  have r: "stores l ts" "distinct ts" "0 \<notin> set ts" using assms(1) by (simp_all add: represents_def)
  obtain i where i: "i < length ts" "ts ! i = t" using True by (auto simp: in_set_conv_nth)
  then have find: "taskList_FindTaskIndex l t = Some (Some i)" using find_stored(2) [OF r(1,2), of i] by simp
  have n: "tl_size l = length ts" using represents_size [OF assms(1)] by simp
  let ?shifted = "take i ts @ drop (i + 1) ts @ [last ts]" and ?d = "tl_data l"
  obtain l1 where l1: "shift_loop [i..<length ts - 1] l = Some l1" "stores l1 ?shifted"
      "size_list l1 = size_list l" "size_flexible_tasks l1 = size_flexible_tasks l"
      "list_type l1 = list_type l" "tl_data l1 = ?d" "no_destroy l1 = no_destroy l"
    using shift_stored [OF r(1) i(1)] by blast
  define l2 where "l2 = (if list_type l1 = TASKLIST_TYPE_WITH_DATA
      then l1\<lparr>tl_data := take i ?d @ drop (i + 1) ?d @ drop (tl_size l1 - 1) ?d\<rparr> else l1)"
  have ld: "length ?d = length ts" if "list_type l = TASKLIST_TYPE_WITH_DATA"
    using r(1) that by (simp add: stores_def)
  have l2: "stores l2 ?shifted" "size_list l2 = size_list l" "size_flexible_tasks l2 = size_flexible_tasks l"
      "list_type l2 = list_type l" "no_destroy l2 = no_destroy l"
    using l1 ld i(1) n by (auto simp: l2_def stores_def)
  from resize_shrink [OF l2(1)] obtain l' where l': "taskList_Resize l2 (tl_size l2 - 1) = Some l'"
      "stores l' (butlast ?shifted)" "list_type l' = list_type l2"
      "size_flexible_tasks l' = size_flexible_tasks l2" "no_destroy l' = no_destroy l2"
      "list_type l2 = TASKLIST_TYPE_WITH_DATA \<Longrightarrow> tl_data l' = butlast (tl_data l2)" by auto
  have b: "butlast ?shifted = filter (\<lambda>x. x \<noteq> t) ts"
    using without_nth [OF r(2) i(1)] i(2) by (simp add: butlast_append)
  have data: "zip (filter (\<lambda>x. x \<noteq> t) ts) (tl_data l') = filter (\<lambda>(x, d). x \<noteq> t) (zip ts ?d)"
    if w: "list_type l = TASKLIST_TYPE_WITH_DATA"
  proof -
    have one: "drop (length ts - 1) ?d = [last ?d]"
      using ld [OF w] i(1) by (cases ?d rule: rev_cases) auto
    have "tl_data l2 = (take i ?d @ drop (i + 1) ?d) @ [last ?d]"
      using w l1(3,5) n one by (simp add: l2_def)
    then have "tl_data l' = take i ?d @ drop (i + 1) ?d"
      using l'(6) l2(4) w by (simp only: butlast_snoc)
    moreover have "filter (\<lambda>x. x \<noteq> t) ts = take i ts @ drop (i + 1) ts"
      using without_nth [OF r(2) i(1)] i(2) by simp
    ultimately have "zip (filter (\<lambda>x. x \<noteq> t) ts) (tl_data l') = take i (zip ts ?d) @ drop (i + 1) (zip ts ?d)"
      using ld [OF w] i(1) by (simp add: take_zip drop_zip)
    also have "\<dots> = filter (\<lambda>x. x \<noteq> zip ts ?d ! i) (zip ts ?d)"
      using ld [OF w] i(1) r(2) by (intro without_nth) (auto intro: distinct_zipI1)
    also have "\<dots> = filter (\<lambda>(x, d). x \<noteq> t) (zip ts ?d)"
      using ld [OF w] i r(2)
      by (intro filter_cong) (auto simp: in_set_zip nth_eq_iff_index_eq)
    finally show ?thesis .
  qed
  have "TaskList_RemoveTask l t = Some (True, l')"
    using assms(2) find l1(1) n l'(1) l1(6)
    by (auto simp: TaskList_RemoveTask_def Let_def l2_def split: if_splits)
  then show ?thesis
    using True l'(2-5) l2(3-5) b r data by (auto simp: represents_def)
qed

lemma remove_all_represents:
  "represents l ts \<Longrightarrow> list_type l = TASKLIST_TYPE_STANDARD \<Longrightarrow>
   \<exists>l'. TaskList_RemoveAllTasks l = Some l' \<and> represents l' []"
  using resize_empty [of l ts] by (auto simp: TaskList_RemoveAllTasks_def represents_def)

text \<open>Iteration goes from each task to the next, and a removed task ends it.\<close>

lemma iterate_represents:
  assumes "represents l ts"
  shows "iterateIndex l 0 = Some (if ts = [] then (False, 0, None) else (True, ts ! 0, Some 0))"
    and "i < length ts \<Longrightarrow> iterateIndex l (ts ! i) =
      Some (if i + 1 < length ts then (True, ts ! (i + 1), Some (i + 1)) else (False, ts ! i, None))"
    and "t \<notin> set ts \<Longrightarrow> t \<noteq> 0 \<Longrightarrow> ts \<noteq> [] \<Longrightarrow> iterateIndex l t = Some (False, 0, None)"
proof -
  have r: "stores l ts" "distinct ts" "0 \<notin> set ts" using assms by (simp_all add: represents_def)
  have n: "tl_size l = length ts" using represents_size [OF assms] by simp
  show "iterateIndex l 0 = Some (if ts = [] then (False, 0, None) else (True, ts ! 0, Some 0))"
    using get_stored [OF r(1), of 0] n by (auto simp: iterateIndex_def)
  show "iterateIndex l (ts ! i) =
      Some (if i + 1 < length ts then (True, ts ! (i + 1), Some (i + 1)) else (False, ts ! i, None))"
    if "i < length ts"
  proof -
    have "ts ! i \<noteq> 0" "ts \<noteq> []" using that r(3) by (auto simp: in_set_conv_nth)
    then show ?thesis
      using find_stored(2) [OF r(1,2) that] get_stored [OF r(1), of "i + 1"] n
      by (auto simp: iterateIndex_def)
  qed
  show "iterateIndex l t = Some (False, 0, None)" if "t \<notin> set ts" "t \<noteq> 0" "ts \<noteq> []"
    using find_stored(1) [OF r(1,2), of t] n that by (auto simp: iterateIndex_def)
qed

section \<open>Sending to every task\<close>

lemma length_one: "length xs = 1 \<Longrightarrow> \<exists>x. xs = [x]"
  by (cases xs) auto

lemma array_loop:
  assumes "represents l ts" "i < length ts" "length ts - i \<le> fuel"
    and "length arr = length ts + 1" "take (i + 1) arr = map Some (take (i + 1) ts)"
  shows "task_array_loop fuel l (ts ! i) (Some i) arr = Some (map Some ts @ [Some 0])"
  using assms(2-5)
proof (induction fuel arbitrary: i arr)
  case (Suc fuel)
  show ?case
  proof (cases "i + 1 < length ts")
    case True
    let ?arr = "arr[i + 1 := Some (ts ! (i + 1))]"
    have "take (i + 2) ?arr = map Some (take (i + 2) ts)"
    proof -
      have "take (i + 2) ?arr = take (i + 1) arr @ [Some (ts ! (i + 1))]"
        using take_update_last [of "i + 2" arr] True Suc.prems(3) by simp
      moreover have "take (i + 2) ts = take (i + 1) ts @ [ts ! (i + 1)]"
        using True take_Suc_conv_app_nth [of "i + 1" ts] by simp
      ultimately show ?thesis using Suc.prems(4) by simp
    qed
    then have "task_array_loop fuel l (ts ! (i + 1)) (Some (i + 1)) ?arr = Some (map Some ts @ [Some 0])"
      using True Suc.prems by (intro Suc.IH) simp_all
    then show ?thesis
      using True Suc.prems(3) iterate_represents(2) [OF assms(1) Suc.prems(1)]
      by (simp add: array_set_def)
  next
    case False
    then have i: "length ts = i + 1" using Suc.prems(1) by simp
    obtain x where arr: "arr = map Some ts @ [x]"
    proof -
      have "take (i + 1) arr = map Some ts" using Suc.prems(4) i by simp
      moreover have "arr = take (i + 1) arr @ drop (i + 1) arr" by simp
      moreover have "length (drop (i + 1) arr) = 1" using Suc.prems(3) i by simp
      then obtain x where "drop (i + 1) arr = [x]" using length_one by blast
      ultimately show ?thesis using that by metis
    qed
    then show ?thesis
      using i iterate_represents(2) [OF assms(1) Suc.prems(1)]
      by (simp add: array_set_def list_update_append)
  qed
qed simp

lemma multicast_array:
  "0 \<notin> set ts \<Longrightarrow> multicast mid d (map Some ts @ [Some 0]) = Some (map (\<lambda>t. (t, mid, d)) ts)"
  by (induction ts) auto

lemma send_represents:
  assumes "represents l ts" "size_data \<noteq> 0 \<or> d = None"
  shows "TaskList_MessageSendWithSize l mid d size_data = Some (map (\<lambda>t. (t, mid, d)) ts)"
proof (cases "ts = []")
  case True
  then show ?thesis
    using represents_size(1) [OF assms(1)]
    by (simp add: TaskList_MessageSendWithSize_def taskList_CreateNullTerminatedTaskArray_def)
next
  case False
  have n: "tl_size l = length ts" using represents_size(1) [OF assms(1)] .
  let ?arr = "(replicate (length ts + 1) None)[0 := Some (ts ! 0)]"
  have "take 1 ?arr = map Some (take 1 ts)" using False by (cases ts) simp_all
  then have "task_array_loop (length ts) l (ts ! 0) (Some 0) ?arr = Some (map Some ts @ [Some 0])"
    using False by (intro array_loop [OF assms(1)]) simp_all
  then have "taskList_CreateNullTerminatedTaskArray l = Some (Some (map Some ts @ [Some 0]))"
    using False n iterate_represents(1) [OF assms(1)]
    by (simp add: taskList_CreateNullTerminatedTaskArray_def array_set_def)
  moreover have "0 \<notin> set ts" using assms(1) by (simp add: represents_def)
  ultimately show ?thesis
    using assms(2) by (auto simp: TaskList_MessageSendWithSize_def multicast_array)
qed

section \<open>The contract its clients rely on\<close>

text \<open>
  What a registry of clients promises: it stands for a list of clients, registering appends a
  client that is not yet there (fifteen at most), and a notification reaches each once.
\<close>

locale client_registry =
  fixes holds :: "'l \<Rightarrow> Task list \<Rightarrow> bool"
    and add :: "'l \<Rightarrow> Task \<Rightarrow> (bool \<times> 'l) option"
    and remove :: "'l \<Rightarrow> Task \<Rightarrow> (bool \<times> 'l) option"
    and notify :: "'l \<Rightarrow> u16 \<Rightarrow> (Task \<times> u16 \<times> u8 list option) list option"
  assumes proper: "holds l ts \<Longrightarrow> distinct ts \<and> 0 \<notin> set ts"
    and add_law: "\<lbrakk>holds l ts; t \<noteq> 0; length ts < 15\<rbrakk> \<Longrightarrow>
      \<exists>l'. add l t = Some (t \<notin> set ts, l') \<and> holds l' (if t \<in> set ts then ts else ts @ [t])"
    and remove_law: "\<lbrakk>holds l ts; t \<noteq> 0\<rbrakk> \<Longrightarrow>
      \<exists>l'. remove l t = Some (t \<in> set ts, l') \<and> holds l' (filter (\<lambda>x. x \<noteq> t) ts)"
    and notify_law: "holds l ts \<Longrightarrow> notify l mid = Some (map (\<lambda>t. (t, mid, None)) ts)"
begin

fun register_all :: "Task list \<Rightarrow> 'l \<Rightarrow> 'l option" where
  "register_all [] l = Some l"
| "register_all (t # us) l = (case add l t of None \<Rightarrow> None | Some (_, l) \<Rightarrow> register_all us l)"

lemma register_all_holds:
  "\<lbrakk>holds l ts; 0 \<notin> set us; length ts + length us \<le> 15\<rbrakk> \<Longrightarrow>
   \<exists>l'. register_all us l = Some l' \<and>
     holds l' (ts @ rev (remdups (rev (filter (\<lambda>u. u \<notin> set ts) us))))"
proof (induction us arbitrary: l ts)
  case (Cons u us)
  then obtain l1 where l1: "add l u = Some (u \<notin> set ts, l1)" "holds l1 (if u \<in> set ts then ts else ts @ [u])"
    using add_law [of l ts u] by auto
  have tail: "rev (remdups (rev (u # filter (\<lambda>u. u \<notin> set ts) us))) =
      u # rev (remdups (rev (filter (\<lambda>x. x \<notin> set (ts @ [u])) us)))" if "u \<notin> set ts"
  proof -
    have "remdups (xs @ [u]) = remdups (filter (\<lambda>x. x \<noteq> u) xs) @ [u]" for xs
      by (induction xs) auto
    then show ?thesis by (simp add: rev_filter conj_commute)
  qed
  show ?case
  proof (cases "u \<in> set ts")
    case True
    then show ?thesis using Cons.IH [of l1 ts] Cons.prems l1 by simp
  next
    case False
    then show ?thesis using Cons.IH [of l1 "ts @ [u]"] Cons.prems l1 tail by simp
  qed
qed simp

lemma notified_once:
  assumes "holds l ts" "notify l mid = Some ms" "t \<in> set ts"
  shows "length (filter (\<lambda>m. fst m = t) ms) = 1"
proof -
  have ms: "ms = map (\<lambda>t. (t, mid, None)) ts" using notify_law [OF assms(1), of mid] assms(2) by simp
  have "length (filter (\<lambda>x. x = t) ts) = 1"
    using proper [OF assms(1)] assms(3) by (simp add: distinct_length_filter Int_insert_right)
  then show ?thesis unfolding ms by (simp add: filter_map o_def)
qed

end

interpretation tasks: client_registry represents TaskList_AddTask TaskList_RemoveTask TaskList_MessageSendId
proof unfold_locales
  fix l ts t mid
  assume r: "represents l ts"
  then show "distinct ts \<and> 0 \<notin> set ts" by (simp add: represents_def)
  show "\<exists>l'. TaskList_AddTask l t = Some (t \<notin> set ts, l') \<and> represents l' (if t \<in> set ts then ts else ts @ [t])"
    if "t \<noteq> 0" "length ts < 15" using add_represents [OF r that] by blast
  show "\<exists>l'. TaskList_RemoveTask l t = Some (t \<in> set ts, l') \<and> represents l' (filter (\<lambda>x. x \<noteq> t) ts)"
    if "t \<noteq> 0" using remove_represents [OF r that] by blast
  show "TaskList_MessageSendId l mid = Some (map (\<lambda>t. (t, mid, None)) ts)"
    using send_represents [OF r] by (simp add: TaskList_MessageSendId_def)
qed

section \<open>Duplicates\<close>

text \<open>Copying into the fresh array of a duplicate without flexible tasks.\<close>

lemma copy_array:
  assumes "stores l ts" "tl_flex n = 0" "tl_size n = length ts" "2 \<le> length ts" "i \<le> length ts"
    and "tl_u n = U_tasks (map Some (take i ts) @ replicate (length ts - i) None)"
  shows "copy_loop [i..<length ts] l n = Some (n\<lparr>tl_u := U_tasks (map Some ts)\<rparr>)"
  using assms(2-6)
proof (induction "length ts - i" arbitrary: i n)
  case 0
  then show ?case by simp
next
  case (Suc m)
  then have i: "i < length ts" by simp
  have upd: "(map Some (take i ts) @ replicate (length ts - i) None)[i := Some (ts ! i)] =
      map Some (take (Suc i) ts) @ replicate (length ts - Suc i) None"
    using i by (auto simp: take_Suc_conv_app_nth list_update_append Suc_diff_Suc [symmetric])
  then have "taskList_SetTaskAtIndex n (ts ! i) i =
      Some (n\<lparr>tl_u := U_tasks (map Some (take (Suc i) ts) @ replicate (length ts - Suc i) None)\<rparr>)"
    using i Suc.prems by (auto simp: taskList_SetTaskAtIndex_def array_set_def)
  then show ?case
    using Suc.hyps(1) [of "Suc i" "n\<lparr>tl_u := U_tasks (map Some (take (Suc i) ts) @
        replicate (length ts - Suc i) None)\<rparr>"] Suc.hyps(2) Suc.prems i get_stored [OF assms(1) i]
    by (simp add: upt_conv_Cons)
qed

text \<open>The duplicate of a list without flexible tasks, before its tasks are copied.\<close>

definition duplicate_base :: "task_list \<Rightarrow> task_list" where
  "duplicate_base l = \<lparr>size_list = size_list l, size_flexible_tasks = size_flexible_tasks l,
     list_type = list_type l, no_destroy = False, tl_u = U_task 0,
     flexible_tasks = replicate (tl_flex l - 1) (Some 0), tl_data = []\<rparr>"

lemma duplicate_created:
  assumes "list_type l = TASKLIST_TYPE_STANDARD \<or> tl_flex l = 0"
  shows "TaskList_Duplicate l =
    (case taskList_Resize (duplicate_base l) (tl_size l) of
       None \<Rightarrow> None
     | Some n \<Rightarrow>
         (case copy_loop [0..<tl_size l] l n of
            None \<Rightarrow> None
          | Some n \<Rightarrow>
              if list_type n = TASKLIST_TYPE_WITH_DATA then
                if tl_size l \<le> length (tl_data l) \<and> tl_size l \<le> length (tl_data n)
                then Some (n\<lparr>tl_data := take (tl_size l) (tl_data l) @ drop (tl_size l) (tl_data n)\<rparr>)
                else None
              else Some n))"
proof -
  have "tl_flex l < 16" using unsigned_less [of "size_flexible_tasks l", where 'a=nat] by simp
  then have "tl_flex l \<le> TASK_LIST_MAX_TASKS" "1 \<le> TASK_LIST_MAX_TASKS"
    by (simp_all add: TASK_LIST_MAX_TASKS_def TASK_LIST_SIZE_BITS_def)
  then show ?thesis
    using assms
    by (cases "list_type l"; cases "tl_flex l")
      (simp_all add: TaskList_Duplicate_def TaskList_CreateWithCapacity_def TaskList_WithDataCreate_def
        TaskList_InitialiseWithCapacity_def TaskList_WithDataInitialise_def duplicate_base_def Let_def
        cong: option.case_cong)
qed

lemma duplicate_represents:
  assumes "represents l ts" "tl_flex l = 0"
  shows "\<exists>n. TaskList_Duplicate l = Some n \<and> represents n ts \<and> list_type n = list_type l \<and>
    tl_data n = tl_data l"
proof -
  have st: "stores l ts" using assms(1) by (simp add: represents_def)
  have n: "tl_size l = length ts" using represents_size [OF assms(1)] by simp
  have ld: "length (tl_data l) = (if list_type l = TASKLIST_TYPE_WITH_DATA then length ts else 0)"
    using st n by (simp add: stores_def)
  let ?d = "if list_type l = TASKLIST_TYPE_WITH_DATA then replicate (length ts) None else []"
  let ?u = "if length ts \<le> 1 then U_task 0 else U_tasks (replicate (length ts) None)"
  let ?v = "task_at (length ts) 0 ts"
  define n1 where "n1 = (duplicate_base l)\<lparr>tl_u := ?u, tl_data := ?d\<rparr>"
  have "taskList_Resize (duplicate_base l) (tl_size l) = Some n1"
    using assms(2) n by (auto simp: taskList_Resize_def resize_tasks_def Let_def duplicate_base_def n1_def
        realloc_def n [symmetric] word_unat_eq_iff)
  moreover have "copy_loop [0..<tl_size l] l n1 = Some (n1\<lparr>tl_u := ?v\<rparr>)"
  proof -
    have base: "tl_flex n1 = 0" "tl_size n1 = length ts" "tl_u n1 = ?u"
      using assms(2) n by (simp_all add: n1_def duplicate_base_def)
    consider "length ts = 0" | "length ts = 1" | "2 \<le> length ts" by linarith
    then show ?thesis
    proof cases
      case 1
      then show ?thesis using n base by (simp add: task_at_def)
    next
      case 2
      then show ?thesis
        using n base get_stored [OF st, of 0] by (simp add: task_at_def taskList_SetTaskAtIndex_def)
    next
      case 3
      then show ?thesis
        using copy_array [OF st base(1,2) 3, of 0] base n 3 by (auto simp: task_at_def)
    qed
  qed
  ultimately have "TaskList_Duplicate l = Some (n1\<lparr>tl_u := ?v, tl_data := tl_data l\<rparr>)"
    using duplicate_created [of l] assms(2) n ld by (auto simp: n1_def duplicate_base_def)
  moreover have "represents (n1\<lparr>tl_u := ?v, tl_data := tl_data l\<rparr>) ts"
    using assms n ld by (auto simp: represents_def stores_def n1_def duplicate_base_def)
  ultimately show ?thesis by (auto simp: n1_def duplicate_base_def)
qed

text \<open>With flexible tasks the duplicate has one slot too few.\<close>

lemma resize_keeps_flexible:
  "taskList_Resize l k = Some l' \<Longrightarrow> flexible_tasks l' = flexible_tasks l \<and> size_flexible_tasks l' = size_flexible_tasks l"
  by (auto simp: taskList_Resize_def Let_def split: option.splits if_splits)

lemma set_keeps_flexible:
  "taskList_SetTaskAtIndex l t i = Some l' \<Longrightarrow>
   length (flexible_tasks l') = length (flexible_tasks l) \<and> size_flexible_tasks l' = size_flexible_tasks l"
  by (auto simp: taskList_SetTaskAtIndex_def array_set_def split: if_splits task_union.splits)

lemma copy_beyond_flexible:
  "\<lbrakk>k < n; length (flexible_tasks m) \<le> k; k < tl_flex m; i \<le> k\<rbrakk> \<Longrightarrow> copy_loop [i..<n] l m = None"
proof (induction "n - i" arbitrary: i m)
  case (Suc d)
  have "copy_loop [Suc i..<n] l m' = None" if "taskList_SetTaskAtIndex m t i = Some m'" for t m'
  proof -
    have m': "length (flexible_tasks m') \<le> k" "k < tl_flex m'"
      using set_keeps_flexible [OF that] Suc.prems by auto
    have "i \<noteq> k" using that Suc.prems by (auto simp: taskList_SetTaskAtIndex_def array_set_def)
    then show ?thesis using Suc.hyps Suc.prems m' by simp
  qed
  then show ?case
    using Suc.prems by (auto simp: upt_conv_Cons split: option.splits)
qed simp

lemma duplicate_overruns:
  assumes "list_type l = TASKLIST_TYPE_STANDARD" "0 < tl_flex l" "tl_flex l \<le> tl_size l"
  shows "TaskList_Duplicate l = None"
proof -
  have "copy_loop [0..<tl_size l] l n = None" if "taskList_Resize (duplicate_base l) (tl_size l) = Some n" for n
    using resize_keeps_flexible [OF that] assms
    by (intro copy_beyond_flexible [of "tl_flex l - 1"]) (auto simp: duplicate_base_def)
  then show ?thesis
    using duplicate_created [of l] assms(1) by (auto split: option.splits)
qed

end
