(* ===== verification/Task_List_Properties.thy ===== *)
theory Task_List_Properties
  imports Task_List
begin

text \<open>
  What \<^verbatim>\<open>task_list.c\<close> promises its clients, as statements over the model in Task\_List, with the
  two ways in which its storage fails.
\<close>

section \<open>Data of a task\<close>

definition data_of :: "task_list \<Rightarrow> Task list \<Rightarrow> Task \<rightharpoonup> u64 option" where
  "data_of l ts = map_of (zip ts (tl_data l))"

lemma data_at:
  assumes "represents l ts" "list_type l = TASKLIST_TYPE_WITH_DATA" "i < length ts"
  shows "data_of l ts (ts ! i) = Some (tl_data l ! i)" "i < length (tl_data l)"
proof -
  have r: "distinct ts" "length (tl_data l) = length ts"
    using assms represents_size(1) [OF assms(1)] by (simp_all add: represents_def stores_def)
  then show "i < length (tl_data l)" using assms(3) by simp
  show "data_of l ts (ts ! i) = Some (tl_data l ! i)"
    using r assms(3) by (simp add: data_of_def map_of_zip_nth)
qed

lemma no_data: "t \<notin> set ts \<Longrightarrow> data_of l ts t = None"
  using set_zip_leftD [of t _ ts "tl_data l"] by (fastforce simp: data_of_def map_of_eq_None_iff)

lemma get_data:
  assumes "represents l ts" "list_type l = TASKLIST_TYPE_WITH_DATA"
  shows "TaskList_GetDataForTask l t =
    (case data_of l ts t of None \<Rightarrow> Some None | Some d \<Rightarrow> map_option Some d)"
proof -
  have st: "stores l ts" "distinct ts" using assms(1) by (simp_all add: represents_def)
  show ?thesis
  proof (cases "t \<in> set ts")
    case True
    then obtain i where i: "i < length ts" "t = ts ! i" by (auto simp: in_set_conv_nth)
    then show ?thesis
      using find_stored(2) [OF st i(1)] data_at [OF assms i(1)] assms(2)
      by (simp add: TaskList_GetDataForTask_def TaskList_IsTaskListWithData_def array_get_def)
  next
    case False
    then show ?thesis
      using find_stored(1) [OF st, of t] no_data [OF False, of l] assms(2)
      by (simp add: TaskList_GetDataForTask_def TaskList_IsTaskListWithData_def)
  qed
qed

lemma represents_data_update:
  "represents l ts \<Longrightarrow> length d = length (tl_data l) \<Longrightarrow> represents (l\<lparr>tl_data := d\<rparr>) ts"
  by (simp add: represents_def stores_def)

lemma set_data:
  assumes "represents l ts" "list_type l = TASKLIST_TYPE_WITH_DATA"
  shows "\<exists>l'. TaskList_SetDataForTask l t d = Some (t \<in> set ts, l') \<and> represents l' ts \<and>
    list_type l' = TASKLIST_TYPE_WITH_DATA \<and>
    data_of l' ts = (if t \<in> set ts then (data_of l ts)(t \<mapsto> Some d) else data_of l ts)"
proof (cases "t \<in> set ts")
  case True
  then obtain i where i: "i < length ts" "t = ts ! i" by (auto simp: in_set_conv_nth)
  have st: "stores l ts" "distinct ts" using assms(1) by (simp_all add: represents_def)
  let ?l = "l\<lparr>tl_data := (tl_data l)[i := Some d]\<rparr>"
  have r: "represents ?l ts" using represents_data_update [OF assms(1)] by simp
  have "data_of ?l ts x = ((data_of l ts)(t \<mapsto> Some d)) x" for x
  proof (cases "x \<in> set ts")
    case x: True
    then obtain j where j: "j < length ts" "x = ts ! j" by (auto simp: in_set_conv_nth)
    then show ?thesis
      using data_at [OF r, of j] data_at [OF assms j(1)] i j st(2) assms(2)
      by (auto simp: nth_list_update nth_eq_iff_index_eq)
  next
    case x: False
    then show ?thesis using True no_data by (metis fun_upd_apply)
  qed
  then have "data_of ?l ts = (data_of l ts)(t \<mapsto> Some d)" by blast
  then show ?thesis
    using True r i find_stored(2) [OF st i(1)] data_at(2) [OF assms i(1)] assms(2)
    by (simp add: TaskList_SetDataForTask_def TaskList_IsTaskListWithData_def array_set_def)
next
  case False
  then show ?thesis
    using assms find_stored(1) [of l ts t]
    by (simp add: TaskList_SetDataForTask_def TaskList_IsTaskListWithData_def represents_def)
qed

lemma add_data:
  assumes "represents l ts" "list_type l = TASKLIST_TYPE_WITH_DATA" "t \<noteq> 0" "t \<notin> set ts" "length ts < 15"
  shows "\<exists>l'. TaskList_AddTaskWithData l t d = Some (True, l') \<and> represents l' (ts @ [t]) \<and>
    list_type l' = TASKLIST_TYPE_WITH_DATA \<and> data_of l' (ts @ [t]) = (data_of l ts)(t \<mapsto> Some d)"
proof -
  obtain l1 where l1: "TaskList_AddTask l t = Some (True, l1)" "represents l1 (ts @ [t])"
      "list_type l1 = TASKLIST_TYPE_WITH_DATA" "tl_data l1 = tl_data l @ [None]"
    using add_represents [OF assms(1,3,5)] assms(2,4) by auto
  have len: "length (tl_data l) = length ts" "tl_size l1 = length ts + 1"
    using assms(1,2) represents_size(1) [OF assms(1)] represents_size(1) [OF l1(2)]
    by (simp_all add: represents_def stores_def)
  let ?l = "l1\<lparr>tl_data := tl_data l @ [Some d]\<rparr>"
  have "represents ?l (ts @ [t])" using represents_data_update [OF l1(2)] l1(4) by simp
  moreover have "data_of ?l (ts @ [t]) = (data_of l ts)(t \<mapsto> Some d)"
  proof -
    have z: "zip (ts @ [t]) (tl_data l @ [Some d]) = zip ts (tl_data l) @ [(t, Some d)]" using len(1) by simp
    have "map_of (zip ts (tl_data l)) t = None" using no_data [OF assms(4), of l] by (simp add: data_of_def)
    then have m: "map_of (zip ts (tl_data l) @ [(t, Some d)]) x = ((map_of (zip ts (tl_data l)))(t \<mapsto> Some d)) x" for x
      by (cases "map_of (zip ts (tl_data l)) x") (auto simp: map_add_def)
    have "tl_data ?l = tl_data l @ [Some d]" by simp
    then show ?thesis unfolding data_of_def using m z by (metis ext)
  qed
  ultimately show ?thesis
    using l1 len assms(2)
    by (simp add: TaskList_AddTaskWithData_def TaskList_IsTaskListWithData_def array_set_def list_update_append)
qed

lemma remove_data:
  assumes "represents l ts" "list_type l = TASKLIST_TYPE_WITH_DATA" "t \<noteq> 0"
  shows "\<exists>l'. TaskList_RemoveTask l t = Some (t \<in> set ts, l') \<and>
    represents l' (filter (\<lambda>x. x \<noteq> t) ts) \<and> list_type l' = TASKLIST_TYPE_WITH_DATA \<and>
    data_of l' (filter (\<lambda>x. x \<noteq> t) ts) = (data_of l ts)(t := None)"
proof -
  obtain l' where l': "TaskList_RemoveTask l t = Some (t \<in> set ts, l')"
      "represents l' (filter (\<lambda>x. x \<noteq> t) ts)" "list_type l' = TASKLIST_TYPE_WITH_DATA"
      "zip (filter (\<lambda>x. x \<noteq> t) ts) (tl_data l') = filter (\<lambda>(x, d). x \<noteq> t) (zip ts (tl_data l))"
    using remove_represents [OF assms(1,3)] assms(2) by auto
  have "map_of (filter (\<lambda>(x, d). x \<noteq> t) xs) = (map_of xs)(t := None)" for xs :: "(Task \<times> u64 option) list"
    by (induction xs) (auto simp: fun_eq_iff)
  then show ?thesis using l' by (simp add: data_of_def)
qed

section \<open>Properties\<close>

text \<open>
  C13: the storage implements a duplicate-free list. Size and membership are those of the list,
  adding appends a task that is not there (fifteen at most) and says so, removing takes it out.
\<close>

theorem task_list_refines_list:
  assumes "represents l ts" "t \<noteq> 0" "length ts < 15"
  shows "TaskList_Size l = length ts \<and> TaskList_IsTaskOnList l t = Some (t \<in> set ts) \<and>
    (\<exists>l'. TaskList_AddTask l t = Some (t \<notin> set ts, l') \<and> represents l' (if t \<in> set ts then ts else ts @ [t])) \<and>
    (\<exists>l'. TaskList_RemoveTask l t = Some (t \<in> set ts, l') \<and> represents l' (filter (\<lambda>x. x \<noteq> t) ts))"
  using represents_size(1) [OF assms(1)] on_list [OF assms(1), of t] tasks.add_law [OF assms]
    tasks.remove_law [OF assms(1,2)] by (simp add: TaskList_Size_def)

text \<open>Three tasks in a list that was given room for two.\<close>

lemma three_tasks:
  "\<exists>l. Option.bind (TaskList_InitialiseWithCapacity 2) (tasks.register_all [5, 6, 7]) = Some l \<and>
     represents l [5, 6, 7] \<and> tl_flex l = 1 \<and> list_type l = TASKLIST_TYPE_STANDARD"
proof -
  obtain l where l: "TaskList_InitialiseWithCapacity 2 = Some l" "represents l []" "tl_flex l = 1"
      "list_type l = TASKLIST_TYPE_STANDARD"
    using initial_represents [of 2] by auto
  obtain l1 where l1: "TaskList_AddTask l 5 = Some (True, l1)" "represents l1 [5]"
      "list_type l1 = list_type l" "size_flexible_tasks l1 = size_flexible_tasks l"
    using add_represents [OF l(2), of 5] by auto
  obtain l2 where l2: "TaskList_AddTask l1 6 = Some (True, l2)" "represents l2 [5, 6]"
      "list_type l2 = list_type l1" "size_flexible_tasks l2 = size_flexible_tasks l1"
    using add_represents [OF l1(2), of 6] by auto
  obtain l3 where l3: "TaskList_AddTask l2 7 = Some (True, l3)" "represents l3 [5, 6, 7]"
      "list_type l3 = list_type l2" "size_flexible_tasks l3 = size_flexible_tasks l2"
    using add_represents [OF l2(2), of 7] by auto
  show ?thesis using l l1 l2 l3 by simp
qed

theorem task_list_refines_list_witness:
  "\<exists>l l'. represents l [5, 6, 7] \<and> TaskList_IsTaskOnList l 6 = Some True \<and>
     TaskList_RemoveTask l 6 = Some (True, l') \<and> represents l' [5, 7]"
proof -
  obtain l where "represents l [5, 6, 7]" using three_tasks by blast
  then show ?thesis using task_list_refines_list [of l "[5, 6, 7]" 6] by auto
qed

text \<open>
  A message sent through a list is queued for every task of it exactly once, in the order in
  which the tasks were added, and for nobody else.
\<close>

theorem every_task_messaged_once:
  assumes "represents l ts" "size_data \<noteq> 0 \<or> d = None"
  shows "\<exists>ms. TaskList_MessageSendWithSize l mid d size_data = Some ms \<and> map fst ms = ts \<and>
    (\<forall>m \<in> set ms. snd m = (mid, d)) \<and> (\<forall>t. length (filter (\<lambda>m. fst m = t) ms) = (if t \<in> set ts then 1 else 0))"
proof -
  have "length (filter (\<lambda>x. x = t) ts) = (if t \<in> set ts then 1 else 0)" for t
    using tasks.proper [OF assms(1)] by (simp add: distinct_length_filter Int_insert_right)
  then show ?thesis
    using send_represents [OF assms, of mid] by (auto simp: o_def filter_map)
qed

theorem every_task_messaged_once_witness:
  "\<exists>l ms. represents l [5, 6, 7] \<and> TaskList_MessageSendWithSize l 9 (Some [1]) 1 = Some ms \<and>
     map fst ms = [5, 6, 7]"
proof -
  obtain l where "represents l [5, 6, 7]" using three_tasks by blast
  then show ?thesis using every_task_messaged_once [of l "[5, 6, 7]" 1 "Some [1]" 9] by auto
qed

text \<open>
  the data of a list with data belongs to its task. Adding and setting it change the data of
  that task only, removing a task forgets its data only, and it is read back as it was stored.
\<close>

theorem data_stays_with_its_task:
  assumes "represents l ts" "list_type l = TASKLIST_TYPE_WITH_DATA" "t \<noteq> 0" "t \<notin> set ts" "length ts < 15"
  shows "\<exists>l1. TaskList_AddTaskWithData l t d = Some (True, l1) \<and> represents l1 (ts @ [t]) \<and>
    TaskList_GetDataForTask l1 t = Some (Some d) \<and>
    (\<forall>u. u \<noteq> t \<longrightarrow> TaskList_GetDataForTask l1 u = TaskList_GetDataForTask l u) \<and>
    (\<exists>l2. TaskList_SetDataForTask l1 t e = Some (True, l2) \<and> TaskList_GetDataForTask l2 t = Some (Some e) \<and>
       (\<forall>u. u \<noteq> t \<longrightarrow> TaskList_GetDataForTask l2 u = TaskList_GetDataForTask l u)) \<and>
    (\<exists>l3. TaskList_RemoveTask l1 t = Some (True, l3) \<and>
       (\<forall>u. TaskList_GetDataForTask l3 u = TaskList_GetDataForTask l u))"
proof -
  obtain l1 where l1: "TaskList_AddTaskWithData l t d = Some (True, l1)" "represents l1 (ts @ [t])"
      "list_type l1 = TASKLIST_TYPE_WITH_DATA" "data_of l1 (ts @ [t]) = (data_of l ts)(t \<mapsto> Some d)"
    using add_data [OF assms, of d] by blast
  obtain l2 where l2: "TaskList_SetDataForTask l1 t e = Some (True, l2)" "represents l2 (ts @ [t])"
      "list_type l2 = TASKLIST_TYPE_WITH_DATA" "data_of l2 (ts @ [t]) = (data_of l1 (ts @ [t]))(t \<mapsto> Some e)"
    using set_data [OF l1(2,3), of t e] by auto
  have f: "filter (\<lambda>x. x \<noteq> t) (ts @ [t]) = ts" using assms(4) by (auto intro: filter_True)
  obtain l3 where l3: "TaskList_RemoveTask l1 t = Some (True, l3)" "represents l3 ts"
      "list_type l3 = TASKLIST_TYPE_WITH_DATA" "data_of l3 ts = (data_of l1 (ts @ [t]))(t := None)"
    using remove_data [OF l1(2,3) assms(3), unfolded f] by auto
  have "data_of l ts t = None" using no_data [OF assms(4)] .
  then show ?thesis
    using l1 l2 l3 get_data [OF assms(1,2)] get_data [OF l1(2,3)] get_data [OF l2(2,3)] get_data [OF l3(2,3)]
    by auto
qed

theorem data_stays_with_its_task_witness:
  "\<exists>l. TaskList_AddTaskWithData TaskList_WithDataInitialise 5 77 = Some (True, l) \<and>
     TaskList_GetDataForTask l 5 = Some (Some 77)"
  using data_stays_with_its_task [OF with_data_represents, of 5 77 0]
  by (auto simp: TaskList_WithDataInitialise_def)



text \<open>
  A duplicate of a list without flexible tasks holds the same tasks with the same data. Of a
  list with flexible tasks that has filled them, the duplicate is given one slot too few and the
  last flexible task is written behind it.
\<close>

theorem duplicate_needs_no_flexible_tasks:
  assumes "represents l ts" "list_type l = TASKLIST_TYPE_STANDARD" "tl_flex l = 0 \<or> tl_flex l \<le> length ts"
  shows "if tl_flex l = 0
    then \<exists>n. TaskList_Duplicate l = Some n \<and> represents n ts \<and> tl_data n = tl_data l
    else TaskList_Duplicate l = None"
  using duplicate_represents [OF assms(1)] duplicate_overruns [OF assms(2)] assms(3)
    represents_size(1) [OF assms(1)] by auto

theorem duplicate_needs_no_flexible_tasks_witness:
  "\<exists>l. represents l [5, 6, 7] \<and> TaskList_Duplicate l = None"
proof -
  obtain l where "represents l [5, 6, 7]" "tl_flex l = 1" "list_type l = TASKLIST_TYPE_STANDARD"
    using three_tasks by blast
  then show ?thesis using duplicate_needs_no_flexible_tasks [of l "[5, 6, 7]"] by auto
qed

end
