(* ===== verification/Rules_Engine.thy ===== *)
theory Rules_Engine
  imports Task_List
begin

text \<open>
  \<^verbatim>\<open>rules_engine.c\<close> (adk/src/common/rules\_engine): rules that an event triggers, run in table
  order. A rule is a function of the whole rule set, which holds the state of the application too,
  because it may place message parameters in it. A panic is \<open>None\<close>. Shown, for tables of the kind
  the applications have: the rules of an event run one at a time and in order, and never panic.
\<close>

unbundle bit_operations_syntax

section \<open>State\<close>

datatype rule_action_t =
  rule_action_run | rule_action_complete | rule_action_ignore | rule_action_defer | rule_action_run_with_param

datatype rule_status_t =
  rule_status_not_done | rule_status_ignored | rule_status_in_progress | rule_status_complete
  | rule_status_deferred

definition "RULE_EVENT_ALL_EVENTS_MASK = (0xFFFFFFFFFFFFFFFF :: u64)"

datatype rule_flags_t = rule_flag_no_flags | rule_flag_always_evaluate | rule_flag_progress_matters

text \<open>The parameter data and its size are one list; \<open>msgs\<close> are the messages sent so far.\<close>

record 's rule_set =
  rs_events :: u64
  rules_state :: "rule_status_t list"
  rule_message_data :: "u8 list option"
  event_task :: Task
  nop_tasks :: task_list
  nop_message_id :: u16
  msgs :: "(Task \<times> u16 \<times> u8 list option) list"
  app :: 's

record 's rule_entry =
  re_events :: u64
  re_flags :: rule_flags_t
  re_rule :: "'s rule_set \<Rightarrow> (rule_action_t \<times> 's rule_set) option"
  re_message :: u16

definition RULE :: "u64 \<Rightarrow> ('s rule_set \<Rightarrow> (rule_action_t \<times> 's rule_set) option) \<Rightarrow> u16 \<Rightarrow> 's rule_entry" where
  "RULE event name message =
     \<lparr>re_events = event, re_flags = rule_flag_no_flags, re_rule = name, re_message = message\<rparr>"

definition RULE_ALWAYS :: "u64 \<Rightarrow> ('s rule_set \<Rightarrow> (rule_action_t \<times> 's rule_set) option) \<Rightarrow> u16 \<Rightarrow> 's rule_entry" where
  "RULE_ALWAYS event name message =
     \<lparr>re_events = event, re_flags = rule_flag_always_evaluate, re_rule = name, re_message = message\<rparr>"

definition RULE_WITH_FLAGS ::
    "u64 \<Rightarrow> ('s rule_set \<Rightarrow> (rule_action_t \<times> 's rule_set) option) \<Rightarrow> u16 \<Rightarrow> rule_flags_t \<Rightarrow> 's rule_entry" where
  "RULE_WITH_FLAGS event name message flags =
     \<lparr>re_events = event, re_flags = flags, re_rule = name, re_message = message\<rparr>"

section \<open>Status of the rules\<close>

definition RulesEngine_SetRuleStatus ::
    "'s rule_entry \<Rightarrow> rule_status_t \<Rightarrow> rule_status_t \<Rightarrow> rule_status_t option" where
  "RulesEngine_SetRuleStatus rule rule_state new_status =
     (if re_flags rule = rule_flag_always_evaluate then None else Some new_status)"

text \<open>The loop of \<open>RulesEngine_ResetEvent\<close> over the rules and their states.\<close>

fun reset_loop :: "u64 \<Rightarrow> 's rule_entry list \<Rightarrow> rule_status_t list \<Rightarrow> rule_status_t list option" where
  "reset_loop event [] states = Some states"
| "reset_loop event (rule # rules) (s # states) =
     (case (if re_events rule AND event \<noteq> 0 \<and> re_flags rule \<noteq> rule_flag_always_evaluate
            then RulesEngine_SetRuleStatus rule s rule_status_not_done else Some s) of
        None \<Rightarrow> None
      | Some s \<Rightarrow> map_option (Cons s) (reset_loop event rules states))"
| "reset_loop event (rule # rules) [] = None"

definition RulesEngine_ResetEvent :: "'s rule_entry list \<Rightarrow> 's rule_set \<Rightarrow> u64 \<Rightarrow> 's rule_set option" where
  "RulesEngine_ResetEvent rules rs event =
     map_option (\<lambda>st. rs\<lparr>rs_events := rs_events rs AND NOT event, rules_state := st\<rparr>)
       (reset_loop event rules (rules_state rs))"

text \<open>The first loop of \<open>RulesEngine_UpdateRuleStatus\<close>: states, mask of events, whether one was set.\<close>

fun update_loop ::
    "u16 \<Rightarrow> rule_status_t \<Rightarrow> rule_status_t \<Rightarrow> u64 \<Rightarrow> 's rule_entry list \<Rightarrow> rule_status_t list \<Rightarrow>
     u64 \<Rightarrow> bool \<Rightarrow> (rule_status_t list \<times> u64 \<times> bool) option" where
  "update_loop message status new_status event [] states event_mask did_set_status =
     Some (states, event_mask, did_set_status)"
| "update_loop message status new_status event (rule # rules) (s # states) event_mask did_set_status =
     (if re_message rule = message \<and> s = status \<and> re_events rule AND event \<noteq> 0 then
        (case RulesEngine_SetRuleStatus rule s new_status of
           None \<Rightarrow> None
         | Some s \<Rightarrow> map_option (\<lambda>(st, m, d). (s # st, m, d))
             (update_loop message status new_status event rules states (event_mask OR re_events rule) True))
      else map_option (\<lambda>(st, m, d). (s # st, m, d))
             (update_loop message status new_status event rules states event_mask did_set_status))"
| "update_loop message status new_status event (rule # rules) [] event_mask did_set_status = None"

text \<open>The second: the events of a rule that is not complete are taken out of the mask.\<close>

fun incomplete_loop :: "u64 \<Rightarrow> 's rule_entry list \<Rightarrow> rule_status_t list \<Rightarrow> u64 \<Rightarrow> u64" where
  "incomplete_loop event (rule # rules) (s # states) event_mask =
     incomplete_loop event rules states
       (if re_events rule AND event \<noteq> 0 \<and> s \<noteq> rule_status_complete
        then event_mask AND NOT (re_events rule) else event_mask)"
| "incomplete_loop event _ _ event_mask = event_mask"

definition RulesEngine_UpdateRuleStatus ::
    "'s rule_entry list \<Rightarrow> 's rule_set \<Rightarrow> u16 \<Rightarrow> rule_status_t \<Rightarrow> rule_status_t \<Rightarrow> u64 \<Rightarrow>
     (bool \<times> 's rule_set) option" where
  "RulesEngine_UpdateRuleStatus rules rs message status new_status event =
     (case update_loop message status new_status event rules (rules_state rs) 0 False of
        None \<Rightarrow> None
      | Some (st, event_mask, did_set_status) \<Rightarrow>
          let rs = rs\<lparr>rules_state := st\<rparr>;
              event_mask = incomplete_loop event rules st event_mask
          in if event_mask \<noteq> 0
             then map_option (Pair did_set_status) (RulesEngine_ResetEvent rules rs event_mask)
             else Some (did_set_status, rs))"

section \<open>Running rules\<close>

definition send :: "Task \<Rightarrow> u16 \<Rightarrow> u8 list option \<Rightarrow> 's rule_set \<Rightarrow> 's rule_set" where
  "send task message d rs = rs\<lparr>msgs := msgs rs @ [(task, message, d)]\<rparr>"

text \<open>What \<open>RulesEngine_RunRules\<close> does with the action of rule \<open>i\<close>.\<close>

definition set_status_at ::
    "'s rule_entry list \<Rightarrow> nat \<Rightarrow> rule_status_t \<Rightarrow> 's rule_set \<Rightarrow> 's rule_set option" where
  "set_status_at rules i new_status rs =
     map_option (\<lambda>s. rs\<lparr>rules_state := (rules_state rs)[i := s]\<rparr>)
       (RulesEngine_SetRuleStatus (rules ! i) (rules_state rs ! i) new_status)"

definition started ::
    "'s rule_entry list \<Rightarrow> nat \<Rightarrow> rule_action_t \<Rightarrow> 's rule_set \<Rightarrow> 's rule_set option" where
  "started rules i action rs =
     (case (if re_flags (rules ! i) \<noteq> rule_flag_always_evaluate
            then set_status_at rules i rule_status_in_progress rs else Some rs) of
        None \<Rightarrow> None
      | Some rs \<Rightarrow>
          if action = rule_action_run then
            if rule_message_data rs = None
            then Some (send (event_task rs) (re_message (rules ! i)) None rs) else None
          else
            (case rule_message_data rs of
               None \<Rightarrow> None
             | Some d \<Rightarrow>
                 if d = [] then None
                 else Some ((send (event_task rs) (re_message (rules ! i)) (Some d) rs)
                              \<lparr>rule_message_data := None\<rparr>)))"

definition handle_action ::
    "'s rule_entry list \<Rightarrow> nat \<Rightarrow> rule_action_t \<Rightarrow> 's rule_set \<Rightarrow> 's rule_set option" where
  "handle_action rules i action rs =
     (let rule = rules ! i in
      case action of
        rule_action_run \<Rightarrow> started rules i action rs
      | rule_action_run_with_param \<Rightarrow> started rules i action rs
      | rule_action_defer \<Rightarrow> set_status_at rules i rule_status_deferred rs
      | _ \<Rightarrow>
          if re_flags rule \<noteq> rule_flag_always_evaluate
          then map_option snd (RulesEngine_UpdateRuleStatus rules rs (re_message rule)
                 (rules_state rs ! i) rule_status_complete (re_events rule))
          else Some rs)"

definition RulesEngine_RunRule ::
    "'s rule_entry list \<Rightarrow> 's rule_set \<Rightarrow> nat \<Rightarrow> (rule_action_t \<times> 's rule_set) option" where
  "RulesEngine_RunRule rules rs i = re_rule (rules ! i) rs"

fun run_rules_loop :: "'s rule_entry list \<Rightarrow> nat list \<Rightarrow> u64 \<Rightarrow> 's rule_set \<Rightarrow> 's rule_set option" where
  "run_rules_loop rules [] events rs = Some rs"
| "run_rules_loop rules (i # is) events rs =
     (let rule = rules ! i; blocked = events AND NOT (re_events rule) in
      if re_events rule AND events = re_events rule \<or> re_flags rule = rule_flag_always_evaluate then
        if rules_state rs ! i = rule_status_complete then run_rules_loop rules is events rs
        else if rules_state rs ! i = rule_status_in_progress then run_rules_loop rules is blocked rs
        else
          (case RulesEngine_RunRule rules rs i of
             None \<Rightarrow> None
           | Some (action, rs) \<Rightarrow>
               (case handle_action rules i action rs of
                  None \<Rightarrow> None
                | Some rs \<Rightarrow>
                    run_rules_loop rules is
                      (if action \<in> {rule_action_run, rule_action_run_with_param} \<and>
                          re_flags rule \<noteq> rule_flag_always_evaluate
                       then blocked else events) rs))
      else run_rules_loop rules is events rs)"

definition RulesEngine_RunRules :: "'s rule_entry list \<Rightarrow> 's rule_set \<Rightarrow> 's rule_set option" where
  "RulesEngine_RunRules rules rs = run_rules_loop rules [0..<length rules] (rs_events rs) rs"

definition RulesEngine_Check :: "'s rule_entry list \<Rightarrow> 's rule_set \<Rightarrow> 's rule_set option" where
  "RulesEngine_Check = RulesEngine_RunRules"

section \<open>Interface\<close>

definition RulesEngine_CreateRuleSet ::
    "'s rule_entry list \<Rightarrow> u16 \<Rightarrow> Task \<Rightarrow> 's \<Rightarrow> 's rule_set option" where
  "RulesEngine_CreateRuleSet rules nop_id task a =
     (if task = 0 then None
      else map_option (\<lambda>l. \<lparr>rs_events = 0, rules_state = replicate (length rules) rule_status_not_done,
             rule_message_data = None, event_task = task, nop_tasks = l, nop_message_id = nop_id,
             msgs = [], app = a\<rparr>) TaskList_Initialise)"

definition RulesEngine_DestroyRuleSet :: "'s rule_set \<Rightarrow> unit option" where
  "RulesEngine_DestroyRuleSet rs = map_option (\<lambda>_. ()) (TaskList_RemoveAllTasks (nop_tasks rs))"

definition RulesEngine_SetEvent :: "'s rule_entry list \<Rightarrow> 's rule_set \<Rightarrow> u64 \<Rightarrow> 's rule_set option" where
  "RulesEngine_SetEvent rules rs event_mask =
     RulesEngine_Check rules (rs\<lparr>rs_events := rs_events rs OR event_mask\<rparr>)"

definition RulesEngine_GetEvents :: "'s rule_set \<Rightarrow> u64" where
  "RulesEngine_GetEvents rs = rs_events rs"

definition RulesEngine_InProgress :: "'s rule_entry list \<Rightarrow> 's rule_set \<Rightarrow> bool" where
  "RulesEngine_InProgress rules rs \<longleftrightarrow>
     (\<exists>i \<in> set [0..<length rules]. re_flags (rules ! i) = rule_flag_progress_matters \<and>
        rules_state rs ! i = rule_status_in_progress)"

definition RulesEngine_SetRuleWithEventComplete ::
    "'s rule_entry list \<Rightarrow> 's rule_set \<Rightarrow> u16 \<Rightarrow> u64 \<Rightarrow> 's rule_set option" where
  "RulesEngine_SetRuleWithEventComplete rules rs message event =
     (case RulesEngine_UpdateRuleStatus rules rs message rule_status_in_progress rule_status_complete event of
        None \<Rightarrow> None
      | Some (did_complete, rs) \<Rightarrow>
          if did_complete \<and> \<not> RulesEngine_InProgress rules rs then
            (case TaskList_MessageSendId (nop_tasks rs) (nop_message_id rs) of
               None \<Rightarrow> None
             | Some ms \<Rightarrow> RulesEngine_Check rules (rs\<lparr>msgs := msgs rs @ ms\<rparr>))
          else RulesEngine_Check rules rs)"

definition RulesEngine_SetRuleComplete :: "'s rule_entry list \<Rightarrow> 's rule_set \<Rightarrow> u16 \<Rightarrow> 's rule_set option" where
  "RulesEngine_SetRuleComplete rules rs message =
     RulesEngine_SetRuleWithEventComplete rules rs message RULE_EVENT_ALL_EVENTS_MASK"

definition RulesEngine_CopyRunParams :: "'s rule_set \<Rightarrow> u8 list \<Rightarrow> 's rule_set option" where
  "RulesEngine_CopyRunParams rs param =
     (if rule_message_data rs = None then Some (rs\<lparr>rule_message_data := Some param\<rparr>) else None)"

definition RulesEngine_NopClientRegister :: "'s rule_set \<Rightarrow> Task \<Rightarrow> 's rule_set option" where
  "RulesEngine_NopClientRegister rs task =
     map_option (\<lambda>(_, l). rs\<lparr>nop_tasks := l\<rparr>) (TaskList_AddTask (nop_tasks rs) task)"

section \<open>What the loops compute\<close>

definition within :: "u64 \<Rightarrow> u64 \<Rightarrow> bool" where
  "within e s \<longleftrightarrow> e AND s = e"

lemma bits_eq: "a = b \<longleftrightarrow> (\<forall>n. bit a n \<longleftrightarrow> bit b n)" for a b :: u64
  by (auto intro: bit_eqI)

lemma bit_without: "bit (s AND NOT m) n \<longleftrightarrow> bit s n \<and> \<not> bit m n" for s m :: u64
  by (auto simp: bit_and_iff bit_not_iff dest: bit_imp_possible_bit)

lemmas set_bits = bits_eq bit_and_iff bit_or_iff bit_without bit_0_eq bot_apply bot_bool_def

lemma within_bits: "within e s \<longleftrightarrow> (\<forall>b. bit e b \<longrightarrow> bit s b)"
  by (auto simp: within_def set_bits)

lemma overlap_bits: "e AND s \<noteq> 0 \<longleftrightarrow> (\<exists>b. bit e b \<and> bit s b)" for e s :: u64
  by (auto simp: set_bits)

lemma nonzero_bit: "e \<noteq> 0 \<Longrightarrow> \<exists>b. bit e b" for e :: u64
  by (auto simp: set_bits)

lemma within_without_disjoint: "e AND m = 0 \<Longrightarrow> within e (s AND NOT m) \<longleftrightarrow> within e s"
  by (simp only: within_bits bit_without) (auto simp: set_bits)

lemma within_without: "e AND m \<noteq> 0 \<Longrightarrow> \<not> within e (s AND NOT m)"
  by (auto simp: within_bits overlap_bits bit_without)

lemma within_or: "within e s \<Longrightarrow> within e (s OR m)"
  by (auto simp: within_bits bit_or_iff)

lemma reset_loop_eq:
  "length st = length rules \<Longrightarrow> reset_loop event rules st = Some (map2 (\<lambda>r s.
     if re_events r AND event \<noteq> 0 \<and> re_flags r \<noteq> rule_flag_always_evaluate then rule_status_not_done else s)
     rules st)"
  by (induction event rules st rule: reset_loop.induct) (auto simp: RulesEngine_SetRuleStatus_def)

abbreviation hit :: "u16 \<Rightarrow> rule_status_t \<Rightarrow> u64 \<Rightarrow> 's rule_entry \<Rightarrow> rule_status_t \<Rightarrow> bool" where
  "hit message status event r s \<equiv> re_message r = message \<and> s = status \<and> re_events r AND event \<noteq> 0"

lemma update_loop_eq:
  "\<lbrakk>length st = length rules; \<forall>r \<in> set rules. re_flags r \<noteq> rule_flag_always_evaluate\<rbrakk> \<Longrightarrow>
   \<exists>m'. update_loop message status new_status event rules st m did = Some
     (map2 (\<lambda>r s. if hit message status event r s then new_status else s) rules st, m',
      did \<or> (\<exists>(r, s) \<in> set (zip rules st). hit message status event r s)) \<and>
     (\<forall>b. bit m' b \<longleftrightarrow> bit m b \<or>
        (\<exists>(r, s) \<in> set (zip rules st). hit message status event r s \<and> bit (re_events r) b))"
proof (induction message status new_status event rules st m did rule: update_loop.induct)
  case (2 message status new_status event rule rules s st m did)
  show ?case
  proof (cases "hit message status event rule s")
    case True
    then show ?thesis
      using 2(1) [of new_status] 2(3,4) by (force simp: RulesEngine_SetRuleStatus_def bit_simps)
  next
    case False
    then show ?thesis using 2(2) 2(3,4) by force
  qed
qed auto

lemma incomplete_loop_bit:
  "length st = length rules \<Longrightarrow> bit (incomplete_loop event rules st m) b \<longleftrightarrow> bit m b \<and>
     (\<forall>(r, s) \<in> set (zip rules st). re_events r AND event \<noteq> 0 \<and> s \<noteq> rule_status_complete \<longrightarrow> \<not> bit (re_events r) b)"
proof (induction event rules st m rule: incomplete_loop.induct)
  case (1 event rule rules s st m)
  then show ?case by (auto simp: bit_without)
qed auto

section \<open>Tables whose rules run in order\<close>

text \<open>
  What a rule table promises: it never always evaluates and never defers, two rules have the same
  events or disjoint ones, rules for the same events have different messages, and a rule does
  nothing to the rule set but leave parameters exactly when it asks to run with them.
\<close>

definition rule_frame :: "'s rule_set \<Rightarrow> 's rule_set \<Rightarrow> bool" where
  "rule_frame rs rs' \<longleftrightarrow> rs_events rs' = rs_events rs \<and> rules_state rs' = rules_state rs \<and>
     event_task rs' = event_task rs \<and> nop_tasks rs' = nop_tasks rs \<and>
     nop_message_id rs' = nop_message_id rs \<and> msgs rs' = msgs rs"

locale ordered_rules =
  fixes rules :: "'s rule_entry list"
  assumes plain: "r \<in> set rules \<Longrightarrow> re_flags r \<noteq> rule_flag_always_evaluate"
    and events_nonzero: "r \<in> set rules \<Longrightarrow> re_events r \<noteq> 0"
    and events_apart: "\<lbrakk>r \<in> set rules; r' \<in> set rules\<rbrakk> \<Longrightarrow>
      re_events r = re_events r' \<or> re_events r AND re_events r' = 0"
    and messages_differ: "\<lbrakk>i < length rules; j < length rules; re_events (rules ! i) = re_events (rules ! j);
      re_message (rules ! i) = re_message (rules ! j)\<rbrakk> \<Longrightarrow> i = j"
    and runs: "\<lbrakk>r \<in> set rules; rule_message_data rs = None\<rbrakk> \<Longrightarrow>
      \<exists>a rs'. re_rule r rs = Some (a, rs') \<and> a \<noteq> rule_action_defer \<and> rule_frame rs rs' \<and>
        (if a = rule_action_run_with_param then \<exists>d. d \<noteq> [] \<and> rule_message_data rs' = Some d
         else rule_message_data rs' = None)"
begin

abbreviation "n \<equiv> length rules"
abbreviation "ev i \<equiv> re_events (rules ! i)"

lemma ev: "i < n \<Longrightarrow> ev i \<noteq> 0" "\<lbrakk>i < n; j < n\<rbrakk> \<Longrightarrow> ev i = ev j \<or> ev i AND ev j = 0"
  using events_nonzero events_apart by simp_all

lemma ev_bit: "\<lbrakk>i < n; j < n; bit (ev i) b; bit (ev j) b\<rbrakk> \<Longrightarrow> ev i = ev j"
  using ev(2) [of i j] overlap_bits [of "ev i" "ev j"] by blast

lemma ev_overlap: "\<lbrakk>i < n; j < n; ev i AND ev j \<noteq> 0\<rbrakk> \<Longrightarrow> ev i = ev j"
  using ev(2) by blast

text \<open>Completing rules: a group of rules that is now complete is reset and its event cleared.\<close>

definition completes :: "u16 \<Rightarrow> rule_status_t \<Rightarrow> u64 \<Rightarrow> 's rule_set \<Rightarrow> nat \<Rightarrow> bool" where
  "completes message status event rs i \<longleftrightarrow> i < n \<and> hit message status event (rules ! i) (rules_state rs ! i)"

definition cleared :: "u16 \<Rightarrow> rule_status_t \<Rightarrow> u64 \<Rightarrow> 's rule_set \<Rightarrow> u64 \<Rightarrow> bool" where
  "cleared message status event rs E \<longleftrightarrow> (\<exists>i. completes message status event rs i \<and> ev i = E) \<and>
     (\<forall>i < n. ev i = E \<longrightarrow> completes message status event rs i \<or> rules_state rs ! i = rule_status_complete)"

lemma update_status:
  assumes "length (rules_state rs) = n"
  shows "\<exists>evs st. RulesEngine_UpdateRuleStatus rules rs message status rule_status_complete event =
      Some (\<exists>i. completes message status event rs i, rs\<lparr>rs_events := evs, rules_state := st\<rparr>) \<and>
    length st = n \<and>
    (\<forall>i < n. st ! i = (if cleared message status event rs (ev i) then rule_status_not_done
       else if completes message status event rs i then rule_status_complete else rules_state rs ! i)) \<and>
    (\<forall>i < n. within (ev i) evs \<longleftrightarrow> within (ev i) (rs_events rs) \<and> \<not> cleared message status event rs (ev i))"
proof -
  let ?hit = "completes message status event rs" and ?cl = "cleared message status event rs"
  let ?st = "map2 (\<lambda>r s. if hit message status event r s then rule_status_complete else s) rules (rules_state rs)"
  obtain m where m: "update_loop message status rule_status_complete event rules (rules_state rs) 0 False =
      Some (?st, m, \<exists>(r, s) \<in> set (zip rules (rules_state rs)). hit message status event r s)"
    "bit m b \<longleftrightarrow> (\<exists>(r, s) \<in> set (zip rules (rules_state rs)). hit message status event r s \<and> bit (re_events r) b)" for b
    using update_loop_eq [OF assms, of message status rule_status_complete event 0 False] plain by (auto simp: bit_0_eq)
  have did: "(\<exists>(r, s) \<in> set (zip rules (rules_state rs)). hit message status event r s) \<longleftrightarrow> (\<exists>i. ?hit i)"
    using assms by (auto simp: set_zip completes_def)
  have mb: "bit m b \<longleftrightarrow> (\<exists>i. ?hit i \<and> bit (ev i) b)" for b
    using assms unfolding m(2) by (auto simp: set_zip completes_def)
  let ?m = "incomplete_loop event rules ?st m"
  have st: "?st ! i = (if ?hit i then rule_status_complete else rules_state rs ! i)" if "i < n" for i
    using that assms by (simp add: completes_def)
  have fin: "bit ?m b \<longleftrightarrow> bit m b \<and> (\<forall>i < n. ev i AND event \<noteq> 0 \<and> ?st ! i \<noteq> rule_status_complete \<longrightarrow> \<not> bit (ev i) b)" for b
  proof -
    have "length ?st = n" using assms by simp
    then show ?thesis unfolding incomplete_loop_bit [OF \<open>length ?st = n\<close>]
      by (auto simp only: set_zip mem_Collect_eq split_beta fst_conv snd_conv min.idem)
  qed
  have cl: "ev i AND ?m \<noteq> 0 \<longleftrightarrow> ?cl (ev i)" if i: "i < n" for i
  proof
    assume "ev i AND ?m \<noteq> 0"
    then obtain b where b: "bit (ev i) b" "bit ?m b" by (auto simp: overlap_bits)
    then obtain k where k: "?hit k" "bit (ev k) b" by (auto simp: fin mb)
    then have e: "ev k = ev i" "ev k AND event \<noteq> 0" using ev_bit [OF _ i k(2) b(1)] by (auto simp: completes_def)
    have "?hit j \<or> rules_state rs ! j = rule_status_complete" if j: "j < n" "ev j = ev i" for j
    proof -
      have "bit (ev j) b" "ev j AND event \<noteq> 0" using b(1) e j(2) by simp_all
      then have "?st ! j = rule_status_complete" using b(2) j(1) unfolding fin by blast
      then show ?thesis using st [OF j(1)] by (metis (full_types))
    qed
    then show "?cl (ev i)" using e(1) k(1) by (auto simp: cleared_def)
  next
    assume c: "?cl (ev i)"
    then obtain k where k: "?hit k" "ev k = ev i" by (auto simp: cleared_def)
    obtain b where b: "bit (ev i) b" using nonzero_bit ev(1) [OF i] by blast
    have "bit ?m b"
    proof -
      have "bit m b" using k b by (auto simp: mb)
      moreover have "?st ! j = rule_status_complete" if "j < n" "bit (ev j) b" for j
        using ev_bit [OF that(1) i that(2) b] c that(1) st [OF that(1)] by (auto simp: cleared_def)
      ultimately show ?thesis unfolding fin by blast
    qed
    then show "ev i AND ?m \<noteq> 0" using b by (auto simp: overlap_bits)
  qed
  show ?thesis
  proof (cases "?m = 0")
    case True
    then have "\<not> ?cl (ev i)" if "i < n" for i using cl [OF that] by simp
    then show ?thesis
      using m(1) True st assms did by (intro exI [of _ "rs_events rs"] exI [of _ ?st])
        (simp add: RulesEngine_UpdateRuleStatus_def)
  next
    case False
    let ?st' = "map2 (\<lambda>r s. if re_events r AND ?m \<noteq> 0 \<and> re_flags r \<noteq> rule_flag_always_evaluate
        then rule_status_not_done else s) rules ?st"
    have r: "reset_loop ?m rules ?st = Some ?st'" using assms by (intro reset_loop_eq) simp
    have w: "within (ev i) (rs_events rs AND NOT ?m) \<longleftrightarrow> within (ev i) (rs_events rs) \<and> \<not> ?cl (ev i)" if "i < n" for i
      using cl [OF that] within_without [of "ev i" ?m] within_without_disjoint [of "ev i" ?m] by blast
    have "?st' ! i = (if ?cl (ev i) then rule_status_not_done else ?st ! i)" if "i < n" for i
      using that assms plain cl [OF that] by simp
    then have st': "?st' ! i = (if ?cl (ev i) then rule_status_not_done
        else if ?hit i then rule_status_complete else rules_state rs ! i)" if "i < n" for i
      using st that by simp
    have f: "rules_state (rs\<lparr>rules_state := x\<rparr>) = x" "rs_events (rs\<lparr>rules_state := x\<rparr>) = rs_events rs"
      "rs\<lparr>rules_state := x, rs_events := e, rules_state := y\<rparr> = rs\<lparr>rs_events := e, rules_state := y\<rparr>"
      for x y e by simp_all
    have "length ?st' = n" using assms by simp
    moreover have "RulesEngine_UpdateRuleStatus rules rs message status rule_status_complete event =
        Some (\<exists>i. ?hit i, rs\<lparr>rs_events := rs_events rs AND NOT ?m, rules_state := ?st'\<rparr>)"
      by (simp only: RulesEngine_UpdateRuleStatus_def m(1) did option.case prod.case Let_def False
          not_False_eq_True if_True RulesEngine_ResetEvent_def f r option.map)
    ultimately show ?thesis using w st' by blast
  qed
qed

end

section \<open>Running them in order\<close>

context ordered_rules
begin

text \<open>
  The rules of an active event: those before the front are complete, those after it not done. Of
  an event that is not active none is done.
\<close>

definition front :: "u64 \<Rightarrow> nat \<Rightarrow> rule_status_t list \<Rightarrow> bool" where
  "front E k st \<longleftrightarrow> k < n \<and> ev k = E \<and> st ! k \<in> {rule_status_in_progress, rule_status_not_done} \<and>
     (\<forall>j < n. ev j = E \<longrightarrow> (j < k \<longrightarrow> st ! j = rule_status_complete) \<and> (k < j \<longrightarrow> st ! j = rule_status_not_done))"

definition idle :: "u64 \<Rightarrow> rule_status_t list \<Rightarrow> bool" where
  "idle E st \<longleftrightarrow> (\<forall>j < n. ev j = E \<longrightarrow> st ! j = rule_status_not_done)"

definition ready :: "'s rule_set \<Rightarrow> bool" where
  "ready rs \<longleftrightarrow> length (rules_state rs) = n \<and> rule_message_data rs = None \<and>
     (\<forall>i < n. if within (ev i) (rs_events rs) then \<exists>k. front (ev i) k (rules_state rs)
              else idle (ev i) (rules_state rs))"

definition settled :: "'s rule_set \<Rightarrow> bool" where
  "settled rs \<longleftrightarrow> length (rules_state rs) = n \<and> rule_message_data rs = None \<and>
     (\<forall>i < n. if within (ev i) (rs_events rs)
        then \<exists>k. front (ev i) k (rules_state rs) \<and> rules_state rs ! k = rule_status_in_progress
        else idle (ev i) (rules_state rs))"

lemma settled_ready: "settled rs \<Longrightarrow> ready rs"
  unfolding settled_def ready_def by meson

text \<open>Half way through the table: the rules below \<open>i\<close> have been visited, \<open>L\<close> are the events left.\<close>

definition group_at :: "nat \<Rightarrow> u64 \<Rightarrow> u64 \<Rightarrow> rule_status_t list \<Rightarrow> u64 \<Rightarrow> bool" where
  "group_at i L evs st E \<longleftrightarrow>
     (if within E evs then
        if within E L then \<exists>k \<ge> i. front E k st
        else \<exists>k < i. front E k st \<and> st ! k = rule_status_in_progress
      else idle E st \<and> (within E L \<longrightarrow> (\<forall>k < n. ev k = E \<longrightarrow> k < i)))"

definition visited :: "nat \<Rightarrow> u64 \<Rightarrow> 's rule_set \<Rightarrow> bool" where
  "visited i L rs \<longleftrightarrow> length (rules_state rs) = n \<and> rule_message_data rs = None \<and>
     (\<forall>j < n. group_at i L (rs_events rs) (rules_state rs) (ev j))"

lemma front_unique: "front E k st \<Longrightarrow> front E k' st \<Longrightarrow> k = k'"
  unfolding front_def by (metis insertE linorder_neqE_nat rule_status_t.distinct singletonD)

lemma ready_visited: "ready rs \<Longrightarrow> visited 0 (rs_events rs) rs"
  by (auto simp: ready_def visited_def group_at_def)

lemma visited_settled: "visited n L rs \<Longrightarrow> settled rs"
proof -
  assume v: "visited n L rs"
  have "if within (ev i) (rs_events rs)
      then \<exists>k. front (ev i) k (rules_state rs) \<and> rules_state rs ! k = rule_status_in_progress
      else idle (ev i) (rules_state rs)" if "i < n" for i
  proof -
    have "group_at n L (rs_events rs) (rules_state rs) (ev i)" using v that by (simp add: visited_def)
    moreover have "\<not> (k \<ge> n \<and> front (ev i) k (rules_state rs))" for k by (auto simp: front_def)
    ultimately show ?thesis unfolding group_at_def by (auto split: if_splits)
  qed
  then show ?thesis using v by (simp add: visited_def settled_def)
qed

text \<open>A step that only touches the group of rule \<open>i\<close>.\<close>

lemma visited_step:
  assumes "visited i L rs" "i < n" "length (rules_state rs') = n" "rule_message_data rs' = None"
    and "\<And>j. \<lbrakk>j < n; ev j \<noteq> ev i\<rbrakk> \<Longrightarrow> rules_state rs' ! j = rules_state rs ! j"
    and "\<And>j. \<lbrakk>j < n; ev j \<noteq> ev i\<rbrakk> \<Longrightarrow> within (ev j) (rs_events rs') \<longleftrightarrow> within (ev j) (rs_events rs)"
    and "\<And>j. \<lbrakk>j < n; ev j \<noteq> ev i\<rbrakk> \<Longrightarrow> within (ev j) L' \<longleftrightarrow> within (ev j) L"
    and "group_at (Suc i) L' (rs_events rs') (rules_state rs') (ev i)"
  shows "visited (Suc i) L' rs'"
proof -
  have "group_at (Suc i) L' (rs_events rs') (rules_state rs') (ev j)" if j: "j < n" for j
  proof (cases "ev j = ev i")
    case True
    then show ?thesis using assms(8) by simp
  next
    case False
    have fr: "front (ev j) k (rules_state rs') \<longleftrightarrow> front (ev j) k (rules_state rs)" for k
      using assms(5) False by (auto simp: front_def)
    have st: "rules_state rs' ! k = rules_state rs ! k" if "front (ev j) k (rules_state rs)" for k
      using that assms(5) False by (auto simp: front_def)
    have id: "idle (ev j) (rules_state rs') \<longleftrightarrow> idle (ev j) (rules_state rs)"
      using assms(5) False by (auto simp: idle_def)
    have ni: "k \<noteq> i" if "front (ev j) k (rules_state rs)" for k using that False by (auto simp: front_def)
    have g: "group_at i L (rs_events rs) (rules_state rs) (ev j)" using assms(1) j by (simp add: visited_def)
    have ahead: "\<exists>k \<ge> Suc i. front (ev j) k (rules_state rs')" if "\<exists>k \<ge> i. front (ev j) k (rules_state rs)"
      using that fr ni by (metis le_antisym not_less_eq_eq)
    have behind: "\<exists>k < Suc i. front (ev j) k (rules_state rs') \<and> rules_state rs' ! k = rule_status_in_progress"
      if "\<exists>k < i. front (ev j) k (rules_state rs) \<and> rules_state rs ! k = rule_status_in_progress"
      using that fr st by (metis less_SucI)
    show ?thesis
      using g assms(6,7) [OF j False] ahead behind id unfolding group_at_def
      by (simp add: less_SucI split: if_splits)
  qed
  then show ?thesis using assms(3,4) by (simp add: visited_def)
qed

lemma others_left: "\<lbrakk>i < n; j < n; ev j \<noteq> ev i\<rbrakk> \<Longrightarrow> within (ev j) (L AND NOT (ev i)) \<longleftrightarrow> within (ev j) L"
  using ev(2) [of j i] within_without_disjoint by blast

lemma blocked_left: "i < n \<Longrightarrow> \<not> within (ev i) (L AND NOT (ev i))"
  using ev(1) within_without [of "ev i" "ev i"] by simp

end

context ordered_rules
begin

text \<open>While its event is not cleared, a complete rule stays complete.\<close>

definition keeps :: "'s rule_set \<Rightarrow> 's rule_set \<Rightarrow> bool" where
  "keeps rs rs' \<longleftrightarrow> (\<forall>j < n. within (ev j) (rs_events rs') \<longrightarrow> within (ev j) (rs_events rs) \<and>
     (rules_state rs ! j = rule_status_complete \<longrightarrow> rules_state rs' ! j = rule_status_complete))"

lemma keeps_trans: "keeps rs rs1 \<Longrightarrow> keeps rs1 rs2 \<Longrightarrow> keeps rs rs2"
  by (simp add: keeps_def)

text \<open>What one visit of rule \<open>i\<close> does besides: it sends the message of the rule if it starts it.\<close>

definition visit_sends :: "nat \<Rightarrow> 's rule_set \<Rightarrow> 's rule_set \<Rightarrow> bool" where
  "visit_sends i rs rs' \<longleftrightarrow> keeps rs rs' \<and>
     event_task rs' = event_task rs \<and> nop_tasks rs' = nop_tasks rs \<and> nop_message_id rs' = nop_message_id rs \<and>
     (\<exists>d. msgs rs' = msgs rs @
        (if rules_state rs ! i \<noteq> rule_status_in_progress \<and> rules_state rs' ! i = rule_status_in_progress
         then [(event_task rs, re_message (rules ! i), d)] else [])) \<and>
     (rules_state rs ! i = rule_status_in_progress \<longrightarrow> rules_state rs' ! i = rule_status_in_progress) \<and>
     (\<forall>j < n. j \<noteq> i \<longrightarrow> (rules_state rs' ! j = rule_status_in_progress \<longleftrightarrow> rules_state rs ! j = rule_status_in_progress))"

lemma visit_sends_same: "visit_sends i rs rs"
  by (auto simp: visit_sends_def keeps_def)

lemma started_in_order:
  assumes "visited i L rs" "i < n" "within (ev i) (rs_events rs)" "front (ev i) i (rules_state rs)"
    and "rules_state rs ! i \<noteq> rule_status_in_progress"
    and "rule_frame rs rs1" "a = rule_action_run \<or> a = rule_action_run_with_param"
    and "if a = rule_action_run_with_param then \<exists>d. d \<noteq> [] \<and> rule_message_data rs1 = Some d
      else rule_message_data rs1 = None"
  shows "\<exists>rs'. handle_action rules i a rs1 = Some rs' \<and> visited (Suc i) (L AND NOT (ev i)) rs' \<and> visit_sends i rs rs'"
proof -
  have fl: "re_flags (rules ! i) \<noteq> rule_flag_always_evaluate" using plain assms(2) by simp
  have len: "length (rules_state rs) = n" using assms(1) by (simp add: visited_def)
  note fr = assms(6) [unfolded rule_frame_def]
  have "\<exists>rs' d. handle_action rules i a rs1 = Some rs' \<and>
      rules_state rs' = (rules_state rs)[i := rule_status_in_progress] \<and> rule_message_data rs' = None \<and>
      rs_events rs' = rs_events rs \<and> event_task rs' = event_task rs \<and> nop_tasks rs' = nop_tasks rs \<and>
      nop_message_id rs' = nop_message_id rs \<and>
      msgs rs' = msgs rs @ [(event_task rs, re_message (rules ! i), d)]"
    using assms(7,8) fl fr
    by (auto simp: handle_action_def started_def set_status_at_def RulesEngine_SetRuleStatus_def send_def
        split: if_splits)
  then obtain d rs' where h: "handle_action rules i a rs1 = Some rs'"
      and f: "rules_state rs' = (rules_state rs)[i := rule_status_in_progress]" "rule_message_data rs' = None"
      "rs_events rs' = rs_events rs" "event_task rs' = event_task rs" "nop_tasks rs' = nop_tasks rs"
      "nop_message_id rs' = nop_message_id rs"
      "msgs rs' = msgs rs @ [(event_task rs, re_message (rules ! i), d)]" by blast
  have "front (ev i) i (rules_state rs')" "rules_state rs' ! i = rule_status_in_progress"
    using assms(2,4) len by (auto simp: f front_def)
  then have "group_at (Suc i) (L AND NOT (ev i)) (rs_events rs') (rules_state rs') (ev i)"
    using assms(3) blocked_left [OF assms(2), of L] unfolding group_at_def f(3) by auto
  then have "visited (Suc i) (L AND NOT (ev i)) rs'"
    using others_left [OF assms(2)] len f assms(2) by (intro visited_step [OF assms(1)]) (auto simp: nth_list_update)
  moreover have "visit_sends i rs rs'"
    using assms(2,4,5) len by (auto simp: visit_sends_def f keeps_def front_def nth_list_update)
  ultimately show ?thesis using h by blast
qed

text \<open>The front moves to the next rule of the group, if there is one.\<close>

lemma next_front:
  assumes "front E k st" "length st = n" "k < k2" "k2 < n" "ev k2 = E"
    and "length st' = n" "\<And>j. j < n \<Longrightarrow> ev j = E \<Longrightarrow> st' ! j = (if j = k then rule_status_complete else st ! j)"
  shows "\<exists>k' > k. front E k' st' \<and> st' ! k' = rule_status_not_done"
proof -
  define k' where "k' = (LEAST j. k < j \<and> j < n \<and> ev j = E)"
  have l: "k < k' \<and> k' < n \<and> ev k' = E" unfolding k'_def by (rule LeastI [of _ k2]) (use assms in simp)
  have least: "\<not> (k < j \<and> j < n \<and> ev j = E)" if "j < k'" for j using that not_less_Least unfolding k'_def by blast
  have st': "st' ! k' = rule_status_not_done" using l assms(1,7) by (auto simp: front_def)
  have "front E k' st'"
    unfolding front_def
  proof (intro conjI allI impI)
    show "k' < n" "ev k' = E" "st' ! k' \<in> {rule_status_in_progress, rule_status_not_done}" using l st' by auto
  next
    fix j
    assume j: "j < n" "ev j = E" "j < k'"
    then have "j = k \<or> j < k" using least [of j] by auto
    then show "st' ! j = rule_status_complete" using j assms(1,7) by (auto simp: front_def)
  next
    fix j
    assume "j < n" "ev j = E" "k' < j"
    then show "st' ! j = rule_status_not_done" using l assms(1,7) by (auto simp: front_def)
  qed
  then show ?thesis using l st' by blast
qed

lemma completed_in_order:
  assumes "visited i L rs" "i < n" "within (ev i) (rs_events rs)" "within (ev i) L"
    and "front (ev i) i (rules_state rs)" "rules_state rs ! i \<noteq> rule_status_in_progress"
    and "rule_frame rs rs1" "a = rule_action_complete \<or> a = rule_action_ignore" "rule_message_data rs1 = None"
  shows "\<exists>rs'. handle_action rules i a rs1 = Some rs' \<and> visited (Suc i) L rs' \<and> visit_sends i rs rs'"
proof -
  have fl: "re_flags (rules ! i) \<noteq> rule_flag_always_evaluate" using plain assms(2) by simp
  have len: "length (rules_state rs) = n" using assms(1) by (simp add: visited_def)
  note fr = assms(7) [unfolded rule_frame_def]
  have nd: "rules_state rs ! i = rule_status_not_done" using assms(5,6) by (simp add: front_def)
  let ?h = "completes (re_message (rules ! i)) rule_status_not_done (ev i) rs1"
    and ?c = "cleared (re_message (rules ! i)) rule_status_not_done (ev i) rs1"
  have hit: "?h j \<longleftrightarrow> j = i" for j
    using messages_differ [OF _ assms(2), of j] ev_overlap [OF _ assms(2), of j] ev(1) [OF assms(2)] assms(2) nd fr
    by (auto simp: completes_def)
  have clr: "?c E \<longleftrightarrow> E = ev i \<and> (\<forall>j < n. ev j = ev i \<longrightarrow> j \<le> i)" for E
    using assms(5) fr unfolding cleared_def hit front_def
    by (metis leI le_neq_implies_less linorder_not_less rule_status_t.distinct(17) rule_status_t.distinct(5))
  obtain evs st where u: "RulesEngine_UpdateRuleStatus rules rs1 (re_message (rules ! i)) rule_status_not_done
        rule_status_complete (ev i) = Some (\<exists>j. ?h j, rs1\<lparr>rs_events := evs, rules_state := st\<rparr>)"
      "length st = n"
      "\<And>j. j < n \<Longrightarrow> st ! j = (if ?c (ev j) then rule_status_not_done
         else if ?h j then rule_status_complete else rules_state rs1 ! j)"
      "\<And>j. j < n \<Longrightarrow> within (ev j) evs \<longleftrightarrow> within (ev j) (rs_events rs1) \<and> \<not> ?c (ev j)"
    using update_status [of rs1 "re_message (rules ! i)" rule_status_not_done "ev i"] len fr by auto
  let ?rs = "rs1\<lparr>rs_events := evs, rules_state := st\<rparr>"
  have h: "handle_action rules i a rs1 = Some ?rs"
    using assms(8) fl u(1) nd fr by (auto simp: handle_action_def)
  have "group_at (Suc i) L evs st (ev i)"
  proof (cases "\<forall>j < n. ev j = ev i \<longrightarrow> j \<le> i")
    case True
    then have "idle (ev i) st" "\<not> within (ev i) evs" using u(3,4) assms(2) by (simp_all add: idle_def clr)
    then show ?thesis using True by (simp add: group_at_def less_Suc_eq_le)
  next
    case False
    then obtain k2 where k2: "i < k2" "k2 < n" "ev k2 = ev i" by (auto simp: not_le)
    have "\<exists>k' > i. front (ev i) k' st \<and> st ! k' = rule_status_not_done"
      using False u(2,3) fr by (intro next_front [OF assms(5) len k2]) (auto simp: clr hit)
    moreover have "within (ev i) evs" using u(4) [OF assms(2)] False assms(3) fr by (simp add: clr)
    ultimately show ?thesis using assms(4) by (auto simp: group_at_def Suc_le_eq)
  qed
  then have "visited (Suc i) L ?rs"
    using u fr assms(2,9) by (intro visited_step [OF assms(1)]) (auto simp: clr hit)
  moreover have "visit_sends i rs ?rs"
  proof -
    have "st ! j = rule_status_in_progress \<longleftrightarrow> rules_state rs ! j = rule_status_in_progress" if "j < n" for j
      using u(3) [OF that] fr nd assms(5) that by (auto simp: clr hit front_def nat_less_le)
    moreover have "keeps rs ?rs" using u(3,4) fr by (auto simp: keeps_def hit)
    ultimately show ?thesis using fr assms(2,6) by (auto simp: visit_sends_def)
  qed
  ultimately show ?thesis using h by blast
qed

end

context ordered_rules
begin

lemma visit:
  assumes "visited i L rs" "i < n"
  shows "\<exists>L' rs'. (\<forall>is. run_rules_loop rules (i # is) L rs = run_rules_loop rules is L' rs') \<and>
    visited (Suc i) L' rs' \<and> visit_sends i rs rs'"
proof -
  have fl: "re_flags (rules ! i) \<noteq> rule_flag_always_evaluate" using plain assms(2) by simp
  have g: "group_at i L (rs_events rs) (rules_state rs) (ev i)" using assms by (simp add: visited_def)
  have skip: ?thesis
    if "group_at (Suc i) L (rs_events rs) (rules_state rs) (ev i)"
      "\<forall>is. run_rules_loop rules (i # is) L rs = run_rules_loop rules is L rs"
  proof -
    have "visited (Suc i) L rs"
      using assms that(1) by (intro visited_step [OF assms]) (auto simp: visited_def)
    then show ?thesis using that(2) visit_sends_same by blast
  qed
  show ?thesis
  proof (cases "within (ev i) L")
    case False
    have "group_at (Suc i) L (rs_events rs) (rules_state rs) (ev i)"
      using g False by (auto simp: group_at_def less_Suc_eq)
    then show ?thesis using False fl by (intro skip) (auto simp: within_def)
  next
    case True
    then have w: "within (ev i) (rs_events rs)" using g assms(2) by (auto simp: group_at_def split: if_splits)
    then obtain k where k: "k \<ge> i" "front (ev i) k (rules_state rs)" using g True by (auto simp: group_at_def)
    show ?thesis
    proof (cases "k = i")
      case False
      then have "rules_state rs ! i = rule_status_complete" using k assms(2) by (auto simp: front_def)
      moreover have "group_at (Suc i) L (rs_events rs) (rules_state rs) (ev i)"
        using True w k False by (auto simp: group_at_def Suc_le_eq nat_less_le)
      ultimately show ?thesis using True by (intro skip) (auto simp: within_def)
    next
      case ki: True
      show ?thesis
      proof (cases "rules_state rs ! i = rule_status_in_progress")
        case ip: True
        have "group_at (Suc i) (L AND NOT (ev i)) (rs_events rs) (rules_state rs) (ev i)"
          using w k ki ip blocked_left [OF assms(2)] by (auto simp: group_at_def)
        then have "visited (Suc i) (L AND NOT (ev i)) rs"
          using assms others_left [OF assms(2)] by (intro visited_step [OF assms]) (auto simp: visited_def)
        moreover have "run_rules_loop rules (i # is) L rs = run_rules_loop rules is (L AND NOT (ev i)) rs" for "is"
          using True ip by (simp add: within_def)
        ultimately show ?thesis using visit_sends_same by blast
      next
        case nip: False
        then have nc: "rules_state rs ! i \<noteq> rule_status_complete" using k ki by (auto simp: front_def)
        obtain a rs1 where a: "re_rule (rules ! i) rs = Some (a, rs1)" "a \<noteq> rule_action_defer" "rule_frame rs rs1"
            "if a = rule_action_run_with_param then \<exists>d. d \<noteq> [] \<and> rule_message_data rs1 = Some d
             else rule_message_data rs1 = None"
          using runs [of "rules ! i" rs] assms by (auto simp: visited_def)
        have f: "front (ev i) i (rules_state rs)" using k ki by simp
        define L' where "L' = (if a = rule_action_run \<or> a = rule_action_run_with_param then L AND NOT (ev i) else L)"
        have "\<exists>rs'. handle_action rules i a rs1 = Some rs' \<and> visited (Suc i) L' rs' \<and> visit_sends i rs rs'"
        proof (cases "a = rule_action_run \<or> a = rule_action_run_with_param")
          case st: True
          show ?thesis using started_in_order [OF assms w f nip a(3) st a(4)] st by (simp add: L'_def)
        next
          case nst: False
          then have "a = rule_action_complete \<or> a = rule_action_ignore" using a(2) by (cases a) auto
          then show ?thesis
            using completed_in_order [OF assms w True f nip a(3)] a(4) nst by (auto simp: L'_def)
        qed
        then obtain rs' where rs': "handle_action rules i a rs1 = Some rs'" "visited (Suc i) L' rs'" "visit_sends i rs rs'"
          by blast
        have "run_rules_loop rules (i # is) L rs = run_rules_loop rules is L' rs'" for "is"
          using True a(1) rs'(1) nip nc fl by (simp add: within_def RulesEngine_RunRule_def L'_def)
        then show ?thesis using rs'(2,3) by blast
      qed
    qed
  qed
qed

text \<open>The rules that are in progress after but were not before.\<close>

definition newly :: "'s rule_set \<Rightarrow> 's rule_set \<Rightarrow> nat list" where
  "newly rs rs' = filter (\<lambda>i. rules_state rs ! i \<noteq> rule_status_in_progress \<and>
     rules_state rs' ! i = rule_status_in_progress) [0..<n]"

definition announces :: "'s rule_set \<Rightarrow> 's rule_set \<Rightarrow> bool" where
  "announces rs rs' \<longleftrightarrow> event_task rs' = event_task rs \<and> nop_tasks rs' = nop_tasks rs \<and>
     nop_message_id rs' = nop_message_id rs \<and>
     (\<exists>ms. msgs rs' = msgs rs @ ms \<and> map fst ms = map (\<lambda>_. event_task rs) (newly rs rs') \<and>
        map (fst \<circ> snd) ms = map (\<lambda>i. re_message (rules ! i)) (newly rs rs'))"

definition sends :: "'s rule_set \<Rightarrow> 's rule_set \<Rightarrow> bool" where
  "sends rs rs' \<longleftrightarrow> keeps rs rs' \<and> announces rs rs'"

lemma run_loop:
  assumes "visited i L rs" "i \<le> n"
  shows "\<exists>rs' L'. run_rules_loop rules [i..<n] L rs = Some rs' \<and> visited n L' rs' \<and> sends rs rs' \<and>
    (\<forall>j < i. rules_state rs' ! j = rule_status_in_progress \<longleftrightarrow> rules_state rs ! j = rule_status_in_progress)"
  using assms
proof (induction "n - i" arbitrary: i L rs)
  case 0
  then show ?case by (auto simp: sends_def announces_def newly_def keeps_def)
next
  case (Suc m)
  then have i: "i < n" by simp
  obtain L1 rs1 where v: "\<forall>is. run_rules_loop rules (i # is) L rs = run_rules_loop rules is L1 rs1"
      "visited (Suc i) L1 rs1" "visit_sends i rs rs1"
    using visit [OF Suc.prems(1) i] by blast
  obtain rs' L' where r: "run_rules_loop rules [Suc i..<n] L1 rs1 = Some rs'" "visited n L' rs'" "sends rs1 rs'"
      "\<forall>j < Suc i. rules_state rs' ! j = rule_status_in_progress \<longleftrightarrow> rules_state rs1 ! j = rule_status_in_progress"
  proof -
    have "m = n - Suc i" "Suc i \<le> n" using Suc.hyps(2) i by simp_all
    then show ?thesis using Suc.hyps(1) [OF _ v(2)] that by blast
  qed
  let ?ip = "\<lambda>rs j. rules_state rs ! j = rule_status_in_progress"
  have same: "?ip rs1 j \<longleftrightarrow> ?ip rs j" if "j < n" "j \<noteq> i" for j using v(3) that by (simp add: visit_sends_def)
  have split: "[0..<n] = [0..<i] @ i # [Suc i..<n]"
    using i by (metis less_imp_add_positive less_imp_le_nat upt_add_eq_append upt_conv_Cons zero_le)
  have "filter (\<lambda>j. \<not> ?ip rs j \<and> ?ip rs' j) [0..<i] = []"
    using r(4) same i by (auto simp: filter_empty_conv)
  moreover have "filter (\<lambda>j. \<not> ?ip rs1 j \<and> ?ip rs' j) [0..<i] = []"
    using r(4) i by (auto simp: filter_empty_conv)
  moreover have "filter (\<lambda>j. \<not> ?ip rs j \<and> ?ip rs' j) [Suc i..<n] = filter (\<lambda>j. \<not> ?ip rs1 j \<and> ?ip rs' j) [Suc i..<n]"
    using same by (intro filter_cong) auto
  moreover have "\<not> (\<not> ?ip rs1 i \<and> ?ip rs' i)" "?ip rs' i \<longleftrightarrow> ?ip rs1 i" using r(4) by auto
  ultimately have nw: "newly rs rs' = (if \<not> ?ip rs i \<and> ?ip rs1 i then [i] else []) @ newly rs1 rs'"
    unfolding newly_def split by simp
  have "sends rs rs'"
    using r(3) v(3) nw keeps_trans [of rs rs1 rs'] unfolding sends_def announces_def visit_sends_def by (auto split: if_splits)
  moreover have "run_rules_loop rules [i..<n] L rs = Some rs'" using v(1) r(1) i by (simp add: upt_conv_Cons)
  moreover have "\<forall>j < i. ?ip rs' j \<longleftrightarrow> ?ip rs j" using r(4) same i by auto
  ultimately show ?case using r(2) by blast
qed

text \<open>Running the rules settles the rule set and announces exactly the rules it starts.\<close>

lemma check_settles:
  "ready rs \<Longrightarrow> \<exists>rs'. RulesEngine_Check rules rs = Some rs' \<and> settled rs' \<and> sends rs rs'"
  using run_loop [OF ready_visited, of rs] visited_settled
  by (auto simp: RulesEngine_Check_def RulesEngine_RunRules_def)

end

section \<open>The operations on settled rule sets\<close>

context ordered_rules
begin

lemma settled_cases:
  "settled rs \<Longrightarrow> i < n \<Longrightarrow> within (ev i) (rs_events rs) \<Longrightarrow>
   \<exists>k. front (ev i) k (rules_state rs) \<and> rules_state rs ! k = rule_status_in_progress"
  "settled rs \<Longrightarrow> i < n \<Longrightarrow> \<not> within (ev i) (rs_events rs) \<Longrightarrow> idle (ev i) (rules_state rs)"
  unfolding settled_def by meson+

lemma settled_update:
  "settled rs \<Longrightarrow> rs_events rs' = rs_events rs \<Longrightarrow> rules_state rs' = rules_state rs \<Longrightarrow>
   rule_message_data rs' = rule_message_data rs \<Longrightarrow> settled rs'"
  by (simp add: settled_def)

lemma first_front: "i < n \<Longrightarrow> idle (ev i) st \<Longrightarrow> \<exists>k. front (ev i) k st"
proof -
  assume i: "i < n" "idle (ev i) st"
  define k where "k = (LEAST k. k < n \<and> ev k = ev i)"
  have "k < n \<and> ev k = ev i" unfolding k_def by (rule LeastI [of _ i]) (use i in simp)
  moreover have "\<not> (j < n \<and> ev j = ev i)" if "j < k" for j using that not_less_Least unfolding k_def by blast
  ultimately show ?thesis using i(2) by (auto simp: front_def idle_def)
qed

lemma set_event_settles:
  assumes "settled rs"
  shows "\<exists>rs'. RulesEngine_SetEvent rules rs event = Some rs' \<and> settled rs' \<and> announces rs rs'"
proof -
  let ?rs = "rs\<lparr>rs_events := rs_events rs OR event\<rparr>"
  have "if within (ev i) (rs_events ?rs) then \<exists>k. front (ev i) k (rules_state rs) else idle (ev i) (rules_state rs)"
    if "i < n" for i
  proof (cases "within (ev i) (rs_events rs)")
    case True
    then show ?thesis using settled_cases(1) [OF assms that] within_or [OF True] by auto
  next
    case False
    then have "idle (ev i) (rules_state rs)" using assms that by (simp add: settled_def)
    then show ?thesis using first_front [OF that] by simp
  qed
  then have "ready ?rs" using assms by (simp add: ready_def settled_def)
  from check_settles [OF this] show ?thesis
    by (auto simp: RulesEngine_SetEvent_def sends_def announces_def newly_def)
qed

lemma reset_event_settles:
  assumes "settled rs"
  shows "\<exists>rs'. RulesEngine_ResetEvent rules rs event = Some rs' \<and> settled rs' \<and>
    rs_events rs' = rs_events rs AND NOT event \<and> msgs rs' = msgs rs \<and> nop_tasks rs' = nop_tasks rs"
proof -
  have len: "length (rules_state rs) = n" using assms by (simp add: settled_def)
  let ?st = "map2 (\<lambda>r s. if re_events r AND event \<noteq> 0 \<and> re_flags r \<noteq> rule_flag_always_evaluate
      then rule_status_not_done else s) rules (rules_state rs)"
  have st: "?st ! j = (if ev j AND event \<noteq> 0 then rule_status_not_done else rules_state rs ! j)" if "j < n" for j
    using that len plain by simp
  have "if within (ev i) (rs_events rs AND NOT event)
      then \<exists>k. front (ev i) k ?st \<and> ?st ! k = rule_status_in_progress else idle (ev i) ?st" if i: "i < n" for i
  proof (cases "ev i AND event = 0")
    case True
    then have same: "?st ! j = rules_state rs ! j" if "j < n" "ev j = ev i" for j using st that by simp
    then have "front (ev i) k ?st \<longleftrightarrow> front (ev i) k (rules_state rs)" for k by (auto simp: front_def)
    moreover have "idle (ev i) ?st \<longleftrightarrow> idle (ev i) (rules_state rs)" using same by (auto simp: idle_def)
    moreover have "?st ! k = rules_state rs ! k" if "front (ev i) k (rules_state rs)" for k
      using that same by (simp add: front_def)
    ultimately show ?thesis
      using settled_cases [OF assms i] within_without_disjoint [OF True] by (metis (no_types, lifting))
  next
    case False
    then have "idle (ev i) ?st" using st by (simp add: idle_def)
    then show ?thesis using within_without [OF False] by simp
  qed
  then show ?thesis
    using assms len reset_loop_eq [OF len, of event]
    by (simp add: RulesEngine_ResetEvent_def settled_def)
qed

text \<open>Completion moves the front of each group whose running rule it names.\<close>

lemma front_completes:
  assumes "front E k (rules_state rs)" "rules_state rs ! k = rule_status_in_progress" "ev j = E"
    and "completes message rule_status_in_progress event rs j"
  shows "j = k"
proof -
  have j: "j < n" "rules_state rs ! j = rule_status_in_progress" using assms(4) by (simp_all add: completes_def)
  have "\<not> j < k" "\<not> k < j" using assms(1,3) j by (auto simp: front_def)
  then show ?thesis by simp
qed

lemma completed_ready:
  assumes "settled rs" "length st = n"
    and "\<And>i. i < n \<Longrightarrow> st ! i = (if cleared message rule_status_in_progress event rs (ev i) then rule_status_not_done
       else if completes message rule_status_in_progress event rs i then rule_status_complete else rules_state rs ! i)"
    and "\<And>i. i < n \<Longrightarrow> within (ev i) evs \<longleftrightarrow>
       within (ev i) (rs_events rs) \<and> \<not> cleared message rule_status_in_progress event rs (ev i)"
    and i: "i < n"
  shows "if within (ev i) evs then \<exists>k. front (ev i) k st else idle (ev i) st"
    and "front (ev i) k (rules_state rs) \<Longrightarrow> completes message rule_status_in_progress event rs k \<Longrightarrow>
      within (ev i) evs \<Longrightarrow> \<exists>k' > k. front (ev i) k' st"
proof -
  let ?c = "cleared message rule_status_in_progress event rs" and ?h = "completes message rule_status_in_progress event rs"
  have len: "length (rules_state rs) = n" using assms(1) by (simp add: settled_def)
  have next_rule: "\<exists>k' > k. front (ev i) k' st"
    if k: "front (ev i) k (rules_state rs)" "?h k" and nc: "\<not> ?c (ev i)" for k
  proof -
    have ip: "rules_state rs ! k = rule_status_in_progress" "k < n" "ev k = ev i"
      using k by (simp_all add: completes_def front_def)
    have h: "?h j \<longleftrightarrow> j = k" if "ev j = ev i" for j
      using front_completes [OF k(1) ip(1) that] k(2) by blast
    obtain k2 where k2: "k2 < n" "ev k2 = ev i" "\<not> ?h k2" "rules_state rs ! k2 \<noteq> rule_status_complete"
      using nc k(2) ip(3) unfolding cleared_def by blast
    then have "k < k2" using k(1) h by (metis front_def linorder_neqE_nat)
    then show ?thesis
      using next_front [OF k(1) len _ k2(1,2) assms(2)] assms(3) h nc by auto
  qed
  show "\<exists>k' > k. front (ev i) k' st" if "front (ev i) k (rules_state rs)" "?h k" "within (ev i) evs"
    using next_rule [OF that(1,2)] that(3) assms(4) [OF i] by blast
  show "if within (ev i) evs then \<exists>k. front (ev i) k st else idle (ev i) st"
  proof (cases "within (ev i) (rs_events rs)")
    case False
    then have id: "idle (ev i) (rules_state rs)" using assms(1) i by (simp add: settled_def)
    then have "\<not> ?h j" if "ev j = ev i" for j using that by (auto simp: idle_def completes_def)
    then have "idle (ev i) st" using id assms(3) by (auto simp: idle_def cleared_def)
    then show ?thesis using False assms(4) [OF i] by simp
  next
    case True
    then obtain k where k: "front (ev i) k (rules_state rs)" "rules_state rs ! k = rule_status_in_progress"
      using settled_cases(1) [OF assms(1) i] by blast
    show ?thesis
    proof (cases "?c (ev i)")
      case c: True
      then have "idle (ev i) st" using assms(3) by (simp add: idle_def)
      then show ?thesis using c assms(4) [OF i] by simp
    next
      case nc: False
      have "\<exists>k. front (ev i) k st"
      proof (cases "?h k")
        case True
        then show ?thesis using next_rule [OF k(1) _ nc] by blast
      next
        case False
        then have "\<not> ?h j" if "ev j = ev i" for j using front_completes [OF k that] by blast
        then have "st ! j = rules_state rs ! j" if "j < n" "ev j = ev i" for j using assms(3) nc that by simp
        then have "front (ev i) k st" using k(1) by (auto simp: front_def)
        then show ?thesis by blast
      qed
      then show ?thesis using nc True assms(4) [OF i] by simp
    qed
  qed
qed

end

context ordered_rules
begin

lemma ready_msgs [simp]: "ready (rs\<lparr>msgs := m\<rparr>) \<longleftrightarrow> ready rs"
  by (simp add: ready_def)

text \<open>
  Completing a message: the rules it names give way to their successors, or their events are
  cleared; the registered clients hear of it when nothing that matters is in progress any more.
\<close>

definition completed :: "u16 \<Rightarrow> u64 \<Rightarrow> 's rule_set \<Rightarrow> 's rule_set \<Rightarrow> bool" where
  "completed message event rs rs1 \<longleftrightarrow>
     ready rs1 \<and> event_task rs1 = event_task rs \<and> nop_tasks rs1 = nop_tasks rs \<and>
     nop_message_id rs1 = nop_message_id rs \<and> msgs rs1 = msgs rs \<and>
     (\<forall>i < n. \<forall>k. front (ev i) k (rules_state rs) \<longrightarrow> completes message rule_status_in_progress event rs k \<longrightarrow>
        within (ev i) (rs_events rs1) \<longrightarrow> (\<exists>k' > k. front (ev i) k' (rules_state rs1)))"

lemma complete_settles:
  assumes "settled rs" "represents (nop_tasks rs) ts"
  shows "\<exists>rs1 rs'. RulesEngine_SetRuleWithEventComplete rules rs message event = Some rs' \<and>
    settled rs' \<and> completed message event rs rs1 \<and>
    RulesEngine_Check rules (rs1\<lparr>msgs := msgs rs @
      (if (\<exists>i. completes message rule_status_in_progress event rs i) \<and> \<not> RulesEngine_InProgress rules rs1
       then map (\<lambda>t. (t, nop_message_id rs, None)) ts else [])\<rparr>) = Some rs' \<and>
    nop_tasks rs' = nop_tasks rs"
proof -
  have len: "length (rules_state rs) = n" using assms(1) by (simp add: settled_def)
  let ?did = "\<exists>i. completes message rule_status_in_progress event rs i"
  obtain evs st where u: "RulesEngine_UpdateRuleStatus rules rs message rule_status_in_progress rule_status_complete event =
      Some (?did, rs\<lparr>rs_events := evs, rules_state := st\<rparr>)" "length st = n"
    "\<And>i. i < n \<Longrightarrow> st ! i = (if cleared message rule_status_in_progress event rs (ev i) then rule_status_not_done
       else if completes message rule_status_in_progress event rs i then rule_status_complete else rules_state rs ! i)"
    "\<And>i. i < n \<Longrightarrow> within (ev i) evs \<longleftrightarrow>
       within (ev i) (rs_events rs) \<and> \<not> cleared message rule_status_in_progress event rs (ev i)"
    using update_status [OF len, of message rule_status_in_progress event] by blast
  let ?rs1 = "rs\<lparr>rs_events := evs, rules_state := st\<rparr>"
  note cr = completed_ready [OF assms(1) u(2-4)]
  have c: "completed message event rs ?rs1"
    using cr u(2) assms(1) by (simp add: completed_def ready_def settled_def)
  let ?rs2 = "?rs1\<lparr>msgs := msgs rs @ (if ?did \<and> \<not> RulesEngine_InProgress rules ?rs1
      then map (\<lambda>t. (t, nop_message_id rs, None)) ts else [])\<rparr>"
  have "ready ?rs2" using c by (simp add: completed_def)
  then obtain rs' where rs': "RulesEngine_Check rules ?rs2 = Some rs'" "settled rs'" "sends ?rs2 rs'"
    using check_settles by blast
  have "RulesEngine_SetRuleWithEventComplete rules rs message event = RulesEngine_Check rules ?rs2"
    using u(1) tasks.notify_law [OF assms(2), of "nop_message_id rs"]
    by (auto simp: RulesEngine_SetRuleWithEventComplete_def)
  then show ?thesis
    using rs' c by (intro exI [of _ ?rs1] exI [of _ rs']) (simp add: sends_def announces_def)
qed

lemma check_keeps_front:
  assumes "sends rs rs'" "front (ev i) k (rules_state rs)" "i < n" "within (ev i) (rs_events rs')"
    and "front (ev i) k' (rules_state rs')"
  shows "k \<le> k'"
proof (rule ccontr)
  assume "\<not> k \<le> k'"
  then have "rules_state rs ! k' = rule_status_complete" "k' < n" "ev k' = ev i"
    using assms(2,5) by (auto simp: front_def)
  then have "rules_state rs' ! k' = rule_status_complete"
    using assms(1,4) unfolding sends_def keeps_def by metis
  then show False using assms(5) by (simp add: front_def)
qed

end

section \<open>Events finish, and nothing panics\<close>

text \<open>
  A client that completes whichever rule of the event \<open>E\<close> is in progress, once for each element of
  the list; the element is what has become of the application meanwhile.
\<close>

fun complete_all :: "'s rule_entry list \<Rightarrow> 's list \<Rightarrow> u64 \<Rightarrow> 's rule_set \<Rightarrow> 's rule_set option" where
  "complete_all rules [] E rs = Some rs"
| "complete_all rules (a # as) E rs =
     (case filter (\<lambda>k. re_events (rules ! k) = E \<and> rules_state rs ! k = rule_status_in_progress)
        [0..<length rules] of
        [] \<Rightarrow> complete_all rules as E rs
      | k # _ \<Rightarrow>
          (case RulesEngine_SetRuleComplete rules (rs\<lparr>app := a\<rparr>) (re_message (rules ! k)) of
             None \<Rightarrow> None | Some rs \<Rightarrow> complete_all rules as E rs))"

text \<open>Everything that can happen to a rule set between its creation and its destruction.\<close>

inductive rules_reach :: "'s rule_entry list \<Rightarrow> 's rule_set \<Rightarrow> bool" for rules where
  created: "RulesEngine_CreateRuleSet rules nop_id task a = Some rs \<Longrightarrow> rules_reach rules rs"
| set_event: "\<lbrakk>rules_reach rules rs; RulesEngine_SetEvent rules rs event = Some rs'\<rbrakk> \<Longrightarrow> rules_reach rules rs'"
| reset_event: "\<lbrakk>rules_reach rules rs; RulesEngine_ResetEvent rules rs event = Some rs'\<rbrakk> \<Longrightarrow> rules_reach rules rs'"
| set_complete: "\<lbrakk>rules_reach rules rs; RulesEngine_SetRuleWithEventComplete rules rs message event = Some rs'\<rbrakk>
    \<Longrightarrow> rules_reach rules rs'"
| registered: "\<lbrakk>rules_reach rules rs; TaskList_Size (nop_tasks rs) < TASK_LIST_MAX_TASKS;
    RulesEngine_NopClientRegister rs task = Some rs'\<rbrakk> \<Longrightarrow> rules_reach rules rs'"
| elsewhere: "rules_reach rules rs \<Longrightarrow> rules_reach rules (rs\<lparr>app := a\<rparr>)"

lemma all_events: "e AND RULE_EVENT_ALL_EVENTS_MASK = e"
proof -
  have m: "RULE_EVENT_ALL_EVENTS_MASK = - 1" by (simp add: RULE_EVENT_ALL_EVENTS_MASK_def)
  show ?thesis unfolding m by simp
qed

context ordered_rules
begin

lemma complete_advances:
  assumes "settled rs" "represents (nop_tasks rs) ts" "i < n" "front (ev i) k (rules_state rs)"
    and "completes message rule_status_in_progress event rs k"
  shows "\<exists>rs'. RulesEngine_SetRuleWithEventComplete rules rs message event = Some rs' \<and> settled rs' \<and>
    nop_tasks rs' = nop_tasks rs \<and>
    (within (ev i) (rs_events rs') \<longrightarrow>
      (\<exists>k' > k. front (ev i) k' (rules_state rs') \<and> rules_state rs' ! k' = rule_status_in_progress))"
proof -
  obtain rs1 rs' m where c: "RulesEngine_SetRuleWithEventComplete rules rs message event = Some rs'"
      "settled rs'" "completed message event rs rs1" "RulesEngine_Check rules (rs1\<lparr>msgs := m\<rparr>) = Some rs'"
      "nop_tasks rs' = nop_tasks rs"
    using complete_settles [OF assms(1,2), of message event] by blast
  have "ready (rs1\<lparr>msgs := m\<rparr>)" using c(3) by (simp add: completed_def)
  then have s: "sends (rs1\<lparr>msgs := m\<rparr>) rs'" using check_settles c(4) by fastforce
  have "\<exists>k' > k. front (ev i) k' (rules_state rs') \<and> rules_state rs' ! k' = rule_status_in_progress"
    if w: "within (ev i) (rs_events rs')"
  proof -
    have "within (ev i) (rs_events rs1)" using s w assms(3) by (simp add: sends_def keeps_def)
    then obtain k1 where k1: "k1 > k" "front (ev i) k1 (rules_state rs1)"
      using c(3) assms(3-5) unfolding completed_def by blast
    obtain k' where k': "front (ev i) k' (rules_state rs')" "rules_state rs' ! k' = rule_status_in_progress"
      using settled_cases(1) [OF c(2) assms(3) w] by blast
    have "k1 \<le> k'" using check_keeps_front [OF s _ assms(3) w k'(1), of k1] k1(2) by simp
    then show ?thesis using k1(1) k' by (meson less_le_trans)
  qed
  then show ?thesis using c by blast
qed

lemma complete_all_finishes:
  assumes "settled rs" "represents (nop_tasks rs) ts" "i < n"
    and "\<And>k. \<lbrakk>within (ev i) (rs_events rs); front (ev i) k (rules_state rs)\<rbrakk> \<Longrightarrow> card {j. k \<le> j \<and> j < n \<and> ev j = ev i} \<le> length as"
  shows "\<exists>rs'. complete_all rules as (ev i) rs = Some rs' \<and> settled rs' \<and> \<not> within (ev i) (rs_events rs')"
  using assms(1,2,4)
proof (induction as arbitrary: rs)
  case Nil
  have "\<not> within (ev i) (rs_events rs)"
  proof
    assume w: "within (ev i) (rs_events rs)"
    then obtain k where k: "front (ev i) k (rules_state rs)" using settled_cases(1) [OF Nil(1) assms(3)] by blast
    then have "k \<in> {j. k \<le> j \<and> j < n \<and> ev j = ev i}" by (simp add: front_def)
    moreover have "finite {j. k \<le> j \<and> j < n \<and> ev j = ev i}" by simp
    ultimately show False using Nil(3) [OF w k] card_gt_0_iff by fastforce
  qed
  then show ?case using Nil(1) by simp
next
  case (Cons a as)
  let ?run = "filter (\<lambda>k. ev k = ev i \<and> rules_state rs ! k = rule_status_in_progress) [0..<n]"
  show ?case
  proof (cases "within (ev i) (rs_events rs)")
    case False
    then have id: "idle (ev i) (rules_state rs)" using settled_cases(2) [OF Cons.prems(1) assms(3)] by blast
    then have "?run = []" by (auto simp: filter_empty_conv idle_def)
    then show ?thesis using Cons.IH [OF Cons.prems(1,2)] False by auto
  next
    case True
    then obtain k where k: "front (ev i) k (rules_state rs)" "rules_state rs ! k = rule_status_in_progress"
      using settled_cases(1) [OF Cons.prems(1) assms(3)] by blast
    have "j = k" if "j \<in> set ?run" for j
    proof -
      have "\<not> j < k" "\<not> k < j" using k(1) that by (auto simp: front_def)
      then show ?thesis by simp
    qed
    then have "set ?run \<subseteq> {k}" by blast
    moreover have "k \<in> set ?run" using k by (auto simp: front_def)
    ultimately obtain ks where run: "?run = k # ks" by (cases ?run) auto
    let ?rs = "rs\<lparr>app := a\<rparr>" and ?m = "re_message (rules ! k)"
    have "settled ?rs" using settled_update [OF Cons.prems(1), of ?rs] by simp
    moreover have "completes ?m rule_status_in_progress RULE_EVENT_ALL_EVENTS_MASK ?rs k"
      using k ev(1) [of k] by (auto simp: completes_def front_def all_events)
    ultimately obtain rs' where rs': "RulesEngine_SetRuleComplete rules ?rs ?m = Some rs'" "settled rs'"
        "nop_tasks rs' = nop_tasks rs"
        "within (ev i) (rs_events rs') \<longrightarrow> (\<exists>k' > k. front (ev i) k' (rules_state rs'))"
      using complete_advances [of ?rs ts i k ?m RULE_EVENT_ALL_EVENTS_MASK] Cons.prems(2) assms(3) k(1)
      by (auto simp: RulesEngine_SetRuleComplete_def)
    have "card {j. k' \<le> j \<and> j < n \<and> ev j = ev i} \<le> length as"
      if "front (ev i) k' (rules_state rs')" "within (ev i) (rs_events rs')" for k'
    proof -
      have kk: "k < k'" using rs'(4) that front_unique by blast
      have "{j. k' \<le> j \<and> j < n \<and> ev j = ev i} \<subset> {j. k \<le> j \<and> j < n \<and> ev j = ev i}"
      proof (rule psubsetI)
        show "{j. k' \<le> j \<and> j < n \<and> ev j = ev i} \<subseteq> {j. k \<le> j \<and> j < n \<and> ev j = ev i}"
          using kk by auto
        have "k \<in> {j. k \<le> j \<and> j < n \<and> ev j = ev i}" "k \<notin> {j. k' \<le> j \<and> j < n \<and> ev j = ev i}"
          using k(1) kk by (simp_all add: front_def)
        then show "{j. k' \<le> j \<and> j < n \<and> ev j = ev i} \<noteq> {j. k \<le> j \<and> j < n \<and> ev j = ev i}" by metis
      qed
      then have "card {j. k' \<le> j \<and> j < n \<and> ev j = ev i} < card {j. k \<le> j \<and> j < n \<and> ev j = ev i}"
        by (intro psubset_card_mono) auto
      then show ?thesis using Cons.prems(3) [OF True k(1)] by simp
    qed
    then show ?thesis using Cons.IH [of rs'] rs' run Cons.prems(2) by simp
  qed
qed

end

context ordered_rules
begin

lemma created_settled:
  assumes "RulesEngine_CreateRuleSet rules nop_id task a = Some rs"
  shows "settled rs" "represents (nop_tasks rs) []"
proof -
  obtain l where l: "TaskList_Initialise = Some l" "represents l []"
    using initial_represents [of 1] by (auto simp: TaskList_Initialise_def)
  have rs: "rs = \<lparr>rs_events = 0, rules_state = replicate n rule_status_not_done, rule_message_data = None,
      event_task = task, nop_tasks = l, nop_message_id = nop_id, msgs = [], app = a\<rparr>"
    using assms by (auto simp: RulesEngine_CreateRuleSet_def l(1) split: if_splits)
  then show "represents (nop_tasks rs) []" using l(2) by simp
  show "settled rs"
    using events_nonzero by (auto simp: rs settled_def idle_def within_def)
qed

lemma reach_settled: "rules_reach rules rs \<Longrightarrow> settled rs \<and> (\<exists>ts. represents (nop_tasks rs) ts)"
proof (induction rule: rules_reach.induct)
  case (created nop_id task a rs)
  then show ?case using created_settled by blast
next
  case (set_event rs event rs')
  then show ?case using set_event_settles [of rs event] by (auto simp: announces_def)
next
  case (reset_event rs event rs')
  then show ?case using reset_event_settles [of rs event] by auto
next
  case (set_complete rs message event rs')
  then obtain ts where "represents (nop_tasks rs) ts" by blast
  then show ?case using complete_settles [of rs ts message event] set_complete by fastforce
next
  case (registered rs task rs')
  then obtain ts where ts: "represents (nop_tasks rs) ts" by blast
  have "task \<noteq> 0" "length ts < 15"
    using registered.hyps registered(2) represents_size(1) [OF ts]
    by (auto simp: RulesEngine_NopClientRegister_def TaskList_AddTask_def TaskList_Size_def
        TASK_LIST_MAX_TASKS_def TASK_LIST_SIZE_BITS_def split: if_splits)
  from tasks.add_law [OF ts this] show ?case
    using registered.hyps registered.IH by (auto simp: RulesEngine_NopClientRegister_def settled_def)
next
  case (elsewhere rs a)
  then show ?case by (simp add: settled_def)
qed

text \<open>No operation panics, whatever events and messages it is given.\<close>

lemma never_panics:
  assumes "rules_reach rules rs"
  shows "RulesEngine_SetEvent rules rs event \<noteq> None" "RulesEngine_ResetEvent rules rs event \<noteq> None"
    "RulesEngine_SetRuleWithEventComplete rules rs message event \<noteq> None"
    "RulesEngine_SetRuleComplete rules rs message \<noteq> None"
proof -
  obtain ts where r: "settled rs" "represents (nop_tasks rs) ts" using reach_settled [OF assms] by blast
  have c: "RulesEngine_SetRuleWithEventComplete rules rs message e \<noteq> None" for e
    using complete_settles [OF r, of message e] by auto
  show "RulesEngine_SetEvent rules rs event \<noteq> None" using set_event_settles [OF r(1)] by auto
  show "RulesEngine_ResetEvent rules rs event \<noteq> None" using reset_event_settles [OF r(1)] by auto
  show "RulesEngine_SetRuleWithEventComplete rules rs message event \<noteq> None"
    "RulesEngine_SetRuleComplete rules rs message \<noteq> None"
    using c by (simp_all add: RulesEngine_SetRuleComplete_def)
qed

text \<open>An active event has exactly one rule in progress; another event has none.\<close>

lemma one_in_progress:
  assumes "settled rs" "i < n"
  shows "card {k. k < n \<and> ev k = ev i \<and> rules_state rs ! k = rule_status_in_progress} =
    (if within (ev i) (rs_events rs) then 1 else 0)"
proof (cases "within (ev i) (rs_events rs)")
  case True
  then obtain k where k: "front (ev i) k (rules_state rs)" "rules_state rs ! k = rule_status_in_progress"
    using settled_cases(1) [OF assms] by blast
  have "j = k" if "j < n" "ev j = ev i" "rules_state rs ! j = rule_status_in_progress" for j
  proof -
    have "\<not> j < k" "\<not> k < j" using k(1) that by (auto simp: front_def)
    then show ?thesis by simp
  qed
  then have "{k. k < n \<and> ev k = ev i \<and> rules_state rs ! k = rule_status_in_progress} = {k}"
    using k by (auto simp: front_def)
  then show ?thesis using True by simp
next
  case False
  then have "idle (ev i) (rules_state rs)" using settled_cases(2) [OF assms] by blast
  then have "{k. k < n \<and> ev k = ev i \<and> rules_state rs ! k = rule_status_in_progress} = {}"
    by (auto simp: idle_def)
  then show ?thesis using False by simp
qed

end

end
