(* ===== verification/Headset_Rules.thy ===== *)
theory Headset_Rules
  imports Rules_Engine
begin

text \<open>
  \<^verbatim>\<open>headset_topology_rules.c\<close> (adk/src/topologies/headset\_topology/core): the rule table of the
  headset and its rule functions. What the rules ask of other modules (device list, connection
  manager, topology flags) is the application state of the rule set. A \<open>bool\<close> parameter is one
  octet, a \<open>uint32\<close> four octets, least significant first.
\<close>

section \<open>What the other modules answer\<close>

type_synonym bdaddr = "48 word"

record headset_state =
  handset_bd_addr :: "bdaddr option"
  con_manager_connected :: "bdaddr \<Rightarrow> bool"
  any_profile_connected :: bool
  was_connected :: "bdaddr \<Rightarrow> bool"
  last_connected_profiles :: "bdaddr \<Rightarrow> u32"
  shutdown_in_progress :: bool
  prohibit_connect_to_handset :: bool

section \<open>Events, messages and parameters\<close>

definition "HSTOP_RULE_EVENT_START = (push_bit 0 1 :: u64)"
definition "HSTOP_RULE_EVENT_HANDSET_LINKLOSS = (push_bit 1 1 :: u64)"
definition "HSTOP_RULE_EVENT_PROHIBIT_CONNECT_TO_HANDSET = (push_bit 5 1 :: u64)"
definition "HSTOP_RULE_EVENT_STOP = (push_bit 6 1 :: u64)"

definition "HSTOP_GOAL_CONNECTABLE_HANDSET = (0x0100 :: u16)"
definition "HSTOP_GOAL_CONNECT_HANDSET = (0x0101 :: u16)"
definition "HSTOP_GOAL_ALLOW_HANDSET_CONNECT = (0x0102 :: u16)"
definition "HSTOP_GOAL_DISCONNECT_HANDSET = (0x0103 :: u16)"
definition "HSTOP_GOAL_ALLOW_LE_CONNECTION = (0x0104 :: u16)"
definition "HSTOP_GOAL_SYSTEM_STOP = (0x0105 :: u16)"
definition "HSTOP_GOAL_NOP = (0x0106 :: u16)"

definition "DEVICE_PROFILE_HFP = (push_bit 0 1 :: u32)"
definition "DEVICE_PROFILE_A2DP = (push_bit 1 1 :: u32)"

definition bool_octets :: "bool \<Rightarrow> u8 list" where
  "bool_octets b = [if b then 1 else 0]"

definition u32_octets :: "u32 \<Rightarrow> u8 list" where
  "u32_octets w = map (\<lambda>k. ucast (drop_bit (8 * k) w)) [0..<4]"

datatype rule_connect_reason_t = rule_connect_pairing | rule_connect_linkloss

section \<open>Rules\<close>

type_synonym hs_rule = "headset_state rule_set \<Rightarrow> (rule_action_t \<times> headset_state rule_set) option"

definition headsetTopologyRules_CopyRunParams :: "u8 list \<Rightarrow> hs_rule" where
  "headsetTopologyRules_CopyRunParams param rs =
     map_option (Pair rule_action_run_with_param) (RulesEngine_CopyRunParams rs param)"

definition ruleHsTopEnableConnectableHandset :: hs_rule where
  "ruleHsTopEnableConnectableHandset rs =
     (case handset_bd_addr (app rs) of
        None \<Rightarrow> Some (rule_action_ignore, rs)
      | Some handset_addr \<Rightarrow>
          if con_manager_connected (app rs) handset_addr then Some (rule_action_ignore, rs)
          else if shutdown_in_progress (app rs) then Some (rule_action_ignore, rs)
          else headsetTopologyRules_CopyRunParams (bool_octets True) rs)"

definition ruleHsTopAllowHandsetConnect :: hs_rule where
  "ruleHsTopAllowHandsetConnect rs =
     (if shutdown_in_progress (app rs) then Some (rule_action_ignore, rs)
      else headsetTopologyRules_CopyRunParams (bool_octets True) rs)"

definition ruleHsTopConnectHandset :: "rule_connect_reason_t \<Rightarrow> hs_rule" where
  "ruleHsTopConnectHandset reason rs =
     (case handset_bd_addr (app rs) of
        None \<Rightarrow> Some (rule_action_ignore, rs)
      | Some handset_addr \<Rightarrow>
          if con_manager_connected (app rs) handset_addr then Some (rule_action_ignore, rs)
          else if prohibit_connect_to_handset (app rs) then Some (rule_action_ignore, rs)
          else if reason \<noteq> rule_connect_linkloss \<and> any_profile_connected (app rs)
          then Some (rule_action_ignore, rs)
          else if was_connected (app rs) handset_addr then
            let profiles = last_connected_profiles (app rs) handset_addr;
                profiles = (if reason = rule_connect_pairing
                            then profiles OR (DEVICE_PROFILE_HFP OR DEVICE_PROFILE_A2DP) else profiles)
            in headsetTopologyRules_CopyRunParams (u32_octets profiles) rs
          else Some (rule_action_ignore, rs))"

definition ruleHsTopPairConnectHandset :: hs_rule where
  "ruleHsTopPairConnectHandset = ruleHsTopConnectHandset rule_connect_pairing"

definition ruleHsTopAllowLEConnection :: hs_rule where
  "ruleHsTopAllowLEConnection = headsetTopologyRules_CopyRunParams (bool_octets True)"

definition ruleHsTopHandsetLinkLossReconnect :: hs_rule where
  "ruleHsTopHandsetLinkLossReconnect = ruleHsTopConnectHandset rule_connect_linkloss"

definition ruleHsTopDisconnectHandset :: hs_rule where
  "ruleHsTopDisconnectHandset rs = Some (rule_action_run, rs)"

definition ruleHsTopStop :: hs_rule where
  "ruleHsTopStop rs = Some (rule_action_run, rs)"

definition hstop_rules_set :: "headset_state rule_entry list" where
  "hstop_rules_set =
    [RULE HSTOP_RULE_EVENT_STOP ruleHsTopStop HSTOP_GOAL_SYSTEM_STOP,
     RULE HSTOP_RULE_EVENT_HANDSET_LINKLOSS ruleHsTopHandsetLinkLossReconnect HSTOP_GOAL_CONNECT_HANDSET,
     RULE HSTOP_RULE_EVENT_START ruleHsTopEnableConnectableHandset HSTOP_GOAL_CONNECTABLE_HANDSET,
     RULE HSTOP_RULE_EVENT_START ruleHsTopAllowHandsetConnect HSTOP_GOAL_ALLOW_HANDSET_CONNECT,
     RULE HSTOP_RULE_EVENT_START ruleHsTopPairConnectHandset HSTOP_GOAL_CONNECT_HANDSET,
     RULE HSTOP_RULE_EVENT_START ruleHsTopAllowLEConnection HSTOP_GOAL_ALLOW_LE_CONNECTION,
     RULE HSTOP_RULE_EVENT_PROHIBIT_CONNECT_TO_HANDSET ruleHsTopDisconnectHandset HSTOP_GOAL_DISCONNECT_HANDSET]"

section \<open>Interface\<close>

text \<open>The rule set of the module is the state that is passed.\<close>

definition HeadsetTopologyRules_Init :: "Task \<Rightarrow> headset_state \<Rightarrow> headset_state rule_set option" where
  "HeadsetTopologyRules_Init result_task a =
     RulesEngine_CreateRuleSet hstop_rules_set HSTOP_GOAL_NOP result_task a"

definition HeadsetTopologyRules_SetEvent :: "u64 \<Rightarrow> headset_state rule_set \<Rightarrow> headset_state rule_set option" where
  "HeadsetTopologyRules_SetEvent event_mask rs = RulesEngine_SetEvent hstop_rules_set rs event_mask"

definition HeadsetTopologyRules_ResetEvent :: "u64 \<Rightarrow> headset_state rule_set \<Rightarrow> headset_state rule_set option" where
  "HeadsetTopologyRules_ResetEvent event rs = RulesEngine_ResetEvent hstop_rules_set rs event"

definition HeadsetTopologyRules_GetEvents :: "headset_state rule_set \<Rightarrow> u64" where
  "HeadsetTopologyRules_GetEvents rs = RulesEngine_GetEvents rs"

definition HeadsetTopologyRules_SetRuleComplete ::
    "u16 \<Rightarrow> headset_state rule_set \<Rightarrow> headset_state rule_set option" where
  "HeadsetTopologyRules_SetRuleComplete message rs = RulesEngine_SetRuleComplete hstop_rules_set rs message"

definition HeadsetTopologyRules_SetRuleWithEventComplete ::
    "u16 \<Rightarrow> u64 \<Rightarrow> headset_state rule_set \<Rightarrow> headset_state rule_set option" where
  "HeadsetTopologyRules_SetRuleWithEventComplete message event rs =
     RulesEngine_SetRuleWithEventComplete hstop_rules_set rs message event"

lemmas hstop_events = HSTOP_RULE_EVENT_START_def HSTOP_RULE_EVENT_HANDSET_LINKLOSS_def
  HSTOP_RULE_EVENT_PROHIBIT_CONNECT_TO_HANDSET_def HSTOP_RULE_EVENT_STOP_def

lemmas hstop_goals = HSTOP_GOAL_CONNECTABLE_HANDSET_def HSTOP_GOAL_CONNECT_HANDSET_def
  HSTOP_GOAL_ALLOW_HANDSET_CONNECT_def HSTOP_GOAL_DISCONNECT_HANDSET_def
  HSTOP_GOAL_ALLOW_LE_CONNECTION_def HSTOP_GOAL_SYSTEM_STOP_def HSTOP_GOAL_NOP_def

lemmas hstop_rules = ruleHsTopStop_def ruleHsTopHandsetLinkLossReconnect_def
  ruleHsTopEnableConnectableHandset_def ruleHsTopAllowHandsetConnect_def ruleHsTopPairConnectHandset_def
  ruleHsTopAllowLEConnection_def ruleHsTopDisconnectHandset_def ruleHsTopConnectHandset_def
  headsetTopologyRules_CopyRunParams_def RulesEngine_CopyRunParams_def

lemma octets_nonempty [simp]: "bool_octets b \<noteq> []" "u32_octets w \<noteq> []"
  by (simp_all add: bool_octets_def u32_octets_def)

section \<open>The table runs in order\<close>

lemma hstop_table:
  "length hstop_rules_set = 7"
  "map re_events hstop_rules_set = [64, 2, 1, 1, 1, 1, 32]"
  "map re_message hstop_rules_set = [0x105, 0x101, 0x100, 0x102, 0x101, 0x104, 0x103]"
  by (simp_all add: hstop_rules_set_def RULE_def hstop_events hstop_goals)

interpretation hs: ordered_rules hstop_rules_set
proof
  fix r r' :: "headset_state rule_entry"
  assume r: "r \<in> set hstop_rules_set"
  show "re_flags r \<noteq> rule_flag_always_evaluate" using r by (auto simp: hstop_rules_set_def RULE_def)
  show "re_events r \<noteq> 0" using r by (auto simp: hstop_rules_set_def RULE_def hstop_events)
  show "re_events r = re_events r' \<or> re_events r AND re_events r' = 0" if "r' \<in> set hstop_rules_set"
    using r that by (auto simp: hstop_rules_set_def RULE_def hstop_events)
  fix rs :: "headset_state rule_set"
  assume "rule_message_data rs = None"
  then show "\<exists>a rs'. re_rule r rs = Some (a, rs') \<and> a \<noteq> rule_action_defer \<and> rule_frame rs rs' \<and>
      (if a = rule_action_run_with_param then \<exists>d. d \<noteq> [] \<and> rule_message_data rs' = Some d
       else rule_message_data rs' = None)"
    using r by (auto simp: hstop_rules_set_def RULE_def hstop_rules rule_frame_def Let_def split: option.split)
next
  fix i j
  assume ij: "i < length hstop_rules_set" "j < length hstop_rules_set"
    and e: "re_events (hstop_rules_set ! i) = re_events (hstop_rules_set ! j)"
    and m: "re_message (hstop_rules_set ! i) = re_message (hstop_rules_set ! j)"
  have "[64, 2, 1, 1, 1, 1, 32 :: u64] ! i = [64, 2, 1, 1, 1, 1, 32] ! j"
    using e ij by (simp only: hstop_table(2) [symmetric] nth_map)
  moreover have "[0x105, 0x101, 0x100, 0x102, 0x101, 0x104, 0x103 :: u16] ! i =
      [0x105, 0x101, 0x100, 0x102, 0x101, 0x104, 0x103] ! j"
    using m ij by (simp only: hstop_table(3) [symmetric] nth_map)
  moreover have "i \<in> {0, 1, 2, 3, 4, 5, 6}" "j \<in> {0, 1, 2, 3, 4, 5, 6}" using ij by (auto simp: hstop_table)
  ultimately show "i = j" by auto
qed

end
