(* ===== verification/Goals_Engine.thy ===== *)
theory Goals_Engine
  imports Rules_Engine "HOL-Library.Monad_Syntax"
begin

text \<open>
  \<^verbatim>\<open>goals_engine.c\<close> (adk/src/topologies/common/goals\_engine): goals are started, queued or make
  others cancel, as their entries in a table say. A goal that must wait is a message held by the
  message system on a lock, a word that is zero when the goals it waits for are over. Starting and
  cancelling a procedure or a script are parameters that act on the whole state. A panic, an endless
  loop and an access outside the table are \<open>None\<close>.
\<close>

section \<open>State\<close>

type_synonym goal_id = nat
type_synonym goal_mask = u64

definition "GOAL_ID_NONE = (0 :: goal_id)"
definition "GOAL_ID_MIN = (1 :: nat)"
definition "GOAL_ID_MAX = (63 :: nat)"
definition "GOAL_MASK_NONE = (0 :: goal_mask)"
definition "GOAL_LOCK_MASK_BIT = (1 :: u16)"
definition "INITIAL_GOAL_QUEUE_COUNT = (8 :: nat)"

definition GOAL_MASK :: "goal_id \<Rightarrow> goal_mask" where
  "GOAL_MASK goal = push_bit goal 1"

definition REMOVE_GOAL_FROM_MASK :: "goal_mask \<Rightarrow> goal_id \<Rightarrow> goal_mask" where
  "REMOVE_GOAL_FROM_MASK m goal = m AND NOT (GOAL_MASK goal)"

definition SET_LOCK_FROM_MASK :: "goal_mask \<Rightarrow> u16" where
  "SET_LOCK_FROM_MASK lock_mask = (if lock_mask \<noteq> GOAL_MASK_NONE then GOAL_LOCK_MASK_BIT else 0)"

datatype goal_contention_t = goal_contention_wait | goal_contention_cancel | goal_contention_concurrent

datatype procedure_result_t = procedure_result_success | procedure_result_failed | procedure_result_timeout

record pending_goal_entry =
  pg_id :: goal_id
  pg_rule_id :: u16
  pg_lock :: u16
  pg_lock_mask :: goal_mask

definition no_goal :: pending_goal_entry where
  "no_goal = \<lparr>pg_id = GOAL_ID_NONE, pg_rule_id = 0, pg_lock = 0, pg_lock_mask = 0\<rparr>"

text \<open>
  \<open>held\<close> are the messages to the queue task that wait: identifier, data and the queue entry whose
  lock they wait on, the oldest first. \<open>gs_env\<close> is the state of the procedures.
\<close>

record 's goal_set =
  active_goals_mask :: goal_mask
  queue_task :: Task
  queue_msg_count :: u8
  queue_msg_count_max :: u8
  pending_goals :: "pending_goal_entry list"
  proc_result_task :: Task
  held :: "(u16 \<times> u8 list option \<times> nat) list"
  gs_env :: 's

type_synonym 's procedure = "'s goal_set \<Rightarrow> 's goal_set option"

record 's procedure_fns =
  proc_start_fn :: "u8 list option \<Rightarrow> 's procedure"
  proc_cancel_fn :: "'s procedure"

record 's goal_entry =
  ge_proc :: nat
  contention :: goal_contention_t
  exclusive_goal :: goal_id
  success_event :: u64
  timeout_event :: u64
  failed_event :: u64
  proc_fns :: "'s procedure_fns option"
  proc_script :: "nat option"
  concurrent_goals :: "goal_id list"

text \<open>
  The table, and the two functions of the script engine: starting a script for a procedure, and
  cancelling what it runs. A list of concurrent goals ends before \<open>GOAL_ID_NONE\<close>; no list is empty.
\<close>

record 's goal_table =
  goals :: "'s goal_entry list"
  start_script :: "nat \<Rightarrow> nat \<Rightarrow> 's procedure"
  cancel_script :: "'s procedure"

section \<open>Goals and masks\<close>

definition GoalsEngine_FindGoalForProcedure :: "'s goal_entry list \<Rightarrow> nat \<Rightarrow> goal_id option" where
  "GoalsEngine_FindGoalForProcedure gs proc =
     (case filter (\<lambda>i. ge_proc (gs ! i) = proc) [1..<length gs] of [] \<Rightarrow> None | i # _ \<Rightarrow> Some i)"

text \<open>The loop of \<open>goalsEngine_FirstGoalFromMask\<close>; a mask has 64 bits, so 64 rounds decide.\<close>

fun first_goal_loop :: "nat \<Rightarrow> goal_id \<Rightarrow> goal_mask \<Rightarrow> goal_id option" where
  "first_goal_loop 0 goal m = None"
| "first_goal_loop (Suc fuel) goal m =
     (let goal = goal + 1; m = drop_bit 1 m
      in if m AND 1 = 0 then first_goal_loop fuel goal m else Some goal)"

definition goalsEngine_FirstGoalFromMask :: "'s goal_table \<Rightarrow> goal_mask \<Rightarrow> goal_id option" where
  "goalsEngine_FirstGoalFromMask t m =
     (if m = 0 then None
      else do {
        goal \<leftarrow> first_goal_loop 64 GOAL_ID_NONE m;
        if goal < length (goals t) then Some goal else None
      })"

definition goalsEngine_IsScriptedGoal :: "'s goal_table \<Rightarrow> goal_id \<Rightarrow> bool" where
  "goalsEngine_IsScriptedGoal t goal \<longleftrightarrow> proc_script (goals t ! goal) \<noteq> None"

definition goalsEngine_GoalCancelsActive :: "'s goal_table \<Rightarrow> goal_id \<Rightarrow> bool" where
  "goalsEngine_GoalCancelsActive t goal \<longleftrightarrow> contention (goals t ! goal) = goal_contention_cancel"

definition goalsEngine_GoalRunsConcurrently :: "'s goal_table \<Rightarrow> goal_id \<Rightarrow> bool" where
  "goalsEngine_GoalRunsConcurrently t goal \<longleftrightarrow> contention (goals t ! goal) = goal_contention_concurrent"

definition goalsEngine_GetConcurrentGoalsMask :: "'s goal_entry \<Rightarrow> goal_mask" where
  "goalsEngine_GetConcurrentGoalsMask g = fold (\<lambda>c m. m OR GOAL_MASK c) (concurrent_goals g) 0"

section \<open>The queue\<close>

definition find_slot :: "(pending_goal_entry \<Rightarrow> bool) \<Rightarrow> pending_goal_entry list \<Rightarrow> nat option" where
  "find_slot P es = (case filter (\<lambda>i. P (es ! i)) [0..<length es] of [] \<Rightarrow> None | i # _ \<Rightarrow> Some i)"

definition queue_slot :: "'s goal_set \<Rightarrow> goal_id \<Rightarrow> nat option" where
  "queue_slot gs new_goal =
     (case find_slot (\<lambda>e. pg_id e = new_goal) (pending_goals gs) of
        Some i \<Rightarrow> Some i
      | None \<Rightarrow> find_slot (\<lambda>e. pg_id e = GOAL_ID_NONE) (pending_goals gs))"

definition goalsEngine_QueueGoal ::
    "'s goal_set \<Rightarrow> u16 \<Rightarrow> u8 list option \<Rightarrow> nat \<Rightarrow> goal_mask \<Rightarrow> goal_id \<Rightarrow> 's goal_set option" where
  "goalsEngine_QueueGoal gs rule_id goal_data goal_data_size wait_mask new_goal =
     (case queue_slot gs new_goal of
        None \<Rightarrow> None
      | Some queue_index \<Rightarrow>
          let e = \<lparr>pg_id = new_goal, pg_rule_id = rule_id, pg_lock = SET_LOCK_FROM_MASK wait_mask,
                   pg_lock_mask = wait_mask\<rparr>;
              count = queue_msg_count gs + 1
          in Some (gs\<lparr>pending_goals := (pending_goals gs)[queue_index := e],
                      held := held gs @ [(rule_id, map_option (take goal_data_size) goal_data, queue_index)],
                      queue_msg_count := count,
                      queue_msg_count_max := max count (queue_msg_count_max gs)\<rparr>))"

text \<open>\<open>MessageCancelAll\<close> for the queue task: how many messages with this identifier are taken away.\<close>

definition goalsEngine_DequeGoal :: "'s goal_set \<Rightarrow> goal_id \<Rightarrow> 's goal_set" where
  "goalsEngine_DequeGoal gs goal =
     (case find_slot (\<lambda>e. pg_id e = goal) (pending_goals gs) of
        None \<Rightarrow> gs
      | Some i \<Rightarrow>
          let rule_id = pg_rule_id (pending_goals gs ! i);
              cancelled_count = length (filter (\<lambda>(r, _). r = rule_id) (held gs))
          in gs\<lparr>held := filter (\<lambda>(r, _). r \<noteq> rule_id) (held gs),
                queue_msg_count := queue_msg_count gs - of_nat cancelled_count,
                pending_goals := (pending_goals gs)[i := no_goal]\<rparr>)"

definition goalsEngine_GoalQueueSize :: "'s goal_set \<Rightarrow> nat" where
  "goalsEngine_GoalQueueSize gs = unat (queue_msg_count gs)"

definition goalsEngine_GoalCanRunNow :: "'s goal_set \<Rightarrow> bool \<Rightarrow> bool" where
  "goalsEngine_GoalCanRunNow gs is_new_goal \<longleftrightarrow>
     active_goals_mask gs = GOAL_MASK_NONE \<and> (goalsEngine_GoalQueueSize gs = 0 \<or> \<not> is_new_goal)"

definition GoalsEngine_IsGoalActive :: "'s goal_set \<Rightarrow> goal_id \<Rightarrow> bool" where
  "GoalsEngine_IsGoalActive gs goal \<longleftrightarrow> active_goals_mask gs AND GOAL_MASK goal = GOAL_MASK goal"

definition GoalsEngine_IsGoalQueued :: "'s goal_set \<Rightarrow> goal_id \<Rightarrow> bool" where
  "GoalsEngine_IsGoalQueued gs goal \<longleftrightarrow> (\<exists>e \<in> set (pending_goals gs). pg_id e = goal)"

definition GoalsEngine_IsAnyGoalPending :: "'s goal_set \<Rightarrow> bool" where
  "GoalsEngine_IsAnyGoalPending gs \<longleftrightarrow> queue_msg_count gs \<noteq> 0"

definition goalsEngine_ResetPendingQueueIfEmpty :: "'s goal_set \<Rightarrow> 's goal_set" where
  "goalsEngine_ResetPendingQueueIfEmpty gs =
     (if goalsEngine_GoalQueueSize gs = 0
      then gs\<lparr>pending_goals := map (\<lambda>_. no_goal) (pending_goals gs)\<rparr> else gs)"

definition goalsEngine_ClearPendingGoalsQueue :: "'s goal_set \<Rightarrow> 's goal_set" where
  "goalsEngine_ClearPendingGoalsQueue gs =
     goalsEngine_ResetPendingQueueIfEmpty (gs\<lparr>held := [], queue_msg_count := 0\<rparr>)"

section \<open>Cancelling and contention\<close>

definition goalsEngine_CancelGoal :: "'s goal_table \<Rightarrow> 's goal_set \<Rightarrow> goal_id \<Rightarrow> 's goal_set option" where
  "goalsEngine_CancelGoal t gs cancel_goal =
     (if goalsEngine_IsScriptedGoal t cancel_goal then cancel_script t gs
      else
        (case proc_fns (goals t ! cancel_goal) of None \<Rightarrow> None | Some fns \<Rightarrow> proc_cancel_fn fns gs))"

text \<open>The wait mask, then the new state; the C function's return value is not used.\<close>

definition goalsEngine_HandleExclusiveGoals ::
    "'s goal_table \<Rightarrow> 's goal_set \<Rightarrow> goal_id \<Rightarrow> goal_mask \<Rightarrow> (goal_mask \<times> 's goal_set) option" where
  "goalsEngine_HandleExclusiveGoals t gs new_goal wait_mask =
     (let ex = exclusive_goal (goals t ! new_goal) in
      if ex \<noteq> GOAL_ID_NONE \<and> ex < length (goals t) \<and> GoalsEngine_IsGoalActive gs ex then do {
        gs \<leftarrow> goalsEngine_CancelGoal t (goalsEngine_DequeGoal gs ex) ex;
        Some (if \<not> GoalsEngine_IsGoalActive gs ex then REMOVE_GOAL_FROM_MASK wait_mask ex else wait_mask, gs)
      } else Some (wait_mask, gs))"

text \<open>The loop that cancels what is active; every round takes one of at most 63 goals.\<close>

fun cancel_loop :: "nat \<Rightarrow> 's goal_table \<Rightarrow> goal_mask \<Rightarrow> 's goal_set \<Rightarrow> 's goal_set option" where
  "cancel_loop 0 t m gs = (if m = 0 then Some gs else None)"
| "cancel_loop (Suc fuel) t m gs =
     (if m = 0 then Some gs
      else do {
        goal \<leftarrow> goalsEngine_FirstGoalFromMask t m;
        gs \<leftarrow> goalsEngine_CancelGoal t gs goal;
        cancel_loop fuel t (REMOVE_GOAL_FROM_MASK m goal) gs
      })"

definition goalsEngine_CheckIfNewGoalCancelsActiveGoals ::
    "'s goal_table \<Rightarrow> 's goal_set \<Rightarrow> goal_id \<Rightarrow> goal_mask \<Rightarrow> (bool \<times> goal_mask \<times> 's goal_set) option" where
  "goalsEngine_CheckIfNewGoalCancelsActiveGoals t gs new_goal wait_mask =
     (if goalsEngine_GoalCancelsActive t new_goal then do {
        gs \<leftarrow> cancel_loop 64 t (active_goals_mask gs) (goalsEngine_ClearPendingGoalsQueue gs);
        Some (True, active_goals_mask gs, gs)
      } else Some (False, wait_mask, gs))"

definition goalsEngine_HandleDuplicateCancellationGoal ::
    "'s goal_table \<Rightarrow> 's goal_set \<Rightarrow> goal_id \<Rightarrow> bool \<times> 's goal_set" where
  "goalsEngine_HandleDuplicateCancellationGoal t gs new_goal =
     (if goalsEngine_GoalCancelsActive t new_goal \<and> GoalsEngine_IsGoalActive gs new_goal
      then (True, goalsEngine_ClearPendingGoalsQueue gs) else (False, gs))"

definition goalsEngine_HandleConcurrentGoals ::
    "'s goal_table \<Rightarrow> goal_id \<Rightarrow> goal_mask \<Rightarrow> bool \<times> goal_mask" where
  "goalsEngine_HandleConcurrentGoals t new_goal wait_mask =
     (if goalsEngine_GoalRunsConcurrently t new_goal
      then (True, wait_mask AND NOT (goalsEngine_GetConcurrentGoalsMask (goals t ! new_goal)))
      else (False, wait_mask))"

text \<open>What \<open>goalsEngine_UpdateQueueMasks\<close> makes of one queue entry.\<close>

definition update_mask :: "'s goal_table \<Rightarrow> goal_mask \<Rightarrow> pending_goal_entry \<Rightarrow> pending_goal_entry" where
  "update_mask t active e =
     (if pg_rule_id e \<noteq> 0 then
        let g = goals t ! pg_id e;
            wait_mask = (if contention g = goal_contention_concurrent
                         then active AND NOT (goalsEngine_GetConcurrentGoalsMask g) else active)
        in if wait_mask \<noteq> pg_lock_mask e
           then e\<lparr>pg_lock_mask := wait_mask, pg_lock := SET_LOCK_FROM_MASK wait_mask\<rparr> else e
      else e)"

definition goalsEngine_UpdateQueueMasks :: "'s goal_table \<Rightarrow> 's goal_set \<Rightarrow> 's goal_set" where
  "goalsEngine_UpdateQueueMasks t gs =
     (if queue_msg_count gs \<noteq> 0
      then gs\<lparr>pending_goals := map (update_mask t (active_goals_mask gs)) (pending_goals gs)\<rparr> else gs)"

definition start_procedure ::
    "'s goal_table \<Rightarrow> goal_id \<Rightarrow> u8 list option \<Rightarrow> 's goal_set \<Rightarrow> 's goal_set option" where
  "start_procedure t goal goal_data gs =
     (let g = goals t ! goal in
      case proc_script g of
        Some script \<Rightarrow> start_script t script (ge_proc g) gs
      | None \<Rightarrow> (case proc_fns g of None \<Rightarrow> None | Some fns \<Rightarrow> proc_start_fn fns goal_data gs))"

definition goalsEngine_StartGoal ::
    "'s goal_table \<Rightarrow> 's goal_set \<Rightarrow> goal_id \<Rightarrow> u8 list option \<Rightarrow> 's goal_set option" where
  "goalsEngine_StartGoal t gs goal goal_data =
     map_option (goalsEngine_UpdateQueueMasks t)
       (start_procedure t goal goal_data
          (gs\<lparr>active_goals_mask := active_goals_mask gs OR GOAL_MASK goal\<rparr>))"

section \<open>Interface\<close>

definition goalsEngine_ValidateInitParams :: "'s goal_table \<Rightarrow> bool" where
  "goalsEngine_ValidateInitParams t \<longleftrightarrow> GOAL_ID_MIN \<le> length (goals t) \<and> length (goals t) \<le> GOAL_ID_MAX"

definition GoalsEngine_CreateGoalSet :: "'s goal_table \<Rightarrow> Task \<Rightarrow> Task \<Rightarrow> 's \<Rightarrow> 's goal_set option" where
  "GoalsEngine_CreateGoalSet t q_task result_task env =
     (if goalsEngine_ValidateInitParams t
      then Some \<lparr>active_goals_mask = 0, queue_task = q_task, queue_msg_count = 0, queue_msg_count_max = 0,
                 pending_goals = replicate INITIAL_GOAL_QUEUE_COUNT no_goal,
                 proc_result_task = result_task, held = [], gs_env = env\<rparr>
      else None)"

text \<open>The three ways in which \<open>GoalsEngine_ActivateGoal\<close> ends; the state, then the queue reset.\<close>

definition activate ::
    "'s goal_table \<Rightarrow> 's goal_set \<Rightarrow> goal_id \<Rightarrow> bool \<Rightarrow> u16 \<Rightarrow> u8 list option \<Rightarrow> nat \<Rightarrow> 's goal_set option" where
  "activate t gs new_goal is_new_goal rule_id goal_data goal_data_size =
     (if goalsEngine_GoalCanRunNow gs is_new_goal then goalsEngine_StartGoal t gs new_goal goal_data
      else do {
        (cancels, wait_mask, gs) \<leftarrow>
          goalsEngine_CheckIfNewGoalCancelsActiveGoals t gs new_goal (active_goals_mask gs);
        if cancels then
          if wait_mask = 0 \<and> goalsEngine_GoalCanRunNow gs is_new_goal
          then goalsEngine_StartGoal t gs new_goal goal_data
          else goalsEngine_QueueGoal gs rule_id goal_data goal_data_size wait_mask new_goal
        else do {
          let (concurrent, wait_mask) = goalsEngine_HandleConcurrentGoals t new_goal wait_mask;
          (wait_mask, gs) \<leftarrow> goalsEngine_HandleExclusiveGoals t gs new_goal wait_mask;
          if concurrent \<and> wait_mask = 0 \<or> goalsEngine_GoalCanRunNow gs is_new_goal
          then goalsEngine_StartGoal t gs new_goal goal_data
          else goalsEngine_QueueGoal gs rule_id goal_data goal_data_size wait_mask new_goal
        }
      })"

definition GoalsEngine_ActivateGoal ::
    "'s goal_table \<Rightarrow> 's goal_set \<Rightarrow> goal_id \<Rightarrow> Task \<Rightarrow> u16 \<Rightarrow> u8 list option \<Rightarrow> nat \<Rightarrow> 's goal_set option" where
  "GoalsEngine_ActivateGoal t gs new_goal task rule_id goal_data goal_data_size =
     (let is_new_goal = (task \<noteq> queue_task gs) in
      if new_goal = GOAL_ID_NONE then Some gs
      else if \<not> new_goal < length (goals t) then None
      else
        let gs = (if is_new_goal then gs else gs\<lparr>queue_msg_count := queue_msg_count gs - 1\<rparr>) in
        case goalsEngine_HandleDuplicateCancellationGoal t gs new_goal of
          (True, gs) \<Rightarrow> Some gs
        | (False, gs) \<Rightarrow>
            map_option goalsEngine_ResetPendingQueueIfEmpty
              (activate t gs new_goal is_new_goal rule_id goal_data goal_data_size))"

text \<open>What \<open>GoalsEngine_ClearGoal\<close> does to one queue entry.\<close>

definition clear_entry :: "goal_id \<Rightarrow> pending_goal_entry \<Rightarrow> pending_goal_entry" where
  "clear_entry goal e =
     (if pg_id e \<noteq> GOAL_ID_NONE then
        let m = REMOVE_GOAL_FROM_MASK (pg_lock_mask e) goal
        in e\<lparr>pg_lock_mask := m, pg_lock := SET_LOCK_FROM_MASK m\<rparr>
      else e)"

definition GoalsEngine_ClearGoal :: "'s goal_set \<Rightarrow> goal_id \<Rightarrow> 's goal_set" where
  "GoalsEngine_ClearGoal gs goal =
     gs\<lparr>active_goals_mask := REMOVE_GOAL_FROM_MASK (active_goals_mask gs) goal,
        pending_goals := map (clear_entry goal) (pending_goals gs)\<rparr>"

definition GoalsEngine_GetGoalCompleteEvent ::
    "'s goal_entry list \<Rightarrow> goal_id \<Rightarrow> procedure_result_t \<Rightarrow> u64" where
  "GoalsEngine_GetGoalCompleteEvent gs goal result =
     (let g = gs ! goal in
      case result of
        procedure_result_success \<Rightarrow> success_event g
      | procedure_result_timeout \<Rightarrow> timeout_event g
      | procedure_result_failed \<Rightarrow> failed_event g)"

text \<open>
  The message system: the oldest held message whose lock is clear is taken out and delivered. The
  handler of the application then activates its goal, as a goal that is not new.
\<close>

fun take_due :: "pending_goal_entry list \<Rightarrow> (u16 \<times> u8 list option \<times> nat) list \<Rightarrow>
    ((u16 \<times> u8 list option) \<times> (u16 \<times> u8 list option \<times> nat) list) option" where
  "take_due es [] = None"
| "take_due es ((r, d, i) # hs) =
     (if pg_lock (es ! i) = 0 then Some ((r, d), hs)
      else map_option (\<lambda>(m, hs). (m, (r, d, i) # hs)) (take_due es hs))"

section \<open>Masks as sets of goals\<close>

lemma bit_GOAL_MASK: "bit (GOAL_MASK g) k \<longleftrightarrow> k = g \<and> g < 64"
  by (auto simp: GOAL_MASK_def bit_exp_iff)

lemma bit_REMOVE: "bit (REMOVE_GOAL_FROM_MASK m g) k \<longleftrightarrow> bit m k \<and> \<not> (k = g \<and> g < 64)"
  by (simp add: REMOVE_GOAL_FROM_MASK_def bit_without bit_GOAL_MASK)

lemma bit_concurrent:
  "bit (goalsEngine_GetConcurrentGoalsMask e) k \<longleftrightarrow> k \<in> set (concurrent_goals e) \<and> k < 64"
proof -
  have "bit (fold (\<lambda>c m. m OR GOAL_MASK c) cs m) k \<longleftrightarrow> bit m k \<or> (k \<in> set cs \<and> k < 64)" for cs m
    by (induction cs arbitrary: m) (auto simp: bit_or_iff bit_GOAL_MASK)
  then show ?thesis by (simp add: goalsEngine_GetConcurrentGoalsMask_def)
qed

lemma bit_less_64: "bit m k \<Longrightarrow> k < 64" for m :: u64
  using bit_imp_possible_bit [of m k] by simp

lemma active_iff: "g < 64 \<Longrightarrow> GoalsEngine_IsGoalActive gs g \<longleftrightarrow> bit (active_goals_mask gs) g"
  unfolding GoalsEngine_IsGoalActive_def bits_eq by (auto simp: bit_and_iff bit_GOAL_MASK)

lemma first_goal_loop:
  "\<lbrakk>0 < k; k \<le> fuel; bit m k; \<forall>j. 0 < j \<and> j < k \<longrightarrow> \<not> bit m j\<rbrakk> \<Longrightarrow> first_goal_loop fuel g m = Some (g + k)"
proof (induction fuel arbitrary: g m k)
  case (Suc fuel)
  have one: "drop_bit 1 m AND 1 = 0 \<longleftrightarrow> \<not> bit m 1"
    by (simp add: and_one_eq mod_2_eq_odd bit_drop_bit_eq even_drop_bit_iff_not_bit)
  show ?case
  proof (cases "k = 1")
    case True
    then show ?thesis using Suc.prems one by (simp add: Let_def)
  next
    case False
    then have "\<not> bit m 1" using Suc.prems by auto
    moreover have "first_goal_loop fuel (g + 1) (drop_bit 1 m) = Some (g + 1 + (k - 1))"
      using False Suc.prems by (intro Suc.IH) (auto simp: bit_drop_bit_eq)
    ultimately show ?thesis using one False Suc.prems(1) by (simp add: Let_def)
  qed
qed simp

text \<open>The first goal of a mask of goals in the table is the least one.\<close>

lemma first_goal:
  assumes "m \<noteq> 0" "\<And>k. bit m k \<Longrightarrow> 0 < k \<and> k < length (goals t)"
  shows "goalsEngine_FirstGoalFromMask t m = Some (LEAST k. bit m k)" "bit m (LEAST k. bit m k)"
proof -
  let ?k = "LEAST k. bit m k"
  obtain b where "bit m b" using assms(1) nonzero_bit by blast
  then show k: "bit m ?k" by (rule LeastI)
  have least: "\<forall>j. 0 < j \<and> j < ?k \<longrightarrow> \<not> bit m j" using not_less_Least by blast
  have "0 < ?k" using assms(2) [OF k] by blast
  moreover have "?k \<le> 64" using bit_less_64 [OF k] by simp
  ultimately have "first_goal_loop 64 0 m = Some (0 + ?k)" using first_goal_loop [OF _ _ k least] by blast
  moreover have "?k < length (goals t)" using assms(2) [OF k] by simp
  ultimately show "goalsEngine_FirstGoalFromMask t m = Some ?k"
    unfolding goalsEngine_FirstGoalFromMask_def GOAL_ID_NONE_def using assms(1) by simp
qed

lemma find_slot_Some:
  assumes "find_slot P es = Some i"
  shows "i < length es \<and> P (es ! i)"
proof -
  obtain ks where "filter (\<lambda>i. P (es ! i)) [0..<length es] = i # ks"
    using assms by (auto simp: find_slot_def split: list.splits)
  then have "i \<in> set (filter (\<lambda>i. P (es ! i)) [0..<length es])" by simp
  then show ?thesis by simp
qed

lemma find_slot_None: "find_slot P es = None \<longleftrightarrow> (\<forall>e \<in> set es. \<not> P e)"
proof -
  have "find_slot P es = None \<longleftrightarrow> filter (\<lambda>i. P (es ! i)) [0..<length es] = []"
    by (simp add: find_slot_def split: list.split)
  then show ?thesis unfolding filter_empty_conv by (metis atLeastLessThan_iff in_set_conv_nth set_upt zero_le)
qed

section \<open>What a queued goal waits for\<close>

definition lists :: "'s goal_table \<Rightarrow> goal_id \<Rightarrow> goal_id \<Rightarrow> bool" where
  "lists t g h \<longleftrightarrow> goalsEngine_GoalRunsConcurrently t g \<and> h \<in> set (concurrent_goals (goals t ! g))"

definition waits :: "'s goal_table \<Rightarrow> goal_mask \<Rightarrow> goal_id \<Rightarrow> goal_mask" where
  "waits t m g = (if goalsEngine_GoalRunsConcurrently t g
     then m AND NOT (goalsEngine_GetConcurrentGoalsMask (goals t ! g)) else m)"

lemma bit_waits: "bit (waits t m g) k \<longleftrightarrow> bit m k \<and> \<not> lists t g k"
  by (auto simp: waits_def lists_def bit_without bit_concurrent dest: bit_less_64)

lemma waits_remove: "waits t (REMOVE_GOAL_FROM_MASK m g) h = REMOVE_GOAL_FROM_MASK (waits t m h) g"
  unfolding bits_eq by (auto simp: bit_waits bit_REMOVE)

end
