(* ===== verification/Script_Engine.thy ===== *)
theory Script_Engine
  imports Goals_Engine
begin

text \<open>
  \<^verbatim>\<open>script_engine.c\<close> and \<^verbatim>\<open>procedures.c\<close> (adk/src/topologies/common): a script is a list of
  procedures that run one after another for one goal, and a procedure that ends within its own start
  or cancel function confirms it with a message. A callback pointer is the name of the module whose
  functions are called, the goals' or the script engine's; the goals' functions and the scripts are
  parameters. A panic is \<open>None\<close>.
\<close>

section \<open>State\<close>

datatype cfm_client = goal_cfm | script_cfm

datatype script_engine_state_t = script_engine_idle | script_engine_active | script_engine_cancelling

record ScriptEngineTaskData =
  se_state :: script_engine_state_t
  next_step :: nat
  se_script :: "nat option"
  se_proc :: nat
  script_client :: Task

definition script_engine_zero :: ScriptEngineTaskData where
  "script_engine_zero = \<lparr>se_state = script_engine_idle, next_step = 0, se_script = None, se_proc = 0,
     script_client = 0\<rparr>"

datatype delay_cfm =
    DELAY_COMPLETE_CFM cfm_client nat procedure_result_t
  | DELAY_CANCEL_CFM cfm_client nat procedure_result_t

text \<open>The statics of the two files, and the rest of the application's state.\<close>

record 'e proc_world =
  engine :: ScriptEngineTaskData
  delayed :: "delay_cfm list"
  rest :: 'e

type_synonym 'e world = "'e proc_world goal_set"
type_synonym 'e action = "'e proc_world procedure"

record 'e procedure_t =
  p_start :: "cfm_client \<Rightarrow> u8 list option \<Rightarrow> 'e action"
  p_cancel :: "cfm_client \<Rightarrow> 'e action"

text \<open>The scripts, each a list of procedures with their data, and the callbacks of the goals.\<close>

record 'e script_world =
  scripts :: "nat \<Rightarrow> ('e procedure_t \<times> u8 list option) list"
  goal_proc_complete :: "nat \<Rightarrow> procedure_result_t \<Rightarrow> 'e action"
  goal_proc_cancelled :: "nat \<Rightarrow> procedure_result_t \<Rightarrow> 'e action"

definition with_engine :: "(ScriptEngineTaskData \<Rightarrow> ScriptEngineTaskData) \<Rightarrow> 'e world \<Rightarrow> 'e world" where
  "with_engine f gs = gs\<lparr>gs_env := (gs_env gs)\<lparr>engine := f (engine (gs_env gs))\<rparr>\<rparr>"

definition with_rest :: "('e \<Rightarrow> 'e) \<Rightarrow> 'e world \<Rightarrow> 'e world" where
  "with_rest f gs = gs\<lparr>gs_env := (gs_env gs)\<lparr>rest := f (rest (gs_env gs))\<rparr>\<rparr>"

abbreviation "se gs \<equiv> engine (gs_env gs)"
abbreviation "env gs \<equiv> rest (gs_env gs)"

section \<open>Delayed confirmations\<close>

definition "PROCEDURE_ID_MAX = (0xFF :: nat)"

definition with_delayed :: "(delay_cfm list \<Rightarrow> delay_cfm list) \<Rightarrow> 'e world \<Rightarrow> 'e world" where
  "with_delayed f gs = gs\<lparr>gs_env := (gs_env gs)\<lparr>delayed := f (delayed (gs_env gs))\<rparr>\<rparr>"

text \<open>A message with the identifier of this procedure's completion.\<close>

fun completes_proc :: "nat \<Rightarrow> delay_cfm \<Rightarrow> bool" where
  "completes_proc proc (DELAY_COMPLETE_CFM _ p _) \<longleftrightarrow> p = proc"
| "completes_proc proc (DELAY_CANCEL_CFM _ _ _) \<longleftrightarrow> False"

definition Procedures_DelayedCompleteCfmCallback :: "cfm_client \<Rightarrow> nat \<Rightarrow> procedure_result_t \<Rightarrow> 'e action" where
  "Procedures_DelayedCompleteCfmCallback comp_fn proc result gs =
     (if proc \<le> PROCEDURE_ID_MAX
      then Some (with_delayed (\<lambda>ms. ms @ [DELAY_COMPLETE_CFM comp_fn proc result]) gs) else None)"

definition Procedures_DelayedCancelCfmCallback :: "cfm_client \<Rightarrow> nat \<Rightarrow> procedure_result_t \<Rightarrow> 'e action" where
  "Procedures_DelayedCancelCfmCallback cancel_fn proc result gs =
     (if proc \<le> PROCEDURE_ID_MAX
      then Some (with_delayed (\<lambda>ms. filter (\<lambda>m. \<not> completes_proc proc m) (ms @ [DELAY_CANCEL_CFM cancel_fn proc result])) gs)
      else None)"

section \<open>The script engine\<close>

definition scriptEngine_ProcStartCfm :: "nat \<Rightarrow> procedure_result_t \<Rightarrow> 'e action" where
  "scriptEngine_ProcStartCfm proc result gs = (if result \<noteq> procedure_result_success then None else Some gs)"

text \<open>The start confirmation that a procedure calls; the goals' function does nothing.\<close>

definition start_cfm :: "cfm_client \<Rightarrow> nat \<Rightarrow> procedure_result_t \<Rightarrow> 'e action" where
  "start_cfm fn proc result gs =
     (case fn of goal_cfm \<Rightarrow> Some gs | script_cfm \<Rightarrow> scriptEngine_ProcStartCfm proc result gs)"

definition scriptEngine_EngineReset :: "'e world \<Rightarrow> 'e world" where
  "scriptEngine_EngineReset =
     with_engine (\<lambda>td. td\<lparr>se_state := script_engine_idle, next_step := 0, se_script := None\<rparr>)"

definition script_procs :: "'e script_world \<Rightarrow> 'e world \<Rightarrow> ('e procedure_t \<times> u8 list option) list option" where
  "script_procs T gs = map_option (scripts T) (se_script (se gs))"

definition scriptEngine_StartCurrentStep :: "'e script_world \<Rightarrow> 'e action" where
  "scriptEngine_StartCurrentStep T gs = do {
     script \<leftarrow> script_procs T gs;
     let step = next_step (se gs);
     if step < length script then (case script ! step of (p, d) \<Rightarrow> p_start p script_cfm d gs)
     else if step = length script
     then goal_proc_complete T (se_proc (se gs)) procedure_result_success (scriptEngine_EngineReset gs)
     else None
   }"

definition scriptEngine_ProcCompleteCfm :: "'e script_world \<Rightarrow> nat \<Rightarrow> procedure_result_t \<Rightarrow> 'e action" where
  "scriptEngine_ProcCompleteCfm T proc result gs =
     (if se_state (se gs) = script_engine_active then
        (case result of
           procedure_result_success \<Rightarrow>
             scriptEngine_StartCurrentStep T (with_engine (\<lambda>td. td\<lparr>next_step := next_step td + 1\<rparr>) gs)
         | procedure_result_timeout \<Rightarrow>
             goal_proc_complete T (se_proc (se gs)) procedure_result_timeout (scriptEngine_EngineReset gs)
         | procedure_result_failed \<Rightarrow>
             goal_proc_complete T (se_proc (se gs)) procedure_result_failed (scriptEngine_EngineReset gs))
      else Some gs)"

definition scriptEngine_ProcCancelCfm :: "'e script_world \<Rightarrow> nat \<Rightarrow> procedure_result_t \<Rightarrow> 'e action" where
  "scriptEngine_ProcCancelCfm T proc result gs =
     (if se_state (se gs) = script_engine_cancelling
      then goal_proc_cancelled T (se_proc (se gs)) result (scriptEngine_EngineReset gs) else None)"

definition ScriptEngine_StartScript :: "'e script_world \<Rightarrow> Task \<Rightarrow> nat \<Rightarrow> nat \<Rightarrow> 'e action" where
  "ScriptEngine_StartScript T client_task script proc gs =
     (if se_state (se gs) = script_engine_idle
      then scriptEngine_StartCurrentStep T
        (with_engine (\<lambda>td. td\<lparr>se_proc := proc, script_client := client_task, se_state := script_engine_active,
           next_step := 0, se_script := Some script\<rparr>) gs)
      else None)"

definition ScriptEngine_CancelScript :: "'e script_world \<Rightarrow> Task \<Rightarrow> 'e action" where
  "ScriptEngine_CancelScript T client gs =
     (if script_client (se gs) \<noteq> client then None
      else if se_state (se gs) \<noteq> script_engine_active then Some gs
      else do {
        script \<leftarrow> script_procs T gs;
        let step = next_step (se gs);
        if step < length script
        then p_cancel (fst (script ! step)) script_cfm
          (with_engine (\<lambda>td. td\<lparr>se_state := script_engine_cancelling\<rparr>) gs)
        else None
      })"

section \<open>Callbacks\<close>

text \<open>A call of the complete or cancel function that a procedure was given.\<close>

definition complete_cfm :: "'e script_world \<Rightarrow> cfm_client \<Rightarrow> nat \<Rightarrow> procedure_result_t \<Rightarrow> 'e action" where
  "complete_cfm T fn proc result =
     (case fn of goal_cfm \<Rightarrow> goal_proc_complete T proc result
       | script_cfm \<Rightarrow> scriptEngine_ProcCompleteCfm T proc result)"

definition cancel_cfm :: "'e script_world \<Rightarrow> cfm_client \<Rightarrow> nat \<Rightarrow> procedure_result_t \<Rightarrow> 'e action" where
  "cancel_cfm T fn proc result =
     (case fn of goal_cfm \<Rightarrow> goal_proc_cancelled T proc result
       | script_cfm \<Rightarrow> scriptEngine_ProcCancelCfm T proc result)"

fun Procedures_DelayCfmHandleMessage :: "'e script_world \<Rightarrow> delay_cfm \<Rightarrow> 'e action" where
  "Procedures_DelayCfmHandleMessage T (DELAY_COMPLETE_CFM comp_fn proc result) gs =
     complete_cfm T comp_fn proc result gs"
| "Procedures_DelayCfmHandleMessage T (DELAY_CANCEL_CFM cancel_fn proc result) gs =
     cancel_cfm T cancel_fn proc result gs"

text \<open>The goals engine starts and cancels scripts for its own task.\<close>

definition script_goal_table :: "'e script_world \<Rightarrow> 'e proc_world goal_entry list \<Rightarrow> 'e proc_world goal_table" where
  "script_goal_table T gl = \<lparr>goals = gl,
     start_script = (\<lambda>script proc gs. ScriptEngine_StartScript T (proc_result_task gs) script proc gs),
     cancel_script = (\<lambda>gs. ScriptEngine_CancelScript T (proc_result_task gs) gs)\<rparr>"

section \<open>What changes\<close>

text \<open>Procedures change the environment of the goal set only.\<close>

definition env_only :: "'s goal_set \<Rightarrow> 's goal_set \<Rightarrow> bool" where
  "env_only gs gs' \<longleftrightarrow> (\<exists>e. gs' = gs\<lparr>gs_env := e\<rparr>)"

named_theorems env_only

lemma env_only_refl [env_only]: "env_only gs gs"
  unfolding env_only_def by (rule exI [of _ "gs_env gs"]) simp

lemma env_only_trans: "\<lbrakk>env_only gs1 gs2; env_only gs2 gs3\<rbrakk> \<Longrightarrow> env_only gs1 gs3"
  by (auto simp: env_only_def)

lemma env_only_with [env_only]:
  "env_only gs (with_engine f gs)" "env_only gs (with_rest h gs)" "env_only gs (with_delayed k gs)"
  by (auto simp: env_only_def with_engine_def with_rest_def with_delayed_def)

lemma with_simps [simp]:
  "se (with_engine f gs) = f (se gs)" "env (with_engine f gs) = env gs" "delayed (gs_env (with_engine f gs)) = delayed (gs_env gs)"
  "env (with_rest h gs) = h (env gs)" "se (with_rest h gs) = se gs" "delayed (gs_env (with_rest h gs)) = delayed (gs_env gs)"
  "se (with_delayed k gs) = se gs" "env (with_delayed k gs) = env gs" "delayed (gs_env (with_delayed k gs)) = k (delayed (gs_env gs))"
  by (simp_all add: with_engine_def with_rest_def with_delayed_def)

lemma with_core [simp]:
  "active_goals_mask (with_engine f gs) = active_goals_mask gs" "active_goals_mask (with_rest h gs) = active_goals_mask gs"
  "active_goals_mask (with_delayed k gs) = active_goals_mask gs"
  "proc_result_task (with_engine f gs) = proc_result_task gs" "proc_result_task (with_rest h gs) = proc_result_task gs"
  "proc_result_task (with_delayed k gs) = proc_result_task gs"
  by (simp_all add: with_engine_def with_rest_def with_delayed_def)

end
