(* ===== verification/Headset_Procedures.thy ===== *)
theory Headset_Procedures
  imports Headset_Rules Script_Engine
begin

text \<open>
  The procedures of the headset (adk/src/topologies/headset\_topology/procedures), the script that
  stops it, and its goal table with the callbacks of the procedures (\<^verbatim>\<open>headset_topology_goals.c\<close>).
  Requests to the handset service, the connection manager, the advertising manager and the power
  manager are a list in the state; their answers are the messages of the handlers below.
\<close>

section \<open>State\<close>

text \<open>The tasks of the topology and its procedures, distinct static objects.\<close>

definition "HeadsetTopologyGetTask = (1 :: Task)"
definition "HeadsetTopologyGetGoalTask = (2 :: Task)"
definition "pending_goal_queue_task = (3 :: Task)"
definition "HeadsetTopProcConnectHandsetGetTask = (4 :: Task)"
definition "HeadsetTopProcAllowLEConnectionGetTask = (5 :: Task)"

datatype handset_service_status_t =
  handset_service_status_success | handset_service_status_failed | handset_service_status_cancelled
  | handset_service_status_no_mru | handset_service_status_connected
  | handset_service_status_disconnected | handset_service_status_link_loss

datatype service_request =
    HandsetService_ConnectAddressRequest bdaddr u32
  | HandsetService_DisconnectRequest bdaddr
  | HandsetService_ConnectableRequest
  | HandsetService_CancelConnectableRequest
  | HandsetService_SetBleConnectable bool
  | HandsetService_ClientRegister Task
  | HandsetService_ClientUnregister Task
  | ConManagerRegisterTpConnectionsObserver Task
  | ConManagerUnregisterTpConnectionsObserver Task
  | ConManagerAllowHandsetConnect bool
  | ConManagerAllowConnection_ble bool
  | ConManagerRegisterConnectionsClient Task
  | LeAdvertisingManager_AllowAdvertising bool
  | Pairing_ActivityClientRegister Task
  | BredrScanManager_ScanParametersRegister
  | appPowerClientRegister Task
  | appPowerClientAllowSleep Task
  | appPowerShutdownPrepareResponse Task

datatype hs_topology_stop_state_t =
  hstop_stop_state_not_stopping | hstop_stop_state_stopping | hstop_stop_state_stopped

datatype headset_topology_status_t = hs_topology_status_success | hs_topology_status_fail

datatype headset_topology_message_t =
    HEADSET_TOPOLOGY_HANDSET_DISCONNECTED_IND bdaddr handset_service_status_t
  | HEADSET_TOPOLOGY_STOP_CFM headset_topology_status_t

text \<open>Messages to the topology's own task; those of other modules carry what the handler reads.\<close>

datatype topology_msg =
    PAIRING_ACTIVITY
  | HANDSET_SERVICE_CONNECTED_IND
  | HANDSET_SERVICE_DISCONNECTED_IND handset_service_status_t
  | CON_MANAGER_CONNECTION_IND
  | APP_POWER_SHUTDOWN_PREPARE_IND
  | HSTOP_INTERNAL_STOP
  | HSTOP_INTERNAL_TIMEOUT_TOPOLOGY_STOP
  | PROC_SEND_HS_TOPOLOGY_MESSAGE_SYSTEM_STOP_FINISHED

text \<open>
  The data of each procedure, the data of the topology but its goal set, the rule set, and the
  messages: to the topology's task, those that are sent later with their delays, and to clients.
\<close>

record headset_env =
  con_complete_fn :: "cfm_client option"
  con_handset_addr :: bdaddr
  dis_complete_fn :: "cfm_client option"
  ec_params_enable :: bool
  le_complete_fn :: "cfm_client option"
  le_cancel_fn :: "cfm_client option"
  le_connectable :: bool
  le_advertising :: bool
  td_app_task :: Task
  message_client_tasks :: task_list
  td_started :: bool
  td_stopping :: hs_topology_stop_state_t
  hs_rules :: "headset_state rule_set"
  task_msgs :: "topology_msg list"
  timed_msgs :: "(topology_msg \<times> nat) list"
  sent :: "(Task \<times> headset_topology_message_t) list"
  requests :: "service_request list"

type_synonym headset = "headset_env world"
type_synonym hs_action = "headset_env action"

definition request :: "service_request list \<Rightarrow> headset \<Rightarrow> headset" where
  "request rs = with_rest (\<lambda>e. e\<lparr>requests := requests e @ rs\<rparr>)"

abbreviation "devices gs \<equiv> app (hs_rules (env gs))"

definition appDeviceGetHandsetBdAddr :: "headset \<Rightarrow> bool \<times> bdaddr" where
  "appDeviceGetHandsetBdAddr gs =
     (case handset_bd_addr (devices gs) of Some addr \<Rightarrow> (True, addr) | None \<Rightarrow> (False, 0))"

text \<open>The data of a goal read as a \<open>bool\<close> or a \<open>uint32\<close>; there is none behind a null pointer.\<close>

definition read_bool :: "u8 list option \<Rightarrow> bool option" where
  "read_bool d = (case d of Some (b # _) \<Rightarrow> Some (b \<noteq> 0) | _ \<Rightarrow> None)"

definition read_u32 :: "u8 list option \<Rightarrow> u32 option" where
  "read_u32 d = (case d of
     Some [b0, b1, b2, b3] \<Rightarrow>
       Some (ucast b0 OR push_bit 8 (ucast b1) OR push_bit 16 (ucast b2) OR push_bit 24 (ucast b3))
   | _ \<Rightarrow> None)"

section \<open>Identifiers\<close>

definition "hs_topology_goal_none = (0 :: goal_id)"
definition "hs_topology_goal_connectable_handset = (1 :: goal_id)"
definition "hs_topology_goal_allow_handset_connect = (2 :: goal_id)"
definition "hs_topology_goal_connect_handset = (3 :: goal_id)"
definition "hs_topology_goal_disconnect_handset = (4 :: goal_id)"
definition "hs_topology_goal_allow_le_connection = (5 :: goal_id)"
definition "hs_topology_goal_system_stop = (6 :: goal_id)"

definition "hs_topology_procedure_enable_connectable_handset = (1 :: nat)"
definition "hs_topology_procedure_allow_handset_connection = (2 :: nat)"
definition "hs_topology_procedure_connect_handset = (3 :: nat)"
definition "hs_topology_procedure_disconnect_handset = (4 :: nat)"
definition "hs_topology_procedure_allow_le_connection = (5 :: nat)"
definition "hs_topology_procedure_system_stop = (6 :: nat)"
definition "hs_topology_procedure_start_stop_script = (7 :: nat)"
definition "hs_topology_procedure_send_message_to_topology = (8 :: nat)"

section \<open>Connecting a handset\<close>

definition HeadsetTopology_ProcedureConnectHandsetStart :: "cfm_client \<Rightarrow> u8 list option \<Rightarrow> hs_action" where
  "HeadsetTopology_ProcedureConnectHandsetStart fn goal_data gs =
     (let gs = with_rest (\<lambda>td. td\<lparr>con_complete_fn := Some fn, con_handset_addr := 0\<rparr>) gs;
          (found, addr) = appDeviceGetHandsetBdAddr gs;
          gs = with_rest (\<lambda>td. td\<lparr>con_handset_addr := addr\<rparr>) gs
      in if found then do {
           profiles \<leftarrow> read_u32 goal_data;
           start_cfm fn hs_topology_procedure_connect_handset procedure_result_success
             (request [HandsetService_ConnectAddressRequest addr profiles,
                ConManagerRegisterTpConnectionsObserver HeadsetTopProcConnectHandsetGetTask] gs)
         } else None)"

definition headsetTopology_ProcConnectHandsetResetProc :: "headset \<Rightarrow> headset" where
  "headsetTopology_ProcConnectHandsetResetProc gs =
     request [ConManagerUnregisterTpConnectionsObserver HeadsetTopProcConnectHandsetGetTask]
       (with_rest (\<lambda>td. td\<lparr>con_complete_fn := None, con_handset_addr := 0\<rparr>) gs)"

definition HeadsetTopology_ProcedureConnectHandsetCancel :: "cfm_client \<Rightarrow> hs_action" where
  "HeadsetTopology_ProcedureConnectHandsetCancel fn gs =
     Procedures_DelayedCancelCfmCallback fn hs_topology_procedure_connect_handset procedure_result_success
       (headsetTopology_ProcConnectHandsetResetProc gs)"

definition hs_proc_connect_handset_fns :: "headset_env procedure_t" where
  "hs_proc_connect_handset_fns = \<lparr>p_start = HeadsetTopology_ProcedureConnectHandsetStart,
     p_cancel = HeadsetTopology_ProcedureConnectHandsetCancel\<rparr>"

section \<open>Disconnecting\<close>

definition headsetTopology_ProcDisconnectHandsetResetProc :: "headset \<Rightarrow> headset" where
  "headsetTopology_ProcDisconnectHandsetResetProc = with_rest (\<lambda>td. td\<lparr>dis_complete_fn := None\<rparr>)"

definition HeadsetTopology_ProcedureDisconnectHandsetStart :: "cfm_client \<Rightarrow> u8 list option \<Rightarrow> hs_action" where
  "HeadsetTopology_ProcedureDisconnectHandsetStart fn goal_data gs =
     (let (_, addr) = appDeviceGetHandsetBdAddr gs;
          gs = request [HandsetService_DisconnectRequest addr] gs;
          gs = with_rest (\<lambda>td. td\<lparr>dis_complete_fn := Some fn\<rparr>) gs
      in start_cfm fn hs_topology_procedure_disconnect_handset procedure_result_success gs)"

definition HeadsetTopology_ProcedureDisconnectHandsetCancel :: "cfm_client \<Rightarrow> hs_action" where
  "HeadsetTopology_ProcedureDisconnectHandsetCancel fn gs =
     Procedures_DelayedCancelCfmCallback fn hs_topology_procedure_disconnect_handset procedure_result_success
       (headsetTopology_ProcDisconnectHandsetResetProc gs)"

definition hs_proc_disconnect_handset_fns :: "headset_env procedure_t" where
  "hs_proc_disconnect_handset_fns = \<lparr>p_start = HeadsetTopology_ProcedureDisconnectHandsetStart,
     p_cancel = HeadsetTopology_ProcedureDisconnectHandsetCancel\<rparr>"

section \<open>Being connectable, and allowing a handset to connect\<close>

definition HeadsetTopology_ProcedureEnableConnectableHandsetStart :: "cfm_client \<Rightarrow> u8 list option \<Rightarrow> hs_action" where
  "HeadsetTopology_ProcedureEnableConnectableHandsetStart fn goal_data gs = do {
     enable \<leftarrow> read_bool goal_data;
     let gs = with_rest (\<lambda>td. td\<lparr>ec_params_enable := enable\<rparr>) gs;
     let gs = request [if enable then HandsetService_ConnectableRequest
                       else HandsetService_CancelConnectableRequest] gs;
     gs \<leftarrow> start_cfm fn hs_topology_procedure_enable_connectable_handset procedure_result_success gs;
     Procedures_DelayedCompleteCfmCallback fn hs_topology_procedure_enable_connectable_handset
       procedure_result_success gs
   }"

definition HeadsetTopology_ProcedureEnableConnectableHandsetCancel :: "cfm_client \<Rightarrow> hs_action" where
  "HeadsetTopology_ProcedureEnableConnectableHandsetCancel fn gs =
     Procedures_DelayedCancelCfmCallback fn hs_topology_procedure_enable_connectable_handset
       procedure_result_success
       (request [if ec_params_enable (env gs) then HandsetService_CancelConnectableRequest
                 else HandsetService_ConnectableRequest] gs)"

definition hs_proc_enable_connectable_handset_fns :: "headset_env procedure_t" where
  "hs_proc_enable_connectable_handset_fns = \<lparr>p_start = HeadsetTopology_ProcedureEnableConnectableHandsetStart,
     p_cancel = HeadsetTopology_ProcedureEnableConnectableHandsetCancel\<rparr>"

definition HeadsetTopology_ProcedureAllowHandsetConnectStart :: "cfm_client \<Rightarrow> u8 list option \<Rightarrow> hs_action" where
  "HeadsetTopology_ProcedureAllowHandsetConnectStart fn goal_data gs = do {
     enable \<leftarrow> read_bool goal_data;
     gs \<leftarrow> start_cfm fn hs_topology_procedure_allow_handset_connection procedure_result_success
       (request [ConManagerAllowHandsetConnect enable] gs);
     Procedures_DelayedCompleteCfmCallback fn hs_topology_procedure_allow_handset_connection
       procedure_result_success gs
   }"

definition HeadsetTopology_ProcedureAllowHandsetConnectCancel :: "cfm_client \<Rightarrow> hs_action" where
  "HeadsetTopology_ProcedureAllowHandsetConnectCancel fn gs =
     Procedures_DelayedCancelCfmCallback fn hs_topology_procedure_allow_handset_connection
       procedure_result_success gs"

definition hs_proc_allow_handset_connect_fns :: "headset_env procedure_t" where
  "hs_proc_allow_handset_connect_fns = \<lparr>p_start = HeadsetTopology_ProcedureAllowHandsetConnectStart,
     p_cancel = HeadsetTopology_ProcedureAllowHandsetConnectCancel\<rparr>"

section \<open>Allowing LE connections\<close>

definition headsetTopology_ProcAllowLEConnectionResetProc :: "headset \<Rightarrow> headset" where
  "headsetTopology_ProcAllowLEConnectionResetProc gs =
     with_rest (\<lambda>td. td\<lparr>le_complete_fn := None, le_cancel_fn := None, le_advertising := False,
       le_connectable := False\<rparr>)
       (request [HandsetService_ClientUnregister HeadsetTopProcAllowLEConnectionGetTask] gs)"

definition HeadsetTopology_ProcAllowLEConnectionStart :: "cfm_client \<Rightarrow> u8 list option \<Rightarrow> hs_action" where
  "HeadsetTopology_ProcAllowLEConnectionStart fn goal_data gs =
     (let gs = with_rest (\<lambda>td. td\<lparr>le_complete_fn := Some fn, le_advertising := True, le_connectable := True\<rparr>) gs;
          gs = request [HandsetService_ClientRegister HeadsetTopProcAllowLEConnectionGetTask] gs
      in do {
        enable \<leftarrow> read_bool goal_data;
        start_cfm fn hs_topology_procedure_allow_le_connection procedure_result_success
          (request [ConManagerAllowConnection_ble enable, HandsetService_SetBleConnectable enable,
             LeAdvertisingManager_AllowAdvertising enable] gs)
      })"

definition HeadsetTopology_ProcAllowLEConnectionCancel :: "cfm_client \<Rightarrow> hs_action" where
  "HeadsetTopology_ProcAllowLEConnectionCancel fn gs =
     Some (with_rest (\<lambda>td. td\<lparr>le_complete_fn := None, le_cancel_fn := Some fn\<rparr>) gs)"

definition hs_proc_allow_le_connection_fns :: "headset_env procedure_t" where
  "hs_proc_allow_le_connection_fns = \<lparr>p_start = HeadsetTopology_ProcAllowLEConnectionStart,
     p_cancel = HeadsetTopology_ProcAllowLEConnectionCancel\<rparr>"

section \<open>The script that stops the headset\<close>

definition headsetTopology_StopHasStarted :: "headset \<Rightarrow> headset" where
  "headsetTopology_StopHasStarted = with_rest (\<lambda>td. td\<lparr>td_stopping := hstop_stop_state_stopping\<rparr>)"

definition HeadsetTopology_ProcedureStartStopScriptStart :: "cfm_client \<Rightarrow> u8 list option \<Rightarrow> hs_action" where
  "HeadsetTopology_ProcedureStartStopScriptStart fn goal_data gs = do {
     gs \<leftarrow> start_cfm fn hs_topology_procedure_start_stop_script procedure_result_success gs;
     Procedures_DelayedCompleteCfmCallback fn hs_topology_procedure_start_stop_script
       procedure_result_success (headsetTopology_StopHasStarted gs)
   }"

definition HeadsetTopology_ProcedureStartStopScriptCancel :: "cfm_client \<Rightarrow> hs_action" where
  "HeadsetTopology_ProcedureStartStopScriptCancel fn gs = None"

definition hs_proc_start_stop_script_fns :: "headset_env procedure_t" where
  "hs_proc_start_stop_script_fns = \<lparr>p_start = HeadsetTopology_ProcedureStartStopScriptStart,
     p_cancel = HeadsetTopology_ProcedureStartStopScriptCancel\<rparr>"

text \<open>The goal data of this procedure names the message; it has no body.\<close>

definition HeadsetTopology_ProcedureSendTopologyMessageStart ::
    "topology_msg \<Rightarrow> cfm_client \<Rightarrow> u8 list option \<Rightarrow> hs_action" where
  "HeadsetTopology_ProcedureSendTopologyMessageStart params_id fn goal_data gs = do {
     gs \<leftarrow> start_cfm fn hs_topology_procedure_send_message_to_topology procedure_result_success gs;
     Procedures_DelayedCompleteCfmCallback fn hs_topology_procedure_send_message_to_topology
       procedure_result_success (with_rest (\<lambda>e. e\<lparr>task_msgs := task_msgs e @ [params_id]\<rparr>) gs)
   }"

definition HeadsetTopology_ProcedureSendTopologyMessageCancel :: "cfm_client \<Rightarrow> hs_action" where
  "HeadsetTopology_ProcedureSendTopologyMessageCancel fn gs = None"

definition hs_proc_send_topology_message_fns :: "topology_msg \<Rightarrow> headset_env procedure_t" where
  "hs_proc_send_topology_message_fns params_id =
     \<lparr>p_start = HeadsetTopology_ProcedureSendTopologyMessageStart params_id,
      p_cancel = HeadsetTopology_ProcedureSendTopologyMessageCancel\<rparr>"

definition headset_system_stop_script :: "(headset_env procedure_t \<times> u8 list option) list" where
  "headset_system_stop_script =
     [(hs_proc_start_stop_script_fns, None),
      (hs_proc_allow_handset_connect_fns, Some (bool_octets False)),
      (hs_proc_enable_connectable_handset_fns, Some (bool_octets False)),
      (hs_proc_allow_le_connection_fns, Some (bool_octets False)),
      (hs_proc_send_topology_message_fns PROC_SEND_HS_TOPOLOGY_MESSAGE_SYSTEM_STOP_FINISHED, None)]"

section \<open>The goal table\<close>

definition goal_fns :: "headset_env procedure_t \<Rightarrow> headset_env proc_world procedure_fns" where
  "goal_fns p = \<lparr>proc_start_fn = p_start p goal_cfm, proc_cancel_fn = p_cancel p goal_cfm\<rparr>"

definition GOAL :: "nat \<Rightarrow> headset_env procedure_t \<Rightarrow> goal_id \<Rightarrow> headset_env proc_world goal_entry" where
  "GOAL proc fns exclusive = \<lparr>ge_proc = proc, contention = goal_contention_wait, exclusive_goal = exclusive,
     success_event = 0, timeout_event = 0, failed_event = 0, proc_fns = Some (goal_fns fns),
     proc_script = None, concurrent_goals = []\<rparr>"

definition GOAL_WITH_CONCURRENCY ::
    "nat \<Rightarrow> headset_env procedure_t \<Rightarrow> goal_id \<Rightarrow> goal_id list \<Rightarrow> headset_env proc_world goal_entry" where
  "GOAL_WITH_CONCURRENCY proc fns exclusive concurrent =
     \<lparr>ge_proc = proc, contention = goal_contention_concurrent, exclusive_goal = exclusive,
      success_event = 0, timeout_event = 0, failed_event = 0, proc_fns = Some (goal_fns fns),
      proc_script = None, concurrent_goals = concurrent\<rparr>"

definition SCRIPT_GOAL_CANCEL :: "nat \<Rightarrow> nat \<Rightarrow> goal_id \<Rightarrow> headset_env proc_world goal_entry" where
  "SCRIPT_GOAL_CANCEL proc script exclusive =
     \<lparr>ge_proc = proc, contention = goal_contention_cancel, exclusive_goal = exclusive,
      success_event = 0, timeout_event = 0, failed_event = 0, proc_fns = None,
      proc_script = Some script, concurrent_goals = []\<rparr>"

text \<open>The first entry has no initialiser. There is one script, number 0.\<close>

definition hsgoals :: "headset_env proc_world goal_entry list" where
  "hsgoals =
     [\<lparr>ge_proc = 0, contention = goal_contention_wait, exclusive_goal = 0, success_event = 0,
       timeout_event = 0, failed_event = 0, proc_fns = None, proc_script = None, concurrent_goals = []\<rparr>,
      GOAL_WITH_CONCURRENCY hs_topology_procedure_enable_connectable_handset
        hs_proc_enable_connectable_handset_fns hs_topology_goal_none
        [hs_topology_goal_connect_handset, hs_topology_goal_allow_handset_connect],
      GOAL_WITH_CONCURRENCY hs_topology_procedure_allow_handset_connection
        hs_proc_allow_handset_connect_fns hs_topology_goal_none
        [hs_topology_goal_connectable_handset, hs_topology_goal_connect_handset],
      GOAL_WITH_CONCURRENCY hs_topology_procedure_connect_handset
        hs_proc_connect_handset_fns hs_topology_goal_disconnect_handset
        [hs_topology_goal_connectable_handset, hs_topology_goal_allow_handset_connect],
      GOAL hs_topology_procedure_disconnect_handset
        hs_proc_disconnect_handset_fns hs_topology_goal_connect_handset,
      GOAL hs_topology_procedure_allow_le_connection
        hs_proc_allow_le_connection_fns hs_topology_goal_none,
      SCRIPT_GOAL_CANCEL hs_topology_procedure_system_stop 0 hs_topology_goal_none]"

definition set_rule_event :: "u64 \<Rightarrow> hs_action" where
  "set_rule_event event gs =
     map_option (\<lambda>rs. with_rest (\<lambda>e. e\<lparr>hs_rules := rs\<rparr>) gs)
       (HeadsetTopologyRules_SetEvent event (hs_rules (env gs)))"

definition headsetTopology_GoalProcComplete :: "nat \<Rightarrow> procedure_result_t \<Rightarrow> hs_action" where
  "headsetTopology_GoalProcComplete proc result gs = do {
     completed_goal \<leftarrow> GoalsEngine_FindGoalForProcedure hsgoals proc;
     let complete_event = GoalsEngine_GetGoalCompleteEvent hsgoals completed_goal result;
     gs \<leftarrow> (if complete_event \<noteq> 0 then set_rule_event complete_event gs else Some gs);
     Some (GoalsEngine_ClearGoal gs completed_goal)
   }"

definition headsetTopology_GoalProcCancelCfm :: "nat \<Rightarrow> procedure_result_t \<Rightarrow> hs_action" where
  "headsetTopology_GoalProcCancelCfm proc result gs =
     map_option (GoalsEngine_ClearGoal gs) (GoalsEngine_FindGoalForProcedure hsgoals proc)"

definition headset_scripts :: "headset_env script_world" where
  "headset_scripts = \<lparr>scripts = (\<lambda>_. headset_system_stop_script),
     goal_proc_complete = headsetTopology_GoalProcComplete,
     goal_proc_cancelled = headsetTopology_GoalProcCancelCfm\<rparr>"

definition headset_goals :: "headset_env proc_world goal_table" where
  "headset_goals = script_goal_table headset_scripts hsgoals"

end
