(* ===== verification/Headset_Topology.thy ===== *)
theory Headset_Topology
  imports Headset_Procedures
begin

text \<open>
  The topology of the headset: the handlers of the procedures' messages, decisions turned into goals
  (\<^verbatim>\<open>headset_topology_goals.c\<close>), starting and stopping, messages to clients (\<^verbatim>\<open>headset_topology.c\<close>,
  \<^verbatim>\<open>headset_topology_client_msgs.c\<close>), and all that can happen to a headset as one step function.
\<close>

section \<open>Answers to the procedures\<close>

text \<open>
  A message to the procedure that connects: a confirmation, or the indication of a connection with
  whether it is a BR/EDR connection of a handset. Others are ignored.
\<close>

datatype connect_msg =
    HANDSET_SERVICE_CONNECT_CFM handset_service_status_t
  | CON_MANAGER_TP_CONNECT_IND bool
  | CON_MANAGER_TP_DISCONNECT_IND

definition headsetTopology_ProcConnectHandsetHandleHandsetConnectCfm ::
    "cfm_client \<Rightarrow> handset_service_status_t \<Rightarrow> hs_action" where
  "headsetTopology_ProcConnectHandsetHandleHandsetConnectCfm fn status gs =
     (if status \<noteq> handset_service_status_cancelled then
        map_option headsetTopology_ProcConnectHandsetResetProc
          (complete_cfm headset_scripts fn hs_topology_procedure_connect_handset
             (if status = handset_service_status_success then procedure_result_success
              else procedure_result_failed) gs)
      else None)"

definition headsetTopology_ProcConnectHandsetHandleMessage :: "connect_msg \<Rightarrow> hs_action" where
  "headsetTopology_ProcConnectHandsetHandleMessage message gs =
     (case con_complete_fn (env gs) of
        None \<Rightarrow> Some gs
      | Some fn \<Rightarrow>
          (case message of
             HANDSET_SERVICE_CONNECT_CFM status \<Rightarrow>
               headsetTopology_ProcConnectHandsetHandleHandsetConnectCfm fn status gs
           | CON_MANAGER_TP_CONNECT_IND bredr_handset \<Rightarrow>
               Some (if bredr_handset
                     then request [ConManagerUnregisterTpConnectionsObserver HeadsetTopProcConnectHandsetGetTask] gs
                     else gs)
           | CON_MANAGER_TP_DISCONNECT_IND \<Rightarrow> Some gs))"

text \<open>
  A message to the clients of the topology; the recipients are those of a message without a body,
  whatever its identifier.
\<close>

definition HeadsetTopology_SendHandsetDisconnectedIndication ::
    "bdaddr \<Rightarrow> handset_service_status_t \<Rightarrow> hs_action" where
  "HeadsetTopology_SendHandsetDisconnectedIndication addr status gs =
     map_option (\<lambda>ms. with_rest (\<lambda>e. e\<lparr>sent := sent e @
         map (\<lambda>(task, _). (task, HEADSET_TOPOLOGY_HANDSET_DISCONNECTED_IND addr status)) ms\<rparr>) gs)
       (TaskList_MessageSendId (message_client_tasks (env gs)) 0)"

definition headsetTopology_ProcDisconnectHandsetHandleHandsetDisconnectCfm ::
    "cfm_client \<Rightarrow> bdaddr \<Rightarrow> handset_service_status_t \<Rightarrow> hs_action" where
  "headsetTopology_ProcDisconnectHandsetHandleHandsetDisconnectCfm fn addr status gs = do {
     gs \<leftarrow> complete_cfm headset_scripts fn hs_topology_procedure_disconnect_handset procedure_result_success gs;
     HeadsetTopology_SendHandsetDisconnectedIndication addr status
       (headsetTopology_ProcDisconnectHandsetResetProc gs)
   }"

definition headsetTopology_ProcDisconnectHandsetHandleMessage ::
    "bdaddr \<Rightarrow> handset_service_status_t \<Rightarrow> hs_action" where
  "headsetTopology_ProcDisconnectHandsetHandleMessage addr status gs =
     (case dis_complete_fn (env gs) of
        None \<Rightarrow> Some gs
      | Some fn \<Rightarrow> headsetTopology_ProcDisconnectHandsetHandleHandsetDisconnectCfm fn addr status gs)"

text \<open>A message to the LE procedure: an indication, or a confirmation with whether it is an error.\<close>

datatype le_msg = HANDSET_SERVICE_LE_CONNECTABLE_IND | LE_ADV_MGR_ALLOW_ADVERTISING_CFM bool

definition headsetTopology_ProcAllowLEConnectionCompleteCancel :: hs_action where
  "headsetTopology_ProcAllowLEConnectionCompleteCancel gs =
     (if \<not> le_connectable (env gs) \<and> \<not> le_advertising (env gs) then
        map_option headsetTopology_ProcAllowLEConnectionResetProc
          (case le_complete_fn (env gs) of
             Some fn \<Rightarrow> complete_cfm headset_scripts fn hs_topology_procedure_allow_le_connection
               procedure_result_success gs
           | None \<Rightarrow>
               (case le_cancel_fn (env gs) of
                  Some fn \<Rightarrow> cancel_cfm headset_scripts fn hs_topology_procedure_allow_le_connection
                    procedure_result_success gs
                | None \<Rightarrow> Some gs))
      else Some gs)"

definition headsetTopology_ProcAllowLEConnectionHandleAllowLEConnectionCfm :: hs_action where
  "headsetTopology_ProcAllowLEConnectionHandleAllowLEConnectionCfm gs =
     headsetTopology_ProcAllowLEConnectionCompleteCancel (with_rest (\<lambda>td. td\<lparr>le_connectable := False\<rparr>) gs)"

definition headsetTopology_ProcAllowLEConnectionHandleAllowLEAdvertisingCfm :: "bool \<Rightarrow> hs_action" where
  "headsetTopology_ProcAllowLEConnectionHandleAllowLEAdvertisingCfm status_error_unknown gs =
     (if status_error_unknown then None
      else headsetTopology_ProcAllowLEConnectionCompleteCancel (with_rest (\<lambda>td. td\<lparr>le_advertising := False\<rparr>) gs))"

definition headsetTopology_ProcAllowLEConnectionHandleMessage :: "le_msg \<Rightarrow> hs_action" where
  "headsetTopology_ProcAllowLEConnectionHandleMessage message gs =
     (if le_complete_fn (env gs) = None \<and> le_cancel_fn (env gs) = None then Some gs
      else
        (case message of
           HANDSET_SERVICE_LE_CONNECTABLE_IND \<Rightarrow> headsetTopology_ProcAllowLEConnectionHandleAllowLEConnectionCfm gs
         | LE_ADV_MGR_ALLOW_ADVERTISING_CFM err \<Rightarrow>
             headsetTopology_ProcAllowLEConnectionHandleAllowLEAdvertisingCfm err gs))"

section \<open>Decisions\<close>

definition HeadsetTopology_IsGoalActive :: "headset \<Rightarrow> goal_id \<Rightarrow> bool" where
  "HeadsetTopology_IsGoalActive gs goal \<longleftrightarrow> GoalsEngine_IsGoalActive gs goal"

definition HeadsetTopology_IsAnyGoalPending :: "headset \<Rightarrow> bool" where
  "HeadsetTopology_IsAnyGoalPending gs \<longleftrightarrow> GoalsEngine_IsAnyGoalPending gs"

definition set_rule_complete :: "u16 \<Rightarrow> hs_action" where
  "set_rule_complete message gs =
     map_option (\<lambda>rs. with_rest (\<lambda>e. e\<lparr>hs_rules := rs\<rparr>) gs)
       (HeadsetTopologyRules_SetRuleComplete message (hs_rules (env gs)))"

definition HeadsetTopology_HandleGoalDecision :: "Task \<Rightarrow> u16 \<Rightarrow> u8 list option \<Rightarrow> hs_action" where
  "HeadsetTopology_HandleGoalDecision task mid message gs =
     (if td_stopping (env gs) \<noteq> hstop_stop_state_not_stopping then Some gs
      else do {
        gs \<leftarrow>
          (if mid = HSTOP_GOAL_CONNECTABLE_HANDSET then
             GoalsEngine_ActivateGoal headset_goals gs hs_topology_goal_connectable_handset task mid message 1
           else if mid = HSTOP_GOAL_CONNECT_HANDSET then
             GoalsEngine_ActivateGoal headset_goals gs hs_topology_goal_connect_handset task mid message 4
           else if mid = HSTOP_GOAL_ALLOW_HANDSET_CONNECT then
             GoalsEngine_ActivateGoal headset_goals gs hs_topology_goal_allow_handset_connect task mid message 1
           else if mid = HSTOP_GOAL_DISCONNECT_HANDSET then
             GoalsEngine_ActivateGoal headset_goals gs hs_topology_goal_disconnect_handset task mid message 0
           else if mid = HSTOP_GOAL_ALLOW_LE_CONNECTION then
             GoalsEngine_ActivateGoal headset_goals gs hs_topology_goal_allow_le_connection task mid message 1
           else if mid = HSTOP_GOAL_SYSTEM_STOP then
             GoalsEngine_ActivateGoal headset_goals gs hs_topology_goal_system_stop task mid None 0
           else Some gs);
        set_rule_complete mid gs
      })"

section \<open>The topology\<close>

definition HeadsetTopology_SendStopCfm :: "headset_topology_status_t \<Rightarrow> headset \<Rightarrow> headset" where
  "HeadsetTopology_SendStopCfm status = with_rest (\<lambda>e.
     e\<lparr>timed_msgs := filter (\<lambda>(m, _). m \<noteq> HSTOP_INTERNAL_TIMEOUT_TOPOLOGY_STOP) (timed_msgs e),
       task_msgs := filter (\<lambda>m. m \<noteq> HSTOP_INTERNAL_TIMEOUT_TOPOLOGY_STOP) (task_msgs e),
       sent := sent e @ [(td_app_task e, HEADSET_TOPOLOGY_STOP_CFM status)]\<rparr>)"

definition headsetTopology_MarkAsStopped :: "headset \<Rightarrow> headset" where
  "headsetTopology_MarkAsStopped = with_rest (\<lambda>td.
     td\<lparr>td_started := False, td_app_task := 0, td_stopping := hstop_stop_state_stopped\<rparr>)"

definition headsetTopology_HandleStopTimeout :: "headset \<Rightarrow> headset" where
  "headsetTopology_HandleStopTimeout gs =
     headsetTopology_MarkAsStopped (HeadsetTopology_SendStopCfm hs_topology_status_fail gs)"

definition headsetTopology_HandleStopCompletion :: "headset \<Rightarrow> headset" where
  "headsetTopology_HandleStopCompletion gs =
     (if td_stopping (env gs) = hstop_stop_state_stopping
      then headsetTopology_MarkAsStopped (HeadsetTopology_SendStopCfm hs_topology_status_success gs) else gs)"

text \<open>The flags of the topology that its rules read are in the state the rules are run on.\<close>

definition with_devices :: "(headset_state \<Rightarrow> headset_state) \<Rightarrow> headset \<Rightarrow> headset" where
  "with_devices f = with_rest (\<lambda>e. e\<lparr>hs_rules := (hs_rules e)\<lparr>app := f (app (hs_rules e))\<rparr>\<rparr>)"

definition headsetTopology_HandlePowerShutdownPrepareInd :: "headset \<Rightarrow> headset" where
  "headsetTopology_HandlePowerShutdownPrepareInd gs =
     request [appPowerShutdownPrepareResponse HeadsetTopologyGetTask]
       (with_devices (\<lambda>a. a\<lparr>shutdown_in_progress := True\<rparr>) gs)"

definition "HSTOP_RULE_EVENT_HANDSET_DISCONNECTED_BREDR = (push_bit 2 1 :: u64)"
definition "HSTOP_RULE_EVENT_HANDSET_CONNECTED_BREDR = (push_bit 3 1 :: u64)"

definition headsetTopology_HandleHandsetServiceConnectedInd :: hs_action where
  "headsetTopology_HandleHandsetServiceConnectedInd = set_rule_event HSTOP_RULE_EVENT_HANDSET_CONNECTED_BREDR"

definition headsetTopology_HandleHandsetServiceDisconnectedInd :: "handset_service_status_t \<Rightarrow> hs_action" where
  "headsetTopology_HandleHandsetServiceDisconnectedInd status gs =
     (if status = handset_service_status_link_loss then set_rule_event HSTOP_RULE_EVENT_HANDSET_LINKLOSS gs
      else if status = handset_service_status_disconnected
      then set_rule_event HSTOP_RULE_EVENT_HANDSET_DISCONNECTED_BREDR gs
      else Some gs)"

definition headsetTopology_HandleInternalStop :: hs_action where
  "headsetTopology_HandleInternalStop = set_rule_event HSTOP_RULE_EVENT_STOP"

fun headsetTopology_HandleMessage :: "topology_msg \<Rightarrow> hs_action" where
  "headsetTopology_HandleMessage PAIRING_ACTIVITY gs = Some gs"
| "headsetTopology_HandleMessage HANDSET_SERVICE_CONNECTED_IND gs =
     headsetTopology_HandleHandsetServiceConnectedInd gs"
| "headsetTopology_HandleMessage (HANDSET_SERVICE_DISCONNECTED_IND status) gs =
     headsetTopology_HandleHandsetServiceDisconnectedInd status gs"
| "headsetTopology_HandleMessage CON_MANAGER_CONNECTION_IND gs = Some gs"
| "headsetTopology_HandleMessage APP_POWER_SHUTDOWN_PREPARE_IND gs =
     Some (headsetTopology_HandlePowerShutdownPrepareInd gs)"
| "headsetTopology_HandleMessage HSTOP_INTERNAL_STOP gs = headsetTopology_HandleInternalStop gs"
| "headsetTopology_HandleMessage HSTOP_INTERNAL_TIMEOUT_TOPOLOGY_STOP gs =
     Some (headsetTopology_HandleStopTimeout gs)"
| "headsetTopology_HandleMessage PROC_SEND_HS_TOPOLOGY_MESSAGE_SYSTEM_STOP_FINISHED gs =
     Some (headsetTopology_HandleStopCompletion gs)"

text \<open>Initialisation, of static data that is zero, with the answers of the other modules.\<close>

definition HeadsetTopology_GoalsInit :: "headset_env \<Rightarrow> headset option" where
  "HeadsetTopology_GoalsInit e =
     GoalsEngine_CreateGoalSet headset_goals pending_goal_queue_task HeadsetTopologyGetTask
       \<lparr>engine = script_engine_zero, delayed = [], rest = e\<rparr>"

definition HeadsetTopology_Init :: "headset_state \<Rightarrow> headset option" where
  "HeadsetTopology_Init a = do {
     rs \<leftarrow> HeadsetTopologyRules_Init HeadsetTopologyGetGoalTask
       (a\<lparr>prohibit_connect_to_handset := False, shutdown_in_progress := False\<rparr>);
     l \<leftarrow> TaskList_InitialiseWithCapacity 1;
     HeadsetTopology_GoalsInit
       \<lparr>con_complete_fn = None, con_handset_addr = 0, dis_complete_fn = None, ec_params_enable = False,
        le_complete_fn = None, le_cancel_fn = None, le_connectable = False, le_advertising = False,
        td_app_task = 0, message_client_tasks = l, td_started = False,
        td_stopping = hstop_stop_state_not_stopping, hs_rules = rs, task_msgs = [], timed_msgs = [], sent = [],
        requests = [appPowerClientRegister HeadsetTopologyGetTask, appPowerClientAllowSleep HeadsetTopologyGetTask,
          HandsetService_ClientRegister HeadsetTopologyGetTask,
          ConManagerRegisterConnectionsClient HeadsetTopologyGetTask,
          Pairing_ActivityClientRegister HeadsetTopologyGetTask,
          BredrScanManager_ScanParametersRegister, BredrScanManager_ScanParametersRegister]\<rparr>
   }"

definition HeadsetTopology_Start :: hs_action where
  "HeadsetTopology_Start gs =
     (if \<not> td_started (env gs) then
        set_rule_event HSTOP_RULE_EVENT_START
          (with_devices (\<lambda>a. a\<lparr>prohibit_connect_to_handset := False, shutdown_in_progress := False\<rparr>)
            (with_rest (\<lambda>td. td\<lparr>td_started := True, td_stopping := hstop_stop_state_not_stopping\<rparr>) gs))
      else Some gs)"

definition HeadsetTopology_RegisterMessageClient :: "Task \<Rightarrow> hs_action" where
  "HeadsetTopology_RegisterMessageClient client_task gs =
     map_option (\<lambda>(_, l). with_rest (\<lambda>e. e\<lparr>message_client_tasks := l\<rparr>) gs)
       (TaskList_AddTask (message_client_tasks (env gs)) client_task)"

definition HeadsetTopology_UnRegisterMessageClient :: "Task \<Rightarrow> hs_action" where
  "HeadsetTopology_UnRegisterMessageClient client_task gs =
     map_option (\<lambda>(_, l). with_rest (\<lambda>e. e\<lparr>message_client_tasks := l\<rparr>) gs)
       (TaskList_RemoveTask (message_client_tasks (env gs)) client_task)"

definition HeadsetTopology_ProhibitHandsetConnection :: "bool \<Rightarrow> hs_action" where
  "HeadsetTopology_ProhibitHandsetConnection prohibit gs =
     (let gs = with_devices (\<lambda>a. a\<lparr>prohibit_connect_to_handset := prohibit\<rparr>) gs in
      if prohibit then set_rule_event HSTOP_RULE_EVENT_PROHIBIT_CONNECT_TO_HANDSET gs else Some gs)"

definition "HeadsetTopologyConfig_HeadsetTopologyStopTimeoutS = (5 :: nat)"

definition HeadsetTopology_Stop :: "Task \<Rightarrow> headset \<Rightarrow> headset" where
  "HeadsetTopology_Stop requesting_task gs =
     (let already_started = td_started (env gs);
          gs = with_rest (\<lambda>td. td\<lparr>td_app_task := requesting_task\<rparr>) gs
      in if \<not> already_started
         then HeadsetTopology_SendStopCfm hs_topology_status_success
           (with_rest (\<lambda>td. td\<lparr>td_started := False, td_app_task := requesting_task\<rparr>) gs)
         else
           let timeout_ms = 1000 * HeadsetTopologyConfig_HeadsetTopologyStopTimeoutS;
               gs = with_rest (\<lambda>td. td\<lparr>td_started := True, task_msgs := task_msgs td @ [HSTOP_INTERNAL_STOP]\<rparr>) gs
           in if timeout_ms \<noteq> 0
              then with_rest (\<lambda>e. e\<lparr>timed_msgs := timed_msgs e @ [(HSTOP_INTERNAL_TIMEOUT_TOPOLOGY_STOP, timeout_ms)]\<rparr>) gs
              else gs)"

definition headsetTopology_IsRunning :: "headset \<Rightarrow> bool" where
  "headsetTopology_IsRunning gs \<longleftrightarrow> td_app_task (env gs) \<noteq> 0 \<and> td_started (env gs)"

section \<open>Everything that can happen\<close>

text \<open>
  The delivery of the next message to the goal task, of a goal's message that is due, of the next
  delayed confirmation, of the next message to the topology's task, of a message whose time has come;
  messages of other modules; calls of the interface; and a change of what other modules answer.
\<close>

datatype headset_event =
    Decision | Queued | Confirmation | Own_message | Expiry
  | To_topology topology_msg | To_connect connect_msg
  | To_disconnect bdaddr handset_service_status_t | To_le le_msg
  | Start | Stop Task | Prohibit bool | Register Task | Unregister Task
  | Devices "bdaddr option" "bdaddr \<Rightarrow> bool" bool "bdaddr \<Rightarrow> bool" "bdaddr \<Rightarrow> u32"

definition deliver_decision :: hs_action where
  "deliver_decision gs =
     (case msgs (hs_rules (env gs)) of
        [] \<Rightarrow> Some gs
      | (task, mid, d) # ms \<Rightarrow>
          HeadsetTopology_HandleGoalDecision task mid d
            (with_rest (\<lambda>e. e\<lparr>hs_rules := (hs_rules e)\<lparr>msgs := ms\<rparr>\<rparr>) gs))"

definition deliver_queued :: hs_action where
  "deliver_queued gs =
     (case take_due (pending_goals gs) (held gs) of
        None \<Rightarrow> Some gs
      | Some ((mid, d), hs) \<Rightarrow> HeadsetTopology_HandleGoalDecision (queue_task gs) mid d (gs\<lparr>held := hs\<rparr>))"

fun headset_step :: "headset_event \<Rightarrow> hs_action" where
  "headset_step Decision gs = deliver_decision gs"
| "headset_step Queued gs = deliver_queued gs"
| "headset_step Confirmation gs =
     (case delayed (gs_env gs) of
        [] \<Rightarrow> Some gs
      | m # ms \<Rightarrow> Procedures_DelayCfmHandleMessage headset_scripts m (with_delayed (\<lambda>_. ms) gs))"
| "headset_step Own_message gs =
     (case task_msgs (env gs) of
        [] \<Rightarrow> Some gs
      | m # ms \<Rightarrow> headsetTopology_HandleMessage m (with_rest (\<lambda>e. e\<lparr>task_msgs := ms\<rparr>) gs))"
| "headset_step Expiry gs =
     (case timed_msgs (env gs) of
        [] \<Rightarrow> Some gs
      | (m, _) # ms \<Rightarrow>
          Some (with_rest (\<lambda>e. e\<lparr>timed_msgs := ms, task_msgs := task_msgs e @ [m]\<rparr>) gs))"
| "headset_step (To_topology m) gs = headsetTopology_HandleMessage m gs"
| "headset_step (To_connect m) gs = headsetTopology_ProcConnectHandsetHandleMessage m gs"
| "headset_step (To_disconnect addr status) gs = headsetTopology_ProcDisconnectHandsetHandleMessage addr status gs"
| "headset_step (To_le m) gs = headsetTopology_ProcAllowLEConnectionHandleMessage m gs"
| "headset_step Start gs = HeadsetTopology_Start gs"
| "headset_step (Stop task) gs = Some (HeadsetTopology_Stop task gs)"
| "headset_step (Prohibit b) gs = HeadsetTopology_ProhibitHandsetConnection b gs"
| "headset_step (Register task) gs = HeadsetTopology_RegisterMessageClient task gs"
| "headset_step (Unregister task) gs = HeadsetTopology_UnRegisterMessageClient task gs"
| "headset_step (Devices addr connected profile was profiles) gs =
     Some (with_devices (\<lambda>a. a\<lparr>handset_bd_addr := addr, con_manager_connected := connected,
       any_profile_connected := profile, was_connected := was, last_connected_profiles := profiles\<rparr>) gs)"

text \<open>
  A run, and the states that can be reached, as long as fewer than 255 decisions are queued: the
  counter of the goals engine has eight bits.
\<close>

fun headset_run :: "headset_event list \<Rightarrow> hs_action" where
  "headset_run [] gs = Some gs"
| "headset_run (e # es) gs =
     (if queue_msg_count gs < 255 then Option.bind (headset_step e gs) (headset_run es) else None)"

inductive headset_reach :: "headset \<Rightarrow> bool" where
  init: "HeadsetTopology_Init a = Some gs \<Longrightarrow> headset_reach gs"
| step: "\<lbrakk>headset_reach gs; queue_msg_count gs < 255; headset_step e gs = Some gs'\<rbrakk> \<Longrightarrow> headset_reach gs'"

end
