(* ===== verification/Goals_Contention.thy ===== *)
theory Goals_Contention
  imports Goals_Engine
begin

text \<open>
  The guarantees of the goals engine for tables that fit its queue: goals that are active together
  may run together, a queued goal waits for exactly the active goals it may not run with, and the
  count of queued decisions is the number of messages held.
\<close>

section \<open>The invariant\<close>

text \<open>
  What the engine relies on: the table is small enough for the queue, the decision messages of its
  goals differ, and a procedure changes nothing of the goal set when it is started and at most
  clears its own goal when it is cancelled.
\<close>

lemma unat_minus_of_nat: "n \<le> unat w \<Longrightarrow> unat (w - of_nat n) = unat w - n" for w :: u8
proof -
  assume n: "n \<le> unat w"
  then have u: "unat (of_nat n :: u8) = n" using unsigned_less [where ?'a = nat, of w] by (simp add: unat_of_nat take_bit_nat_eq_self)
  then have "of_nat n \<le> w" using n by (simp add: word_le_nat_alt)
  then show ?thesis using u by (simp add: unat_sub)
qed

lemma unat_Suc: "w < 255 \<Longrightarrow> unat (w + 1) = Suc (unat w)" for w :: u8
  by (simp add: unat_word_ariths word_less_nat_alt)

locale goal_procedures =
  fixes t :: "'s goal_table" and rule_of :: "goal_id \<Rightarrow> u16"
  assumes few_goals: "length (goals t) \<le> INITIAL_GOAL_QUEUE_COUNT + 1"
    and rules_differ: "\<lbrakk>0 < g; g < length (goals t); 0 < h; h < length (goals t); rule_of g = rule_of h\<rbrakk> \<Longrightarrow> g = h"
    and rules_nonzero: "\<lbrakk>0 < g; g < length (goals t)\<rbrakk> \<Longrightarrow> rule_of g \<noteq> 0"
    and start_law: "\<lbrakk>0 < g; g < length (goals t); start_procedure t g d gs = Some gs'\<rbrakk> \<Longrightarrow>
      \<exists>e. gs' = gs\<lparr>gs_env := e\<rparr>"
    and cancel_law: "\<lbrakk>0 < g; g < length (goals t); goalsEngine_CancelGoal t gs g = Some gs'\<rbrakk> \<Longrightarrow>
      \<exists>e. gs' = gs\<lparr>gs_env := e\<rparr> \<or> gs' = (GoalsEngine_ClearGoal gs g)\<lparr>gs_env := e\<rparr>"
begin

abbreviation "active gs \<equiv> bit (active_goals_mask gs)"

definition goal :: "goal_id \<Rightarrow> bool" where
  "goal g \<longleftrightarrow> 0 < g \<and> g < length (goals t)"

definition compatible :: "'s goal_set \<Rightarrow> bool" where
  "compatible gs \<longleftrightarrow> (\<forall>g. active gs g \<longrightarrow> goal g) \<and>
     (\<forall>g h. active gs g \<longrightarrow> active gs h \<longrightarrow> g \<noteq> h \<longrightarrow> lists t g h \<or> lists t h g)"

definition slot_ok :: "goal_mask \<Rightarrow> pending_goal_entry \<Rightarrow> bool" where
  "slot_ok m e \<longleftrightarrow> e = no_goal \<or> goal (pg_id e) \<and> pg_rule_id e = rule_of (pg_id e) \<and>
     pg_lock_mask e = waits t m (pg_id e) \<and> pg_lock e = SET_LOCK_FROM_MASK (pg_lock_mask e)"

definition slots_ok :: "'s goal_set \<Rightarrow> bool" where
  "slots_ok gs \<longleftrightarrow> (\<forall>e \<in> set (pending_goals gs). slot_ok (active_goals_mask gs) e)"

definition queue_ok :: "'s goal_set \<Rightarrow> bool" where
  "queue_ok gs \<longleftrightarrow> length (pending_goals gs) = INITIAL_GOAL_QUEUE_COUNT \<and>
     distinct (filter (\<lambda>g. g \<noteq> 0) (map pg_id (pending_goals gs))) \<and>
     (\<forall>(r, d, i) \<in> set (held gs). i < INITIAL_GOAL_QUEUE_COUNT \<and> goal (pg_id (pending_goals gs ! i)) \<and>
        r = rule_of (pg_id (pending_goals gs ! i))) \<and>
     length (held gs) \<le> unat (queue_msg_count gs)"

text \<open>The state between calls, and the weaker one while the engine works.\<close>

definition working :: "'s goal_set \<Rightarrow> bool" where
  "working gs \<longleftrightarrow> compatible gs \<and> slots_ok gs \<and> queue_ok gs"

definition steady :: "'s goal_set \<Rightarrow> bool" where
  "steady gs \<longleftrightarrow> working gs \<and> (queue_msg_count gs = 0 \<longrightarrow> (\<forall>e \<in> set (pending_goals gs). e = no_goal))"

lemma goal_less_64: "goal g \<Longrightarrow> g < 64"
  using few_goals by (simp add: goal_def INITIAL_GOAL_QUEUE_COUNT_def)

lemma count_zero: "\<lbrakk>queue_ok gs; queue_msg_count gs = 0\<rbrakk> \<Longrightarrow> held gs = []"
  by (simp add: queue_ok_def)

lemma no_goal_simps [simp]: "pg_id no_goal = 0" "pg_lock no_goal = 0" "pg_lock_mask no_goal = 0" "pg_rule_id no_goal = 0"
  by (simp_all add: no_goal_def GOAL_ID_NONE_def)

lemma slot_ok_no_goal [simp]: "slot_ok m no_goal"
  by (simp add: slot_ok_def)

lemma slot_ok_zero: "slot_ok m e \<Longrightarrow> pg_id e = 0 \<longleftrightarrow> e = no_goal"
  by (auto simp: slot_ok_def goal_def)

lemma working_env [simp]: "working (gs\<lparr>gs_env := e\<rparr>) \<longleftrightarrow> working gs"
  by (simp add: working_def compatible_def slots_ok_def queue_ok_def)

section \<open>The parts of the engine keep it\<close>

lemma clear_slot: "slot_ok m e \<Longrightarrow> slot_ok (REMOVE_GOAL_FROM_MASK m g) (clear_entry g e)"
  by (auto simp: slot_ok_def clear_entry_def waits_remove Let_def GOAL_ID_NONE_def no_goal_def goal_def)

lemma clear_entry_id [simp]: "pg_id (clear_entry g e) = pg_id e" "pg_rule_id (clear_entry g e) = pg_rule_id e"
  by (simp_all add: clear_entry_def Let_def)

lemma clear_working: "working gs \<Longrightarrow> working (GoalsEngine_ClearGoal gs g)"
  by (auto simp: working_def GoalsEngine_ClearGoal_def compatible_def slots_ok_def queue_ok_def
      bit_REMOVE clear_slot o_def)

lemma clear_steady: "steady gs \<Longrightarrow> steady (GoalsEngine_ClearGoal gs g)"
  using clear_working [of gs g]
  by (auto simp: steady_def GoalsEngine_ClearGoal_def clear_entry_def GOAL_ID_NONE_def)

lemma cancel_working:
  assumes "working gs" "goal g" "goalsEngine_CancelGoal t gs g = Some gs'"
  shows "working gs' \<and> held gs' = held gs \<and> queue_msg_count gs' = queue_msg_count gs \<and>
    queue_task gs' = queue_task gs \<and> (active_goals_mask gs' = active_goals_mask gs \<or>
      active_goals_mask gs' = REMOVE_GOAL_FROM_MASK (active_goals_mask gs) g)"
proof -
  obtain e where "gs' = gs\<lparr>gs_env := e\<rparr> \<or> gs' = (GoalsEngine_ClearGoal gs g)\<lparr>gs_env := e\<rparr>"
    using cancel_law [OF _ _ assms(3)] assms(2) unfolding goal_def by blast
  then show ?thesis using assms(1) clear_working by (auto simp: GoalsEngine_ClearGoal_def)
qed

lemma cleared_queue:
  assumes "working gs"
  shows "working (goalsEngine_ClearPendingGoalsQueue gs)" "held (goalsEngine_ClearPendingGoalsQueue gs) = []"
    "active_goals_mask (goalsEngine_ClearPendingGoalsQueue gs) = active_goals_mask gs"
    "steady (goalsEngine_ClearPendingGoalsQueue gs)"
proof -
  have "filter (\<lambda>g. g \<noteq> 0) (map pg_id (map (\<lambda>_. no_goal) es)) = []" for es :: "pending_goal_entry list"
    by (simp add: filter_empty_conv)
  then show w: "working (goalsEngine_ClearPendingGoalsQueue gs)"
    using assms by (auto simp: goalsEngine_ClearPendingGoalsQueue_def goalsEngine_ResetPendingQueueIfEmpty_def
        goalsEngine_GoalQueueSize_def working_def compatible_def slots_ok_def queue_ok_def o_def)
  show "held (goalsEngine_ClearPendingGoalsQueue gs) = []"
    "active_goals_mask (goalsEngine_ClearPendingGoalsQueue gs) = active_goals_mask gs"
    by (simp_all add: goalsEngine_ClearPendingGoalsQueue_def goalsEngine_ResetPendingQueueIfEmpty_def)
  show "steady (goalsEngine_ClearPendingGoalsQueue gs)"
    using w by (auto simp: steady_def goalsEngine_ClearPendingGoalsQueue_def
        goalsEngine_ResetPendingQueueIfEmpty_def goalsEngine_GoalQueueSize_def)
qed

lemma cancel_loop_working:
  assumes "working gs" "\<And>k. bit m k \<Longrightarrow> goal k" "cancel_loop fuel t m gs = Some gs'"
  shows "working gs' \<and> held gs' = held gs \<and> queue_msg_count gs' = queue_msg_count gs \<and>
    queue_task gs' = queue_task gs \<and> (\<forall>k. active gs' k \<longrightarrow> active gs k)"
  using assms
proof (induction fuel arbitrary: m gs)
  case (Suc fuel)
  show ?case
  proof (cases "m = 0")
    case False
    have f: "goalsEngine_FirstGoalFromMask t m = Some (LEAST k. bit m k)" "bit m (LEAST k. bit m k)"
      using first_goal [OF False, of t] Suc.prems(2) by (auto simp: goal_def)
    let ?k = "LEAST k. bit m k"
    obtain gs1 where gs1: "goalsEngine_CancelGoal t gs ?k = Some gs1"
        "cancel_loop fuel t (REMOVE_GOAL_FROM_MASK m ?k) gs1 = Some gs'"
      using Suc.prems(3) False f(1) by (auto split: bind_splits)
    note c = cancel_working [OF Suc.prems(1) Suc.prems(2) [OF f(2)] gs1(1)]
    have "\<And>j. bit (REMOVE_GOAL_FROM_MASK m ?k) j \<Longrightarrow> goal j" using Suc.prems(2) by (simp add: bit_REMOVE)
    from Suc.IH [OF _ this gs1(2)] c show ?thesis by (auto simp: bit_REMOVE)
  qed (use Suc.prems in auto)
qed (auto split: if_splits)

end

context goal_procedures
begin

text \<open>An entry taken out of the queue, and one put in.\<close>

lemma nonzero_ids_update:
  assumes "distinct (filter (\<lambda>g. g \<noteq> 0) ids)" "i < length ids" "x = 0 \<or> ids ! i = x \<or> x \<notin> set ids"
  shows "distinct (filter (\<lambda>g. g \<noteq> 0) (ids[i := x]))"
proof -
  have s: "ids = take i ids @ ids ! i # drop (Suc i) ids" using assms(2) by (simp add: id_take_nth_drop)
  have u: "ids[i := x] = take i ids @ x # drop (Suc i) ids" using assms(2) by (simp add: upd_conv_take_nth_drop)
  have sets: "set (take i ids) \<subseteq> set ids" "set (drop (Suc i) ids) \<subseteq> set ids"
    by (simp_all add: set_take_subset set_drop_subset)
  from assms(1) have "distinct (filter (\<lambda>g. g \<noteq> 0) (take i ids @ ids ! i # drop (Suc i) ids))" using s by simp
  then show ?thesis unfolding u using assms(3) sets by (auto split: if_splits)
qed

lemma dequeued_working:
  assumes "working gs" "goal g"
  shows "working (goalsEngine_DequeGoal gs g)"
    "active_goals_mask (goalsEngine_DequeGoal gs g) = active_goals_mask gs"
    "length (held (goalsEngine_DequeGoal gs g)) \<le> length (held gs)"
    "queue_task (goalsEngine_DequeGoal gs g) = queue_task gs"
proof -
  show "active_goals_mask (goalsEngine_DequeGoal gs g) = active_goals_mask gs"
    "length (held (goalsEngine_DequeGoal gs g)) \<le> length (held gs)"
    "queue_task (goalsEngine_DequeGoal gs g) = queue_task gs"
    by (simp_all add: goalsEngine_DequeGoal_def Let_def split: option.split)
  show "working (goalsEngine_DequeGoal gs g)"
  proof (cases "find_slot (\<lambda>e. pg_id e = g) (pending_goals gs)")
    case None
    then show ?thesis using assms(1) by (simp add: goalsEngine_DequeGoal_def)
  next
    case (Some i)
    then have i: "i < length (pending_goals gs)" "pg_id (pending_goals gs ! i) = g"
      using find_slot_Some [of "\<lambda>e. pg_id e = g"] by auto
    let ?es = "pending_goals gs" and ?r = "pg_rule_id (pending_goals gs ! i)"
    let ?hs = "filter (\<lambda>(r, _). r \<noteq> ?r) (held gs)"
    have q: "queue_ok gs" "slots_ok gs" using assms(1) by (simp_all add: working_def)
    have "slot_ok (active_goals_mask gs) (?es ! i)" using q(2) i(1) by (simp add: slots_ok_def)
    then have r: "?r = rule_of g" using i(2) assms(2) by (auto simp: slot_ok_def goal_def)
    have len: "length (held gs) = length (filter (\<lambda>(r, _). r = ?r) (held gs)) + length ?hs"
      using sum_length_filter_compl [of "\<lambda>(r, _). r = ?r" "held gs"] by (simp add: case_prod_unfold)
    have sum: "length (filter (\<lambda>(r, _). r = ?r) (held gs)) + length ?hs \<le> unat (queue_msg_count gs)"
      using q(1) len unfolding queue_ok_def by linarith
    then have cnt: "length ?hs \<le> unat (queue_msg_count gs - of_nat (length (filter (\<lambda>(r, _). r = ?r) (held gs))))"
      using unat_minus_of_nat [of "length (filter (\<lambda>(r, _). r = ?r) (held gs))" "queue_msg_count gs"]
      by linarith
    have "j \<noteq> i" if "(r, d, j) \<in> set ?hs" for r d j
    proof
      assume "j = i"
      then have "r = rule_of (pg_id (?es ! i))" using q(1) that by (auto simp: queue_ok_def)
      then show False using that r i(2) by auto
    qed
    then have held: "\<forall>(r', d, j) \<in> set ?hs. j < INITIAL_GOAL_QUEUE_COUNT \<and> goal (pg_id (?es[i := no_goal] ! j)) \<and>
        r' = rule_of (pg_id (?es[i := no_goal] ! j))"
      using q(1) by (fastforce simp: queue_ok_def)
    have ids: "distinct (filter (\<lambda>g. g \<noteq> 0) (map pg_id (?es[i := no_goal])))"
      unfolding map_update using q(1) i(1) by (intro nonzero_ids_update) (simp_all add: queue_ok_def)
    have slots: "\<forall>e \<in> set (?es[i := no_goal]). slot_ok (active_goals_mask gs) e"
      using q(2) set_update_subset_insert [of ?es i no_goal] by (auto simp: slots_ok_def)
    let ?gs = "gs\<lparr>held := ?hs, queue_msg_count := queue_msg_count gs -
        of_nat (length (filter (\<lambda>(r, _). r = ?r) (held gs))), pending_goals := ?es[i := no_goal]\<rparr>"
    have "length (pending_goals gs) = INITIAL_GOAL_QUEUE_COUNT" using q(1) by (simp add: queue_ok_def)
    with held ids cnt have "queue_ok ?gs" unfolding queue_ok_def by simp
    moreover have "slots_ok ?gs" using slots by (simp add: slots_ok_def)
    moreover have "compatible ?gs" using assms(1) by (simp add: working_def compatible_def)
    ultimately have "working ?gs" by (simp add: working_def)
    then show ?thesis using Some by (simp add: goalsEngine_DequeGoal_def Let_def)
  qed
qed

lemma queue_has_room:
  assumes "working gs" "goal g"
  shows "\<exists>i. queue_slot gs g = Some i \<and> i < INITIAL_GOAL_QUEUE_COUNT \<and>
    (pg_id (pending_goals gs ! i) = g \<or> pending_goals gs ! i = no_goal \<and> g \<notin> pg_id ` set (pending_goals gs))"
proof -
  have q: "length (pending_goals gs) = INITIAL_GOAL_QUEUE_COUNT"
    "distinct (filter (\<lambda>g. g \<noteq> 0) (map pg_id (pending_goals gs)))" "slots_ok gs"
    using assms(1) by (simp_all add: working_def queue_ok_def)
  have zero: "pg_id e = 0 \<longleftrightarrow> e = no_goal" if "e \<in> set (pending_goals gs)" for e
    using q(3) that slot_ok_zero by (auto simp: slots_ok_def)
  show ?thesis
  proof (cases "find_slot (\<lambda>e. pg_id e = g) (pending_goals gs)")
    case (Some i)
    then show ?thesis using find_slot_Some [OF Some] q(1) by (auto simp: queue_slot_def)
  next
    case None
    then have notin: "g \<notin> pg_id ` set (pending_goals gs)" by (auto simp: find_slot_None)
    have "find_slot (\<lambda>e. pg_id e = GOAL_ID_NONE) (pending_goals gs) \<noteq> None"
    proof
      assume "find_slot (\<lambda>e. pg_id e = GOAL_ID_NONE) (pending_goals gs) = None"
      then have nz: "\<forall>e \<in> set (pending_goals gs). pg_id e \<noteq> 0" by (simp add: find_slot_None GOAL_ID_NONE_def)
      then have "filter (\<lambda>g. g \<noteq> 0) (map pg_id (pending_goals gs)) = map pg_id (pending_goals gs)"
        by (auto intro: filter_True)
      then have "card (pg_id ` set (pending_goals gs)) = INITIAL_GOAL_QUEUE_COUNT"
        using q(1,2) distinct_card [of "map pg_id (pending_goals gs)"] by simp
      moreover have "goal (pg_id e)" if "e \<in> set (pending_goals gs)" for e
        using nz q(3) that no_goal_simps(1) unfolding slots_ok_def slot_ok_def by metis
      then have "pg_id ` set (pending_goals gs) \<subseteq> {0<..<length (goals t)} - {g}"
        using notin by (auto simp: goal_def)
      then have "card (pg_id ` set (pending_goals gs)) \<le> card ({0<..<length (goals t)} - {g})"
        by (intro card_mono) auto
      moreover have "card ({0<..<length (goals t)} - {g}) < INITIAL_GOAL_QUEUE_COUNT"
        using assms(2) few_goals by (auto simp: goal_def INITIAL_GOAL_QUEUE_COUNT_def)
      ultimately show False by simp
    qed
    then obtain i where "find_slot (\<lambda>e. pg_id e = GOAL_ID_NONE) (pending_goals gs) = Some i" by blast
    moreover from this have "i < length (pending_goals gs)" "pg_id (pending_goals gs ! i) = 0"
      using find_slot_Some [of "\<lambda>e. pg_id e = GOAL_ID_NONE"] by (auto simp: GOAL_ID_NONE_def)
    ultimately show ?thesis using None notin zero q(1) by (auto simp: queue_slot_def)
  qed
qed

lemma queued_working:
  assumes "working gs" "goal g" "queue_msg_count gs < 255"
  shows "\<exists>gs' i. goalsEngine_QueueGoal gs (rule_of g) d n (waits t (active_goals_mask gs) g) g = Some gs' \<and>
    working gs' \<and> queue_msg_count gs' \<noteq> 0 \<and> active_goals_mask gs' = active_goals_mask gs \<and>
    held gs' = held gs @ [(rule_of g, map_option (take n) d, i)] \<and> queue_task gs' = queue_task gs \<and> GoalsEngine_IsGoalQueued gs' g"
proof -
  obtain i where i: "queue_slot gs g = Some i" "i < INITIAL_GOAL_QUEUE_COUNT"
      "pg_id (pending_goals gs ! i) = g \<or> pending_goals gs ! i = no_goal \<and> g \<notin> pg_id ` set (pending_goals gs)"
    using queue_has_room [OF assms(1,2)] by blast
  let ?es = "pending_goals gs" and ?w = "waits t (active_goals_mask gs) g"
  let ?e = "\<lparr>pg_id = g, pg_rule_id = rule_of g, pg_lock = SET_LOCK_FROM_MASK ?w, pg_lock_mask = ?w\<rparr>"
  let ?gs = "gs\<lparr>pending_goals := ?es[i := ?e], held := held gs @ [(rule_of g, map_option (take n) d, i)],
      queue_msg_count := queue_msg_count gs + 1,
      queue_msg_count_max := max (queue_msg_count gs + 1) (queue_msg_count_max gs)\<rparr>"
  have q: "queue_ok gs" "slots_ok gs" "compatible gs" using assms(1) by (simp_all add: working_def)
  have len: "length ?es = INITIAL_GOAL_QUEUE_COUNT" using q(1) by (simp add: queue_ok_def)
  have ids: "distinct (filter (\<lambda>g. g \<noteq> 0) (map pg_id (?es[i := ?e])))"
    unfolding map_update using q(1) i(2,3) len by (intro nonzero_ids_update) (auto simp: queue_ok_def)
  have same: "pg_id (?es[i := ?e] ! j) = pg_id (?es ! j)" if "(r, b, j) \<in> set (held gs)" for r b j
  proof (cases "j = i")
    case True
    then have "goal (pg_id (?es ! i))" using q(1) that by (auto simp: queue_ok_def)
    then have "pg_id (?es ! i) = g" using i(3) by (auto simp: goal_def)
    then show ?thesis using True i(2) len by simp
  qed simp
  have held: "\<forall>(r, b, j) \<in> set (held gs @ [(rule_of g, map_option (take n) d, i)]).
      j < INITIAL_GOAL_QUEUE_COUNT \<and> goal (pg_id (?es[i := ?e] ! j)) \<and> r = rule_of (pg_id (?es[i := ?e] ! j))"
    using q(1) same i(2) len assms(2) by (fastforce simp: queue_ok_def)
  have "slots_ok ?gs"
    using q(2) set_update_subset_insert [of ?es i ?e] assms(2) by (auto simp: slots_ok_def slot_ok_def)
  moreover have "queue_ok ?gs"
    using q(1) held ids assms(2,3) len i(2) by (simp add: queue_ok_def unat_Suc)
  moreover have "compatible ?gs" using q(3) by (simp add: compatible_def)
  moreover have "GoalsEngine_IsGoalQueued ?gs g"
    using i(2) len set_update_memI [of i ?es ?e] by (force simp: GoalsEngine_IsGoalQueued_def)
  moreover have "queue_msg_count ?gs \<noteq> 0" using unat_Suc [OF assms(3)] by (auto simp: unat_eq_0)
  ultimately show ?thesis using i(1) by (auto simp: goalsEngine_QueueGoal_def working_def Let_def)
qed

end

context goal_procedures
begin

text \<open>Starting a goal that lists every goal that runs.\<close>

lemma updated_slot:
  assumes "slot_ok m e"
  shows "slot_ok m' (update_mask t m' e)"
proof (cases "e = no_goal")
  case False
  then have e: "goal (pg_id e)" "pg_rule_id e = rule_of (pg_id e)" "pg_lock e = SET_LOCK_FROM_MASK (pg_lock_mask e)"
    using assms by (auto simp: slot_ok_def)
  then have "pg_rule_id e \<noteq> 0" using rules_nonzero by (simp add: goal_def)
  then have u: "update_mask t m' e = (if waits t m' (pg_id e) \<noteq> pg_lock_mask e
      then e\<lparr>pg_lock_mask := waits t m' (pg_id e), pg_lock := SET_LOCK_FROM_MASK (waits t m' (pg_id e))\<rparr> else e)"
    by (simp add: update_mask_def waits_def goalsEngine_GoalRunsConcurrently_def Let_def)
  show ?thesis unfolding u using e by (auto simp: slot_ok_def)
qed (simp add: update_mask_def)

lemma update_mask_id [simp]: "pg_id (update_mask t m e) = pg_id e" "pg_rule_id (update_mask t m e) = pg_rule_id e"
  by (simp_all add: update_mask_def Let_def)

lemma started:
  assumes "working gs" "goal g" "\<And>h. \<lbrakk>active gs h; h \<noteq> g\<rbrakk> \<Longrightarrow> lists t g h"
    and "goalsEngine_StartGoal t gs g d = Some gs'"
  shows "steady (goalsEngine_ResetPendingQueueIfEmpty gs')" "active gs' k \<longleftrightarrow> active gs k \<or> k = g"
    "held gs' = held gs" "queue_msg_count gs' = queue_msg_count gs" "queue_task gs' = queue_task gs"
proof -
  let ?m = "active_goals_mask gs OR GOAL_MASK g"
  obtain gs1 where gs1: "start_procedure t g d (gs\<lparr>active_goals_mask := ?m\<rparr>) = Some gs1"
      "gs' = goalsEngine_UpdateQueueMasks t gs1"
    using assms(4) unfolding goalsEngine_StartGoal_def by auto
  obtain e where e: "gs1 = gs\<lparr>active_goals_mask := ?m, gs_env := e\<rparr>"
    using start_law [OF _ _ gs1(1)] assms(2) by (auto simp: goal_def)
  have gs': "gs' = gs\<lparr>active_goals_mask := ?m, gs_env := e, pending_goals :=
      (if queue_msg_count gs \<noteq> 0 then map (update_mask t ?m) (pending_goals gs) else pending_goals gs)\<rparr>"
    unfolding gs1(2) e by (simp add: goalsEngine_UpdateQueueMasks_def)
  have bit: "bit ?m k \<longleftrightarrow> bit (active_goals_mask gs) k \<or> k = g" for k
    using goal_less_64 [OF assms(2)] by (auto simp: bit_or_iff bit_GOAL_MASK)
  then show "active gs' k \<longleftrightarrow> active gs k \<or> k = g" by (simp add: gs')
  show "held gs' = held gs" "queue_msg_count gs' = queue_msg_count gs" "queue_task gs' = queue_task gs"
    by (simp_all add: gs')
  have "compatible gs'"
    using assms(1-3) by (auto simp: working_def compatible_def gs' bit)
  then have c: "compatible (goalsEngine_ResetPendingQueueIfEmpty gs')"
    by (simp add: compatible_def goalsEngine_ResetPendingQueueIfEmpty_def)
  have q: "queue_ok gs" "slots_ok gs" using assms(1) by (simp_all add: working_def)
  show "steady (goalsEngine_ResetPendingQueueIfEmpty gs')"
  proof (cases "queue_msg_count gs = 0")
    case True
    have none: "filter (\<lambda>g. g \<noteq> 0) (map pg_id (map (\<lambda>_. no_goal) es)) = []" for es :: "pending_goal_entry list"
      by (simp add: filter_empty_conv)
    then have "queue_ok (goalsEngine_ResetPendingQueueIfEmpty gs')"
      using q(1) True count_zero [OF q(1) True]
      by (simp add: queue_ok_def gs' goalsEngine_ResetPendingQueueIfEmpty_def goalsEngine_GoalQueueSize_def)
    then show ?thesis
      using c True by (auto simp: steady_def working_def slots_ok_def gs'
          goalsEngine_ResetPendingQueueIfEmpty_def goalsEngine_GoalQueueSize_def)
  next
    case False
    then have r: "goalsEngine_ResetPendingQueueIfEmpty gs' = gs'"
      by (simp add: gs' goalsEngine_ResetPendingQueueIfEmpty_def goalsEngine_GoalQueueSize_def unat_eq_0)
    have "slots_ok gs'" using q(2) False by (auto simp: slots_ok_def gs' intro: updated_slot)
    moreover have "queue_ok gs'"
      using q(1) False by (fastforce simp: queue_ok_def gs' o_def)
    ultimately show ?thesis using c r False by (simp add: steady_def working_def gs')
  qed
qed

end

context goal_procedures
begin

text \<open>A decision starts its goal or queues it.\<close>

lemma dequeued_count:
  assumes "queue_ok gs"
  shows "queue_msg_count (goalsEngine_DequeGoal gs g) \<le> queue_msg_count gs"
proof (cases "find_slot (\<lambda>e. pg_id e = g) (pending_goals gs)")
  case None
  then show ?thesis by (simp add: goalsEngine_DequeGoal_def)
next
  case (Some i)
  let ?n = "length (filter (\<lambda>(r, _). r = pg_rule_id (pending_goals gs ! i)) (held gs))"
  have "?n \<le> length (held gs)" by simp
  also have "\<dots> \<le> unat (queue_msg_count gs)" using assms by (simp add: queue_ok_def)
  finally have "unat (queue_msg_count gs - of_nat ?n) = unat (queue_msg_count gs) - ?n"
    by (rule unat_minus_of_nat)
  then show ?thesis using Some by (simp add: goalsEngine_DequeGoal_def word_le_nat_alt Let_def)
qed

lemma exclusive_cancelled:
  assumes "working gs" "goal g"
    and "goalsEngine_HandleExclusiveGoals t gs g (waits t (active_goals_mask gs) g) = Some (w, gs')"
  shows "working gs' \<and> w = waits t (active_goals_mask gs') g \<and> queue_msg_count gs' \<le> queue_msg_count gs \<and>
    queue_task gs' = queue_task gs"
proof -
  let ?ex = "exclusive_goal (goals t ! g)"
  show ?thesis
  proof (cases "?ex \<noteq> GOAL_ID_NONE \<and> ?ex < length (goals t) \<and> GoalsEngine_IsGoalActive gs ?ex")
    case False
    then show ?thesis using assms by (auto simp: goalsEngine_HandleExclusiveGoals_def Let_def)
  next
    case True
    then have ex: "goal ?ex" by (simp add: goal_def GOAL_ID_NONE_def)
    note a = active_iff [OF goal_less_64 [OF ex]]
    obtain gs2 where gs2: "goalsEngine_CancelGoal t (goalsEngine_DequeGoal gs ?ex) ?ex = Some gs2" "gs' = gs2"
        "w = (if \<not> GoalsEngine_IsGoalActive gs2 ?ex then REMOVE_GOAL_FROM_MASK (waits t (active_goals_mask gs) g) ?ex
              else waits t (active_goals_mask gs) g)"
      using assms(3) True by (auto simp: goalsEngine_HandleExclusiveGoals_def Let_def split: bind_splits)
    note d = dequeued_working [OF assms(1) ex]
    note c = cancel_working [OF d(1) ex gs2(1)]
    have "queue_ok gs" using assms(1) by (simp add: working_def)
    note n = dequeued_count [OF this, of ?ex]
    show ?thesis using c d(2,4) n gs2(2,3) True goal_less_64 [OF ex] by (auto simp: a waits_remove bit_REMOVE)
  qed
qed

lemma activated:
  assumes "working gs" "goal g" "queue_msg_count gs < 255"
    and "activate t gs g new (rule_of g) d n = Some gs'"
  shows "steady (goalsEngine_ResetPendingQueueIfEmpty gs') \<and>
    queue_task (goalsEngine_ResetPendingQueueIfEmpty gs') = queue_task gs \<and>
    (active (goalsEngine_ResetPendingQueueIfEmpty gs') g \<or>
     GoalsEngine_IsGoalQueued (goalsEngine_ResetPendingQueueIfEmpty gs') g)"
    (is "?done gs'")
proof -
  have reset: "active_goals_mask (goalsEngine_ResetPendingQueueIfEmpty gs1) = active_goals_mask gs1"
    "queue_task (goalsEngine_ResetPendingQueueIfEmpty gs1) = queue_task gs1" for gs1
    by (simp_all add: goalsEngine_ResetPendingQueueIfEmpty_def)
  have start: "?done gs2"
    if "working gs1" "\<And>h. \<lbrakk>active gs1 h; h \<noteq> g\<rbrakk> \<Longrightarrow> lists t g h" "queue_task gs1 = queue_task gs"
      "goalsEngine_StartGoal t gs1 g d = Some gs2" for gs1 gs2
    using started [OF that(1) assms(2) that(2,4)] that(3) by (simp add: reset)
  have queue: "?done gs2"
    if "working gs1" "queue_msg_count gs1 < 255" "queue_task gs1 = queue_task gs"
      "goalsEngine_QueueGoal gs1 (rule_of g) d n (waits t (active_goals_mask gs1) g) g = Some gs2" for gs1 gs2
    using queued_working [OF that(1) assms(2) that(2), of d n] that(3,4)
    by (auto simp: goalsEngine_ResetPendingQueueIfEmpty_def goalsEngine_GoalQueueSize_def unat_eq_0 steady_def)
  show ?thesis
  proof (cases "goalsEngine_GoalCanRunNow gs new")
    case True
    then show ?thesis
      using assms(1,4) start [of gs gs'] by (simp add: activate_def goalsEngine_GoalCanRunNow_def GOAL_MASK_NONE_def)
  next
    case no: False
    show ?thesis
    proof (cases "goalsEngine_GoalCancelsActive t g")
      case True
      then have nc: "waits t m g = m" for m
        by (simp add: waits_def goalsEngine_GoalCancelsActive_def goalsEngine_GoalRunsConcurrently_def)
      obtain gs1 where gs1:
          "cancel_loop 64 t (active_goals_mask gs) (goalsEngine_ClearPendingGoalsQueue gs) = Some gs1"
          "(if active_goals_mask gs1 = 0 \<and> goalsEngine_GoalCanRunNow gs1 new then goalsEngine_StartGoal t gs1 g d
            else goalsEngine_QueueGoal gs1 (rule_of g) d n (active_goals_mask gs1) g) = Some gs'"
        using assms(4) no True
        by (auto simp: activate_def goalsEngine_CheckIfNewGoalCancelsActiveGoals_def
            simp del: cancel_loop.simps split: bind_splits)
      have "\<And>k. bit (active_goals_mask gs) k \<Longrightarrow> goal k" using assms(1) by (simp add: working_def compatible_def)
      note l = cancel_loop_working [OF cleared_queue(1) [OF assms(1)] this gs1(1)]
      have "queue_msg_count (goalsEngine_ClearPendingGoalsQueue gs) = 0"
        "queue_task (goalsEngine_ClearPendingGoalsQueue gs) = queue_task gs"
        by (simp_all add: goalsEngine_ClearPendingGoalsQueue_def goalsEngine_ResetPendingQueueIfEmpty_def)
      then show ?thesis
        using gs1(2) l start [of gs1 gs'] queue [of gs1 gs'] nc by (auto split: if_splits)
    next
      case False
      obtain w gs1 where gs1:
          "goalsEngine_HandleExclusiveGoals t gs g (waits t (active_goals_mask gs) g) = Some (w, gs1)"
          "(if goalsEngine_GoalRunsConcurrently t g \<and> w = 0 \<or> goalsEngine_GoalCanRunNow gs1 new
            then goalsEngine_StartGoal t gs1 g d
            else goalsEngine_QueueGoal gs1 (rule_of g) d n w g) = Some gs'"
        using assms(4) no False
        by (auto simp: activate_def goalsEngine_CheckIfNewGoalCancelsActiveGoals_def waits_def
            goalsEngine_HandleConcurrentGoals_def split: bind_splits if_splits)
      note x = exclusive_cancelled [OF assms(1,2) gs1(1)]
      have "lists t g h" if "active gs1 h" "w = 0 \<or> goalsEngine_GoalCanRunNow gs1 new" for h
      proof -
        have "w = waits t (active_goals_mask gs1) g" using x by simp
        then have "w \<noteq> 0 \<or> lists t g h" using that(1) bit_waits [of t "active_goals_mask gs1" g h] by auto
        then show ?thesis using that by (auto simp: goalsEngine_GoalCanRunNow_def GOAL_MASK_NONE_def)
      qed
      then show ?thesis
        using gs1(2) x start [of gs1 gs'] queue [of gs1 gs'] assms(3) by (auto split: if_splits)
    qed
  qed
qed

end

section \<open>Decisions and deliveries\<close>

lemma take_due_Some:
  assumes "take_due es hs = Some ((r, d), hs')"
  shows "\<exists>i. (r, d, i) \<in> set hs \<and> pg_lock (es ! i) = 0 \<and> set hs' \<subseteq> set hs \<and> length hs = Suc (length hs')"
  using assms
proof (induction hs arbitrary: hs')
  case (Cons h hs)
  obtain r1 d1 i1 where h: "h = (r1, d1, i1)" by (cases h)
  show ?case
  proof (cases "pg_lock (es ! i1) = 0")
    case False
    then obtain m hs2 where "take_due es hs = Some (m, hs2)" "hs' = (r1, d1, i1) # hs2" "m = (r, d)"
      using Cons.prems h by auto
    then show ?thesis using Cons.IH [of hs2] h by auto
  qed (use Cons.prems h in auto)
qed simp

lemma take_due_None: "take_due es hs = None \<longleftrightarrow> (\<forall>(r, d, i) \<in> set hs. pg_lock (es ! i) \<noteq> 0)"
  by (induction hs) (auto split: if_splits)

context goal_procedures
begin

lemma duplicate_steady:
  assumes "working gs" "goal g" "goalsEngine_HandleDuplicateCancellationGoal t gs g = (True, gs')"
  shows "steady gs' \<and> queue_task gs' = queue_task gs \<and> active gs' g"
proof -
  have "GoalsEngine_IsGoalActive gs g" "gs' = goalsEngine_ClearPendingGoalsQueue gs"
    using assms(3) by (auto simp: goalsEngine_HandleDuplicateCancellationGoal_def split: if_splits)
  then show ?thesis
    using cleared_queue(3,4) [OF assms(1)] active_iff [OF goal_less_64 [OF assms(2)], of gs]
    by (auto simp: goalsEngine_ClearPendingGoalsQueue_def goalsEngine_ResetPendingQueueIfEmpty_def)
qed

lemma decided:
  assumes "working gs" "goal g" "queue_msg_count gs < 255"
    and "(case goalsEngine_HandleDuplicateCancellationGoal t gs g of
       (True, gs) \<Rightarrow> Some gs
     | (False, gs) \<Rightarrow> map_option goalsEngine_ResetPendingQueueIfEmpty
         (activate t gs g new (rule_of g) d n)) = Some gs'"
  shows "steady gs' \<and> queue_task gs' = queue_task gs \<and> (active gs' g \<or> GoalsEngine_IsGoalQueued gs' g)"
proof (cases "goalsEngine_HandleDuplicateCancellationGoal t gs g")
  case (Pair dup gs1)
  show ?thesis
  proof (cases dup)
    case True
    then show ?thesis using duplicate_steady [OF assms(1,2)] assms(4) Pair by auto
  next
    case False
    then have "gs1 = gs"
      using Pair by (auto simp: goalsEngine_HandleDuplicateCancellationGoal_def split: if_splits)
    then show ?thesis using activated [OF assms(1-3)] assms(4) Pair False by auto
  qed
qed

lemma new_decision:
  assumes "steady gs" "goal g" "task \<noteq> queue_task gs" "queue_msg_count gs < 255"
    and "GoalsEngine_ActivateGoal t gs g task (rule_of g) d n = Some gs'"
  shows "steady gs'" "queue_task gs' = queue_task gs" "active gs' g \<or> GoalsEngine_IsGoalQueued gs' g"
proof -
  have "working gs" using assms(1) by (simp add: steady_def)
  then show "steady gs'" "queue_task gs' = queue_task gs" "active gs' g \<or> GoalsEngine_IsGoalQueued gs' g"
    using decided [of gs g True d n gs'] assms(2-5)
    by (simp_all add: GoalsEngine_ActivateGoal_def goal_def GOAL_ID_NONE_def)
qed

lemma delivered_working:
  assumes "steady gs" "take_due (pending_goals gs) (held gs) = Some ((r, d), hs)"
  shows "working (gs\<lparr>held := hs, queue_msg_count := queue_msg_count gs - 1\<rparr>)" "queue_msg_count gs - 1 < 255"
    "\<exists>i < INITIAL_GOAL_QUEUE_COUNT. goal (pg_id (pending_goals gs ! i)) \<and> r = rule_of (pg_id (pending_goals gs ! i)) \<and>
       pg_lock (pending_goals gs ! i) = 0"
proof -
  obtain i where i: "(r, d, i) \<in> set (held gs)" "pg_lock (pending_goals gs ! i) = 0" "set hs \<subseteq> set (held gs)"
      "length (held gs) = Suc (length hs)"
    using take_due_Some [OF assms(2)] by blast
  have q: "queue_ok gs" "slots_ok gs" "compatible gs" using assms(1) by (simp_all add: steady_def working_def)
  have n: "Suc (length hs) \<le> unat (queue_msg_count gs)" using q(1) i(4) by (simp add: queue_ok_def)
  then have u: "unat (queue_msg_count gs - 1) = unat (queue_msg_count gs) - 1"
    using unat_minus_of_nat [of 1 "queue_msg_count gs"] by simp
  then show "queue_msg_count gs - 1 < 255"
    using unsigned_less [where ?'a = nat, of "queue_msg_count gs"] n by (simp add: word_less_nat_alt)
  have "queue_ok (gs\<lparr>held := hs, queue_msg_count := queue_msg_count gs - 1\<rparr>)"
    using q(1) i(3) u n by (auto simp: queue_ok_def)
  then show "working (gs\<lparr>held := hs, queue_msg_count := queue_msg_count gs - 1\<rparr>)"
    using q(2,3) by (simp add: working_def slots_ok_def compatible_def)
  show "\<exists>i < INITIAL_GOAL_QUEUE_COUNT. goal (pg_id (pending_goals gs ! i)) \<and>
      r = rule_of (pg_id (pending_goals gs ! i)) \<and> pg_lock (pending_goals gs ! i) = 0"
    using q(1) i(1,2) by (auto simp: queue_ok_def)
qed

lemma delivery:
  assumes "steady gs" "take_due (pending_goals gs) (held gs) = Some ((rule_of g, d0), hs)" "goal g"
    and "GoalsEngine_ActivateGoal t (gs\<lparr>held := hs\<rparr>) g (queue_task gs) (rule_of g) d n = Some gs'"
  shows "steady gs'" "queue_task gs' = queue_task gs" "active gs' g \<or> GoalsEngine_IsGoalQueued gs' g"
proof -
  note w = delivered_working [OF assms(1,2)]
  show "steady gs'" "queue_task gs' = queue_task gs" "active gs' g \<or> GoalsEngine_IsGoalQueued gs' g"
    using decided [OF w(1) assms(3), of False d n gs'] w(2) assms(3,4)
    by (simp_all add: GoalsEngine_ActivateGoal_def goal_def GOAL_ID_NONE_def)
qed

text \<open>When nothing runs, every message held is due; a goal waits just for what it may not run with.\<close>

lemma nothing_stuck:
  assumes "steady gs" "active_goals_mask gs = 0" "held gs \<noteq> []"
  shows "take_due (pending_goals gs) (held gs) \<noteq> None"
proof -
  obtain r d i where i: "(r, d, i) \<in> set (held gs)" using assms(3) by (cases "held gs") auto
  have q: "queue_ok gs" "slots_ok gs" using assms(1) by (simp_all add: steady_def working_def)
  then have "slot_ok 0 (pending_goals gs ! i)" using i assms(2) by (auto simp: queue_ok_def slots_ok_def)
  then have "pg_lock (pending_goals gs ! i) = 0"
    by (auto simp: slot_ok_def waits_def SET_LOCK_FROM_MASK_def GOAL_MASK_NONE_def)
  then show ?thesis unfolding take_due_None using i by blast
qed

lemma lock_clear_iff:
  assumes "steady gs" "e \<in> set (pending_goals gs)" "pg_id e \<noteq> GOAL_ID_NONE"
  shows "pg_lock e = 0 \<longleftrightarrow> (\<forall>h. active gs h \<longrightarrow> lists t (pg_id e) h)"
proof -
  have "slot_ok (active_goals_mask gs) e" using assms(1,2) by (simp add: steady_def working_def slots_ok_def)
  then have e: "pg_lock_mask e = waits t (active_goals_mask gs) (pg_id e)" "pg_lock e = SET_LOCK_FROM_MASK (pg_lock_mask e)"
    using assms(3) by (auto simp: slot_ok_def GOAL_ID_NONE_def)
  have "waits t (active_goals_mask gs) (pg_id e) = 0 \<longleftrightarrow> (\<forall>h. active gs h \<longrightarrow> lists t (pg_id e) h)"
    unfolding bits_eq by (auto simp: bit_waits)
  then show ?thesis using e by (simp add: SET_LOCK_FROM_MASK_def GOAL_MASK_NONE_def GOAL_LOCK_MASK_BIT_def)
qed

end

section \<open>Invariants of the environment\<close>

text \<open>What every procedure keeps of its own state, the engine keeps.\<close>

locale kept_by_procedures = goal_procedures t rule_of
  for t :: "'s goal_table" and rule_of :: "goal_id \<Rightarrow> u16" +
  fixes P :: "'s \<Rightarrow> bool"
  assumes start_keeps: "\<lbrakk>0 < g; g < length (goals t); P (gs_env gs); start_procedure t g d gs = Some gs'\<rbrakk> \<Longrightarrow> P (gs_env gs')"
    and cancel_keeps: "\<lbrakk>0 < g; g < length (goals t); P (gs_env gs); goalsEngine_CancelGoal t gs g = Some gs'\<rbrakk> \<Longrightarrow>
      P (gs_env gs')"
begin

lemma queue_functions_env [simp]:
  "gs_env (goalsEngine_DequeGoal gs g) = gs_env gs" "gs_env (goalsEngine_ResetPendingQueueIfEmpty gs) = gs_env gs"
  "gs_env (goalsEngine_ClearPendingGoalsQueue gs) = gs_env gs" "gs_env (goalsEngine_UpdateQueueMasks t gs) = gs_env gs"
  "active_goals_mask (goalsEngine_DequeGoal gs g) = active_goals_mask gs"
  "active_goals_mask (goalsEngine_ClearPendingGoalsQueue gs) = active_goals_mask gs"
  by (simp_all add: goalsEngine_DequeGoal_def goalsEngine_ResetPendingQueueIfEmpty_def Let_def
      goalsEngine_ClearPendingGoalsQueue_def goalsEngine_UpdateQueueMasks_def split: option.split)

lemma queue_goal_env: "goalsEngine_QueueGoal gs r d n w g = Some gs' \<Longrightarrow> gs_env gs' = gs_env gs"
  by (auto simp: goalsEngine_QueueGoal_def Let_def split: option.splits)

lemma start_goal_env:
  assumes "goal g" "P (gs_env gs)" "goalsEngine_StartGoal t gs g d = Some gs'"
  shows "P (gs_env gs')"
proof -
  obtain gs1 where "start_procedure t g d (gs\<lparr>active_goals_mask := active_goals_mask gs OR GOAL_MASK g\<rparr>) = Some gs1"
      "gs' = goalsEngine_UpdateQueueMasks t gs1"
    using assms(3) unfolding goalsEngine_StartGoal_def by auto
  then show ?thesis using start_keeps [of g "gs\<lparr>active_goals_mask := active_goals_mask gs OR GOAL_MASK g\<rparr>"] assms(1,2)
    by (simp add: goal_def)
qed

lemma cancel_loop_env:
  assumes "\<And>k. bit m k \<Longrightarrow> goal k" "P (gs_env gs)" "cancel_loop fuel t m gs = Some gs'"
  shows "P (gs_env gs')"
  using assms
proof (induction fuel arbitrary: m gs)
  case (Suc fuel)
  show ?case
  proof (cases "m = 0")
    case False
    have f: "goalsEngine_FirstGoalFromMask t m = Some (LEAST k. bit m k)" "bit m (LEAST k. bit m k)"
      using first_goal [OF False, of t] Suc.prems(1) by (auto simp: goal_def)
    let ?k = "LEAST k. bit m k"
    obtain gs1 where gs1: "goalsEngine_CancelGoal t gs ?k = Some gs1"
        "cancel_loop fuel t (REMOVE_GOAL_FROM_MASK m ?k) gs1 = Some gs'"
      using Suc.prems(3) False f(1) by (auto split: bind_splits)
    have "P (gs_env gs1)"
      using cancel_keeps [OF _ _ Suc.prems(2) gs1(1)] Suc.prems(1) [OF f(2)] by (simp add: goal_def)
    moreover have "\<And>j. bit (REMOVE_GOAL_FROM_MASK m ?k) j \<Longrightarrow> goal j" using Suc.prems(1) by (simp add: bit_REMOVE)
    ultimately show ?thesis using Suc.IH gs1(2) by blast
  qed (use Suc.prems in auto)
qed (auto split: if_splits)

lemma exclusive_env:
  assumes "P (gs_env gs)" "goalsEngine_HandleExclusiveGoals t gs g w = Some (w', gs')"
  shows "P (gs_env gs')"
proof -
  let ?ex = "exclusive_goal (goals t ! g)"
  show ?thesis
  proof (cases "?ex \<noteq> GOAL_ID_NONE \<and> ?ex < length (goals t) \<and> GoalsEngine_IsGoalActive gs ?ex")
    case True
    then have "goalsEngine_CancelGoal t (goalsEngine_DequeGoal gs ?ex) ?ex = Some gs'"
      using assms(2) by (auto simp: goalsEngine_HandleExclusiveGoals_def Let_def split: bind_splits)
    then show ?thesis
      using cancel_keeps [of ?ex "goalsEngine_DequeGoal gs ?ex"] True assms(1) by (simp add: GOAL_ID_NONE_def)
  qed (use assms in \<open>auto simp: goalsEngine_HandleExclusiveGoals_def Let_def\<close>)
qed

lemma activate_env:
  assumes "\<And>k. active gs k \<Longrightarrow> goal k" "goal g" "P (gs_env gs)" "activate t gs g new r d n = Some gs'"
  shows "P (gs_env gs')"
proof -
  have finish: "P (gs_env gs')"
    if "P (gs_env gs1)" "(if c then goalsEngine_StartGoal t gs1 g d else goalsEngine_QueueGoal gs1 r d n w g) = Some gs'"
    for gs1 c w
    using that start_goal_env [OF assms(2)] by (cases c) (auto dest!: queue_goal_env)
  show ?thesis
  proof (cases "goalsEngine_GoalCanRunNow gs new")
    case True
    then show ?thesis using assms finish [of gs True] by (simp add: activate_def)
  next
    case no: False
    show ?thesis
    proof (cases "goalsEngine_GoalCancelsActive t g")
      case True
      then obtain gs1 where gs1:
          "cancel_loop 64 t (active_goals_mask gs) (goalsEngine_ClearPendingGoalsQueue gs) = Some gs1"
          "(if active_goals_mask gs1 = 0 \<and> goalsEngine_GoalCanRunNow gs1 new then goalsEngine_StartGoal t gs1 g d
            else goalsEngine_QueueGoal gs1 r d n (active_goals_mask gs1) g) = Some gs'"
        using assms(4) no
        by (auto simp: activate_def goalsEngine_CheckIfNewGoalCancelsActiveGoals_def
            simp del: cancel_loop.simps split: bind_splits)
      have "P (gs_env gs1)" using cancel_loop_env [OF assms(1) _ gs1(1)] assms(3) by simp
      then show ?thesis using gs1(2) by (rule finish)
    next
      case False
      obtain w0 w gs1 where gs1: "goalsEngine_HandleExclusiveGoals t gs g w0 = Some (w, gs1)"
          "(if goalsEngine_GoalRunsConcurrently t g \<and> w = 0 \<or> goalsEngine_GoalCanRunNow gs1 new
            then goalsEngine_StartGoal t gs1 g d else goalsEngine_QueueGoal gs1 r d n w g) = Some gs'"
        using assms(4) no False
        by (auto simp: activate_def goalsEngine_CheckIfNewGoalCancelsActiveGoals_def
            goalsEngine_HandleConcurrentGoals_def split: bind_splits if_splits)
      then show ?thesis using exclusive_env [OF assms(3)] finish by blast
    qed
  qed
qed

lemma activate_goal_env:
  assumes "compatible gs" "P (gs_env gs)" "GoalsEngine_ActivateGoal t gs g task r d n = Some gs'"
  shows "P (gs_env gs')"
proof -
  let ?gs = "if task \<noteq> queue_task gs then gs else gs\<lparr>queue_msg_count := queue_msg_count gs - 1\<rparr>"
  have a: "\<And>k. active ?gs k \<Longrightarrow> goal k" "P (gs_env ?gs)"
    using assms(1,2) by (auto simp: compatible_def split: if_splits)
  show ?thesis
  proof (cases "g = GOAL_ID_NONE")
    case False
    then have g: "goal g" using assms(3)
      by (auto simp: GoalsEngine_ActivateGoal_def goal_def GOAL_ID_NONE_def Let_def split: if_splits)
    show ?thesis
    proof (cases "goalsEngine_HandleDuplicateCancellationGoal t ?gs g")
      case (Pair dup gs1)
      then have e: "gs_env gs1 = gs_env gs" "\<not> dup \<Longrightarrow> gs1 = ?gs"
        by (auto simp: goalsEngine_HandleDuplicateCancellationGoal_def split: if_splits)
      have "(case goalsEngine_HandleDuplicateCancellationGoal t ?gs g of (True, s) \<Rightarrow> Some s
          | (False, s) \<Rightarrow> map_option goalsEngine_ResetPendingQueueIfEmpty
              (activate t s g (task \<noteq> queue_task gs) r d n)) = Some gs' \<or> gs' = gs1"
        using assms(3) False g Pair
        by (auto simp: GoalsEngine_ActivateGoal_def goal_def Let_def split: bool.splits if_splits)
      then show ?thesis
        using activate_env [OF a(1) g a(2)] Pair e assms(2) by (cases dup) auto
    qed
  qed (use assms in \<open>simp add: GoalsEngine_ActivateGoal_def Let_def\<close>)
qed

end

end
