(* ===== verification/Headset_Goals.thy ===== *)
theory Headset_Goals
  imports Headset_Topology Goals_Contention
begin

text \<open>
  The procedures of the headset keep the contract of the goals engine, which is interpreted here, and
  every step of a headset keeps the invariants of its goal set and its rule set.
\<close>

section \<open>Procedures change their own state\<close>

lemma env_only_core:
  "env_only gs gs' \<Longrightarrow> active_goals_mask gs' = active_goals_mask gs \<and> queue_task gs' = queue_task gs \<and>
     queue_msg_count gs' = queue_msg_count gs \<and> pending_goals gs' = pending_goals gs \<and> held gs' = held gs \<and>
     proc_result_task gs' = proc_result_task gs"
  by (auto simp: env_only_def)

lemma start_cfm_same: "start_cfm fn p r gs = Some gs' \<Longrightarrow> gs' = gs"
  by (auto simp: start_cfm_def scriptEngine_ProcStartCfm_def split: cfm_client.splits if_splits)

lemma delay_env:
  "Procedures_DelayedCompleteCfmCallback fn p r gs = Some gs' \<Longrightarrow> \<exists>k. gs' = with_delayed k gs"
  "Procedures_DelayedCancelCfmCallback fn p r gs = Some gs' \<Longrightarrow> \<exists>k. gs' = with_delayed k gs"
  by (auto simp: Procedures_DelayedCompleteCfmCallback_def Procedures_DelayedCancelCfmCallback_def split: if_splits)

lemma same_rules_with [simp]:
  "hs_rules (env (request rs gs)) = hs_rules (env gs)"
  "con_complete_fn (env (request rs gs)) = con_complete_fn (env gs)"
  "dis_complete_fn (env (request rs gs)) = dis_complete_fn (env gs)"
  by (simp_all add: request_def)

text \<open>A procedure that changes neither the goal set nor the rule set, started or cancelled.\<close>

definition modest_step :: "headset \<Rightarrow> headset \<Rightarrow> bool" where
  "modest_step gs gs' \<longleftrightarrow> env_only gs gs' \<and> hs_rules (env gs') = hs_rules (env gs)"

lemma modest_step_refl: "modest_step gs gs"
  by (simp add: modest_step_def env_only_refl)

lemma modest_step_engine: "modest_step gs (with_engine f gs)"
  by (simp add: modest_step_def env_only_with)

lemma modest_step_trans: "\<lbrakk>modest_step gs1 gs2; modest_step gs2 gs3\<rbrakk> \<Longrightarrow> modest_step gs1 gs3"
  by (auto simp: modest_step_def intro: env_only_trans)

definition modest :: "headset_env procedure_t \<Rightarrow> bool" where
  "modest p \<longleftrightarrow> (\<forall>fn d gs gs'. p_start p fn d gs = Some gs' \<longrightarrow> modest_step gs gs') \<and>
     (\<forall>fn gs gs'. p_cancel p fn gs = Some gs' \<longrightarrow> modest_step gs gs')"

lemmas proc_defs = hs_proc_connect_handset_fns_def HeadsetTopology_ProcedureConnectHandsetStart_def
  HeadsetTopology_ProcedureConnectHandsetCancel_def headsetTopology_ProcConnectHandsetResetProc_def
  hs_proc_disconnect_handset_fns_def HeadsetTopology_ProcedureDisconnectHandsetStart_def
  HeadsetTopology_ProcedureDisconnectHandsetCancel_def headsetTopology_ProcDisconnectHandsetResetProc_def
  hs_proc_enable_connectable_handset_fns_def HeadsetTopology_ProcedureEnableConnectableHandsetStart_def
  HeadsetTopology_ProcedureEnableConnectableHandsetCancel_def
  hs_proc_allow_handset_connect_fns_def HeadsetTopology_ProcedureAllowHandsetConnectStart_def
  HeadsetTopology_ProcedureAllowHandsetConnectCancel_def
  hs_proc_allow_le_connection_fns_def HeadsetTopology_ProcAllowLEConnectionStart_def
  HeadsetTopology_ProcAllowLEConnectionCancel_def headsetTopology_ProcAllowLEConnectionResetProc_def
  hs_proc_start_stop_script_fns_def HeadsetTopology_ProcedureStartStopScriptStart_def
  HeadsetTopology_ProcedureStartStopScriptCancel_def headsetTopology_StopHasStarted_def
  hs_proc_send_topology_message_fns_def HeadsetTopology_ProcedureSendTopologyMessageStart_def
  HeadsetTopology_ProcedureSendTopologyMessageCancel_def

lemma modest:
  "modest hs_proc_connect_handset_fns" "modest hs_proc_disconnect_handset_fns"
  "modest hs_proc_enable_connectable_handset_fns" "modest hs_proc_allow_handset_connect_fns"
  "modest hs_proc_allow_le_connection_fns" "modest hs_proc_start_stop_script_fns"
  "modest (hs_proc_send_topology_message_fns m)"
  unfolding modest_def modest_step_def proc_defs procedure_t.select_convs Let_def
  by (auto dest!: start_cfm_same delay_env intro!: exI
      simp: env_only_def request_def with_rest_def with_delayed_def split: prod.splits if_splits bind_splits)

lemma script_modest: "(p, d) \<in> set headset_system_stop_script \<Longrightarrow> modest p"
  by (auto simp: headset_system_stop_script_def modest)

lemma script_length: "length headset_system_stop_script = 5"
  by (simp add: headset_system_stop_script_def)

section \<open>The contract of the goals engine\<close>

definition hs_rule_of :: "goal_id \<Rightarrow> u16" where
  "hs_rule_of g = [0, HSTOP_GOAL_CONNECTABLE_HANDSET, HSTOP_GOAL_ALLOW_HANDSET_CONNECT,
     HSTOP_GOAL_CONNECT_HANDSET, HSTOP_GOAL_DISCONNECT_HANDSET, HSTOP_GOAL_ALLOW_LE_CONNECTION,
     HSTOP_GOAL_SYSTEM_STOP] ! g"

lemma hsgoals_length [simp]: "length hsgoals = 7" "goals headset_goals = hsgoals"
  by (simp_all add: hsgoals_def headset_goals_def script_goal_table_def)

lemma goal_cases: "\<lbrakk>0 < g; g < 7\<rbrakk> \<Longrightarrow> g \<in> {1, 2, 3, 4, 5, 6}" for g :: nat
  by auto

lemmas hs_goal_ids = hs_topology_goal_none_def hs_topology_goal_connectable_handset_def
  hs_topology_goal_allow_handset_connect_def hs_topology_goal_connect_handset_def
  hs_topology_goal_disconnect_handset_def hs_topology_goal_allow_le_connection_def
  hs_topology_goal_system_stop_def

lemma proc_modest:
  assumes "0 < g" "g < 7"
  shows "(\<exists>p. proc_fns (hsgoals ! g) = Some (goal_fns p) \<and> modest p \<and> proc_script (hsgoals ! g) = None) \<or>
    proc_fns (hsgoals ! g) = None \<and> proc_script (hsgoals ! g) = Some 0"
  using goal_cases [OF assms]
  by (auto simp: hsgoals_def GOAL_WITH_CONCURRENCY_def GOAL_def SCRIPT_GOAL_CANCEL_def modest)

lemma start_script_env:
  assumes "ScriptEngine_StartScript headset_scripts task s proc gs = Some gs'"
  shows "modest_step gs gs'"
proof -
  let ?gs = "with_engine (\<lambda>td. td\<lparr>se_proc := proc, script_client := task, se_state := script_engine_active,
      next_step := 0, se_script := Some s\<rparr>) gs"
  have "p_start hs_proc_start_stop_script_fns script_cfm None ?gs = Some gs'"
    using assms by (simp add: ScriptEngine_StartScript_def scriptEngine_StartCurrentStep_def script_procs_def
        headset_scripts_def headset_system_stop_script_def split: if_splits)
  then have "modest_step ?gs gs'" using modest(6) by (auto simp: modest_def)
  then show ?thesis using modest_step_trans modest_step_engine by blast
qed

lemma cancel_script_env:
  assumes "ScriptEngine_CancelScript headset_scripts task gs = Some gs'"
  shows "modest_step gs gs'"
proof (cases "se_state (se gs) = script_engine_active")
  case True
  then obtain p d where p: "(p, d) \<in> set headset_system_stop_script"
      "p_cancel p script_cfm (with_engine (\<lambda>td. td\<lparr>se_state := script_engine_cancelling\<rparr>) gs) = Some gs'"
    using assms nth_mem [of "next_step (se gs)" headset_system_stop_script]
    by (cases "headset_system_stop_script ! next_step (se gs)")
       (auto simp: ScriptEngine_CancelScript_def script_procs_def headset_scripts_def Let_def
         split: if_splits bind_splits)
  have "modest_step (with_engine (\<lambda>td. td\<lparr>se_state := script_engine_cancelling\<rparr>) gs) gs'"
    using script_modest [OF p(1)] p(2) unfolding modest_def by blast
  then show ?thesis using modest_step_trans modest_step_engine by blast
qed (use assms modest_step_refl in \<open>auto simp: ScriptEngine_CancelScript_def split: if_splits\<close>)

lemma start_modest:
  assumes "0 < g" "g < length (goals headset_goals)" "start_procedure headset_goals g d gs = Some gs'"
  shows "modest_step gs gs'"
  using proc_modest [of g] assms start_script_env
  by (auto simp: start_procedure_def headset_goals_def script_goal_table_def modest_def goal_fns_def Let_def)

lemma cancel_modest:
  assumes "0 < g" "g < length (goals headset_goals)" "goalsEngine_CancelGoal headset_goals gs g = Some gs'"
  shows "modest_step gs gs'"
  using proc_modest [of g] assms cancel_script_env
  by (auto simp: goalsEngine_CancelGoal_def goalsEngine_IsScriptedGoal_def headset_goals_def
      script_goal_table_def modest_def goal_fns_def Let_def)

interpretation hg: goal_procedures headset_goals hs_rule_of
proof
  show "length (goals headset_goals) \<le> INITIAL_GOAL_QUEUE_COUNT + 1"
    by (simp add: INITIAL_GOAL_QUEUE_COUNT_def)
next
  fix g h :: goal_id
  assume g: "0 < g" "g < length (goals headset_goals)"
  then have gc: "g \<in> {1, 2, 3, 4, 5, 6}" using goal_cases by simp
  then show "hs_rule_of g \<noteq> 0" by (auto simp: hs_rule_of_def hstop_goals)
  assume h: "0 < h" "h < length (goals headset_goals)"
  then have hc: "h \<in> {1, 2, 3, 4, 5, 6}" using goal_cases by simp
  assume "hs_rule_of g = hs_rule_of h"
  then show "g = h" using gc hc by (auto simp: hs_rule_of_def hstop_goals)
next
  fix g d and gs gs' :: headset
  assume g: "0 < g" "g < length (goals headset_goals)" and s: "start_procedure headset_goals g d gs = Some gs'"
  show "\<exists>e. gs' = gs\<lparr>gs_env := e\<rparr>" using start_modest [OF g s] by (simp add: modest_step_def env_only_def)
next
  fix g and gs gs' :: headset
  assume g: "0 < g" "g < length (goals headset_goals)" and c: "goalsEngine_CancelGoal headset_goals gs g = Some gs'"
  show "\<exists>e. gs' = gs\<lparr>gs_env := e\<rparr> \<or> gs' = (GoalsEngine_ClearGoal gs g)\<lparr>gs_env := e\<rparr>"
    using cancel_modest [OF g c] by (auto simp: modest_step_def env_only_def)
qed

section \<open>The rule set\<close>

text \<open>What the topology keeps of its rule set: its messages go to the goal task.\<close>

definition rules_ok :: "headset_state rule_set \<Rightarrow> bool" where
  "rules_ok rs \<longleftrightarrow> hs.settled rs \<and> represents (nop_tasks rs) [] \<and> event_task rs = HeadsetTopologyGetGoalTask \<and>
     (\<forall>m \<in> set (msgs rs). fst m = HeadsetTopologyGetGoalTask)"

lemma announces_ok:
  assumes "rules_ok rs" "hs.settled rs'" "hs.announces rs rs'"
  shows "rules_ok rs'"
proof -
  obtain ms where ms: "msgs rs' = msgs rs @ ms" "map fst ms = map (\<lambda>_. event_task rs) (hs.newly rs rs')"
    using assms(3) by (auto simp: hs.announces_def)
  have "fst m = event_task rs" if "m \<in> set ms" for m
  proof -
    have "fst m \<in> set (map fst ms)" using that by simp
    then show ?thesis unfolding ms(2) by auto
  qed
  then show ?thesis using assms ms(1) by (auto simp: rules_ok_def hs.announces_def)
qed

lemma set_event_ok: "rules_ok rs \<Longrightarrow> \<exists>rs'. HeadsetTopologyRules_SetEvent event rs = Some rs' \<and> rules_ok rs'"
  using hs.set_event_settles [of rs event] announces_ok
  unfolding HeadsetTopologyRules_SetEvent_def rules_ok_def by blast

lemma set_complete_ok:
  assumes "rules_ok rs"
  shows "\<exists>rs'. HeadsetTopologyRules_SetRuleComplete message rs = Some rs' \<and> rules_ok rs'"
proof -
  obtain rs1 rs' where r: "RulesEngine_SetRuleWithEventComplete hstop_rules_set rs message RULE_EVENT_ALL_EVENTS_MASK = Some rs'"
      "hs.completed message RULE_EVENT_ALL_EVENTS_MASK rs rs1"
      "RulesEngine_Check hstop_rules_set (rs1\<lparr>msgs := msgs rs\<rparr>) = Some rs'"
    using hs.complete_settles [of rs "[]" message RULE_EVENT_ALL_EVENTS_MASK] assms
    by (auto simp: rules_ok_def split: if_splits)
  have rd: "hs.ready (rs1\<lparr>msgs := msgs rs\<rparr>)" using r(2) by (simp add: hs.completed_def)
  from hs.check_settles [OF rd] r(3) have s: "hs.settled rs'" "hs.announces (rs1\<lparr>msgs := msgs rs\<rparr>) rs'"
    by (auto simp: hs.sends_def)
  obtain ms where ms: "msgs rs' = msgs rs @ ms" "map fst ms = map (\<lambda>_. event_task rs1) (hs.newly (rs1\<lparr>msgs := msgs rs\<rparr>) rs')"
    using s(2) by (auto simp: hs.announces_def)
  have "fst m = event_task rs1" if "m \<in> set ms" for m
  proof -
    have "fst m \<in> set (map fst ms)" using that by simp
    then show ?thesis unfolding ms(2) by auto
  qed
  then have "rules_ok rs'"
    using assms s r(2) ms(1) by (auto simp: rules_ok_def hs.announces_def hs.completed_def)
  then show ?thesis using r(1) by (simp add: HeadsetTopologyRules_SetRuleComplete_def RulesEngine_SetRuleComplete_def)
qed

lemma rules_ok_update:
  "rules_ok rs \<Longrightarrow> rules_ok (rs\<lparr>app := a\<rparr>)" "\<lbrakk>rules_ok rs; msgs rs = m # ms\<rbrakk> \<Longrightarrow> rules_ok (rs\<lparr>msgs := ms\<rparr>)"
  by (auto simp: rules_ok_def hs.settled_def)

section \<open>The invariant of the headset\<close>

definition rules_kept :: "headset_env proc_world \<Rightarrow> bool" where
  "rules_kept e \<longleftrightarrow> rules_ok (hs_rules (rest e))"

interpretation hk: kept_by_procedures headset_goals hs_rule_of rules_kept
  by unfold_locales (use start_modest cancel_modest in \<open>fastforce simp: rules_kept_def modest_step_def\<close>)+

definition headset_inv :: "headset \<Rightarrow> bool" where
  "headset_inv gs \<longleftrightarrow> hg.steady gs \<and> queue_task gs = pending_goal_queue_task \<and> rules_ok (hs_rules (env gs))"

lemma inv_modest: "\<lbrakk>headset_inv gs; modest_step gs gs'\<rbrakk> \<Longrightarrow> headset_inv gs'"
  by (auto simp: headset_inv_def modest_step_def env_only_def hg.steady_def)

lemma inv_clear: "headset_inv gs \<Longrightarrow> headset_inv (GoalsEngine_ClearGoal gs g)"
  using hg.clear_steady by (simp add: headset_inv_def) (simp add: GoalsEngine_ClearGoal_def)

lemma inv_env: "\<lbrakk>headset_inv gs; env_only gs gs'; rules_ok (hs_rules (env gs'))\<rbrakk> \<Longrightarrow> headset_inv gs'"
  by (auto simp: headset_inv_def env_only_def hg.steady_def)

lemma inv_rules: "headset_inv gs \<Longrightarrow> rules_ok (hs_rules (env gs))"
  by (simp add: headset_inv_def)

lemma inv_rest: "\<lbrakk>headset_inv gs; \<And>e. hs_rules (f e) = hs_rules e\<rbrakk> \<Longrightarrow> headset_inv (with_rest f gs)"
  by (frule inv_rules, erule inv_env) (simp_all add: env_only_with)

lemma inv_request [simp]: "headset_inv gs \<Longrightarrow> headset_inv (request rs gs)"
  by (simp add: request_def inv_rest)

lemma inv_engine [simp]: "headset_inv gs \<Longrightarrow> headset_inv (with_engine f gs)"
  by (frule inv_rules, erule inv_env) (simp_all add: env_only_with)

lemma inv_delayed [simp]: "headset_inv gs \<Longrightarrow> headset_inv (with_delayed f gs)"
  by (frule inv_rules, erule inv_env) (simp_all add: env_only_with)

lemma inv_devices [simp]: "headset_inv gs \<Longrightarrow> headset_inv (with_devices f gs)"
  unfolding with_devices_def by (frule inv_rules, erule inv_env) (simp_all add: env_only_with rules_ok_update)

lemma inv_event:
  assumes "headset_inv gs"
  shows "\<exists>gs'. set_rule_event event gs = Some gs' \<and> headset_inv gs'"
proof -
  obtain rs where "HeadsetTopologyRules_SetEvent event (hs_rules (env gs)) = Some rs" "rules_ok rs"
    using set_event_ok assms by (auto simp: headset_inv_def)
  moreover from this have "headset_inv (with_rest (\<lambda>e. e\<lparr>hs_rules := rs\<rparr>) gs)"
    using inv_env [OF assms env_only_with(2)] by simp
  ultimately show ?thesis by (simp add: set_rule_event_def)
qed

lemma inv_event_Some: "\<lbrakk>headset_inv gs; set_rule_event event gs = Some gs'\<rbrakk> \<Longrightarrow> headset_inv gs'"
  using inv_event [of gs event] by auto

lemma inv_rule_complete:
  assumes "headset_inv gs"
  shows "\<exists>rs. set_rule_complete mid gs = Some (with_rest (\<lambda>e. e\<lparr>hs_rules := rs\<rparr>) gs) \<and>
    headset_inv (with_rest (\<lambda>e. e\<lparr>hs_rules := rs\<rparr>) gs)"
proof -
  obtain rs where "HeadsetTopologyRules_SetRuleComplete mid (hs_rules (env gs)) = Some rs" "rules_ok rs"
    using set_complete_ok assms by (auto simp: headset_inv_def)
  moreover from this have "headset_inv (with_rest (\<lambda>e. e\<lparr>hs_rules := rs\<rparr>) gs)"
    using inv_env [OF assms env_only_with(2)] by simp
  ultimately show ?thesis by (auto simp: set_rule_complete_def)
qed

lemma goal_for_procedure:
  "GoalsEngine_FindGoalForProcedure hsgoals proc = (if 1 \<le> proc \<and> proc \<le> 6 then Some proc else None)"
proof -
  have "[1..<7] = [1, 2, 3, 4, 5, 6]" by (simp add: upt_rec)
  then show ?thesis
    by (auto simp: GoalsEngine_FindGoalForProcedure_def hsgoals_def GOAL_WITH_CONCURRENCY_def GOAL_def
        SCRIPT_GOAL_CANCEL_def hs_topology_procedure_enable_connectable_handset_def
        hs_topology_procedure_allow_handset_connection_def hs_topology_procedure_connect_handset_def
        hs_topology_procedure_disconnect_handset_def hs_topology_procedure_allow_le_connection_def
        hs_topology_procedure_system_stop_def)
qed

text \<open>No goal of the headset raises an event when it completes.\<close>

lemma no_complete_event: "1 \<le> g \<Longrightarrow> g \<le> 6 \<Longrightarrow> GoalsEngine_GetGoalCompleteEvent hsgoals g r = 0"
  using goal_cases [of g]
  by (cases r) (auto simp: GoalsEngine_GetGoalCompleteEvent_def hsgoals_def GOAL_WITH_CONCURRENCY_def GOAL_def
      SCRIPT_GOAL_CANCEL_def)

lemma proc_complete:
  "headsetTopology_GoalProcComplete proc r gs =
     (if 1 \<le> proc \<and> proc \<le> 6 then Some (GoalsEngine_ClearGoal gs proc) else None)"
  by (simp add: headsetTopology_GoalProcComplete_def goal_for_procedure no_complete_event)

lemma proc_cancelled:
  "headsetTopology_GoalProcCancelCfm proc r gs =
     (if 1 \<le> proc \<and> proc \<le> 6 then Some (GoalsEngine_ClearGoal gs proc) else None)"
  by (simp add: headsetTopology_GoalProcCancelCfm_def goal_for_procedure)

lemma hs_scripts_simps [simp]:
  "scripts headset_scripts i = headset_system_stop_script"
  "goal_proc_complete headset_scripts = headsetTopology_GoalProcComplete"
  "goal_proc_cancelled headset_scripts = headsetTopology_GoalProcCancelCfm"
  by (simp_all add: headset_scripts_def)

lemma inv_step:
  assumes "headset_inv gs" "scriptEngine_StartCurrentStep headset_scripts gs = Some gs'"
  shows "headset_inv gs'"
proof -
  obtain s where s: "se_script (se gs) = Some s"
    using assms(2) by (auto simp: scriptEngine_StartCurrentStep_def script_procs_def split: bind_splits)
  show ?thesis
  proof (cases "next_step (se gs) < length headset_system_stop_script")
    case True
    obtain p d where p: "headset_system_stop_script ! next_step (se gs) = (p, d)" by fastforce
    then have "modest p" using nth_mem [OF True] script_modest by simp
    then show ?thesis
      using assms s True p inv_modest
      by (auto simp: scriptEngine_StartCurrentStep_def script_procs_def modest_def)
  next
    case False
    then show ?thesis
      using assms s inv_clear
      by (auto simp: scriptEngine_StartCurrentStep_def script_procs_def Let_def proc_complete
          scriptEngine_EngineReset_def split: if_splits)
  qed
qed

lemma inv_complete_cfm:
  assumes "headset_inv gs" "complete_cfm headset_scripts fn proc r gs = Some gs'"
  shows "headset_inv gs'"
proof (cases fn)
  case goal_cfm
  then show ?thesis using assms inv_clear by (auto simp: complete_cfm_def proc_complete split: if_splits)
next
  case script_cfm
  then show ?thesis
    using assms inv_clear inv_step [OF inv_engine [OF assms(1)]]
    by (auto simp: complete_cfm_def scriptEngine_ProcCompleteCfm_def proc_complete scriptEngine_EngineReset_def
        split: if_splits procedure_result_t.splits)
qed

lemma inv_cancel_cfm:
  assumes "headset_inv gs" "cancel_cfm headset_scripts fn proc r gs = Some gs'"
  shows "headset_inv gs'"
  using assms inv_clear
  by (auto simp: cancel_cfm_def scriptEngine_ProcCancelCfm_def proc_cancelled scriptEngine_EngineReset_def
      split: cfm_client.splits if_splits)

section \<open>Every step keeps the invariant\<close>

text \<open>The goal of a decision, and the data that it is given with their size.\<close>

definition decision_goal :: "u16 \<Rightarrow> u8 list option \<Rightarrow> (goal_id \<times> u8 list option \<times> nat) option" where
  "decision_goal mid d =
     (if mid = HSTOP_GOAL_CONNECTABLE_HANDSET then Some (hs_topology_goal_connectable_handset, d, 1)
      else if mid = HSTOP_GOAL_CONNECT_HANDSET then Some (hs_topology_goal_connect_handset, d, 4)
      else if mid = HSTOP_GOAL_ALLOW_HANDSET_CONNECT then Some (hs_topology_goal_allow_handset_connect, d, 1)
      else if mid = HSTOP_GOAL_DISCONNECT_HANDSET then Some (hs_topology_goal_disconnect_handset, d, 0)
      else if mid = HSTOP_GOAL_ALLOW_LE_CONNECTION then Some (hs_topology_goal_allow_le_connection, d, 1)
      else if mid = HSTOP_GOAL_SYSTEM_STOP then Some (hs_topology_goal_system_stop, None, 0)
      else None)"

lemma decision_goal_Some:
  "decision_goal mid d = Some (g, d', n) \<Longrightarrow> hg.goal g \<and> hs_rule_of g = mid"
  by (auto simp: decision_goal_def hg.goal_def hs_goal_ids hs_rule_of_def split: if_splits)

lemma handle_decision:
  "HeadsetTopology_HandleGoalDecision task mid d gs =
     (if td_stopping (env gs) \<noteq> hstop_stop_state_not_stopping then Some gs
      else Option.bind
        (case decision_goal mid d of
           None \<Rightarrow> Some gs
         | Some (g, d, n) \<Rightarrow> GoalsEngine_ActivateGoal headset_goals gs g task mid d n) (set_rule_complete mid))"
  by (simp add: HeadsetTopology_HandleGoalDecision_def decision_goal_def)

lemma with_rest_core [simp]:
  "queue_task (with_rest f gs) = queue_task gs" "pending_goals (with_rest f gs) = pending_goals gs"
  "held (with_rest f gs) = held gs" "queue_msg_count (with_rest f gs) = queue_msg_count gs"
  by (simp_all add: with_rest_def)

lemma inv_activated:
  assumes "headset_inv gs" "hg.steady gs'" "queue_task gs' = queue_task gs"
    and "GoalsEngine_ActivateGoal headset_goals (gs\<lparr>held := h\<rparr>) g task r d n = Some gs'"
  shows "headset_inv gs'"
proof -
  have "hg.compatible (gs\<lparr>held := h\<rparr>)"
    using assms(1) by (simp add: headset_inv_def hg.steady_def hg.working_def hg.compatible_def)
  moreover have "rules_kept (gs_env (gs\<lparr>held := h\<rparr>))" using assms(1) by (simp add: headset_inv_def rules_kept_def)
  ultimately have "rules_kept (gs_env gs')" using hk.activate_goal_env assms(4) by blast
  then show ?thesis using assms by (simp add: headset_inv_def rules_kept_def)
qed

lemma inv_decision:
  assumes "headset_inv gs" "queue_msg_count gs < 255" "task \<noteq> pending_goal_queue_task"
    and "HeadsetTopology_HandleGoalDecision task mid d gs = Some gs'"
  shows "headset_inv gs'"
    and "\<lbrakk>td_stopping (env gs) = hstop_stop_state_not_stopping; decision_goal mid d = Some (g, d', n)\<rbrakk> \<Longrightarrow>
      hg.active gs' g \<or> GoalsEngine_IsGoalQueued gs' g"
proof -
  have act: "headset_inv gs1 \<and> (hg.active gs1 g \<or> GoalsEngine_IsGoalQueued gs1 g)"
    if "decision_goal mid d = Some (g, d', n)" "GoalsEngine_ActivateGoal headset_goals gs g task mid d' n = Some gs1"
    for g d' n gs1
  proof -
    have g: "hg.goal g" "hs_rule_of g = mid" using decision_goal_Some [OF that(1)] by auto
    have st: "hg.steady gs" "task \<noteq> queue_task gs" using assms(1,3) by (auto simp: headset_inv_def)
    note nd = hg.new_decision [OF st(1) g(1) st(2) assms(2) that(2) [folded g(2)]]
    have "gs = gs\<lparr>held := held gs\<rparr>" by simp
    then show ?thesis using inv_activated [OF assms(1) nd(1,2), of "held gs"] that(2) nd(3) by metis
  qed
  have same: "hg.active (with_rest f gs1) g = hg.active gs1 g"
    "GoalsEngine_IsGoalQueued (with_rest f gs1) g = GoalsEngine_IsGoalQueued gs1 g" for f gs1 g
    by (simp_all add: GoalsEngine_IsGoalQueued_def)
  have complete: "headset_inv gs'" if "headset_inv gs1" "set_rule_complete mid gs1 = Some gs'" for gs1
    using inv_rule_complete [OF that(1), of mid] that(2) by auto
  show "headset_inv gs'"
  proof (cases "td_stopping (env gs) = hstop_stop_state_not_stopping")
    case True
    then obtain gs1 where gs1: "set_rule_complete mid gs1 = Some gs'"
        "(case decision_goal mid d of None \<Rightarrow> Some gs
          | Some (g, d, n) \<Rightarrow> GoalsEngine_ActivateGoal headset_goals gs g task mid d n) = Some gs1"
      using assms(4) by (auto simp: handle_decision split: bind_splits)
    have "headset_inv gs1"
    proof (cases "decision_goal mid d")
      case (Some x)
      then show ?thesis using act gs1(2) by (cases x) auto
    qed (use assms(1) gs1(2) in simp)
    then show ?thesis using gs1(1) by (rule complete)
  qed (use assms(1,4) in \<open>simp add: handle_decision\<close>)
  show "hg.active gs' g \<or> GoalsEngine_IsGoalQueued gs' g"
    if run: "td_stopping (env gs) = hstop_stop_state_not_stopping" "decision_goal mid d = Some (g, d', n)"
  proof -
    obtain gs1 where gs1: "GoalsEngine_ActivateGoal headset_goals gs g task mid d' n = Some gs1"
        "set_rule_complete mid gs1 = Some gs'"
      using run assms(4) by (auto simp: handle_decision split: bind_splits)
    note a = act [OF run(2) gs1(1)]
    then show ?thesis using inv_rule_complete [of gs1 mid] gs1(2) same by auto
  qed
qed

lemma inv_delivery:
  assumes "headset_inv gs" "deliver_queued gs = Some gs'"
  shows "headset_inv gs'"
proof (cases "take_due (pending_goals gs) (held gs)")
  case None
  then show ?thesis using assms by (simp add: deliver_queued_def)
next
  case (Some x)
  obtain mid d h where x: "x = ((mid, d), h)" by (metis prod.exhaust)
  have st: "hg.steady gs" using assms(1) by (simp add: headset_inv_def)
  note w = hg.delivered_working [OF st Some [unfolded x]]
  have step: "HeadsetTopology_HandleGoalDecision (queue_task gs) mid d (gs\<lparr>held := h\<rparr>) = Some gs'"
    using assms(2) Some x by (simp add: deliver_queued_def)
  show ?thesis
  proof (cases "td_stopping (env gs) = hstop_stop_state_not_stopping")
    case False
    have "hg.steady (gs\<lparr>held := h\<rparr>)"
    proof -
      obtain i where "length (held gs) = Suc (length h)" "set h \<subseteq> set (held gs)"
        using take_due_Some Some x by blast
      then show ?thesis
        using st by (auto simp: hg.steady_def hg.working_def hg.compatible_def hg.slots_ok_def hg.queue_ok_def)
    qed
    then show ?thesis using step False assms(1) by (auto simp: handle_decision headset_inv_def)
  next
    case True
    show ?thesis
    proof (cases "decision_goal mid d")
      case None
      obtain i where "hg.goal (pg_id (pending_goals gs ! i))" "mid = hs_rule_of (pg_id (pending_goals gs ! i))"
        using w(3) by blast
      then have "decision_goal mid d \<noteq> None"
        using goal_cases [of "pg_id (pending_goals gs ! i)"]
        by (auto simp: hg.goal_def hs_rule_of_def decision_goal_def)
      then show ?thesis using None by simp
    next
      case g: (Some y)
      obtain g d' n where y: "y = (g, d', n)" by (metis prod.exhaust)
      have gg: "hg.goal g" "hs_rule_of g = mid" using decision_goal_Some g y by blast+
      obtain gs1 where gs1: "GoalsEngine_ActivateGoal headset_goals (gs\<lparr>held := h\<rparr>) g (queue_task gs) mid d' n = Some gs1"
          "set_rule_complete mid gs1 = Some gs'"
        using step True g y by (auto simp: handle_decision split: bind_splits)
      show ?thesis
      proof -
        note dl = hg.delivery [OF st Some [unfolded x, folded gg(2)] gg(1) gs1(1) [folded gg(2)]]
        have "headset_inv gs1" using inv_activated [OF assms(1) dl(1,2) gs1(1)] .
        then show ?thesis using inv_rule_complete [of gs1 mid] gs1(2) by auto
      qed
    qed
  qed
qed

lemma inv_message:
  assumes "headset_inv gs" "headsetTopology_HandleMessage m gs = Some gs'"
  shows "headset_inv gs'"
  using assms inv_event_Some [OF assms(1)]
  by (cases m)
    (auto simp: headsetTopology_HandleHandsetServiceConnectedInd_def inv_rest
      headsetTopology_HandleHandsetServiceDisconnectedInd_def headsetTopology_HandleInternalStop_def
      headsetTopology_HandlePowerShutdownPrepareInd_def headsetTopology_HandleStopTimeout_def
      headsetTopology_HandleStopCompletion_def headsetTopology_MarkAsStopped_def HeadsetTopology_SendStopCfm_def
      split: if_splits)

lemma inv_connect:
  assumes "headset_inv gs" "headsetTopology_ProcConnectHandsetHandleMessage m gs = Some gs'"
  shows "headset_inv gs'"
  using assms inv_complete_cfm [OF assms(1)]
  by (cases m)
    (auto simp: headsetTopology_ProcConnectHandsetHandleMessage_def inv_rest
      headsetTopology_ProcConnectHandsetHandleHandsetConnectCfm_def headsetTopology_ProcConnectHandsetResetProc_def
      split: option.splits if_splits)

lemma inv_disconnect:
  assumes "headset_inv gs" "headsetTopology_ProcDisconnectHandsetHandleMessage addr status gs = Some gs'"
  shows "headset_inv gs'"
  using assms inv_complete_cfm [OF assms(1)]
  by (auto simp: headsetTopology_ProcDisconnectHandsetHandleMessage_def inv_rest
      headsetTopology_ProcDisconnectHandsetHandleHandsetDisconnectCfm_def
      headsetTopology_ProcDisconnectHandsetResetProc_def HeadsetTopology_SendHandsetDisconnectedIndication_def
      split: option.splits bind_splits)

lemma inv_le_end:
  assumes "headset_inv gs" "headsetTopology_ProcAllowLEConnectionCompleteCancel gs = Some gs'"
  shows "headset_inv gs'"
  using assms inv_complete_cfm [OF assms(1)] inv_cancel_cfm [OF assms(1)]
  by (auto simp: headsetTopology_ProcAllowLEConnectionCompleteCancel_def inv_rest
      headsetTopology_ProcAllowLEConnectionResetProc_def split: option.splits if_splits)

lemma inv_le:
  assumes "headset_inv gs" "headsetTopology_ProcAllowLEConnectionHandleMessage m gs = Some gs'"
  shows "headset_inv gs'"
proof -
  have "headset_inv (with_rest (\<lambda>td. td\<lparr>le_connectable := False\<rparr>) gs)"
    "headset_inv (with_rest (\<lambda>td. td\<lparr>le_advertising := False\<rparr>) gs)"
    using inv_rest [OF assms(1)] by simp_all
  then show ?thesis
    using assms inv_le_end
    by (cases m)
      (auto simp: headsetTopology_ProcAllowLEConnectionHandleMessage_def
        headsetTopology_ProcAllowLEConnectionHandleAllowLEConnectionCfm_def
        headsetTopology_ProcAllowLEConnectionHandleAllowLEAdvertisingCfm_def split: if_splits)
qed

lemma inv_headset_step:
  assumes "headset_inv gs" "queue_msg_count gs < 255" "headset_step e gs = Some gs'"
  shows "headset_inv gs'"
proof (cases e)
  case Decision
  show ?thesis
  proof (cases "msgs (hs_rules (env gs))")
    case (Cons m ms)
    obtain task mid d where m: "m = (task, mid, d)" by (metis prod.exhaust)
    let ?gs = "with_rest (\<lambda>e. e\<lparr>hs_rules := (hs_rules e)\<lparr>msgs := ms\<rparr>\<rparr>) gs"
    have "rules_ok ((hs_rules (env gs))\<lparr>msgs := ms\<rparr>)" using inv_rules [OF assms(1)] Cons by (rule rules_ok_update)
    then have i: "headset_inv ?gs" using inv_env [OF assms(1) env_only_with(2)] by simp
    have "task = HeadsetTopologyGetGoalTask" using inv_rules [OF assms(1)] Cons m by (simp add: rules_ok_def)
    then have t: "task \<noteq> pending_goal_queue_task" by (simp add: HeadsetTopologyGetGoalTask_def pending_goal_queue_task_def)
    show ?thesis
      by (rule inv_decision(1) [OF i _ t, of mid d])
        (use assms(2,3) Decision Cons m in \<open>simp_all add: deliver_decision_def\<close>)
  qed (use assms Decision in \<open>simp add: deliver_decision_def\<close>)
next
  case Confirmation
  show ?thesis
  proof (cases "delayed (gs_env gs)")
    case (Cons m ms)
    have i: "headset_inv (with_delayed (\<lambda>_. ms) gs)" using assms(1) by simp
    show ?thesis
      using assms(3) Confirmation Cons inv_complete_cfm [OF i] inv_cancel_cfm [OF i] by (cases m) simp_all
  qed (use assms Confirmation in simp)
next
  case Own_message
  show ?thesis
  proof (cases "task_msgs (env gs)")
    case (Cons m ms)
    have "headset_inv (with_rest (\<lambda>e. e\<lparr>task_msgs := ms\<rparr>) gs)" using assms(1) by (simp add: inv_rest)
    then show ?thesis using inv_message [of _ m gs'] assms(3) Own_message Cons by simp
  qed (use assms Own_message in simp)
next
  case Start
  have "headset_inv (with_devices f (with_rest (\<lambda>td. td\<lparr>td_started := b, td_stopping := s\<rparr>) gs))" for f b s
    using assms(1) by (simp add: inv_rest)
  from inv_event_Some [OF this] show ?thesis
    using assms(1,3) Start by (auto simp: HeadsetTopology_Start_def split: if_splits)
next
  case (Prohibit b)
  show ?thesis
    using assms(1,3) Prohibit inv_event_Some [OF inv_devices [OF assms(1)]]
    by (auto simp: HeadsetTopology_ProhibitHandsetConnection_def Let_def split: if_splits)
next
  case Expiry
  then show ?thesis using assms(1,3) by (auto simp: inv_rest split: list.splits)
next
  case (Stop task)
  then show ?thesis
    using assms(1,3) by (auto simp: HeadsetTopology_Stop_def HeadsetTopology_SendStopCfm_def Let_def inv_rest)
next
  case (Register task)
  then show ?thesis using assms(1,3) by (auto simp: HeadsetTopology_RegisterMessageClient_def inv_rest)
next
  case (Unregister task)
  then show ?thesis using assms(1,3) by (auto simp: HeadsetTopology_UnRegisterMessageClient_def inv_rest)
next
  case Queued
  then show ?thesis using assms(3) inv_delivery [OF assms(1)] by simp
next
  case (To_topology m)
  then show ?thesis using assms(3) inv_message [OF assms(1)] by simp
next
  case (To_connect m)
  then show ?thesis using assms(3) inv_connect [OF assms(1)] by simp
next
  case (To_disconnect addr status)
  then show ?thesis using assms(3) inv_disconnect [OF assms(1)] by simp
next
  case (To_le m)
  then show ?thesis using assms(3) inv_le [OF assms(1)] by simp
next
  case (Devices addr connected profile was profiles)
  then show ?thesis using assms(1,3) inv_devices by auto
qed

lemma init_rules_ok: "HeadsetTopologyRules_Init HeadsetTopologyGetGoalTask a = Some rs \<Longrightarrow> rules_ok rs"
  using hs.created_settled [of HSTOP_GOAL_NOP HeadsetTopologyGetGoalTask a rs]
  by (auto simp: HeadsetTopologyRules_Init_def rules_ok_def RulesEngine_CreateRuleSet_def split: if_splits)

lemma init_inv: "HeadsetTopology_Init a = Some gs \<Longrightarrow> headset_inv gs"
  using init_rules_ok
  by (auto simp: HeadsetTopology_Init_def HeadsetTopology_GoalsInit_def GoalsEngine_CreateGoalSet_def
      headset_inv_def hg.steady_def hg.working_def hg.compatible_def hg.slots_ok_def hg.queue_ok_def
      INITIAL_GOAL_QUEUE_COUNT_def filter_empty_conv split: bind_splits if_splits)

lemma reach_inv: "headset_reach gs \<Longrightarrow> headset_inv gs"
  by (induction rule: headset_reach.induct) (auto intro: init_inv inv_headset_step)

end
