(* ===== verification/Rules_Properties.thy ===== *)
theory Rules_Properties
  imports Headset_Rules
begin

text \<open>
  What the rules engine guarantees for the rule table of the headset, what the table decides, and
  how the engine fails for tables it does not expect.
\<close>

section \<open>The rule functions in one line each\<close>

definition reconnectable :: "rule_connect_reason_t \<Rightarrow> headset_state \<Rightarrow> u32 option" where
  "reconnectable reason a =
     (case handset_bd_addr a of
        None \<Rightarrow> None
      | Some addr \<Rightarrow>
          if \<not> con_manager_connected a addr \<and> \<not> prohibit_connect_to_handset a \<and>
             (reason = rule_connect_linkloss \<or> \<not> any_profile_connected a) \<and> was_connected a addr
          then Some (if reason = rule_connect_pairing then last_connected_profiles a addr OR 3
                     else last_connected_profiles a addr)
          else None)"

definition connectable :: "headset_state \<Rightarrow> bool" where
  "connectable a \<longleftrightarrow> (case handset_bd_addr a of
     None \<Rightarrow> False | Some addr \<Rightarrow> \<not> con_manager_connected a addr \<and> \<not> shutdown_in_progress a)"

lemma rule_connect_cases:
  "ruleHsTopConnectHandset reason rs =
     (case reconnectable reason (app rs) of
        None \<Rightarrow> Some (rule_action_ignore, rs)
      | Some p \<Rightarrow> headsetTopologyRules_CopyRunParams (u32_octets p) rs)"
  by (cases reason) (auto simp: ruleHsTopConnectHandset_def reconnectable_def Let_def DEVICE_PROFILE_HFP_def
      DEVICE_PROFILE_A2DP_def split: option.split)

lemma rule_connectable_cases:
  "ruleHsTopEnableConnectableHandset rs =
     (if connectable (app rs) then headsetTopologyRules_CopyRunParams (bool_octets True) rs
      else Some (rule_action_ignore, rs))"
  by (auto simp: ruleHsTopEnableConnectableHandset_def connectable_def split: option.split)

lemmas run_defs = HeadsetTopologyRules_Init_def RulesEngine_CreateRuleSet_def HeadsetTopologyRules_SetEvent_def
  RulesEngine_SetEvent_def RulesEngine_Check_def RulesEngine_RunRules_def RulesEngine_RunRule_def
  handle_action_def started_def set_status_at_def RulesEngine_SetRuleStatus_def send_def
  RulesEngine_UpdateRuleStatus_def RulesEngine_ResetEvent_def RULE_def hstop_events hstop_goals
  RulesEngine_SetRuleComplete_def RulesEngine_SetRuleWithEventComplete_def RULE_EVENT_ALL_EVENTS_MASK_def
  RulesEngine_InProgress_def RulesEngine_CopyRunParams_def headsetTopologyRules_CopyRunParams_def

lemma hstop_nth:
  "hstop_rules_set ! 0 = RULE 64 ruleHsTopStop HSTOP_GOAL_SYSTEM_STOP"
  "hstop_rules_set ! Suc 0 = RULE 2 ruleHsTopHandsetLinkLossReconnect HSTOP_GOAL_CONNECT_HANDSET"
  "hstop_rules_set ! 2 = RULE 1 ruleHsTopEnableConnectableHandset HSTOP_GOAL_CONNECTABLE_HANDSET"
  "hstop_rules_set ! 3 = RULE 1 ruleHsTopAllowHandsetConnect HSTOP_GOAL_ALLOW_HANDSET_CONNECT"
  "hstop_rules_set ! 4 = RULE 1 ruleHsTopPairConnectHandset HSTOP_GOAL_CONNECT_HANDSET"
  "hstop_rules_set ! 5 = RULE 1 ruleHsTopAllowLEConnection HSTOP_GOAL_ALLOW_LE_CONNECTION"
  "hstop_rules_set ! 6 = RULE 32 ruleHsTopDisconnectHandset HSTOP_GOAL_DISCONNECT_HANDSET"
  by (simp_all add: hstop_rules_set_def hstop_events)

lemma hstop_loops:
  "update_loop m s s' e hstop_rules_set st w d = update_loop m s s' e
     [RULE 64 ruleHsTopStop HSTOP_GOAL_SYSTEM_STOP,
      RULE 2 ruleHsTopHandsetLinkLossReconnect HSTOP_GOAL_CONNECT_HANDSET,
      RULE 1 ruleHsTopEnableConnectableHandset HSTOP_GOAL_CONNECTABLE_HANDSET,
      RULE 1 ruleHsTopAllowHandsetConnect HSTOP_GOAL_ALLOW_HANDSET_CONNECT,
      RULE 1 ruleHsTopPairConnectHandset HSTOP_GOAL_CONNECT_HANDSET,
      RULE 1 ruleHsTopAllowLEConnection HSTOP_GOAL_ALLOW_LE_CONNECTION,
      RULE 32 ruleHsTopDisconnectHandset HSTOP_GOAL_DISCONNECT_HANDSET] st w d"
  "incomplete_loop e hstop_rules_set st w = incomplete_loop e
     [RULE 64 ruleHsTopStop HSTOP_GOAL_SYSTEM_STOP,
      RULE 2 ruleHsTopHandsetLinkLossReconnect HSTOP_GOAL_CONNECT_HANDSET,
      RULE 1 ruleHsTopEnableConnectableHandset HSTOP_GOAL_CONNECTABLE_HANDSET,
      RULE 1 ruleHsTopAllowHandsetConnect HSTOP_GOAL_ALLOW_HANDSET_CONNECT,
      RULE 1 ruleHsTopPairConnectHandset HSTOP_GOAL_CONNECT_HANDSET,
      RULE 1 ruleHsTopAllowLEConnection HSTOP_GOAL_ALLOW_LE_CONNECTION,
      RULE 32 ruleHsTopDisconnectHandset HSTOP_GOAL_DISCONNECT_HANDSET] st w"
  "reset_loop e hstop_rules_set st = reset_loop e
     [RULE 64 ruleHsTopStop HSTOP_GOAL_SYSTEM_STOP,
      RULE 2 ruleHsTopHandsetLinkLossReconnect HSTOP_GOAL_CONNECT_HANDSET,
      RULE 1 ruleHsTopEnableConnectableHandset HSTOP_GOAL_CONNECTABLE_HANDSET,
      RULE 1 ruleHsTopAllowHandsetConnect HSTOP_GOAL_ALLOW_HANDSET_CONNECT,
      RULE 1 ruleHsTopPairConnectHandset HSTOP_GOAL_CONNECT_HANDSET,
      RULE 1 ruleHsTopAllowLEConnection HSTOP_GOAL_ALLOW_LE_CONNECTION,
      RULE 32 ruleHsTopDisconnectHandset HSTOP_GOAL_DISCONNECT_HANDSET] st"
  by (simp_all add: hstop_rules_set_def hstop_events)

lemma seven: "[0..<7] = [0, 1, 2, 3, 4, 5, 6 :: nat]" "replicate 7 x = [x, x, x, x, x, x, x]"
  by (simp_all add: upt_rec numeral_eq_Suc)

lemmas hs_run = Let_def run_defs hstop_nth hstop_loops hstop_table(1) seven rule_connect_cases rule_connectable_cases
  ruleHsTopHandsetLinkLossReconnect_def ruleHsTopPairConnectHandset_def ruleHsTopAllowLEConnection_def
  ruleHsTopAllowHandsetConnect_def ruleHsTopStop_def ruleHsTopDisconnectHandset_def

lemma empty_registry: "\<exists>l. TaskList_Initialise = Some l \<and> TaskList_MessageSendId l m = Some []"
proof -
  obtain l where "TaskList_Initialise = Some l" "represents l []"
    using initial_represents [of 1] by (auto simp: TaskList_Initialise_def)
  then show ?thesis using tasks.notify_law [of l "[]" m] by auto
qed

section \<open>Properties\<close>

text \<open>
  C15: the engine runs the rules of an event one at a time and in table order. In every state the
  headset's rule set can be in, an active event has one rule in progress, those before it in the
  table are complete and those after it not done; of an event that is not active none is done.
\<close>

theorem rules_run_one_at_a_time:
  assumes "rules_reach hstop_rules_set rs" "i < 7"
  shows "let same = (\<lambda>j. j < 7 \<and> re_events (hstop_rules_set ! j) = re_events (hstop_rules_set ! i));
             st = (\<lambda>j. rules_state rs ! j)
    in if within (re_events (hstop_rules_set ! i)) (RulesEngine_GetEvents rs)
       then \<exists>k. same k \<and> st k = rule_status_in_progress \<and>
         (\<forall>j. same j \<longrightarrow> (j < k \<longrightarrow> st j = rule_status_complete) \<and> (k < j \<longrightarrow> st j = rule_status_not_done))
       else \<forall>j. same j \<longrightarrow> st j = rule_status_not_done"
proof -
  have s: "hs.settled rs" using hs.reach_settled [OF assms(1)] by blast
  have i: "i < length hstop_rules_set" using assms(2) by (simp add: hstop_table)
  show ?thesis
  proof (cases "within (re_events (hstop_rules_set ! i)) (rs_events rs)")
    case True
    then show ?thesis using hs.settled_cases(1) [OF s i True]
      unfolding hs.front_def hstop_table(1) Let_def RulesEngine_GetEvents_def by meson
  next
    case False
    then show ?thesis using hs.settled_cases(2) [OF s i False]
      unfolding hs.idle_def hstop_table(1) Let_def RulesEngine_GetEvents_def by simp
  qed
qed

text \<open>A state in which the headset has just been started.\<close>

lemma started_headset:
  assumes "t \<noteq> 0"
  shows "\<exists>rs rs1. HeadsetTopologyRules_Init t a = Some rs \<and> rules_reach hstop_rules_set rs \<and>
    HeadsetTopologyRules_SetEvent HSTOP_RULE_EVENT_START rs = Some rs1 \<and> rules_reach hstop_rules_set rs1 \<and>
    represents (nop_tasks rs1) [] \<and> hs.settled rs1"
proof -
  obtain rs where rs: "HeadsetTopologyRules_Init t a = Some rs"
    using assms empty_registry [of 0] by (auto simp: HeadsetTopologyRules_Init_def RulesEngine_CreateRuleSet_def)
  then have c: "RulesEngine_CreateRuleSet hstop_rules_set HSTOP_GOAL_NOP t a = Some rs"
    by (simp add: HeadsetTopologyRules_Init_def)
  note s = hs.created_settled [OF c]
  obtain rs1 where rs1: "HeadsetTopologyRules_SetEvent HSTOP_RULE_EVENT_START rs = Some rs1" "hs.settled rs1"
      "nop_tasks rs1 = nop_tasks rs"
    using hs.set_event_settles [OF s(1), of HSTOP_RULE_EVENT_START]
    by (auto simp: HeadsetTopologyRules_SetEvent_def hs.announces_def)
  have "rules_reach hstop_rules_set rs" using rules_reach.created [OF c] .
  moreover have "rules_reach hstop_rules_set rs1"
    using rules_reach.set_event [OF calculation] rs1(1) by (simp add: HeadsetTopologyRules_SetEvent_def)
  ultimately show ?thesis using rs rs1 s(2) by auto
qed

theorem rules_run_one_at_a_time_witness:
  "\<exists>rs. rules_reach hstop_rules_set rs \<and>
     (\<exists>k. k < 7 \<and> rules_state rs ! k = rule_status_in_progress \<or>
        rules_state rs ! 2 = rule_status_not_done)"
proof -
  obtain rs where "rules_reach hstop_rules_set rs" using started_headset [of 5 undefined] by auto
  then show ?thesis using rules_run_one_at_a_time [of rs 2] by (auto simp: Let_def hstop_nth split: if_splits)
qed

text \<open>
  C16: no operation of the headset's rule set panics, in any state it can be in, whatever events
  and messages it is given and whatever the other modules answer.
\<close>

theorem headset_rules_never_panic:
  assumes "rules_reach hstop_rules_set rs"
  shows "HeadsetTopologyRules_SetEvent event rs \<noteq> None \<and> HeadsetTopologyRules_ResetEvent event rs \<noteq> None \<and>
    HeadsetTopologyRules_SetRuleComplete message rs \<noteq> None \<and>
    HeadsetTopologyRules_SetRuleWithEventComplete message event rs \<noteq> None"
  using hs.never_panics [OF assms]
  by (simp add: HeadsetTopologyRules_SetEvent_def HeadsetTopologyRules_ResetEvent_def
      HeadsetTopologyRules_SetRuleComplete_def HeadsetTopologyRules_SetRuleWithEventComplete_def)

theorem headset_rules_never_panic_witness:
  "\<exists>rs. rules_reach hstop_rules_set rs \<and>
     HeadsetTopologyRules_SetRuleComplete HSTOP_GOAL_CONNECT_HANDSET rs \<noteq> None"
proof -
  obtain rs where "rules_reach hstop_rules_set rs" using started_headset [of 5 undefined] by auto
  then show ?thesis using headset_rules_never_panic [of rs 0 HSTOP_GOAL_CONNECT_HANDSET] by blast
qed

text \<open>
  C17: setting events sends the message of every rule that is thereby started, once, to the task of
  the rule set and in table order, and no other message.
\<close>

theorem started_rules_announced:
  assumes "rules_reach hstop_rules_set rs"
  shows "\<exists>rs' ms. HeadsetTopologyRules_SetEvent event rs = Some rs' \<and> msgs rs' = msgs rs @ ms \<and>
    (let new = filter (\<lambda>i. rules_state rs ! i \<noteq> rule_status_in_progress \<and>
           rules_state rs' ! i = rule_status_in_progress) [0..<7]
     in map fst ms = map (\<lambda>_. event_task rs) new \<and>
        map (fst \<circ> snd) ms = map (\<lambda>i. re_message (hstop_rules_set ! i)) new)"
  using hs.set_event_settles [of rs event] hs.reach_settled [OF assms]
  by (auto simp: hs.announces_def hs.newly_def hstop_table HeadsetTopologyRules_SetEvent_def)

theorem started_rules_announced_witness:
  "\<exists>rs rs' ms. rules_reach hstop_rules_set rs \<and>
     HeadsetTopologyRules_SetEvent HSTOP_RULE_EVENT_STOP rs = Some rs' \<and> msgs rs' = msgs rs @ ms"
proof -
  obtain rs where "rules_reach hstop_rules_set rs" using started_headset [of 5 undefined] by auto
  then show ?thesis using started_rules_announced [of rs HSTOP_RULE_EVENT_STOP] by blast
qed

lemma event_group:
  assumes "i < 7"
  shows "length (filter (\<lambda>j. re_events (hstop_rules_set ! j) = re_events (hstop_rules_set ! i)) [0..<7]) \<le> 4"
proof -
  have "i \<in> set [0..<7]" using assms by simp
  then show ?thesis unfolding seven(1) by (auto simp: hstop_nth RULE_def)
qed

text \<open>
  C18: every event comes to an end. Whatever else has happened, once the rule in progress has been
  reported complete as often as there are rules for the event, at most four times, the event is
  cleared, whatever the other modules answer in between.
\<close>

theorem events_finish:
  assumes "rules_reach hstop_rules_set rs" "i < 7" "length as = 4"
  shows "\<exists>rs'. complete_all hstop_rules_set as (re_events (hstop_rules_set ! i)) rs = Some rs' \<and>
    \<not> within (re_events (hstop_rules_set ! i)) (HeadsetTopologyRules_GetEvents rs')"
proof -
  obtain ts where s: "hs.settled rs" "represents (nop_tasks rs) ts" using hs.reach_settled [OF assms(1)] by blast
  have "card {j. k \<le> j \<and> j < 7 \<and> re_events (hstop_rules_set ! j) = re_events (hstop_rules_set ! i)} \<le> 4" for k
  proof -
    have "card {j. k \<le> j \<and> j < 7 \<and> re_events (hstop_rules_set ! j) = re_events (hstop_rules_set ! i)} \<le>
        card (set (filter (\<lambda>j. re_events (hstop_rules_set ! j) = re_events (hstop_rules_set ! i)) [0..<7]))"
      by (intro card_mono) auto
    then show ?thesis using event_group [OF assms(2)] card_length order_trans by meson
  qed
  then have "card {j. k \<le> j \<and> j < length hstop_rules_set \<and>
      re_events (hstop_rules_set ! j) = re_events (hstop_rules_set ! i)} \<le> length as" for k
    using assms(3) by (simp add: hstop_table)
  then show ?thesis
    using hs.complete_all_finishes [OF s, of i as] assms(2)
    by (auto simp: hstop_table HeadsetTopologyRules_GetEvents_def RulesEngine_GetEvents_def)
qed

theorem events_finish_witness:
  "\<exists>rs rs'. rules_reach hstop_rules_set rs \<and>
     complete_all hstop_rules_set (replicate 4 undefined) 1 rs = Some rs' \<and> \<not> within 1 (HeadsetTopologyRules_GetEvents rs')"
proof -
  obtain rs where "rules_reach hstop_rules_set rs" using started_headset [of 5 undefined] by auto
  then show ?thesis using events_finish [of rs 2 "replicate 4 undefined"] by (auto simp: hstop_nth RULE_def)
qed

text \<open>
  A link loss reconnects the handset. With a fresh rule set the event sends the connect goal
  with the profiles last connected exactly if a handset is paired, not connected, not prohibited
  and was connected before; otherwise nothing is sent and the event is cleared.
\<close>

theorem link_loss_reconnects:
  assumes "t \<noteq> 0"
  shows "\<exists>rs rs'. HeadsetTopologyRules_Init t a = Some rs \<and>
    HeadsetTopologyRules_SetEvent HSTOP_RULE_EVENT_HANDSET_LINKLOSS rs = Some rs' \<and>
    (case reconnectable rule_connect_linkloss a of
       None \<Rightarrow> msgs rs' = [] \<and> HeadsetTopologyRules_GetEvents rs' = 0
     | Some profiles \<Rightarrow> msgs rs' = [(t, HSTOP_GOAL_CONNECT_HANDSET, Some (u32_octets profiles))] \<and>
         HeadsetTopologyRules_GetEvents rs' = HSTOP_RULE_EVENT_HANDSET_LINKLOSS)"
proof -
  obtain l where l: "TaskList_Initialise = Some l" "TaskList_MessageSendId l HSTOP_GOAL_NOP = Some []"
    using empty_registry by blast
  show ?thesis
  proof (cases "reconnectable rule_connect_linkloss a")
    case None
    then show ?thesis using assms
      by (simp add: hs_run l HeadsetTopologyRules_GetEvents_def RulesEngine_GetEvents_def)
  next
    case (Some p)
    then show ?thesis using assms
      by (simp add: hs_run l HeadsetTopologyRules_GetEvents_def RulesEngine_GetEvents_def)
  qed
qed

theorem link_loss_reconnects_witness:
  "\<exists>rs rs'. HeadsetTopologyRules_Init 5
       \<lparr>handset_bd_addr = Some 77, con_manager_connected = (\<lambda>_. False), any_profile_connected = False,
        was_connected = (\<lambda>_. True), last_connected_profiles = (\<lambda>_. 3), shutdown_in_progress = False,
        prohibit_connect_to_handset = False\<rparr> = Some rs \<and>
     HeadsetTopologyRules_SetEvent HSTOP_RULE_EVENT_HANDSET_LINKLOSS rs = Some rs' \<and>
     msgs rs' = [(5, HSTOP_GOAL_CONNECT_HANDSET, Some [3, 0, 0, 0])]"
  using link_loss_reconnects [of 5 "\<lparr>handset_bd_addr = Some 77, con_manager_connected = (\<lambda>_. False),
        any_profile_connected = False, was_connected = (\<lambda>_. True), last_connected_profiles = (\<lambda>_. 3),
        shutdown_in_progress = False, prohibit_connect_to_handset = False\<rparr>"]
  by (auto simp: reconnectable_def u32_octets_def upt_rec)

text \<open>
  the start sequence. Completing each goal as it comes, the headset is made connectable if a
  handset is paired and not connected, handset connections are allowed, the handset is connected
  with the hands-free and audio profiles added to those last connected, and low-energy
  connections are allowed: in this order, the first two not during shutdown.
\<close>

theorem start_sequence:
  assumes "t \<noteq> 0"
  shows "\<exists>rs rs1 rs2. HeadsetTopologyRules_Init t a = Some rs \<and>
    HeadsetTopologyRules_SetEvent HSTOP_RULE_EVENT_START rs = Some rs1 \<and>
    complete_all hstop_rules_set (replicate 4 a) HSTOP_RULE_EVENT_START rs1 = Some rs2 \<and>
    HeadsetTopologyRules_GetEvents rs2 = 0 \<and>
    msgs rs2 =
      (if connectable a then [(t, HSTOP_GOAL_CONNECTABLE_HANDSET, Some (bool_octets True))] else []) @
      (if shutdown_in_progress a then [] else [(t, HSTOP_GOAL_ALLOW_HANDSET_CONNECT, Some (bool_octets True))]) @
      (case reconnectable rule_connect_pairing a of None \<Rightarrow> []
        | Some profiles \<Rightarrow> [(t, HSTOP_GOAL_CONNECT_HANDSET, Some (u32_octets profiles))]) @
      [(t, HSTOP_GOAL_ALLOW_LE_CONNECTION, Some (bool_octets True))]"
proof -
  obtain l where l: "TaskList_Initialise = Some l" "TaskList_MessageSendId l 262 = Some []"
    using empty_registry by blast
  have four: "replicate 4 x = [x, x, x, x]" for x :: headset_state by (simp add: numeral_eq_Suc)
  note run = hs_run four l assms HeadsetTopologyRules_GetEvents_def RulesEngine_GetEvents_def
  have sc: "\<not> connectable a" if "shutdown_in_progress a"
    using that by (auto simp: connectable_def split: option.splits)
  show ?thesis
  proof (cases "shutdown_in_progress a")
    case sd: True
    show ?thesis
    proof (cases "reconnectable rule_connect_pairing a")
      case None
      then show ?thesis using sd sc by (simp add: run)
    next
      case (Some p)
      then show ?thesis using sd sc by (simp add: run)
    qed
  next
    case sd: False
    show ?thesis
    proof (cases "reconnectable rule_connect_pairing a")
      case None
      then show ?thesis using sd by (cases "connectable a") (simp_all add: run)
    next
      case (Some p)
      then show ?thesis using sd by (cases "connectable a") (simp_all add: run)
    qed
  qed
qed

theorem start_sequence_witness:
  "\<exists>rs rs1 rs2. HeadsetTopologyRules_Init 5
       \<lparr>handset_bd_addr = None, con_manager_connected = (\<lambda>_. False), any_profile_connected = False,
        was_connected = (\<lambda>_. False), last_connected_profiles = (\<lambda>_. 0), shutdown_in_progress = False,
        prohibit_connect_to_handset = False\<rparr> = Some rs \<and>
     HeadsetTopologyRules_SetEvent HSTOP_RULE_EVENT_START rs = Some rs1 \<and>
     complete_all hstop_rules_set (replicate 4 \<lparr>handset_bd_addr = None, con_manager_connected = (\<lambda>_. False),
        any_profile_connected = False, was_connected = (\<lambda>_. False), last_connected_profiles = (\<lambda>_. 0),
        shutdown_in_progress = False, prohibit_connect_to_handset = False\<rparr>) HSTOP_RULE_EVENT_START rs1 = Some rs2 \<and>
     msgs rs2 = [(5, HSTOP_GOAL_ALLOW_HANDSET_CONNECT, Some [1]), (5, HSTOP_GOAL_ALLOW_LE_CONNECTION, Some [1])]"
  using start_sequence [of 5 "\<lparr>handset_bd_addr = None, con_manager_connected = (\<lambda>_. False),
        any_profile_connected = False, was_connected = (\<lambda>_. False), last_connected_profiles = (\<lambda>_. 0),
        shutdown_in_progress = False, prohibit_connect_to_handset = False\<rparr>"]
  by (auto simp: reconnectable_def connectable_def bool_octets_def)

text \<open>
  Completing a message tells every registered client that nothing is in progress, once and
  before any rule is started, exactly if a rule with this message was in progress for one of the
  events; nothing else but the messages of rules it starts is sent.
\<close>

theorem clients_told_nothing_in_progress:
  assumes "rules_reach hstop_rules_set rs" "represents (nop_tasks rs) ts"
  shows "\<exists>rs' ms. HeadsetTopologyRules_SetRuleWithEventComplete message event rs = Some rs' \<and>
    msgs rs' = msgs rs @
      (if \<exists>i < 7. rules_state rs ! i = rule_status_in_progress \<and> re_message (hstop_rules_set ! i) = message \<and>
            re_events (hstop_rules_set ! i) AND event \<noteq> 0
       then map (\<lambda>t. (t, nop_message_id rs, None)) ts else []) @ ms \<and>
    (\<forall>m \<in> set ms. fst m = event_task rs)"
proof -
  let ?did = "\<exists>i. hs.completes message rule_status_in_progress event rs i"
  have s: "hs.settled rs" using hs.reach_settled [OF assms(1)] by blast
  have flags: "\<not> RulesEngine_InProgress hstop_rules_set rs1" for rs1
    unfolding RulesEngine_InProgress_def hstop_table(1) seven by (simp add: hstop_nth RULE_def)
  obtain rs1 rs' where r: "RulesEngine_SetRuleWithEventComplete hstop_rules_set rs message event = Some rs'"
      "hs.completed message event rs rs1"
      "RulesEngine_Check hstop_rules_set (rs1\<lparr>msgs := msgs rs @
         (if ?did then map (\<lambda>t. (t, nop_message_id rs, None)) ts else [])\<rparr>) = Some rs'"
    using hs.complete_settles [OF s assms(2), of message event] flags by auto
  have "hs.ready (rs1\<lparr>msgs := msgs rs @
      (if ?did then map (\<lambda>t. (t, nop_message_id rs, None)) ts else [])\<rparr>)"
    using r(2) by (simp add: hs.completed_def)
  from hs.check_settles [OF this] r(3) obtain ms where ms: "msgs rs' = (msgs rs @
        (if ?did then map (\<lambda>t. (t, nop_message_id rs, None)) ts else [])) @ ms"
      "map fst ms = map (\<lambda>_. event_task rs1) (hs.newly (rs1\<lparr>msgs := msgs rs @
         (if ?did then map (\<lambda>t. (t, nop_message_id rs, None)) ts else [])\<rparr>) rs')"
    by (auto simp: hs.sends_def hs.announces_def)
  have "fst m = event_task rs" if "m \<in> set ms" for m
  proof -
    have "fst m \<in> set (map fst ms)" using that by simp
    then have "fst m = event_task rs1" unfolding ms(2) by auto
    then show ?thesis using r(2) by (simp add: hs.completed_def)
  qed
  moreover have "?did \<longleftrightarrow> (\<exists>i < 7. rules_state rs ! i = rule_status_in_progress \<and>
      re_message (hstop_rules_set ! i) = message \<and> re_events (hstop_rules_set ! i) AND event \<noteq> 0)"
    by (auto simp: hs.completes_def hstop_table(1))
  ultimately show ?thesis
    using r(1) ms(1) by (auto simp: HeadsetTopologyRules_SetRuleWithEventComplete_def)
qed

theorem clients_told_nothing_in_progress_witness:
  "\<exists>rs rs' ms. rules_reach hstop_rules_set rs \<and> represents (nop_tasks rs) [9] \<and>
     HeadsetTopologyRules_SetRuleWithEventComplete HSTOP_GOAL_ALLOW_LE_CONNECTION 0 rs = Some rs' \<and>
     msgs rs' = msgs rs @ ms \<and> (\<forall>m \<in> set ms. fst m = event_task rs)"
proof -
  obtain rs where rs: "rules_reach hstop_rules_set rs" "represents (nop_tasks rs) []"
    using started_headset [of 5 undefined] by auto
  obtain l where l: "TaskList_AddTask (nop_tasks rs) 9 = Some (True, l)" "represents l [9]"
    using tasks.add_law [OF rs(2), of 9] by auto
  have "rules_reach hstop_rules_set (rs\<lparr>nop_tasks := l\<rparr>)"
    using rules_reach.registered [OF rs(1), of 9] represents_size(1) [OF rs(2)] l(1)
    by (simp add: RulesEngine_NopClientRegister_def TaskList_Size_def TASK_LIST_MAX_TASKS_def TASK_LIST_SIZE_BITS_def)
  then show ?thesis
    using clients_told_nothing_in_progress [of "rs\<lparr>nop_tasks := l\<rparr>" "[9]" HSTOP_GOAL_ALLOW_LE_CONNECTION 0] l(2)
    by - (rule exI [of _ "rs\<lparr>nop_tasks := l\<rparr>"], auto)
qed

text \<open>Two rules for one event, the first of which defers until the application is ready.\<close>

definition deferring_rules :: "bool rule_entry list" where
  "deferring_rules =
    [RULE 1 (\<lambda>rs. Some (if app rs then rule_action_complete else rule_action_defer, rs)) 10,
     RULE 1 (\<lambda>rs. Some (rule_action_run, rs)) 11]"

text \<open>
  with a rule that defers, the engine restarts a rule that is complete. Of two rules for one
  event the first defers until the second is done and then completes: the event is cleared and its
  rules reset in the middle of the pass, which goes on with the events it began with, so the second
  rule is started again and its message sent twice, for an event that is no longer active.
\<close>

theorem deferred_rule_restarts_successor:
  assumes "t \<noteq> 0"
  shows "\<exists>rs rs1 rs2. RulesEngine_CreateRuleSet deferring_rules nop_id t False = Some rs \<and>
    RulesEngine_SetEvent deferring_rules rs 1 = Some rs1 \<and>
    RulesEngine_SetRuleComplete deferring_rules (rs1\<lparr>app := True\<rparr>) 11 = Some rs2 \<and>
    msgs rs2 = [(t, 11, None), (t, 11, None)] \<and> RulesEngine_GetEvents rs2 = 0 \<and>
    rules_state rs2 = [rule_status_not_done, rule_status_in_progress]"
proof -
  obtain l where l: "TaskList_Initialise = Some l" "TaskList_MessageSendId l nop_id = Some []"
    using empty_registry by blast
  let ?A = "RULE 1 (\<lambda>rs. Some (if app rs then rule_action_complete else rule_action_defer, rs)) 10"
    and ?B = "RULE 1 (\<lambda>rs. Some (rule_action_run, rs)) 11"
  have two: "length deferring_rules = 2" "deferring_rules ! 0 = ?A" "deferring_rules ! Suc 0 = ?B"
    by (simp_all add: deferring_rules_def)
  have upt: "[0..<2] = [0, 1 :: nat]" "replicate 2 x = [x, x]" for x :: rule_status_t
    by (simp_all add: upt_rec numeral_eq_Suc)
  have loops: "update_loop m s s' e deferring_rules st w d = update_loop m s s' e [?A, ?B] st w d"
    "incomplete_loop e deferring_rules st w = incomplete_loop e [?A, ?B] st w"
    "reset_loop e deferring_rules st = reset_loop e [?A, ?B] st" for m s s' e st w d
    by (simp_all add: deferring_rules_def)
  show ?thesis
    using assms by (simp add: run_defs Let_def l two upt loops RulesEngine_GetEvents_def)
qed

theorem deferred_rule_restarts_successor_witness:
  "\<exists>rs rs1 rs2. RulesEngine_CreateRuleSet deferring_rules 7 5 False = Some rs \<and>
    RulesEngine_SetEvent deferring_rules rs 1 = Some rs1 \<and>
    RulesEngine_SetRuleComplete deferring_rules (rs1\<lparr>app := True\<rparr>) 11 = Some rs2 \<and>
    msgs rs2 = [(5, 11, None), (5, 11, None)]"
  using deferred_rule_restarts_successor [of 5 7] by auto

end
