(* ===== verification/Headset_Stop.thy ===== *)
theory Headset_Stop
  imports Headset_Goals Rules_Properties
begin

text \<open>
  How an idle headset stops: the request, the decision of its rules, the start of the stop goal, and
  the five procedures of the script, each over an arbitrary state.
\<close>

lemma stop_rule:
  assumes "rules_ok rs" "rs_events rs = 0" "msgs rs = []"
  shows "\<exists>rs1 rs2. HeadsetTopologyRules_SetEvent HSTOP_RULE_EVENT_STOP rs = Some rs1 \<and>
    msgs rs1 = [(HeadsetTopologyGetGoalTask, HSTOP_GOAL_SYSTEM_STOP, None)] \<and>
    HeadsetTopologyRules_SetRuleComplete HSTOP_GOAL_SYSTEM_STOP (rs1\<lparr>msgs := []\<rparr>) = Some rs2 \<and>
    rs_events rs2 = 0 \<and> msgs rs2 = [] \<and> app rs2 = app rs"
proof -
  have idle: "hs.idle (re_events (hstop_rules_set ! i)) (rules_state rs)" if "i < 7" for i
    using assms(1,2) that hs.settled_cases(2) [of rs i] hs.events_nonzero [of "hstop_rules_set ! i"]
    by (simp add: rules_ok_def within_def hstop_table(1))
  have len: "length (rules_state rs) = 7" using assms(1) by (simp add: rules_ok_def hs.settled_def hstop_table(1))
  have st: "rules_state rs = replicate 7 rule_status_not_done"
  proof (rule nth_equalityI)
    fix i assume "i < length (rules_state rs)"
    then show "rules_state rs ! i = replicate 7 rule_status_not_done ! i"
      using idle [of i] len by (simp add: hs.idle_def hstop_table(1))
  qed (simp add: len)
  have d: "rule_message_data rs = None" "event_task rs = HeadsetTopologyGetGoalTask" "represents (nop_tasks rs) []"
    using assms(1) by (simp_all add: rules_ok_def hs.settled_def)
  have l: "TaskList_MessageSendId (nop_tasks rs) m = Some []" for m using tasks.notify_law [OF d(3)] by simp
  show ?thesis
    using assms(2,3) st d(1,2) l by (simp add: hs_run HeadsetTopologyRules_SetRuleComplete_def)
qed


lemma all_slots: "hg.steady gs \<Longrightarrow> queue_msg_count gs = 0 \<Longrightarrow> held gs = [] \<and> map (\<lambda>_. no_goal) (pending_goals gs) = pending_goals gs"
  using hg.count_zero by (auto simp: hg.steady_def hg.working_def intro: map_idI)

lemmas stop_defs = HeadsetTopology_Stop_def Let_def HeadsetTopologyConfig_HeadsetTopologyStopTimeoutS_def
  headsetTopology_HandleInternalStop_def set_rule_event_def set_rule_complete_def deliver_decision_def

lemma stop_requested:
  assumes "headset_inv gs" "td_started (env gs)" "task_msgs (env gs) = []" "msgs (hs_rules (env gs)) = []"
    "rs_events (hs_rules (env gs)) = 0" "queue_msg_count gs = 0"
  shows "\<exists>rs1 rs2. headset_run [Stop task, Own_message] gs = Some (with_rest (\<lambda>e.
      e\<lparr>td_app_task := task, hs_rules := rs1,
        timed_msgs := timed_msgs e @ [(HSTOP_INTERNAL_TIMEOUT_TOPOLOGY_STOP, 5000)]\<rparr>) gs) \<and>
    msgs rs1 = [(HeadsetTopologyGetGoalTask, HSTOP_GOAL_SYSTEM_STOP, None)] \<and>
    HeadsetTopologyRules_SetRuleComplete HSTOP_GOAL_SYSTEM_STOP (rs1\<lparr>msgs := []\<rparr>) = Some rs2 \<and>
    rs_events rs2 = 0 \<and> msgs rs2 = [] \<and> app rs2 = devices gs"
proof -
  obtain rs1 rs2 where r: "HeadsetTopologyRules_SetEvent HSTOP_RULE_EVENT_STOP (hs_rules (env gs)) = Some rs1"
    "msgs rs1 = [(HeadsetTopologyGetGoalTask, HSTOP_GOAL_SYSTEM_STOP, None)]"
    "HeadsetTopologyRules_SetRuleComplete HSTOP_GOAL_SYSTEM_STOP (rs1\<lparr>msgs := []\<rparr>) = Some rs2"
    "rs_events rs2 = 0 \<and> msgs rs2 = [] \<and> app rs2 = devices gs"
    using stop_rule [OF inv_rules [OF assms(1)] assms(5,4)] by blast
  show ?thesis
    using assms(2,3,6) r by (intro exI [of _ rs1] exI [of _ rs2]) (simp add: stop_defs with_rest_def)
qed

lemma mask_6: "0 AND GOAL_MASK 6 \<noteq> GOAL_MASK 6"
  by (simp add: GOAL_MASK_def)

lemmas goal_defs = GoalsEngine_ActivateGoal_def goalsEngine_HandleDuplicateCancellationGoal_def
  GoalsEngine_IsGoalActive_def activate_def goalsEngine_GoalCanRunNow_def GOAL_MASK_NONE_def
  goalsEngine_GoalQueueSize_def goalsEngine_StartGoal_def goalsEngine_UpdateQueueMasks_def
  goalsEngine_ResetPendingQueueIfEmpty_def start_procedure_def GOAL_ID_NONE_def

lemmas script_defs = ScriptEngine_StartScript_def scriptEngine_StartCurrentStep_def script_procs_def
  headset_system_stop_script_def start_cfm_def scriptEngine_ProcStartCfm_def
  Procedures_DelayedCompleteCfmCallback_def PROCEDURE_ID_MAX_def complete_cfm_def
  scriptEngine_ProcCompleteCfm_def scriptEngine_EngineReset_def read_bool_def bool_octets_def

lemmas hs_proc_ids = hs_topology_procedure_enable_connectable_handset_def
  hs_topology_procedure_allow_handset_connection_def hs_topology_procedure_connect_handset_def
  hs_topology_procedure_disconnect_handset_def hs_topology_procedure_allow_le_connection_def
  hs_topology_procedure_system_stop_def hs_topology_procedure_start_stop_script_def
  hs_topology_procedure_send_message_to_topology_def

lemma stop_decided:
  assumes "headset_inv gs" "active_goals_mask gs = 0" "queue_msg_count gs = 0"
    "se_state (se gs) = script_engine_idle" "delayed (gs_env gs) = []"
    "td_stopping (env gs) = hstop_stop_state_not_stopping"
    "msgs (hs_rules (env gs)) = [(HeadsetTopologyGetGoalTask, HSTOP_GOAL_SYSTEM_STOP, None)]"
    "HeadsetTopologyRules_SetRuleComplete HSTOP_GOAL_SYSTEM_STOP ((hs_rules (env gs))\<lparr>msgs := []\<rparr>) = Some rs2"
  shows "\<exists>gs'. headset_step Decision gs = Some gs' \<and> active_goals_mask gs' = GOAL_MASK 6 \<and>
    queue_msg_count gs' = 0 \<and> pending_goals gs' = pending_goals gs \<and> held gs' = held gs \<and>
    delayed (gs_env gs') = [DELAY_COMPLETE_CFM script_cfm 7 procedure_result_success] \<and>
    se_state (se gs') = script_engine_active \<and> next_step (se gs') = 0 \<and> se_script (se gs') = Some 0 \<and>
    se_proc (se gs') = 6 \<and>
    env gs' = (env gs)\<lparr>td_stopping := hstop_stop_state_stopping, hs_rules := rs2\<rparr>"
proof -
  have t: "HeadsetTopologyGetGoalTask \<noteq> queue_task gs"
    using assms(1) by (simp add: headset_inv_def HeadsetTopologyGetGoalTask_def pending_goal_queue_task_def)
  have p: "map (\<lambda>_. no_goal) (pending_goals gs) = pending_goals gs"
    using all_slots assms(1,3) by (simp add: headset_inv_def)
  have six: "hsgoals ! 6 = SCRIPT_GOAL_CANCEL hs_topology_procedure_system_stop 0 hs_topology_goal_none"
    by (simp add: hsgoals_def)
  show ?thesis
    using assms(2-8) t p mask_6
    by (simp add: deliver_decision_def HeadsetTopology_HandleGoalDecision_def hstop_goals goal_defs Let_def
        hs_topology_goal_system_stop_def six SCRIPT_GOAL_CANCEL_def goalsEngine_GoalCancelsActive_def
        headset_goals_def script_goal_table_def script_defs proc_defs hs_proc_ids set_rule_complete_def
        with_rest_def with_engine_def with_delayed_def)
qed

lemma stop_script:
  assumes "delayed (gs_env gs) = [DELAY_COMPLETE_CFM script_cfm 7 procedure_result_success]"
    "se_state (se gs) = script_engine_active" "next_step (se gs) = 0" "se_script (se gs) = Some 0"
    "se_proc (se gs) = 6" "td_stopping (env gs) = hstop_stop_state_stopping" "task_msgs (env gs) = []"
    "queue_msg_count gs < 255"
  shows "\<exists>gs'. headset_run ([Confirmation, Confirmation, Confirmation,
      To_le HANDSET_SERVICE_LE_CONNECTABLE_IND, To_le (LE_ADV_MGR_ALLOW_ADVERTISING_CFM False),
      Own_message, Confirmation]) gs = Some gs' \<and>
    active_goals_mask gs' = REMOVE_GOAL_FROM_MASK (active_goals_mask gs) 6 \<and>
    queue_msg_count gs' = queue_msg_count gs \<and> held gs' = held gs \<and>
    se_state (se gs') = script_engine_idle \<and> delayed (gs_env gs') = [] \<and> task_msgs (env gs') = [] \<and>
    \<not> td_started (env gs') \<and> td_stopping (env gs') = hstop_stop_state_stopped \<and>
    hs_rules (env gs') = hs_rules (env gs) \<and>
    timed_msgs (env gs') = filter (\<lambda>(m, _). m \<noteq> HSTOP_INTERNAL_TIMEOUT_TOPOLOGY_STOP) (timed_msgs (env gs)) \<and>
    sent (env gs') = sent (env gs) @ [(td_app_task (env gs), HEADSET_TOPOLOGY_STOP_CFM hs_topology_status_success)] \<and>
    requests (env gs') = requests (env gs) @ [ConManagerAllowHandsetConnect False,
      HandsetService_CancelConnectableRequest, HandsetService_ClientRegister HeadsetTopProcAllowLEConnectionGetTask,
      ConManagerAllowConnection_ble False, HandsetService_SetBleConnectable False,
      LeAdvertisingManager_AllowAdvertising False,
      HandsetService_ClientUnregister HeadsetTopProcAllowLEConnectionGetTask]"
  using assms
  by (simp add: script_defs proc_defs hs_proc_ids request_def GoalsEngine_ClearGoal_def proc_complete
      headsetTopology_ProcAllowLEConnectionHandleMessage_def Let_def
      headsetTopology_ProcAllowLEConnectionHandleAllowLEConnectionCfm_def
      headsetTopology_ProcAllowLEConnectionHandleAllowLEAdvertisingCfm_def
      headsetTopology_ProcAllowLEConnectionCompleteCancel_def headsetTopology_HandleStopCompletion_def
      HeadsetTopology_SendStopCfm_def headsetTopology_MarkAsStopped_def
      with_rest_def with_engine_def with_delayed_def)
end
