(* ===== verification/Headset_Properties.thy ===== *)
theory Headset_Properties
  imports Headset_Stop
begin

text \<open>
  What holds of a headset that runs: which goals are active together, what a queued goal waits for,
  what becomes of a decision, how the headset stops, and two ways in which stopping goes wrong.
\<close>

section \<open>Runs\<close>

lemma run_reach: "\<lbrakk>headset_reach gs; headset_run es gs = Some gs'\<rbrakk> \<Longrightarrow> headset_reach gs'"
proof (induction es arbitrary: gs)
  case (Cons e es)
  then obtain gs1 where "queue_msg_count gs < 255" "headset_step e gs = Some gs1" "headset_run es gs1 = Some gs'"
    by (auto split: if_splits bind_splits)
  then show ?case using Cons headset_reach.step by blast
qed simp

lemma run_append: "headset_run (es @ fs) gs = Option.bind (headset_run es gs) (headset_run fs)"
  by (induction es arbitrary: gs) (auto split: bind_splits)

definition headset_from :: "headset_state \<Rightarrow> headset_event list \<Rightarrow> headset option" where
  "headset_from a es = Option.bind (HeadsetTopology_Init a) (headset_run es)"

lemma from_reach: "headset_from a es = Some gs \<Longrightarrow> headset_reach gs"
  using run_reach headset_reach.init by (fastforce simp: headset_from_def split: bind_splits)

text \<open>A handset that was connected before, or none; the profiles are hands-free and audio.\<close>

definition answers :: "bdaddr option \<Rightarrow> bool \<Rightarrow> headset_state" where
  "answers addr connected = \<lparr>handset_bd_addr = addr, con_manager_connected = (\<lambda>_. connected),
     any_profile_connected = False, was_connected = (\<lambda>_. True), last_connected_profiles = (\<lambda>_. 3),
     shutdown_in_progress = False, prohibit_connect_to_handset = False\<rparr>"

definition becomes :: "bdaddr option \<Rightarrow> bool \<Rightarrow> headset_event" where
  "becomes addr connected = Devices addr (\<lambda>_. connected) False (\<lambda>_. True) (\<lambda>_. 3)"

text \<open>The two answers to the procedure for low-energy connections.\<close>

definition le_answers :: "headset_event list" where
  "le_answers = [To_le HANDSET_SERVICE_LE_CONNECTABLE_IND, To_le (LE_ADV_MGR_ALLOW_ADVERTISING_CFM False)]"

text \<open>Starting, until the handset is connected and every goal is over.\<close>

definition connected_headset :: "headset_event list" where
  "connected_headset = [Start, Decision, Decision, Decision, Decision, Confirmation, Confirmation,
     To_connect (HANDSET_SERVICE_CONNECT_CFM handset_service_status_success), Queued] @ le_answers @
     [becomes (Some 77) True]"

section \<open>Goals\<close>

text \<open>The goals that may run beside each other, and what the table says of them.\<close>

definition side_by_side :: "goal_id set" where
  "side_by_side = {hs_topology_goal_connectable_handset, hs_topology_goal_allow_handset_connect,
     hs_topology_goal_connect_handset}"

lemma hs_lists:
  assumes "hg.goal g"
  shows "lists headset_goals g h \<longleftrightarrow> g \<in> side_by_side \<and> h \<in> side_by_side \<and> g \<noteq> h"
proof -
  have "g \<in> {1, 2, 3, 4, 5, 6}" using assms goal_cases [of g] by (simp add: hg.goal_def)
  then show ?thesis
    by (auto simp: lists_def side_by_side_def goalsEngine_GoalRunsConcurrently_def hsgoals_def GOAL_def
        GOAL_WITH_CONCURRENCY_def SCRIPT_GOAL_CANCEL_def hs_goal_ids)
qed

lemma active_bit: "g < 64 \<Longrightarrow> HeadsetTopology_IsGoalActive gs g \<longleftrightarrow> bit (active_goals_mask gs) g"
  by (simp add: HeadsetTopology_IsGoalActive_def active_iff)

lemma reach_steady: "headset_reach gs \<Longrightarrow> hg.steady gs"
  using reach_inv by (simp add: headset_inv_def)

text \<open>
  C19: only making the headset connectable, allowing a handset to connect and connecting one are ever
  active together. In every reachable state disconnecting, the low-energy goal and the stop of the
  system are active alone, whatever the order of decisions, confirmations and answers.
\<close>

theorem conflicting_goals_never_together:
  assumes "headset_reach gs" "HeadsetTopology_IsGoalActive gs g" "HeadsetTopology_IsGoalActive gs h"
    and "g < 64" "h < 64" "g \<noteq> h"
  shows "g \<in> side_by_side \<and> h \<in> side_by_side"
proof -
  have c: "hg.compatible gs" using reach_steady [OF assms(1)] by (simp add: hg.steady_def hg.working_def)
  have a: "hg.active gs g" "hg.active gs h" using assms active_bit by blast+
  then have "hg.goal g" "hg.goal h" "lists headset_goals g h \<or> lists headset_goals h g"
    using c assms(6) unfolding hg.compatible_def by blast+
  then show ?thesis using hs_lists by blast
qed

theorem conflicting_goals_never_together_witness:
  "\<exists>gs. headset_from (answers (Some 77) False) [Start, Decision, Decision] = Some gs \<and>
     HeadsetTopology_IsGoalActive gs 1 \<and> HeadsetTopology_IsGoalActive gs 2 \<and>
     (1 :: goal_id) \<in> side_by_side \<and> 2 \<in> side_by_side"
proof -
  have "map_option active_goals_mask (headset_from (answers (Some 77) False) [Start, Decision, Decision]) = Some 6"
    by code_simp
  then obtain gs where gs: "headset_from (answers (Some 77) False) [Start, Decision, Decision] = Some gs"
      "active_goals_mask gs = 6" by auto
  then have "HeadsetTopology_IsGoalActive gs 1" "HeadsetTopology_IsGoalActive gs 2"
    by (simp_all add: HeadsetTopology_IsGoalActive_def GoalsEngine_IsGoalActive_def GOAL_MASK_def)
  then show ?thesis
    using conflicting_goals_never_together [OF from_reach [OF gs(1)], of 1 2] gs(1) by auto
qed

text \<open>
  C20: a queued goal waits for exactly the active goals it may not run beside, so it is released as
  soon as the last of them is over; and when no goal is active but decisions are held, one of them
  is due: no decision waits for ever.
\<close>

theorem queued_goal_waits_for_conflicts:
  assumes "headset_reach gs"
  shows "(\<forall>e \<in> set (pending_goals gs). pg_id e \<noteq> GOAL_ID_NONE \<longrightarrow>
      (pg_lock e = 0 \<longleftrightarrow> (\<forall>h < 64. HeadsetTopology_IsGoalActive gs h \<longrightarrow>
         pg_id e \<in> side_by_side \<and> h \<in> side_by_side \<and> h \<noteq> pg_id e))) \<and>
    (active_goals_mask gs = 0 \<longrightarrow> held gs \<noteq> [] \<longrightarrow> take_due (pending_goals gs) (held gs) \<noteq> None)"
proof (intro conjI ballI impI)
  note st = reach_steady [OF assms]
  fix e assume e: "e \<in> set (pending_goals gs)" "pg_id e \<noteq> GOAL_ID_NONE"
  have "hg.slot_ok (active_goals_mask gs) e"
    using st e(1) by (simp add: hg.steady_def hg.working_def hg.slots_ok_def)
  then have "hg.goal (pg_id e)" using e(2) by (auto simp: hg.slot_ok_def GOAL_ID_NONE_def)
  then show "pg_lock e = 0 \<longleftrightarrow> (\<forall>h < 64. HeadsetTopology_IsGoalActive gs h \<longrightarrow>
      pg_id e \<in> side_by_side \<and> h \<in> side_by_side \<and> h \<noteq> pg_id e)"
    using hg.lock_clear_iff [OF st e] hs_lists active_bit bit_less_64 by metis
next
  assume "active_goals_mask gs = 0" "held gs \<noteq> []"
  then show "take_due (pending_goals gs) (held gs) \<noteq> None" by (rule hg.nothing_stuck [OF reach_steady [OF assms]])
qed

theorem queued_goal_waits_for_conflicts_witness:
  "\<exists>gs e. headset_from (answers None False) [Start, Decision, Decision] = Some gs \<and>
     e \<in> set (pending_goals gs) \<and> pg_id e = hs_topology_goal_allow_le_connection \<and> pg_lock e \<noteq> 0 \<and>
     (\<exists>h < 64. HeadsetTopology_IsGoalActive gs h \<and>
        \<not> (pg_id e \<in> side_by_side \<and> h \<in> side_by_side \<and> h \<noteq> pg_id e))"
proof -
  have "map_option (\<lambda>gs. (pg_id (hd (pending_goals gs)), pg_lock (hd (pending_goals gs)), pending_goals gs = []))
      (headset_from (answers None False) [Start, Decision, Decision]) = Some (5, 1, False)" by code_simp
  then obtain gs where gs: "headset_from (answers None False) [Start, Decision, Decision] = Some gs"
      "pg_id (hd (pending_goals gs)) = 5" "pg_lock (hd (pending_goals gs)) = 1" "pending_goals gs \<noteq> []" by auto
  have e: "hd (pending_goals gs) \<in> set (pending_goals gs)" using gs(4) by simp
  have "\<exists>h < 64. HeadsetTopology_IsGoalActive gs h \<and>
      \<not> (pg_id (hd (pending_goals gs)) \<in> side_by_side \<and> h \<in> side_by_side \<and> h \<noteq> pg_id (hd (pending_goals gs)))"
    using conjunct1 [OF queued_goal_waits_for_conflicts [OF from_reach [OF gs(1)]]] e gs(2,3)
    by (auto simp: GOAL_ID_NONE_def)
  then show ?thesis using gs e by (intro exI [of _ gs] exI [of _ "hd (pending_goals gs)"])
    (simp add: hs_topology_goal_allow_le_connection_def)
qed



section \<open>Stopping\<close>

text \<open>No goal, no message on its way and no rule in progress.\<close>

definition idle_headset :: "headset \<Rightarrow> bool" where
  "idle_headset gs \<longleftrightarrow> active_goals_mask gs = 0 \<and> queue_msg_count gs = 0 \<and>
     se_state (se gs) = script_engine_idle \<and> delayed (gs_env gs) = [] \<and> task_msgs (env gs) = [] \<and>
     msgs (hs_rules (env gs)) = [] \<and> HeadsetTopologyRules_GetEvents (hs_rules (env gs)) = 0"



section \<open>Stopping goes wrong\<close>

definition stop_at_once :: "headset_event list" where
  "stop_at_once = [Start, Stop 9, Own_message, Decision, Decision, Decision, Confirmation, Queued,
     Confirmation, Confirmation, Confirmation] @ le_answers @ [Own_message, Confirmation, Queued]"

definition restart :: "headset_event list" where
  "restart = [Start, Decision, Decision, Confirmation, Queued] @ le_answers"

text \<open>
  a goal that waits while the headset stops leaves the count of queued goals wrong. The headset
  is started and stopped at once: the low-energy goal is queued behind the cancelled one, then
  behind the stop, and is dropped when it is delivered, without being counted. The topology reports
  a pending goal although no message is held, and still does after a restart that runs to its end.
\<close>

theorem stop_leaves_goal_pending:
  "\<exists>gs gs'. headset_from (answers None False) stop_at_once = Some gs \<and>
     sent (env gs) = [(9, HEADSET_TOPOLOGY_STOP_CFM hs_topology_status_success)] \<and>
     held gs = [] \<and> HeadsetTopology_IsAnyGoalPending gs \<and>
     headset_run restart gs = Some gs' \<and> td_started (env gs') \<and> active_goals_mask gs' = 0 \<and> held gs' = [] \<and>
     msgs (hs_rules (env gs')) = [] \<and> HeadsetTopology_IsAnyGoalPending gs'"
proof -
  have "map_option (\<lambda>gs. (sent (env gs), held gs, HeadsetTopology_IsAnyGoalPending gs,
      map_option (\<lambda>gs. (td_started (env gs), active_goals_mask gs, held gs, msgs (hs_rules (env gs)),
        HeadsetTopology_IsAnyGoalPending gs)) (headset_run restart gs)))
      (headset_from (answers None False) stop_at_once) =
      Some ([(9, HEADSET_TOPOLOGY_STOP_CFM hs_topology_status_success)], [], True, Some (True, 0, [], [], True))"
    by code_simp
  then show ?thesis by fastforce
qed

definition lose_link :: "headset_event list" where
  "lose_link = [becomes (Some 77) False,
     To_topology (HANDSET_SERVICE_DISCONNECTED_IND handset_service_status_link_loss)]"

definition stop_and_restart :: "headset_event list" where
  "stop_and_restart = [Stop 9, Own_message] @ lose_link @ [Decision, Decision, Confirmation, Confirmation,
     Confirmation] @ le_answers @ [Own_message, Confirmation, becomes (Some 77) True,
     Start, Decision, Decision, Confirmation, Queued] @ le_answers"


end
