(* ===== verification/Rwcp_Server.thy ===== *)
theory Rwcp_Server
  imports Prelude "HOL-Library.Signed_Division"
begin

text \<open>
  \<^verbatim>\<open>libs/rwcp_server/rwcp_server.c\<close>: the receiving end of the reliable write protocol over which the
  companion app sends a firmware image. Segments carry a two-bit command and a six-bit sequence number;
  the server delivers payloads in sequence, acknowledges them, and asks for a retransmission with one GAP
  while it is out of sequence.

  The state is the static \<open>g_server_data\<close>. What the server does to its surroundings are the values of
  \<open>rwcp_out\<close>, in the order of the calls: the one octet given to \<open>GaiaRwcpSendNotification\<close>, and the
  pointer and size given to \<open>GaiaRwcpProcessCommand\<close>. A pointer is the list of the octets from it on.
\<close>

section \<open>Types and constants\<close>

datatype rwcp_protocol_state = RWCP_LISTEN | RWCP_SYN_RCVD | RWCP_ESTABLISHED

record rwcp_server =
  protocol_state :: rwcp_protocol_state
  out_of_sequence_status :: bool
  last_sequence_number :: u8
  rwcp_upgrade_header_size :: u8
  accept_segments :: bool
  client_task :: "nat option"

definition RWCP_CLIENT_CMD_DATA :: u8 where "RWCP_CLIENT_CMD_DATA = 0x00"
definition RWCP_CLIENT_CMD_SYN :: u8 where "RWCP_CLIENT_CMD_SYN = 0x40"
definition RWCP_CLIENT_CMD_RST :: u8 where "RWCP_CLIENT_CMD_RST = 0x80"
definition RWCP_CLIENT_CMD_RESERVED :: u8 where "RWCP_CLIENT_CMD_RESERVED = 0xc0"

lemmas client_cmds = RWCP_CLIENT_CMD_DATA_def RWCP_CLIENT_CMD_SYN_def RWCP_CLIENT_CMD_RST_def
  RWCP_CLIENT_CMD_RESERVED_def

definition RWCP_SERVER_CMD_DATA_ACK :: u8 where "RWCP_SERVER_CMD_DATA_ACK = 0x00"
definition RWCP_SERVER_CMD_SYN_ACK :: u8 where "RWCP_SERVER_CMD_SYN_ACK = 0x40"
definition RWCP_SERVER_CMD_RST :: u8 where "RWCP_SERVER_CMD_RST = 0x80"
definition RWCP_SERVER_CMD_GAP :: u8 where "RWCP_SERVER_CMD_GAP = 0xc0"

lemmas server_cmds = RWCP_SERVER_CMD_DATA_ACK_def RWCP_SERVER_CMD_SYN_ACK_def RWCP_SERVER_CMD_RST_def
  RWCP_SERVER_CMD_GAP_def

datatype rwcp_data_pkts =
    RWCP_DATA_PKT_IN_SEQUENCE
  | RWCP_DATA_PKT_DUPLICATE
  | RWCP_DATA_PKT_OUT_OF_SEQUENCE
  | RWCP_DATA_PKT_DISCARDED

definition RWCP_COMMAND_MASK :: u8 where "RWCP_COMMAND_MASK = 0xc0"
definition RWCP_SEQUENCE_MASK :: u8 where "RWCP_SEQUENCE_MASK = 0x3f"
definition RWCP_HEADER_SIZE :: u16 where "RWCP_HEADER_SIZE = 1"
definition RWCP_SEQUENCE_NUMBER_MAX :: int where "RWCP_SEQUENCE_NUMBER_MAX = 64"
definition RWCP_RECEIVE_WINDOW_MAX :: int where "RWCP_RECEIVE_WINDOW_MAX = 32"

lemmas rwcp_consts = RWCP_COMMAND_MASK_def RWCP_SEQUENCE_MASK_def RWCP_HEADER_SIZE_def
  RWCP_SEQUENCE_NUMBER_MAX_def RWCP_RECEIVE_WINDOW_MAX_def

datatype rwcp_out =
    Notification u8
  | ProcessCommand "u8 list" u16

section \<open>Notifications\<close>

definition rwcpSendNotification :: "u8 \<Rightarrow> u8 \<Rightarrow> rwcp_out list" where
  "rwcpSendNotification sequence command =
     [Notification ((sequence AND RWCP_SEQUENCE_MASK) OR (command AND RWCP_COMMAND_MASK))]"

definition rwcpDataAck :: "u8 \<Rightarrow> rwcp_out list" where
  "rwcpDataAck sequence = rwcpSendNotification sequence RWCP_SERVER_CMD_DATA_ACK"

definition rwcpRstAck :: "u8 \<Rightarrow> rwcp_out list" where
  "rwcpRstAck sequence = rwcpSendNotification sequence RWCP_SERVER_CMD_RST"

definition rwcpRst :: "u8 \<Rightarrow> rwcp_out list" where
  "rwcpRst sequence = rwcpSendNotification sequence RWCP_SERVER_CMD_RST"

definition rwcpSynAck :: "u8 \<Rightarrow> rwcp_out list" where
  "rwcpSynAck sequence = rwcpSendNotification sequence RWCP_SERVER_CMD_SYN_ACK"

definition rwcpGap :: "u8 \<Rightarrow> rwcp_out list" where
  "rwcpGap sequence = rwcpSendNotification sequence RWCP_SERVER_CMD_GAP"

section \<open>Sequence numbers\<close>

text \<open>The sums and remainders are computed in \<open>int\<close>, as C promotes the operands, with the remainder of
  C that truncates towards zero, and stored as \<open>uint8\<close> and \<open>uint16\<close>. The parameter of
  \<open>nextExpectedSequenceNumber\<close> is unused in the code and left out.\<close>

definition nextExpectedSequenceNumber :: "rwcp_server \<Rightarrow> u8" where
  "nextExpectedSequenceNumber g =
     word_of_int ((uint (last_sequence_number g) + 1) smod RWCP_SEQUENCE_NUMBER_MAX)"

definition isNextSequence :: "u8 \<Rightarrow> rwcp_server \<Rightarrow> bool" where
  "isNextSequence sequence g \<longleftrightarrow> sequence = nextExpectedSequenceNumber g"

definition isOutOfSequence :: "u8 \<Rightarrow> rwcp_server \<Rightarrow> bool" where
  "isOutOfSequence sequence g =
     (let norm = word_of_int ((uint sequence - uint (last_sequence_number g) + RWCP_SEQUENCE_NUMBER_MAX)
                    smod RWCP_SEQUENCE_NUMBER_MAX) :: u16
      in norm > 0 \<and> norm \<le> word_of_int RWCP_RECEIVE_WINDOW_MAX)"

section \<open>Segments\<close>

definition handleDataSegment ::
    "u8 \<Rightarrow> u8 list \<Rightarrow> u16 \<Rightarrow> rwcp_server \<Rightarrow> rwcp_data_pkts \<times> rwcp_out list \<times> rwcp_server" where
  "handleDataSegment sequence_number data len g =
     (if accept_segments g then
        if isNextSequence sequence_number g then
          (RWCP_DATA_PKT_IN_SEQUENCE,
           rwcpDataAck sequence_number @ [ProcessCommand (drop 1 data) (len - RWCP_HEADER_SIZE)],
           g\<lparr>out_of_sequence_status := False, last_sequence_number := sequence_number\<rparr>)
        else if isOutOfSequence sequence_number g then
          if \<not> out_of_sequence_status g then
            (RWCP_DATA_PKT_OUT_OF_SEQUENCE, rwcpGap (last_sequence_number g),
             g\<lparr>out_of_sequence_status := True\<rparr>)
          else (RWCP_DATA_PKT_OUT_OF_SEQUENCE, [], g)
        else (RWCP_DATA_PKT_DUPLICATE, rwcpDataAck sequence_number, g)
      else (RWCP_DATA_PKT_DISCARDED, [], g))"

definition isRWwcpControlCmd :: "u8 \<Rightarrow> bool" where
  "isRWwcpControlCmd command \<longleftrightarrow> command = RWCP_CLIENT_CMD_SYN \<or> command = RWCP_CLIENT_CMD_RST"

text \<open>The \<open>switch\<close> of \<open>RwcpServerHandleMessage\<close>, one function for each state. The packet type is
  \<open>IN_SEQUENCE\<close> unless \<open>handleDataSegment\<close> sets it.\<close>

definition handle_listen :: "u8 \<Rightarrow> u8 \<Rightarrow> rwcp_server \<Rightarrow> rwcp_data_pkts \<times> rwcp_out list \<times> rwcp_server" where
  "handle_listen command sequence_number g =
     (if command = RWCP_CLIENT_CMD_SYN then
        (RWCP_DATA_PKT_IN_SEQUENCE, rwcpSynAck sequence_number,
         g\<lparr>last_sequence_number := sequence_number, protocol_state := RWCP_SYN_RCVD\<rparr>)
      else if command = RWCP_CLIENT_CMD_RST then
        (RWCP_DATA_PKT_IN_SEQUENCE, rwcpRstAck sequence_number, g)
      else (RWCP_DATA_PKT_IN_SEQUENCE, rwcpRst sequence_number, g))"

definition handle_syn_rcvd ::
    "u8 \<Rightarrow> u8 \<Rightarrow> u8 list \<Rightarrow> u16 \<Rightarrow> rwcp_server \<Rightarrow> rwcp_data_pkts \<times> rwcp_out list \<times> rwcp_server" where
  "handle_syn_rcvd command sequence_number data len g =
     (if command = RWCP_CLIENT_CMD_SYN then
        (RWCP_DATA_PKT_IN_SEQUENCE, rwcpSynAck sequence_number,
         g\<lparr>last_sequence_number := sequence_number\<rparr>)
      else if command = RWCP_CLIENT_CMD_RST then
        (RWCP_DATA_PKT_IN_SEQUENCE, rwcpRstAck sequence_number, g\<lparr>protocol_state := RWCP_LISTEN\<rparr>)
      else if command = RWCP_CLIENT_CMD_DATA then
        (let g = g\<lparr>out_of_sequence_status := False\<rparr>;
             (t, out, g) = handleDataSegment sequence_number data len g
         in (t, out, g\<lparr>protocol_state := RWCP_ESTABLISHED\<rparr>))
      else
        (RWCP_DATA_PKT_IN_SEQUENCE, rwcpRst sequence_number, g\<lparr>protocol_state := RWCP_LISTEN\<rparr>))"

definition handle_established ::
    "u8 \<Rightarrow> u8 \<Rightarrow> u8 list \<Rightarrow> u16 \<Rightarrow> rwcp_server \<Rightarrow> rwcp_data_pkts \<times> rwcp_out list \<times> rwcp_server" where
  "handle_established command sequence_number data len g =
     (if command = RWCP_CLIENT_CMD_RST then
        (RWCP_DATA_PKT_IN_SEQUENCE, rwcpRstAck sequence_number, g\<lparr>protocol_state := RWCP_LISTEN\<rparr>)
      else if command = RWCP_CLIENT_CMD_DATA then
        handleDataSegment sequence_number data len g
      else
        (RWCP_DATA_PKT_IN_SEQUENCE, rwcpRst sequence_number, g\<lparr>protocol_state := RWCP_LISTEN\<rparr>))"

text \<open>\<open>None\<close> is the null pointer.\<close>

definition RwcpServerHandleMessage ::
    "u8 list option \<Rightarrow> u16 \<Rightarrow> rwcp_server \<Rightarrow> bool \<times> rwcp_out list \<times> rwcp_server" where
  "RwcpServerHandleMessage msg len g =
     (case msg of
        None \<Rightarrow> (False, [], g)
      | Some data \<Rightarrow>
          let rwcp_header = data ! 0;
              sequence_number = rwcp_header AND RWCP_SEQUENCE_MASK;
              command = rwcp_header AND RWCP_COMMAND_MASK;
              (data_packet_type, out, g) =
                (case protocol_state g of
                   RWCP_LISTEN \<Rightarrow> handle_listen command sequence_number g
                 | RWCP_SYN_RCVD \<Rightarrow> handle_syn_rcvd command sequence_number data len g
                 | RWCP_ESTABLISHED \<Rightarrow> handle_established command sequence_number data len g)
          in (\<not> (isRWwcpControlCmd command \<or> data_packet_type = RWCP_DATA_PKT_OUT_OF_SEQUENCE
                  \<or> data_packet_type = RWCP_DATA_PKT_DUPLICATE), out, g))"

definition RwcpServerFlowControl :: "bool \<Rightarrow> rwcp_server \<Rightarrow> rwcp_server" where
  "RwcpServerFlowControl accept g = g\<lparr>accept_segments := accept\<rparr>"

definition RwcpSetClientTask :: "nat option \<Rightarrow> rwcp_server \<Rightarrow> rwcp_server" where
  "RwcpSetClientTask task g = g\<lparr>client_task := task\<rparr>"

definition RwcpServerInit :: "u8 \<Rightarrow> rwcp_server \<Rightarrow> rwcp_server" where
  "RwcpServerInit header_size g =
     g\<lparr>protocol_state := RWCP_LISTEN, accept_segments := True, client_task := None,
       last_sequence_number := 0, rwcp_upgrade_header_size := header_size\<rparr>"

definition RwcpGetProtocolState :: "rwcp_server \<Rightarrow> rwcp_protocol_state" where
  "RwcpGetProtocolState g = protocol_state g"

definition RwcpGetOutOfSequenceStatus :: "rwcp_server \<Rightarrow> bool" where
  "RwcpGetOutOfSequenceStatus g = out_of_sequence_status g"

end
