(* ===== verification/Rwcp_Delivery.thy ===== *)
theory Rwcp_Delivery
  imports Rwcp_Server
begin

text \<open>
  What the RWCP server promises the transport above it. The client numbers its payloads 1, 2, 3, ... and
  sends the payload with index \<open>i\<close> in a segment with the sequence number \<open>s + i\<close> modulo 64, where \<open>s\<close> is
  the number of its SYN. The network loses, repeats, delays and reorders segments: a session is any list
  of arriving indices. The server refines a counter of the delivered payloads (\<open>delivered_after\<close>) as
  long as no segment arrives so late or so early that its sequence number is ambiguous (\<open>timely\<close>).
\<close>

section \<open>A session\<close>

fun rwcp_run :: "u8 list list \<Rightarrow> rwcp_server \<Rightarrow> rwcp_out list \<times> rwcp_server" where
  "rwcp_run [] g = ([], g)"
| "rwcp_run (m # ms) g =
     (let (_, out, g) = RwcpServerHandleMessage (Some m) (of_nat (length m)) g;
          (outs, g) = rwcp_run ms g
      in (out @ outs, g))"

text \<open>What is passed on, and what is sent back.\<close>

fun processed :: "rwcp_out list \<Rightarrow> u8 list list" where
  "processed [] = []"
| "processed (Notification h # os) = processed os"
| "processed (ProcessCommand data n # os) = take (unat n) data # processed os"

fun notified :: "rwcp_out list \<Rightarrow> u8 list" where
  "notified [] = []"
| "notified (Notification h # os) = h # notified os"
| "notified (ProcessCommand data n # os) = notified os"

lemma processed_append [simp]: "processed (a @ b) = processed a @ processed b"
  by (induction a rule: processed.induct) simp_all

lemma notified_append [simp]: "notified (a @ b) = notified a @ notified b"
  by (induction a rule: notified.induct) simp_all

lemma rwcp_run_append:
  "rwcp_run (a @ b) g =
     (let (o1, g1) = rwcp_run a g; (o2, g2) = rwcp_run b g1 in (o1 @ o2, g2))"
  by (induction a arbitrary: g) (simp_all add: split_beta Let_def)

section \<open>Headers\<close>

definition seqno :: "nat \<Rightarrow> u8" where
  "seqno n = of_nat (n mod 64)"

lemma unat_seqno [simp]: "unat (seqno n) = n mod 64"
proof -
  have "n mod 64 < 64" by simp
  then have "n mod 64 < 256" by linarith
  then show ?thesis by (simp add: seqno_def unat_of_nat)
qed

lemma seqno_eq_iff: "seqno a = seqno b \<longleftrightarrow> a mod 64 = b mod 64"
  by (simp add: word_unat_eq_iff)

lemma seqno_sequence [simp]: "seqno n AND RWCP_SEQUENCE_MASK = seqno n"
proof -
  have "RWCP_SEQUENCE_MASK = mask 6" by (simp add: RWCP_SEQUENCE_MASK_def mask_eq_exp_minus_1)
  moreover have "take_bit 6 (seqno n) = seqno n"
    by (rule word_unat_eq_iff [THEN iffD2]) (simp add: take_bit_eq_mod unat_mod)
  ultimately show ?thesis by (simp only: take_bit_eq_mask)
qed

lemma seqno_command [simp]: "seqno n AND RWCP_COMMAND_MASK = 0"
proof -
  have "seqno n AND RWCP_COMMAND_MASK = (seqno n AND RWCP_SEQUENCE_MASK) AND RWCP_COMMAND_MASK" by simp
  also have "\<dots> = seqno n AND (RWCP_SEQUENCE_MASK AND RWCP_COMMAND_MASK)" by (rule and.assoc)
  finally show ?thesis by (simp add: RWCP_SEQUENCE_MASK_def RWCP_COMMAND_MASK_def)
qed

text \<open>The two halves of an octet are independent.\<close>

lemma header_sequence:
  "c AND RWCP_SEQUENCE_MASK = 0 \<Longrightarrow> (seqno n OR c) AND RWCP_SEQUENCE_MASK = seqno n"
  by (simp add: bit.conj_disj_distrib2)

lemma header_command:
  "c AND RWCP_COMMAND_MASK = c \<Longrightarrow> (seqno n OR c) AND RWCP_COMMAND_MASK = c"
  by (simp add: bit.conj_disj_distrib2)

lemma server_cmd_bits [simp]:
  "RWCP_SERVER_CMD_DATA_ACK AND RWCP_COMMAND_MASK = RWCP_SERVER_CMD_DATA_ACK"
  "RWCP_SERVER_CMD_SYN_ACK AND RWCP_COMMAND_MASK = RWCP_SERVER_CMD_SYN_ACK"
  "RWCP_SERVER_CMD_RST AND RWCP_COMMAND_MASK = RWCP_SERVER_CMD_RST"
  "RWCP_SERVER_CMD_GAP AND RWCP_COMMAND_MASK = RWCP_SERVER_CMD_GAP"
  by (simp_all add: server_cmds RWCP_COMMAND_MASK_def)

definition header :: "u8 \<Rightarrow> nat \<Rightarrow> u8" where
  "header command n = seqno n OR command"

definition data_segment :: "nat \<Rightarrow> (nat \<Rightarrow> u8 list) \<Rightarrow> nat \<Rightarrow> u8 list" where
  "data_segment s p i = header RWCP_CLIENT_CMD_DATA (s + i) # p i"

lemma send_notification [simp]:
  "command AND RWCP_COMMAND_MASK = command \<Longrightarrow>
   rwcpSendNotification (seqno n) command = [Notification (header command n)]"
  by (simp add: rwcpSendNotification_def header_def)

section \<open>Sequence numbers are indices modulo 64\<close>

lemma uint_seqno: "uint (seqno n) = int n mod 64"
  by (simp add: uint_nat zmod_int)

lemma smod_nonneg: "0 \<le> a \<Longrightarrow> a smod (64 :: int) = a mod 64"
  by (rule smod_mod_positive) simp_all

lemma next_expected: "last_sequence_number g = seqno d \<Longrightarrow> nextExpectedSequenceNumber g = seqno (Suc d)"
proof -
  assume "last_sequence_number g = seqno d"
  moreover have "(int d mod 64 + 1) smod 64 = int (Suc d mod 64)"
    by (simp add: smod_nonneg zmod_int mod_simps add.commute)
  ultimately show ?thesis
    by (simp only: nextExpectedSequenceNumber_def uint_seqno RWCP_SEQUENCE_NUMBER_MAX_def)
      (simp add: seqno_def)
qed

lemma out_of_sequence:
  assumes "last_sequence_number g = seqno d"
  shows "isOutOfSequence (seqno i) g \<longleftrightarrow> 1 \<le> (int i - int d) mod 64 \<and> (int i - int d) mod 64 \<le> 32"
proof -
  define k where "k = nat ((int i - int d) mod 64)"
  have k: "(int i - int d) mod 64 = int k" "k < 64" by (simp_all add: k_def nat_less_iff)
  have "0 \<le> int i mod 64" "int d mod 64 < 64" by simp_all
  then have "0 \<le> int i mod 64 - int d mod 64 + 64" by linarith
  then have "(int i mod 64 - int d mod 64 + 64) smod 64 = int k"
    using k(1) by (simp add: smod_nonneg mod_simps)
  moreover have "unat (of_nat k :: u16) = k" using k(2) by (simp add: unat_of_nat)
  ultimately show ?thesis using k
    by (simp add: isOutOfSequence_def assms uint_seqno rwcp_consts word_less_nat_alt word_le_nat_alt Let_def Suc_le_eq)
qed

section \<open>The abstract receiver\<close>

text \<open>
  A go-back-N receiver over unbounded indices: its state is the number of delivered payloads and whether
  it has already reported the gap.
\<close>

datatype gbn_out = Deliver nat | Ack nat | Gap nat

fun gbn_step :: "nat \<times> bool \<Rightarrow> nat \<Rightarrow> gbn_out list \<times> (nat \<times> bool)" where
  "gbn_step (d, muted) i =
     (if i = Suc d then ([Ack i, Deliver i], (i, False))
      else if i \<le> d then ([Ack i], (d, muted))
      else (if muted then [] else [Gap d], (d, True)))"

fun gbn_run :: "nat \<times> bool \<Rightarrow> nat list \<Rightarrow> gbn_out list \<times> (nat \<times> bool)" where
  "gbn_run st [] = ([], st)"
| "gbn_run st (i # js) =
     (let (out, st) = gbn_step st i; (outs, st) = gbn_run st js in (out @ outs, st))"

fun delivered_after :: "nat \<Rightarrow> nat list \<Rightarrow> nat" where
  "delivered_after d [] = d"
| "delivered_after d (i # js) = delivered_after (if i = Suc d then i else d) js"

text \<open>The client keeps at most 32 segments outstanding, and none arrives more than 31 payloads late.\<close>

fun in_window :: "nat \<Rightarrow> nat list \<Rightarrow> bool" where
  "in_window d [] \<longleftrightarrow> True"
| "in_window d (i # js) \<longleftrightarrow>
     i \<le> d + 32 \<and> d < i + 32 \<and> in_window (if i = Suc d then i else d) js"

fun deliveries :: "gbn_out list \<Rightarrow> nat list" where
  "deliveries [] = []"
| "deliveries (Deliver i # os) = i # deliveries os"
| "deliveries (Ack i # os) = deliveries os"
| "deliveries (Gap i # os) = deliveries os"

fun encode :: "nat \<Rightarrow> (nat \<Rightarrow> u8 list) \<Rightarrow> gbn_out \<Rightarrow> rwcp_out" where
  "encode s p (Deliver i) = ProcessCommand (p i) (of_nat (length (p i)))"
| "encode s p (Ack i) = Notification (header RWCP_SERVER_CMD_DATA_ACK (s + i))"
| "encode s p (Gap i) = Notification (header RWCP_SERVER_CMD_GAP (s + i))"

lemma delivered_mono: "d \<le> delivered_after d js"
  by (induction js arbitrary: d) (simp_all, meson Suc_leD le_trans)

lemma gbn_run_delivered: "fst (snd (gbn_run (d, m) js)) = delivered_after d js"
  by (induction js arbitrary: d m) (auto simp: Let_def split_beta)

lemma deliveries_append [simp]: "deliveries (a @ b) = deliveries a @ deliveries b"
  by (induction a rule: deliveries.induct) simp_all

text \<open>The abstract receiver delivers every index once, in order.\<close>

lemma gbn_in_order: "deliveries (fst (gbn_run (d, m) js)) = [Suc d ..< Suc (delivered_after d js)]"
proof (induction js arbitrary: d m)
  case (Cons i js)
  have "Suc d < Suc (delivered_after (Suc d) js)" using delivered_mono [of "Suc d" js] by simp
  then show ?case using Cons by (auto simp: Let_def split_beta upt_conv_Cons simp del: upt_Suc)
qed simp

section \<open>One segment\<close>

text \<open>The server while it takes data: \<open>d\<close> payloads delivered after the SYN numbered \<open>s\<close>.\<close>

definition taking :: "nat \<Rightarrow> nat \<Rightarrow> rwcp_server \<Rightarrow> bool" where
  "taking s d g \<longleftrightarrow> accept_segments g \<and> last_sequence_number g = seqno (s + d)"

definition position :: "nat \<Rightarrow> nat \<times> bool \<Rightarrow> rwcp_server \<Rightarrow> rwcp_server" where
  "position s st g = g\<lparr>last_sequence_number := seqno (s + fst st), out_of_sequence_status := snd st\<rparr>"

lemma index_cases:
  assumes "i \<le> d + 32" "d < i + 32"
  shows "((s + i) mod 64 = Suc (s + d) mod 64) = (i = Suc d)"
    and "(1 \<le> (int (s + i) - int (s + d)) mod 64 \<and> (int (s + i) - int (s + d)) mod 64 \<le> 32) = (d < i)"
proof -
  show "((s + i) mod 64 = Suc (s + d) mod 64) = (i = Suc d)"
  proof
    assume "(s + i) mod 64 = Suc (s + d) mod 64"
    then have "int (s + i) mod 64 = int (Suc (s + d)) mod 64" by (metis zmod_int of_nat_numeral)
    then have "64 dvd int i - (1 + int d)" by (simp add: mod_eq_dvd_iff algebra_simps)
    then show "i = Suc d" using assms by presburger
  qed simp
  show "(1 \<le> (int (s + i) - int (s + d)) mod 64 \<and> (int (s + i) - int (s + d)) mod 64 \<le> 32) = (d < i)"
  proof (cases "d < i")
    case True
    then have "(int i - int d) mod 64 = int i - int d" using assms by (intro mod_pos_pos_trivial) auto
    then show ?thesis using True assms by simp
  next
    case False
    then show ?thesis using assms by simp presburger
  qed
qed

lemma data_segment_step:
  assumes "taking s d g" "i \<le> d + 32" "d < i + 32"
  shows "snd (handleDataSegment (seqno (s + i)) (data_segment s p i) (of_nat (length (data_segment s p i))) g)
     = (map (encode s p) (fst (gbn_step (d, out_of_sequence_status g) i)),
        position s (snd (gbn_step (d, out_of_sequence_status g) i)) g)"
proof -
  have last: "last_sequence_number g = seqno (s + d)" and acc: "accept_segments g"
    using assms(1) by (simp_all add: taking_def)
  have "isNextSequence (seqno (s + i)) g = (i = Suc d)"
    by (simp add: isNextSequence_def next_expected [OF last] seqno_eq_iff index_cases(1) [OF assms(2,3)])
  moreover have "isOutOfSequence (seqno (s + i)) g = (d < i)"
    unfolding out_of_sequence [OF last] by (rule index_cases(2) [OF assms(2,3)])
  ultimately show ?thesis
    using acc last
    by (simp add: handleDataSegment_def position_def rwcpDataAck_def rwcpGap_def data_segment_def
          RWCP_HEADER_SIZE_def)
qed

lemma data_header [simp]:
  "header RWCP_CLIENT_CMD_DATA n AND RWCP_SEQUENCE_MASK = seqno n"
  "header RWCP_CLIENT_CMD_DATA n AND RWCP_COMMAND_MASK = RWCP_CLIENT_CMD_DATA"
  by (simp_all add: header_def RWCP_CLIENT_CMD_DATA_def)

lemma syn_header [simp]:
  "header RWCP_CLIENT_CMD_SYN n AND RWCP_SEQUENCE_MASK = seqno n"
  "header RWCP_CLIENT_CMD_SYN n AND RWCP_COMMAND_MASK = RWCP_CLIENT_CMD_SYN"
proof -
  have "RWCP_CLIENT_CMD_SYN AND RWCP_SEQUENCE_MASK = 0"
    and "RWCP_CLIENT_CMD_SYN AND RWCP_COMMAND_MASK = RWCP_CLIENT_CMD_SYN"
    by (simp_all add: RWCP_CLIENT_CMD_SYN_def RWCP_SEQUENCE_MASK_def RWCP_COMMAND_MASK_def)
  then show "header RWCP_CLIENT_CMD_SYN n AND RWCP_SEQUENCE_MASK = seqno n"
    and "header RWCP_CLIENT_CMD_SYN n AND RWCP_COMMAND_MASK = RWCP_CLIENT_CMD_SYN"
    by (simp_all add: header_def header_sequence header_command)
qed

lemma client_cmd_neq [simp]:
  "RWCP_CLIENT_CMD_DATA \<noteq> RWCP_CLIENT_CMD_RST" "RWCP_CLIENT_CMD_DATA \<noteq> RWCP_CLIENT_CMD_SYN"
  "RWCP_CLIENT_CMD_RST \<noteq> RWCP_CLIENT_CMD_DATA" "RWCP_CLIENT_CMD_SYN \<noteq> RWCP_CLIENT_CMD_DATA"
  "RWCP_CLIENT_CMD_SYN \<noteq> RWCP_CLIENT_CMD_RST" "RWCP_CLIENT_CMD_RST \<noteq> RWCP_CLIENT_CMD_SYN"
  by (simp_all add: client_cmds)

lemma data_message_established:
  assumes "protocol_state g = RWCP_ESTABLISHED" "taking s d g" "i \<le> d + 32" "d < i + 32"
    and m_def: "m = data_segment s p i"
  shows "snd (RwcpServerHandleMessage (Some m) (of_nat (length m)) g)
     = (map (encode s p) (fst (gbn_step (d, out_of_sequence_status g) i)),
        position s (snd (gbn_step (d, out_of_sequence_status g) i)) g)"
proof -
  have "m ! 0 = header RWCP_CLIENT_CMD_DATA (s + i)" by (simp add: m_def data_segment_def)
  then show ?thesis
    using assms(1) data_segment_step [OF assms(2-4), of p] 
    by (simp del: gbn_step.simps add: RwcpServerHandleMessage_def handle_established_def split_beta Let_def m_def)
qed

lemma data_message_syn_rcvd:
  assumes "protocol_state g = RWCP_SYN_RCVD" "taking s d g" "i \<le> d + 32" "d < i + 32"
    and m_def: "m = data_segment s p i"
  shows "snd (RwcpServerHandleMessage (Some m) (of_nat (length m)) g)
     = (map (encode s p) (fst (gbn_step (d, False) i)),
        (position s (snd (gbn_step (d, False) i)) g)\<lparr>protocol_state := RWCP_ESTABLISHED\<rparr>)"
proof -
  let ?g = "g\<lparr>out_of_sequence_status := False\<rparr>"
  have "m ! 0 = header RWCP_CLIENT_CMD_DATA (s + i)" by (simp add: m_def data_segment_def)
  moreover have "taking s d ?g" using assms(2) by (simp add: taking_def)
  ultimately show ?thesis
    using assms(1) data_segment_step [of s d ?g, OF _ assms(3,4), of p] 
    by (simp del: gbn_step.simps add: RwcpServerHandleMessage_def handle_syn_rcvd_def split_beta Let_def position_def m_def)
qed

section \<open>Whole sessions\<close>

lemma position_position [simp]: "position s a (position s b g) = position s a g"
  by (simp add: position_def)

lemma position_state [simp]:
  "protocol_state (position s st g) = protocol_state g"
  "out_of_sequence_status (position s st g) = snd st"
  "taking s (fst st) (position s st g) = accept_segments g"
  by (simp_all add: position_def taking_def)

lemma gbn_step_delivered: "fst (snd (gbn_step (d, m) i)) = (if i = Suc d then i else d)"
  by simp

lemma established_run:
  assumes "protocol_state g = RWCP_ESTABLISHED" "taking s d g" "in_window d js"
  shows "rwcp_run (map (data_segment s p) js) g
     = (map (encode s p) (fst (gbn_run (d, out_of_sequence_status g) js)),
        position s (snd (gbn_run (d, out_of_sequence_status g) js)) g)"
  using assms
proof (induction js arbitrary: d g)
  case Nil
  then show ?case by (simp add: position_def taking_def)
next
  case (Cons i js)
  let ?st = "snd (gbn_step (d, out_of_sequence_status g) i)"
  have msg: "snd (RwcpServerHandleMessage (Some (data_segment s p i)) (of_nat (length (data_segment s p i))) g)
     = (map (encode s p) (fst (gbn_step (d, out_of_sequence_status g) i)), position s ?st g)"
    using Cons.prems by (intro data_message_established [OF _ _ _ _ refl]) simp_all
  have "taking s (fst ?st) (position s ?st g)" 
    using Cons.prems(2) by (simp del: gbn_step.simps add: taking_def position_def)
  moreover have "in_window (fst ?st) js" using Cons.prems(3) by (simp split: if_splits)
  ultimately have "rwcp_run (map (data_segment s p) js) (position s ?st g)
     = (map (encode s p) (fst (gbn_run ?st js)), position s (snd (gbn_run ?st js)) g)"
    using Cons.prems(1) Cons.IH [of "position s ?st g" "fst ?st"] by (simp del: gbn_step.simps)
  then show ?case
    by (simp del: gbn_step.simps add: Let_def split_beta msg)
qed

definition syn_segment :: "nat \<Rightarrow> u8 list" where
  "syn_segment s = [header RWCP_CLIENT_CMD_SYN s]"

lemma syn_message:
  assumes "protocol_state g = RWCP_LISTEN"
  shows "snd (RwcpServerHandleMessage (Some (syn_segment s)) n g)
     = ([Notification (header RWCP_SERVER_CMD_SYN_ACK s)],
        g\<lparr>last_sequence_number := seqno s, protocol_state := RWCP_SYN_RCVD\<rparr>)"
  using assms
  by (simp add: RwcpServerHandleMessage_def syn_segment_def handle_listen_def rwcpSynAck_def)

lemma session_run:
  assumes "protocol_state g = RWCP_LISTEN" "accept_segments g" "in_window 0 js" "js \<noteq> []"
  shows "rwcp_run (syn_segment s # map (data_segment s p) js) g
     = (Notification (header RWCP_SERVER_CMD_SYN_ACK s) # map (encode s p) (fst (gbn_run (0, False) js)),
        (position s (snd (gbn_run (0, False) js)) g)\<lparr>protocol_state := RWCP_ESTABLISHED\<rparr>)"
proof -
  obtain i ks where js: "js = i # ks" using assms(4) by (cases js) auto
  let ?g = "g\<lparr>last_sequence_number := seqno s, protocol_state := RWCP_SYN_RCVD\<rparr>"
  let ?st = "snd (gbn_step (0, False) i)"
  let ?h = "(position s ?st ?g)\<lparr>protocol_state := RWCP_ESTABLISHED\<rparr>"
  have msg: "snd (RwcpServerHandleMessage (Some (data_segment s p i)) (of_nat (length (data_segment s p i))) ?g)
     = (map (encode s p) (fst (gbn_step (0, False) i)), ?h)"
    using assms js by (intro data_message_syn_rcvd [OF _ _ _ _ refl]) (simp_all add: taking_def)
  have "rwcp_run (map (data_segment s p) ks) ?h
     = (map (encode s p) (fst (gbn_run (fst ?st, out_of_sequence_status ?h) ks)),
        position s (snd (gbn_run (fst ?st, out_of_sequence_status ?h) ks)) ?h)"
    using assms js by (intro established_run) (auto simp: taking_def position_def)
  then show ?thesis
    by (simp del: gbn_step.simps add: js Let_def split_beta msg syn_message [OF assms(1)] position_def)
qed

section \<open>Resending\<close>

lemma delivered_after_append: "delivered_after d (a @ b) = delivered_after (delivered_after d a) b"
  by (induction a arbitrary: d) simp_all

lemma in_window_append: "in_window d (a @ b) \<longleftrightarrow> in_window d a \<and> in_window (delivered_after d a) b"
  by (induction a arbitrary: d) auto

text \<open>Going back to \<open>a\<close> and sending on to \<open>n\<close> stays in the window and ends with \<open>n\<close> delivered.\<close>

lemma resend:
  assumes "a \<le> d" "d < a + 32" "d \<le> n"
  shows "in_window d [Suc a ..< Suc n] \<and> delivered_after d [Suc a ..< Suc n] = n"
  using assms
proof (induction "n - a" arbitrary: a d)
  case 0
  then show ?case by simp
next
  case (Suc k)
  let ?d = "if Suc a = Suc d then Suc a else d"
  have "[Suc a ..< Suc n] = Suc a # [Suc (Suc a) ..< Suc n]"
    using Suc.hyps(2) by (simp add: upt_conv_Cons del: upt_Suc)
  moreover have "in_window ?d [Suc (Suc a) ..< Suc n] \<and> delivered_after ?d [Suc (Suc a) ..< Suc n] = n"
    using Suc by (intro Suc.hyps(1)) auto
  ultimately show ?case using Suc.prems by simp
qed

lemma processed_encode:
  assumes "\<forall>i. length (p i) \<le> 65535"
  shows "processed (map (encode s p) outs) = map p (deliveries outs)"
proof (induction outs rule: deliveries.induct)
  case (2 i os)
  have "unat (of_nat (length (p i)) :: u16) = length (p i)"
    using spec [OF assms, of i] by (simp add: unat_of_nat)
  then show ?case using 2 by simp
qed simp_all

end
