(* ===== verification/Gaia_Packet.thy ===== *)
theory Gaia_Packet
  imports Prelude
begin

text \<open>
  The framing of the companion-app protocol over a byte stream: \<^verbatim>\<open>libs/gaia/gaia_transport_common.c\<close>,
  which builds and recognises packets, and its use over RFCOMM in
  \<^verbatim>\<open>domains/gaia/gaia_transport/gaia_transport_rfcomm.c\<close>.

  A packet is SOF, version, flags, a length of one or two octets, vendor and command identifiers and the
  payload. The receiver looks at everything that has arrived, queues at most two commands, and frees the
  space of the packets when both are handled; payload pointers point into the stream. A pointer is the
  list of the octets from it on, \<open>None\<close> the null pointer.

  The link below is the buffer of received octets (\<open>rx_buffer\<close>) and the list of octets sent. Commands go
  to the application task as GAIA\_COMMAND\_IND, in the version 3 the framework selects.
\<close>

section \<open>Layout\<close>

definition GAIA_SOF :: u8 where "GAIA_SOF = 0xFF"
definition GAIA_STATUS_NONE :: u8 where "GAIA_STATUS_NONE = 0xFE"
definition GAIA_PROTOCOL_FLAG_CHECK :: u8 where "GAIA_PROTOCOL_FLAG_CHECK = 0x01"
definition GAIA_PROTOCOL_FLAG_16_BIT_LENGTH :: u8 where "GAIA_PROTOCOL_FLAG_16_BIT_LENGTH = 0x02"

definition GAIA_OFFS_VERSION :: nat where "GAIA_OFFS_VERSION = 1"
definition GAIA_OFFS_FLAGS :: nat where "GAIA_OFFS_FLAGS = 2"
definition GAIA_OFFS_PAYLOAD_LENGTH :: nat where "GAIA_OFFS_PAYLOAD_LENGTH = 3"
definition GAIA_OFFS_VENDOR_ID :: "bool \<Rightarrow> nat" where "GAIA_OFFS_VENDOR_ID is_16 = (if is_16 then 5 else 4)"
definition GAIA_OFFS_COMMAND_ID :: "bool \<Rightarrow> nat" where "GAIA_OFFS_COMMAND_ID is_16 = (if is_16 then 7 else 6)"
definition GAIA_OFFS_PAYLOAD :: "bool \<Rightarrow> nat" where "GAIA_OFFS_PAYLOAD is_16 = (if is_16 then 9 else 8)"

lemmas gaia_consts = GAIA_SOF_def GAIA_PROTOCOL_FLAG_CHECK_def
  GAIA_PROTOCOL_FLAG_16_BIT_LENGTH_def GAIA_OFFS_VERSION_def GAIA_OFFS_FLAGS_def
  GAIA_OFFS_PAYLOAD_LENGTH_def GAIA_OFFS_VENDOR_ID_def GAIA_OFFS_COMMAND_ID_def GAIA_OFFS_PAYLOAD_def

definition HIGH :: "u16 \<Rightarrow> u8" where "HIGH x = ucast (drop_bit 8 x)"
definition LOW :: "u16 \<Rightarrow> u8" where "LOW x = ucast (x AND 0xFF)"

definition W16 :: "u8 list \<Rightarrow> u16" where
  "W16 x = push_bit 8 (ucast (x ! 0)) OR ucast (x ! 1)"

section \<open>Building a packet\<close>

definition Gaia_TransportCommonCalcTxPacketLength :: "u16 \<Rightarrow> u8 \<Rightarrow> u16" where
  "Gaia_TransportCommonCalcTxPacketLength size_payload status =
     (of_nat (GAIA_OFFS_PAYLOAD False) + size_payload) + (if size_payload > 255 then 1 else 0)
       + (if status \<noteq> GAIA_STATUS_NONE then 1 else 0)"

definition Gaia_TransportCommonCalcRxPacketLength :: "u16 \<Rightarrow> u8 \<Rightarrow> u16" where
  "Gaia_TransportCommonCalcRxPacketLength size_payload flags =
     (of_nat (GAIA_OFFS_PAYLOAD False) + size_payload)
       + (if flags AND GAIA_PROTOCOL_FLAG_CHECK \<noteq> 0 then 1 else 0)
       + (if flags AND GAIA_PROTOCOL_FLAG_16_BIT_LENGTH \<noteq> 0 then 1 else 0)"

text \<open>The octets written from \<open>pkt_buf\<close> on; \<open>None\<close> is the panic. The check octet goes to the last place of the
  buffer.\<close>

definition Gaia_TransportCommonBuildPacket ::
    "u8 \<Rightarrow> u16 \<Rightarrow> u16 \<Rightarrow> u16 \<Rightarrow> u8 \<Rightarrow> u16 \<Rightarrow> u8 list \<Rightarrow> u8 list option" where
  "Gaia_TransportCommonBuildPacket protocol_version pkt_length vendor_id command_id status size_payload payload =
     (let total_payload_size = size_payload + (if status \<noteq> GAIA_STATUS_NONE then 1 else 0);
          flags = (if protocol_version \<ge> 4 \<and> total_payload_size > 255
                   then GAIA_PROTOCOL_FLAG_16_BIT_LENGTH else 0)
      in if flags AND GAIA_PROTOCOL_FLAG_16_BIT_LENGTH = 0 \<and> \<not> total_payload_size < 256 then None
         else
           let pkt = [GAIA_SOF, protocol_version, flags]
                 @ (if flags AND GAIA_PROTOCOL_FLAG_16_BIT_LENGTH \<noteq> 0
                    then [HIGH total_payload_size, LOW total_payload_size] else [ucast total_payload_size])
                 @ [HIGH vendor_id, LOW vendor_id, HIGH command_id, LOW command_id]
                 @ (if status \<noteq> GAIA_STATUS_NONE then [status] else [])
                 @ take (unat size_payload) payload
           in if flags AND GAIA_PROTOCOL_FLAG_CHECK \<noteq> 0
              then Some (pkt[unat pkt_length - 1 := fold (XOR) (take (unat pkt_length - 1) pkt) 0])
              else Some pkt)"

section \<open>The transport over RFCOMM\<close>

datatype gaia_transport_type =
    gaia_transport_test
  | gaia_transport_rfcomm
  | gaia_transport_spp
  | gaia_transport_gatt
  | gaia_transport_iap2

datatype gaia_transport_state =
    GAIA_TRANSPORT_STOPPING
  | GAIA_TRANSPORT_STOPPED
  | GAIA_TRANSPORT_STARTING
  | GAIA_TRANSPORT_STARTED
  | GAIA_TRANSPORT_CONNECTING
  | GAIA_TRANSPORT_CONNECTED
  | GAIA_TRANSPORT_DISCONNECTING
  | GAIA_TRANSPORT_ERROR

record gaia_command =
  cmd_vendor_id :: u16
  cmd_command_id :: u16
  cmd_size_payload :: u16
  cmd_payload :: "u8 list option"

text \<open>Requests to the transport manager, the service record database and the streams, and messages to the
  application other than commands.\<close>

datatype stack_request =
    TransportMgrRegisterTransport u8
  | TransportMgrDeRegisterTransport u8
  | TransportMgrDisconnect u16
  | ConnectionRegisterServiceRecord "u8 list"
  | ConnectionUnregisterServiceRecord u32
  | StreamConnectDispose u16

datatype gaia_report =
    GAIA_CONNECT_CFM bool
  | GAIA_CONNECT_IND bool
  | GAIA_DISCONNECT_IND
  | GAIA_DISCONNECT_CFM
  | GAIA_START_SERVICE_CFM bool
  | GAIA_STOP_SERVICE_CFM bool

text \<open>
  The instance of the transport, which exists while \<open>allocated\<close>, and its surroundings: what waits in the
  source of the link and what has been sent, asked for and reported.
\<close>

record gaia_transport_rfcomm =
  allocated :: bool
  gaia_type :: gaia_transport_type
  gaia_state :: gaia_transport_state
  channel :: u8
  trans_sink :: u16
  service_handle :: u32
  max_tx_size :: "12 word"
  protocol_version :: "4 word"
  rx_packets_pending :: u8
  rx_data_pending :: u16
  rx_buffer :: "u8 list"
  sent_octets :: "u8 list"
  commands :: "gaia_command list"
  requests :: "stack_request list"
  reports :: "gaia_report list"

definition gaiaTransport_RfcommError :: "gaia_transport_rfcomm \<Rightarrow> gaia_transport_rfcomm" where
  "gaiaTransport_RfcommError t = t\<lparr>requests := requests t @ [TransportMgrDisconnect (trans_sink t)]\<rparr>"

definition Gaia_TransportErrorInd :: "gaia_transport_rfcomm \<Rightarrow> gaia_transport_rfcomm" where
  "Gaia_TransportErrorInd t = gaiaTransport_RfcommError (t\<lparr>gaia_state := GAIA_TRANSPORT_ERROR\<rparr>)"

definition Gaia_ProcessCommand ::
    "u16 \<Rightarrow> u16 \<Rightarrow> u16 \<Rightarrow> u8 list option \<Rightarrow> gaia_transport_rfcomm \<Rightarrow> gaia_transport_rfcomm" where
  "Gaia_ProcessCommand vendor command size_payload payload t =
     t\<lparr>commands := commands t @ [\<lparr>cmd_vendor_id = vendor, cmd_command_id = command,
         cmd_size_payload = size_payload, cmd_payload = payload\<rparr>]\<rparr>"

type_synonym pkt_callback =
  "u16 \<Rightarrow> u16 \<Rightarrow> u16 \<Rightarrow> u16 \<Rightarrow> u8 list option \<Rightarrow> gaia_transport_rfcomm \<Rightarrow> bool \<times> gaia_transport_rfcomm"

text \<open>
  The \<open>for (;;)\<close> of the receiver, from a \<open>data_ptr\<close> that has advanced by \<open>done\<close> octets: \<open>None\<close> when it never
  returns.
\<close>

partial_function (option) receive_loop ::
    "pkt_callback \<Rightarrow> u16 \<Rightarrow> u8 list \<Rightarrow> nat \<Rightarrow> gaia_transport_rfcomm
     \<Rightarrow> (nat \<times> gaia_transport_rfcomm) option" where
  "receive_loop callback data_length data consumed t =
     (if data_length \<noteq> 0 \<and> data ! 0 \<noteq> GAIA_SOF then Some (consumed, Gaia_TransportErrorInd t)
      else if data_length \<ge> of_nat (GAIA_OFFS_PAYLOAD False) then
        (let flags = data ! GAIA_OFFS_FLAGS;
             is_16_bit = (flags AND GAIA_PROTOCOL_FLAG_16_BIT_LENGTH \<noteq> 0);
             payload_size = (if is_16_bit then W16 (drop GAIA_OFFS_PAYLOAD_LENGTH data)
                             else ucast (data ! GAIA_OFFS_PAYLOAD_LENGTH));
             pkt_length = Gaia_TransportCommonCalcRxPacketLength payload_size flags
         in if data_length \<ge> pkt_length then
              (let chksum = (if flags AND GAIA_PROTOCOL_FLAG_CHECK \<noteq> 0
                             then fold (XOR) (take (unat pkt_length) data) 0 else 0)
               in if chksum = 0 then
                    (let vendor = W16 (drop (GAIA_OFFS_VENDOR_ID is_16_bit) data);
                         command = W16 (drop (GAIA_OFFS_COMMAND_ID is_16_bit) data);
                         payload = (if payload_size \<noteq> 0
                                    then Some (drop (GAIA_OFFS_PAYLOAD is_16_bit) data) else None);
                         (more_pkts, t) = callback pkt_length vendor command payload_size payload t
                     in if \<not> more_pkts then Some (consumed, t)
                        else receive_loop callback (data_length - pkt_length)
                               (drop (unat pkt_length) data) (consumed + unat pkt_length) t)
                  else Some (consumed, Gaia_TransportErrorInd t))
            else Some (consumed, t))
      else Some (consumed, t))"

definition Gaia_TransportCommonReceivePacket ::
    "pkt_callback \<Rightarrow> u16 \<Rightarrow> u8 list \<Rightarrow> gaia_transport_rfcomm \<Rightarrow> (u16 \<times> gaia_transport_rfcomm) option" where
  "Gaia_TransportCommonReceivePacket callback data_length data_buf t =
     map_option (\<lambda>(n, t). (of_nat n, t)) (receive_loop callback data_length data_buf 0 t)"

definition GAIA_TRANSPORT_RFCOMM_MAX_RX_PENDING_PKTS :: u8 where
  "GAIA_TRANSPORT_RFCOMM_MAX_RX_PENDING_PKTS = 2"

definition gaiaTransport_RfcommProcessCommand :: pkt_callback where
  "gaiaTransport_RfcommProcessCommand pkt_size vendor command size_payload payload t =
     (let t = t\<lparr>rx_data_pending := rx_data_pending t + pkt_size,
                rx_packets_pending := rx_packets_pending t + 1\<rparr>;
          t = Gaia_ProcessCommand vendor command size_payload payload t
      in (rx_packets_pending t < GAIA_TRANSPORT_RFCOMM_MAX_RX_PENDING_PKTS, t))"

text \<open>\<open>TransportMgrGetAvailableDataSize\<close> and \<open>TransportMgrReadData\<close> show the whole buffer.\<close>

definition gaiaTransport_RfcommReceivePacket ::
    "gaia_transport_rfcomm \<Rightarrow> gaia_transport_rfcomm option" where
  "gaiaTransport_RfcommReceivePacket t =
     (if rx_data_pending t = 0 then
        (let data_length = of_nat (length (rx_buffer t))
         in if data_length \<noteq> 0 then
              map_option snd (Gaia_TransportCommonReceivePacket gaiaTransport_RfcommProcessCommand
                data_length (rx_buffer t) t)
            else Some t)
      else Some t)"

datatype fault = Panic | Never_returns | Second_instance

text \<open>\<open>TransportMgrDataConsumed\<close> of the transport manager, for RFCOMM.\<close>

definition TransportMgrDataConsumed :: "u16 \<Rightarrow> gaia_transport_rfcomm \<Rightarrow> gaia_transport_rfcomm" where
  "TransportMgrDataConsumed data_consumed t =
     (if unat data_consumed \<le> length (rx_buffer t)
      then t\<lparr>rx_buffer := drop (unat data_consumed) (rx_buffer t)\<rparr> else t)"

definition gaiaTransport_RfcommPacketHandled ::
    "gaia_transport_rfcomm \<Rightarrow> fault + gaia_transport_rfcomm" where
  "gaiaTransport_RfcommPacketHandled t =
     (if \<not> rx_packets_pending t > 0 then Inl Panic
      else
        let t = t\<lparr>rx_packets_pending := rx_packets_pending t - 1\<rparr>
        in if rx_packets_pending t = 0 then
             (let t = (TransportMgrDataConsumed (rx_data_pending t) t)\<lparr>rx_data_pending := 0\<rparr>
              in case gaiaTransport_RfcommReceivePacket t of None \<Rightarrow> Inl Never_returns | Some t \<Rightarrow> Inr t)
           else Inr t)"

text \<open>Sending: \<open>trans_space\<close> is the room the transport manager reports, \<open>claimed\<close> whether it hands out the buffer
  and \<open>accepted\<close> whether it takes the packet. The claimed octets are sent.\<close>

definition gaiaTransport_RfcommSendPacket ::
    "u16 \<Rightarrow> bool \<Rightarrow> bool \<Rightarrow> u16 \<Rightarrow> u16 \<Rightarrow> u8 \<Rightarrow> u16 \<Rightarrow> u8 list \<Rightarrow> gaia_transport_rfcomm
     \<Rightarrow> fault + (bool \<times> gaia_transport_rfcomm)" where
  "gaiaTransport_RfcommSendPacket trans_space claimed accepted vendor command status size_payload payload t =
     (let pkt_length = Gaia_TransportCommonCalcTxPacketLength size_payload status
      in if trans_space \<ge> pkt_length then
           if claimed then
             (case Gaia_TransportCommonBuildPacket (ucast (protocol_version t)) pkt_length vendor command status
                     size_payload payload of
                None \<Rightarrow> Inl Panic
              | Some pkt \<Rightarrow>
                  if accepted then Inr (True, t\<lparr>sent_octets := sent_octets t @ take (unat pkt_length) pkt\<rparr>)
                  else Inr (False, t))
           else Inr (False, t)
         else Inr (False, Gaia_TransportErrorInd t))"

text \<open>TRANSPORT\_MGR\_MORE\_DATA, after \<open>octets\<close> have been added to the buffer.\<close>

definition rfcomm_more_data :: "u8 list \<Rightarrow> gaia_transport_rfcomm \<Rightarrow> fault + gaia_transport_rfcomm" where
  "rfcomm_more_data octets t =
     (case gaiaTransport_RfcommReceivePacket (t\<lparr>rx_buffer := rx_buffer t @ octets\<rparr>) of
        None \<Rightarrow> Inl Never_returns | Some t \<Rightarrow> Inr t)"

end
