(* ===== verification/Gaia_Stream.thy ===== *)
theory Gaia_Stream
  imports Gaia_Packet
begin

text \<open>
  The packets the framing builds come back in order from a stream of them, whatever pieces the stream
  arrives in. \<open>wire\<close> is the layout of a packet with the body \<open>status @ payload\<close>.
\<close>

section \<open>Packets\<close>

lemma unat_len: "n \<le> 65535 \<Longrightarrow> unat (of_nat n :: u16) = n"
  by (simp add: unat_of_nat)

record gaia_packet =
  pkt_version :: u8
  pkt_vendor :: u16
  pkt_command :: u16
  pkt_body :: "u8 list"

definition wide :: "gaia_packet \<Rightarrow> bool" where
  "wide p \<longleftrightarrow> pkt_version p \<ge> 4 \<and> length (pkt_body p) > 255"

definition wire :: "gaia_packet \<Rightarrow> u8 list" where
  "wire p =
     [GAIA_SOF, pkt_version p, if wide p then GAIA_PROTOCOL_FLAG_16_BIT_LENGTH else 0]
     @ (let n = of_nat (length (pkt_body p)) in if wide p then [HIGH n, LOW n] else [ucast n])
     @ [HIGH (pkt_vendor p), LOW (pkt_vendor p), HIGH (pkt_command p), LOW (pkt_command p)]
     @ pkt_body p"

definition well_sized :: "gaia_packet \<Rightarrow> bool" where
  "well_sized p \<longleftrightarrow> length (pkt_body p) \<le> 255 \<or> pkt_version p \<ge> 4 \<and> length (pkt_body p) \<le> 65526"

lemma W16_HIGH_LOW [simp]: "W16 (HIGH x # LOW x # ys) = x"
proof -
  have "x AND 0xFF = take_bit 8 x" by (simp add: take_bit_eq_mask mask_eq_exp_minus_1)
  then show ?thesis
    unfolding W16_def HIGH_def LOW_def
    by (intro bit_word_eqI)
      (auto simp: bit_or_iff bit_push_bit_iff bit_ucast_iff bit_drop_bit_eq bit_take_bit_iff)
qed

lemma length_wire: "length (wire p) = length (pkt_body p) + (if wide p then 9 else 8)"
  by (simp add: wire_def Let_def)

lemma wire_wide:
  "wide p \<Longrightarrow> wire p = [GAIA_SOF, pkt_version p, GAIA_PROTOCOL_FLAG_16_BIT_LENGTH,
     HIGH (of_nat (length (pkt_body p))), LOW (of_nat (length (pkt_body p))),
     HIGH (pkt_vendor p), LOW (pkt_vendor p), HIGH (pkt_command p), LOW (pkt_command p)] @ pkt_body p"
  by (simp add: wire_def Let_def)

lemma wire_narrow:
  "\<not> wide p \<Longrightarrow> wire p = [GAIA_SOF, pkt_version p, 0, ucast (of_nat (length (pkt_body p)) :: u16),
     HIGH (pkt_vendor p), LOW (pkt_vendor p), HIGH (pkt_command p), LOW (pkt_command p)] @ pkt_body p"
  by (simp add: wire_def Let_def)

lemma narrow_size: "well_sized p \<Longrightarrow> \<not> wide p \<Longrightarrow> length (pkt_body p) \<le> 255"
  by (auto simp: well_sized_def wide_def)

lemma well_sized_length: "well_sized p \<Longrightarrow> length (wire p) \<le> 65535"
  by (auto simp: length_wire well_sized_def wide_def)

section \<open>The receiver on one packet\<close>

definition payload_ptr :: "gaia_packet \<Rightarrow> u8 list \<Rightarrow> u8 list option" where
  "payload_ptr p rest = (if pkt_body p \<noteq> [] then Some (pkt_body p @ rest) else None)"

lemma rx_length:
  assumes "well_sized p"
  defines "f \<equiv> if wide p then GAIA_PROTOCOL_FLAG_16_BIT_LENGTH else 0"
  shows "Gaia_TransportCommonCalcRxPacketLength (of_nat (length (pkt_body p))) f = of_nat (length (wire p))"
  by (simp add: f_def Gaia_TransportCommonCalcRxPacketLength_def gaia_consts length_wire)

lemma payload_zero:
  "well_sized p \<Longrightarrow> (of_nat (length (pkt_body p)) :: u16) = 0 \<longleftrightarrow> pkt_body p = []"
  by (auto simp: well_sized_def word_of_nat_eq_0_iff dest: dvd_imp_le)

text \<open>One turn of the loop, by the fields of the packet at the front.\<close>

lemma receive_turn:
  assumes "data ! 0 = GAIA_SOF" "8 \<le> L"
    and "data ! 2 = (if w then GAIA_PROTOCOL_FLAG_16_BIT_LENGTH else 0)"
    and "B = (if w then W16 (drop 3 data) else ucast (data ! 3))"
    and "K = Gaia_TransportCommonCalcRxPacketLength B (if w then GAIA_PROTOCOL_FLAG_16_BIT_LENGTH else 0)"
    and "K \<le> L"
  shows "receive_loop cb L data n t =
     (let (more, t) = cb K (W16 (drop (GAIA_OFFS_VENDOR_ID w) data)) (W16 (drop (GAIA_OFFS_COMMAND_ID w) data))
                        B (if B \<noteq> 0 then Some (drop (GAIA_OFFS_PAYLOAD w) data) else None) t
      in if more then receive_loop cb (L - K) (drop (unat K) data) (n + unat K) t
         else Some (n, t))"
  using assms
  by (subst receive_loop.simps) (cases w; simp add: GAIA_OFFS_FLAGS_def GAIA_OFFS_PAYLOAD_LENGTH_def
      GAIA_OFFS_PAYLOAD_def GAIA_PROTOCOL_FLAG_CHECK_def GAIA_PROTOCOL_FLAG_16_BIT_LENGTH_def
      Let_def split_beta cong: if_cong)

lemma narrow_octet:
  "well_sized p \<Longrightarrow> \<not> wide p \<Longrightarrow>
   ucast (ucast (of_nat (length (pkt_body p)) :: u16) :: u8) = (of_nat (length (pkt_body p)) :: u16)"
  using narrow_size [of p]
  by (simp add: word_unat_eq_iff unsigned_ucast_eq unsigned_take_bit_eq unat_len take_bit_nat_eq_self)

lemma receive_packet:
  assumes "well_sized p" "length (wire p @ rest) \<le> 65535"
  shows "receive_loop cb (of_nat (length (wire p @ rest))) (wire p @ rest) n t =
     (let (more, t) = cb (of_nat (length (wire p))) (pkt_vendor p) (pkt_command p)
                        (of_nat (length (pkt_body p))) (payload_ptr p rest) t
      in if more then receive_loop cb (of_nat (length rest)) rest (n + length (wire p)) t
         else Some (n, t))"
proof -
  define L :: u16 where "L = of_nat (length (wire p @ rest))"
  define K :: u16 where "K = of_nat (length (wire p))"
  define B :: u16 where "B = of_nat (length (pkt_body p))"
  let ?d = "wire p @ rest"
  have "unat L = length ?d" "unat K = length (wire p)"
    unfolding L_def K_def by (rule unat_len, use assms(2) in simp)+
  note unat = this
  have L: "8 \<le> L" "K \<le> L" "L - K = of_nat (length rest)" "drop (length (wire p)) ?d = rest"
    using unat by (auto simp: word_le_nat_alt length_wire L_def K_def)
  have rx: "K = Gaia_TransportCommonCalcRxPacketLength B (if wide p then GAIA_PROTOCOL_FLAG_16_BIT_LENGTH else 0)"
    unfolding B_def K_def rx_length [OF assms(1)] by (rule refl)
  have zero: "B = 0 \<longleftrightarrow> pkt_body p = []" unfolding B_def by (rule payload_zero [OF assms(1)])
  have ids: "W16 (drop (GAIA_OFFS_VENDOR_ID (wide p)) ?d) = pkt_vendor p"
    "W16 (drop (GAIA_OFFS_COMMAND_ID (wide p)) ?d) = pkt_command p"
    "drop (GAIA_OFFS_PAYLOAD (wide p)) ?d = pkt_body p @ rest"
    by (simp_all add: wire_wide wire_narrow GAIA_OFFS_VENDOR_ID_def GAIA_OFFS_COMMAND_ID_def
        GAIA_OFFS_PAYLOAD_def)
  have len: "B = (if wide p then W16 (drop 3 ?d) else ucast (?d ! 3))"
    using narrow_octet [OF assms(1)] by (simp add: wire_wide wire_narrow B_def)
  have "?d ! 0 = GAIA_SOF" "?d ! 2 = (if wide p then GAIA_PROTOCOL_FLAG_16_BIT_LENGTH else 0)"
    by (simp_all add: wire_def)
  from receive_turn [OF this(1) L(1) this(2) len rx L(2), of cb n t]
  have "receive_loop cb L ?d n t =
     (let (more, t) = cb K (pkt_vendor p) (pkt_command p) B (payload_ptr p rest) t
      in if more then receive_loop cb (of_nat (length rest)) rest (n + length (wire p)) t
         else Some (n, t))"
    by (simp only: ids L(3,4) unat(2) zero payload_ptr_def cong: if_cong)
  then show ?thesis by (simp only: L_def K_def B_def)
qed

text \<open>A packet that has not arrived completely is left alone.\<close>

lemma receive_part:
  assumes "well_sized p" "k < length (wire p)"
  shows "receive_loop cb (of_nat k) (take k (wire p)) n t = Some (n, t)"
proof -
  define L :: u16 where "L = of_nat k"
  define B :: u16 where "B = of_nat (length (pkt_body p))"
  have L: "unat L = k"
    unfolding L_def using assms well_sized_length [OF assms(1)] by (intro unat_len) simp
  have K: "unat (of_nat (length (wire p)) :: u16) = length (wire p)"
    using well_sized_length [OF assms(1)] by (rule unat_len)
  have short: "\<not> Gaia_TransportCommonCalcRxPacketLength B
      (if wide p then GAIA_PROTOCOL_FLAG_16_BIT_LENGTH else 0) \<le> L"
    unfolding B_def rx_length [OF assms(1)] using assms(2) L K by (simp add: word_le_nat_alt)
  have sof: "L \<noteq> 0 \<Longrightarrow> take k (wire p) ! 0 = GAIA_SOF"
    using L by (cases "k = 0") (auto simp: wire_def unat_eq_0)
  show ?thesis unfolding L_def [symmetric]
  proof (cases "8 \<le> L")
    case False
    then show "receive_loop cb L (take k (wire p)) n t = Some (n, t)"
      using sof by (subst receive_loop.simps) (auto simp: gaia_consts)
  next
    case True
    then have k: "8 \<le> k" using L by (simp add: word_le_nat_alt)
    then have nth: "\<And>i. i < 8 \<Longrightarrow> take k (wire p) ! i = wire p ! i" by simp
    have W: "wide p \<Longrightarrow> W16 (drop 3 (take k (wire p))) = B"
      using k assms(2) by (simp add: wire_wide drop_take take_Cons B_def split: nat.split)
    show "receive_loop cb L (take k (wire p)) n t = Some (n, t)"
    proof (cases "wide p")
      case wide: True
      then have "take k (wire p) ! 2 = GAIA_PROTOCOL_FLAG_16_BIT_LENGTH"
        using nth [of 2] by (simp add: wire_wide)
      then show ?thesis using sof short True wide W
        by (subst receive_loop.simps) (auto simp: gaia_consts Let_def)
    next
      case narrow: False
      have "ucast (ucast B :: u8) = B"
        unfolding B_def by (rule narrow_octet [OF assms(1) narrow])
      moreover have "take k (wire p) ! 2 = 0" "take k (wire p) ! 3 = ucast B"
        using nth [of 2] nth [of 3] narrow by (simp_all add: wire_narrow B_def)
      ultimately show ?thesis using sof short True narrow
        by (subst receive_loop.simps) (auto simp: gaia_consts Let_def)
    qed
  qed
qed

section \<open>The two commands the RFCOMM transport takes at a time\<close>

definition stream :: "gaia_packet list \<Rightarrow> u8 list" where
  "stream ps = concat (map wire ps)"

lemma stream_simps [simp]:
  "stream [] = []" "stream (p # ps) = wire p @ stream ps"
  by (simp_all add: stream_def)

lemma stream_append: "stream (ps @ qs) = stream ps @ stream qs"
  by (simp add: stream_def)

definition cmd_view :: "gaia_command \<Rightarrow> u16 \<times> u16 \<times> u8 list" where
  "cmd_view c = (cmd_vendor_id c, cmd_command_id c,
     take (unat (cmd_size_payload c)) (case cmd_payload c of None \<Rightarrow> [] | Some d \<Rightarrow> d))"

definition pkt_view :: "gaia_packet \<Rightarrow> u16 \<times> u16 \<times> u8 list" where
  "pkt_view p = (pkt_vendor p, pkt_command p, pkt_body p)"

text \<open>The first packet of \<open>ps\<close> is not complete in the first \<open>k\<close> octets.\<close>

definition starved :: "gaia_packet list \<Rightarrow> nat \<Rightarrow> bool" where
  "starved ps k \<longleftrightarrow> (case ps of [] \<Rightarrow> True | p # _ \<Rightarrow> k < length (wire p))"

lemma receive_starved:
  assumes "list_all well_sized ps" "k \<le> length (stream ps)" "starved ps k"
  shows "receive_loop cb (of_nat k) (take k (stream ps)) n t = Some (n, t)"
proof (cases ps)
  case Nil
  then show ?thesis using assms(2) by (subst receive_loop.simps) (simp add: gaia_consts)
next
  case (Cons p qs)
  then show ?thesis using assms receive_part [of p k cb n t] by (simp add: starved_def)
qed

lemma take_stream:
  "\<not> starved (p # ps) k \<Longrightarrow> take k (stream (p # ps)) = wire p @ take (k - length (wire p)) (stream ps)"
  by (simp add: starved_def)

lemma receive_stream_packet:
  assumes "well_sized p" "\<not> starved (p # ps) k" "k \<le> length (stream (p # ps))" "k \<le> 65535"
  shows "receive_loop cb (of_nat k) (take k (stream (p # ps))) n t =
     (let r = k - length (wire p);
          (more, t) = cb (of_nat (length (wire p))) (pkt_vendor p) (pkt_command p)
                        (of_nat (length (pkt_body p))) (payload_ptr p (take r (stream ps))) t
      in if more then receive_loop cb (of_nat r) (take r (stream ps)) (n + length (wire p)) t
         else Some (n, t))"
proof -
  let ?rest = "take (k - length (wire p)) (stream ps)"
  have "length (wire p @ ?rest) = k" "length ?rest = k - length (wire p)"
    using assms(2,3) by (auto simp: starved_def)
  then show ?thesis
    using receive_packet [OF assms(1), of ?rest cb n t] assms(4)
    by (simp only: take_stream [OF assms(2)] Let_def)
qed

text \<open>The state after \<open>qs\<close> have been queued on an idle transport.\<close>

definition queued :: "gaia_packet list \<Rightarrow> gaia_command list \<Rightarrow> gaia_transport_rfcomm \<Rightarrow> gaia_transport_rfcomm" where
  "queued qs cs t = t\<lparr>rx_data_pending := rx_data_pending t + of_nat (length (stream qs)),
     rx_packets_pending := rx_packets_pending t + of_nat (length qs), commands := commands t @ cs\<rparr>"

definition the_command :: "gaia_packet \<Rightarrow> u8 list \<Rightarrow> gaia_command" where
  "the_command p rest = \<lparr>cmd_vendor_id = pkt_vendor p, cmd_command_id = pkt_command p,
     cmd_size_payload = of_nat (length (pkt_body p)), cmd_payload = payload_ptr p rest\<rparr>"

lemma cmd_view_the_command: "well_sized p \<Longrightarrow> cmd_view (the_command p rest) = pkt_view p"
  by (auto simp: cmd_view_def the_command_def pkt_view_def payload_ptr_def well_sized_def unat_len)

lemma process_command:
  "gaiaTransport_RfcommProcessCommand (of_nat (length (wire p))) (pkt_vendor p) (pkt_command p)
     (of_nat (length (pkt_body p))) (payload_ptr p rest) t =
   (rx_packets_pending t + 1 < 2, queued [p] [the_command p rest] t)"
  by (simp add: gaiaTransport_RfcommProcessCommand_def Gaia_ProcessCommand_def queued_def
      the_command_def GAIA_TRANSPORT_RFCOMM_MAX_RX_PENDING_PKTS_def)

lemma queued_queued [simp]: "queued ps cs (queued qs ds t) = queued (qs @ ps) (ds @ cs) t"
  by (simp add: queued_def stream_append algebra_simps)

lemma queued_Nil [simp]: "queued [] [] t = t"
  by (simp add: queued_def)

lemma receive_two:
  assumes "list_all well_sized ps" "k \<le> length (stream ps)" "k \<le> 65535" "rx_packets_pending t = 0"
  obtains m cs n where "m \<le> 2" "m \<le> length ps" "length (stream (take m ps)) \<le> k"
    "receive_loop gaiaTransport_RfcommProcessCommand (of_nat k) (take k (stream ps)) 0 t
       = Some (n, queued (take m ps) cs t)"
    "map cmd_view cs = map pkt_view (take m ps)" "m = 0 \<longrightarrow> starved ps k"
proof (cases "starved ps k")
  case True
  then show ?thesis using receive_starved [OF assms(1,2)] by (intro that [where m = 0 and cs = "[]" and n = 0]) simp_all
next
  case False
  then obtain p qs where ps: "ps = p # qs" by (cases ps) (auto simp: starved_def)
  let ?r = "k - length (wire p)"
  let ?c = "the_command p (take ?r (stream qs))"
  have p: "well_sized p" "list_all well_sized qs" using assms(1) ps by simp_all
  have r: "?r \<le> length (stream qs)" "length (wire p) \<le> k"
    using assms(2) False ps by (auto simp: starved_def)
  have first: "receive_loop gaiaTransport_RfcommProcessCommand (of_nat k) (take k (stream ps)) 0 t
     = receive_loop gaiaTransport_RfcommProcessCommand (of_nat ?r) (take ?r (stream qs))
         (length (wire p)) (queued [p] [?c] t)"
    using receive_stream_packet [OF p(1), of qs k gaiaTransport_RfcommProcessCommand 0 t] False assms
    by (simp add: ps process_command Let_def del: stream_simps)
  show ?thesis
  proof (cases "starved qs ?r")
    case True
    then show ?thesis
      using first receive_starved [OF p(2) r(1)] r(2)
      by (intro that [where m = 1 and cs = "[?c]" and n = "length (wire p)"]) (simp_all add: ps cmd_view_the_command [OF p(1)])
  next
    case more: False
    then obtain q rs where qs: "qs = q # rs" by (cases qs) (auto simp: starved_def)
    let ?d = "the_command q (take (?r - length (wire q)) (stream rs))"
    have q: "well_sized q" "length (wire q) \<le> ?r" using p(2) qs more by (auto simp: starved_def)
    have "receive_loop gaiaTransport_RfcommProcessCommand (of_nat k) (take k (stream ps)) 0 t
      = Some (length (wire p), queued [p, q] [?c, ?d] t)"
      using receive_stream_packet [OF q(1), of rs ?r gaiaTransport_RfcommProcessCommand
          "length (wire p)" "queued [p] [?c] t"] first more assms r
      by (simp add: qs process_command Let_def queued_def del: stream_simps)
        (simp add: queued_def algebra_simps)
    then show ?thesis
      using q r(2)
      by (intro that [where m = 2 and cs = "[?c, ?d]" and n = "length (wire p)"])
        (simp_all add: ps qs cmd_view_the_command p(1))
  qed
qed

section \<open>A connection\<close>

text \<open>Octets arrive, and the application finishes commands, in any order; it finishes no command it was
  not given.\<close>

datatype rfcomm_event = Arrives "u8 list" | Handled

fun rfcomm_step :: "rfcomm_event \<Rightarrow> gaia_transport_rfcomm \<Rightarrow> fault + gaia_transport_rfcomm" where
  "rfcomm_step (Arrives octets) t = rfcomm_more_data octets t"
| "rfcomm_step Handled t =
     (if rx_packets_pending t = 0 then Inr t else gaiaTransport_RfcommPacketHandled t)"

fun rfcomm_run :: "rfcomm_event list \<Rightarrow> gaia_transport_rfcomm \<Rightarrow> fault + gaia_transport_rfcomm" where
  "rfcomm_run [] t = Inr t"
| "rfcomm_run (e # es) t =
     (case rfcomm_step e t of Inl f \<Rightarrow> Inl f | Inr t \<Rightarrow> rfcomm_run es t)"

lemma rfcomm_run_append:
  "rfcomm_run (a @ b) t = (case rfcomm_run a t of Inl f \<Rightarrow> Inl f | Inr t \<Rightarrow> rfcomm_run b t)"
  by (induction a arbitrary: t) (simp_all split: sum.split)

fun arrivals :: "rfcomm_event list \<Rightarrow> u8 list" where
  "arrivals [] = []"
| "arrivals (Arrives octets # es) = octets @ arrivals es"
| "arrivals (Handled # es) = arrivals es"

text \<open>The link never holds more than 65535 octets.\<close>

fun fits :: "rfcomm_event list \<Rightarrow> gaia_transport_rfcomm \<Rightarrow> bool" where
  "fits [] t \<longleftrightarrow> True"
| "fits (e # es) t \<longleftrightarrow>
     (case e of Arrives octets \<Rightarrow> length (rx_buffer t) + length octets \<le> 65535 | Handled \<Rightarrow> True)
     \<and> (case rfcomm_step e t of Inl f \<Rightarrow> True | Inr t \<Rightarrow> fits es t)"

text \<open>
  \<open>ds\<close> have been queued and freed, \<open>ms\<close> are queued, \<open>ps\<close> are still to come; \<open>k\<close> octets of \<open>ms @ ps\<close> have
  arrived.
\<close>

definition stream_inv ::
    "gaia_packet list \<Rightarrow> gaia_packet list \<Rightarrow> gaia_packet list \<Rightarrow> nat \<Rightarrow> gaia_transport_rfcomm \<Rightarrow> bool" where
  "stream_inv ds ms ps k t \<longleftrightarrow>
     rx_buffer t = take k (stream (ms @ ps)) \<and> k \<le> length (stream (ms @ ps)) \<and> k \<le> 65535
     \<and> length (stream ms) \<le> k \<and> rx_data_pending t = of_nat (length (stream ms))
     \<and> unat (rx_packets_pending t) \<le> length ms \<and> (ms \<noteq> [] \<longrightarrow> rx_packets_pending t \<noteq> 0) \<and> length ms \<le> 2
     \<and> map cmd_view (commands t) = map pkt_view (ds @ ms)
     \<and> (ms = [] \<longrightarrow> starved ps k)"

lemma stream_Nil_iff: "stream ms = [] \<longleftrightarrow> ms = []"
  by (cases ms) (simp_all add: wire_def)

lemma pending_zero:
  "length (stream ms) \<le> 65535 \<Longrightarrow> (of_nat (length (stream ms)) :: u16) = 0 \<longleftrightarrow> ms = []"
  using unat_len [of "length (stream ms)"] by (auto simp: stream_Nil_iff)

text \<open>An idle transport looks at its buffer.\<close>

lemma receive_idle:
  assumes "list_all well_sized ps" "k \<le> length (stream ps)" "k \<le> 65535"
    and "rx_packets_pending t = 0" "rx_data_pending t = 0" "rx_buffer t = take k (stream ps)"
    and "map cmd_view (commands t) = map pkt_view ds"
  shows "\<exists>t' m. gaiaTransport_RfcommReceivePacket t = Some t' \<and> stream_inv ds (take m ps) (drop m ps) k t'"
proof -
  obtain m cs n where m: "m \<le> 2" "m \<le> length ps" "length (stream (take m ps)) \<le> k"
    "receive_loop gaiaTransport_RfcommProcessCommand (of_nat k) (take k (stream ps)) 0 t
       = Some (n, queued (take m ps) cs t)"
    "map cmd_view cs = map pkt_view (take m ps)" "m = 0 \<longrightarrow> starved ps k"
    by (rule receive_two [OF assms(1-4)]) blast
  have len: "length (rx_buffer t) = k" using assms(2,6) by simp
  have count: "unat (of_nat m :: u8) = m" using m(1) by (simp add: unat_of_nat)
  then have count0: "(of_nat m :: u8) = 0 \<longleftrightarrow> m = 0" by (simp add: word_unat_eq_iff)
  show ?thesis
  proof (cases "k = 0")
    case True
    then have "gaiaTransport_RfcommReceivePacket t = Some t"
      using len assms(5) by (simp add: gaiaTransport_RfcommReceivePacket_def)
    moreover have "starved ps k"
      using True by (cases ps) (simp_all add: starved_def wire_def)
    ultimately show ?thesis
      using assms True by (intro exI [of _ t] exI [of _ 0]) (simp add: stream_inv_def)
  next
    case False
    then have "(of_nat k :: u16) \<noteq> 0" using unat_len [OF assms(3)] by auto
    then have "gaiaTransport_RfcommReceivePacket t = Some (queued (take m ps) cs t)"
      using len assms(5,6) m(4)
      by (simp add: gaiaTransport_RfcommReceivePacket_def Gaia_TransportCommonReceivePacket_def)
    moreover have "stream_inv ds (take m ps) (drop m ps) k (queued (take m ps) cs t)"
      using assms m count by (auto simp: count0 stream_inv_def queued_def)
    ultimately show ?thesis by blast
  qed
qed

lemma stream_inv_more_data:
  assumes "list_all well_sized (ms @ ps)" "stream_inv ds ms ps k t"
    and "rx_buffer t @ x = take (k + length x) (stream (ms @ ps))"
    and "k + length x \<le> length (stream (ms @ ps))" "k + length x \<le> 65535"
  shows "\<exists>t' ms' ps'. rfcomm_more_data x t = Inr t' \<and> stream_inv ds ms' ps' (k + length x) t'
    \<and> ms' @ ps' = ms @ ps"
proof (cases "ms = []")
  case True
  let ?t = "t\<lparr>rx_buffer := rx_buffer t @ x\<rparr>"
  have "\<exists>t' m. gaiaTransport_RfcommReceivePacket ?t = Some t' \<and>
      stream_inv ds (take m ps) (drop m ps) (k + length x) t'"
    using assms True by (intro receive_idle) (auto simp: stream_inv_def unat_eq_0)
  then obtain t' m where "gaiaTransport_RfcommReceivePacket ?t = Some t'"
    "stream_inv ds (take m ps) (drop m ps) (k + length x) t'" by blast
  then show ?thesis using True
    by (intro exI [of _ t'] exI [of _ "take m ps"] exI [of _ "drop m ps"]) (simp add: rfcomm_more_data_def)
next
  case False
  then have "rx_data_pending t \<noteq> 0"
    using assms(2) pending_zero [of ms] by (simp add: stream_inv_def)
  then have "rfcomm_more_data x t = Inr (t\<lparr>rx_buffer := rx_buffer t @ x\<rparr>)"
    by (simp add: rfcomm_more_data_def gaiaTransport_RfcommReceivePacket_def)
  moreover have "stream_inv ds ms ps (k + length x) (t\<lparr>rx_buffer := rx_buffer t @ x\<rparr>)"
    using assms False by (auto simp: stream_inv_def)
  ultimately show ?thesis by blast
qed

lemma stream_inv_handled:
  assumes "list_all well_sized (ms @ ps)" "stream_inv ds ms ps k t" "rx_packets_pending t \<noteq> 0"
  shows "\<exists>t' ds' ms' ps' k'. gaiaTransport_RfcommPacketHandled t = Inr t' \<and> stream_inv ds' ms' ps' k' t'
    \<and> ds' @ ms' @ ps' = ds @ ms @ ps \<and> length (stream ds') + k' = length (stream ds) + k"
proof -
  let ?t = "t\<lparr>rx_packets_pending := rx_packets_pending t - 1\<rparr>"
  have ms: "ms \<noteq> []" using assms(2,3) by (auto simp: stream_inv_def unat_eq_0)
  have pos: "rx_packets_pending t > 0" using assms(3) by (simp add: word_greater_zero_iff)
  show ?thesis
  proof (cases "rx_packets_pending t = 1")
    case False
    then have "rx_packets_pending t - 1 \<noteq> 0" by simp
    then have "gaiaTransport_RfcommPacketHandled t = Inr ?t"
      using pos by (simp add: gaiaTransport_RfcommPacketHandled_def Let_def)
    moreover have "stream_inv ds ms ps k ?t"
      using assms(2) ms False unat_minus_1 [OF assms(3)] by (auto simp: stream_inv_def)
    ultimately show ?thesis by blast
  next
    case True
    let ?n = "length (stream ms)"
    let ?u = "t\<lparr>rx_packets_pending := 0, rx_buffer := drop ?n (rx_buffer t), rx_data_pending := 0\<rparr>"
    have n: "unat (rx_data_pending t) = ?n" "?n \<le> k" "?n \<le> length (rx_buffer t)"
      using assms(1,2) by (auto simp: stream_inv_def stream_append intro!: unat_len)
    have "\<exists>t' m. gaiaTransport_RfcommReceivePacket ?u = Some t' \<and>
        stream_inv (ds @ ms) (take m ps) (drop m ps) (k - ?n) t'"
      using assms by (intro receive_idle) (auto simp: stream_inv_def stream_append)
    then obtain t' m where u: "gaiaTransport_RfcommReceivePacket ?u = Some t'"
      "stream_inv (ds @ ms) (take m ps) (drop m ps) (k - ?n) t'" by blast
    from u(1) have "gaiaTransport_RfcommPacketHandled t = Inr t'"
      using True n by (simp add: gaiaTransport_RfcommPacketHandled_def TransportMgrDataConsumed_def Let_def)
    moreover have "(ds @ ms) @ take m ps @ drop m ps = ds @ ms @ ps" by simp
    moreover have "length (stream (ds @ ms)) + (k - ?n) = length (stream ds) + k"
      using n(2) by (simp add: stream_append)
    ultimately show ?thesis using u(2) by blast
  qed
qed

lemma take_plus:
  assumes "xs = take k xs @ x @ z" "k \<le> length xs"
  shows "take (k + length x) xs = take k xs @ x"
proof -
  have "take (k + length x) (take k xs @ x @ z) = take k xs @ x" using assms(2) by simp
  then show ?thesis using assms(1) by simp
qed

lemma stream_inv_arrives:
  assumes "list_all well_sized (ms @ ps)" "stream_inv ds ms ps k t"
    and "stream (ms @ ps) = take k (stream (ms @ ps)) @ x @ z" "length (rx_buffer t) + length x \<le> 65535"
  shows "\<exists>t' ms' ps'. rfcomm_more_data x t = Inr t' \<and> stream_inv ds ms' ps' (k + length x) t'
    \<and> ms' @ ps' = ms @ ps"
proof (rule stream_inv_more_data [OF assms(1,2)])
  have k: "k \<le> length (stream (ms @ ps))" "rx_buffer t = take k (stream (ms @ ps))"
    using assms(2) by (simp_all add: stream_inv_def)
  then have len: "length (rx_buffer t) = k" by simp
  have whole: "stream (ms @ ps) = rx_buffer t @ x @ z" unfolding k(2) by (rule assms(3))
  show "rx_buffer t @ x = take (k + length x) (stream (ms @ ps))"
    unfolding whole using len by simp
  show "k + length x \<le> length (stream (ms @ ps))" unfolding whole using len by simp
  show "k + length x \<le> 65535" using assms(4) len by simp
qed

lemma rfcomm_run_inv:
  assumes "list_all well_sized (ds @ ms @ ps)" "stream_inv ds ms ps k t" "fits es t"
    and "stream (ms @ ps) = take k (stream (ms @ ps)) @ arrivals es @ z"
  shows "\<exists>t' ds' ms' ps' k'. rfcomm_run es t = Inr t' \<and> stream_inv ds' ms' ps' k' t'
    \<and> ds' @ ms' @ ps' = ds @ ms @ ps
    \<and> length (stream ds') + k' = length (stream ds) + k + length (arrivals es)"
  using assms
proof (induction es arbitrary: ds ms ps k t)
  case Nil
  then show ?case by auto
next
  case (Cons e es)
  have ws: "list_all well_sized (ms @ ps)" using Cons.prems(1) by simp
  have k: "k \<le> length (stream (ms @ ps))" using Cons.prems(2) by (simp add: stream_inv_def)
  show ?case
  proof (cases e)
    case (Arrives x)
    obtain t' ms' ps' where step: "rfcomm_more_data x t = Inr t'" "stream_inv ds ms' ps' (k + length x) t'"
      "ms' @ ps' = ms @ ps"
      using stream_inv_arrives [OF ws Cons.prems(2), of x "arrivals es @ z"] Cons.prems(3,4) Arrives by auto
    have "take (k + length x) (stream (ms @ ps)) = take k (stream (ms @ ps)) @ x"
      by (rule take_plus [OF Cons.prems(4) [unfolded Arrives arrivals.simps append_assoc] k])
    then show ?thesis
      using Cons.IH [of ds ms' ps' "k + length x" t'] Cons.prems step Arrives
      by (auto simp: add.assoc)
  next
    case Handled
    show ?thesis
    proof (cases "rx_packets_pending t = 0")
      case True
      then show ?thesis using Cons.IH [of ds ms ps k t] Cons.prems Handled by simp
    next
      case False
      obtain t' ds' ms' ps' k' where step: "gaiaTransport_RfcommPacketHandled t = Inr t'"
        "stream_inv ds' ms' ps' k' t'" "ds' @ ms' @ ps' = ds @ ms @ ps"
        "length (stream ds') + k' = length (stream ds) + k"
        using stream_inv_handled [OF ws Cons.prems(2) False] by blast
      have "stream ds' @ take k' (stream (ms' @ ps')) = stream ds @ take k (stream (ms @ ps))"
      proof -
        have "take (length (stream ds') + k') (stream (ds' @ ms' @ ps'))
          = take (length (stream ds) + k) (stream (ds @ ms @ ps))" using step(3,4) by simp
        then show ?thesis by (simp only: stream_append take_append) simp
      qed
      moreover have "stream ds' @ stream (ms' @ ps') = stream ds @ stream (ms @ ps)"
        using arg_cong [OF step(3), of stream] by (simp add: stream_append)
      moreover have "stream ds @ stream (ms @ ps)
          = (stream ds @ take k (stream (ms @ ps))) @ arrivals es @ z"
        using Cons.prems(4) Handled by simp
      ultimately have "stream ds' @ stream (ms' @ ps')
          = stream ds' @ (take k' (stream (ms' @ ps')) @ arrivals es @ z)"
        by (metis append_assoc)
      then have "stream (ms' @ ps') = take k' (stream (ms' @ ps')) @ arrivals es @ z"
        by (simp only: same_append_eq)
      then show ?thesis
        using Cons.IH [of ds' ms' ps' k' t'] Cons.prems(1,3) step Handled False by auto
    qed
  qed
qed

section \<open>Sending and receiving\<close>

text \<open>A message: vendor, command, status and payload.\<close>

type_synonym gaia_message = "u16 \<times> u16 \<times> u8 \<times> u8 list"

fun msg_payload :: "gaia_message \<Rightarrow> u8 list" where
  "msg_payload (v, c, status, payload) = payload"

fun build :: "u8 \<Rightarrow> gaia_message \<Rightarrow> u8 list option" where
  "build version (v, c, status, payload) =
     (let n = of_nat (length payload)
      in Gaia_TransportCommonBuildPacket version (Gaia_TransportCommonCalcTxPacketLength n status)
           v c status n payload)"

fun msg_view :: "gaia_message \<Rightarrow> u16 \<times> u16 \<times> u8 list" where
  "msg_view (v, c, status, payload) =
     (v, c, (if status \<noteq> GAIA_STATUS_NONE then [status] else []) @ payload)"

fun msg_packet :: "u8 \<Rightarrow> gaia_message \<Rightarrow> gaia_packet" where
  "msg_packet version (v, c, status, payload) =
     \<lparr>pkt_version = version, pkt_vendor = v, pkt_command = c,
      pkt_body = (if status \<noteq> GAIA_STATUS_NONE then [status] else []) @ payload\<rparr>"

lemma pkt_view_msg_packet: "pkt_view (msg_packet version m) = msg_view m"
  by (cases m) (simp add: pkt_view_def)

lemma build_wire:
  assumes "build version m = Some b" "length (msg_payload m) \<le> 65525"
  shows "b = wire (msg_packet version m)" "well_sized (msg_packet version m)"
proof -
  obtain v c status payload where m: "m = (v, c, status, payload)" by (cases m) auto
  define p where "p = msg_packet version m"
  define n :: u16 where "n = of_nat (length payload)"
  define total where "total = n + (if status \<noteq> GAIA_STATUS_NONE then 1 else 0)"
  have p: "pkt_version p = version" "pkt_vendor p = v" "pkt_command p = c"
    "pkt_body p = (if status \<noteq> GAIA_STATUS_NONE then [status] else []) @ payload"
    by (simp_all add: p_def m)
  have len: "length payload \<le> 65525" using assms(2) m by simp
  have n: "unat n = length payload" unfolding n_def using len by (intro unat_len) simp
  have total: "total = of_nat (length (pkt_body p))" by (simp add: total_def n_def p)
  have fits: "length (pkt_body p) \<le> 65526" using len by (simp add: p)
  have body: "unat total = length (pkt_body p)"
    unfolding total by (rule unat_len) (use fits in simp)
  have wide: "wide p \<longleftrightarrow> version \<ge> 4 \<and> total > 255"
    using body by (simp add: wide_def p(1) word_less_nat_alt)
  have small: "total < 256 \<longleftrightarrow> length (pkt_body p) \<le> 255"
    using body by (auto simp: word_less_nat_alt)
  have built: "Gaia_TransportCommonBuildPacket version (Gaia_TransportCommonCalcTxPacketLength n status)
      v c status n payload = Some b"
    using assms(1) by (simp add: m n_def Let_def)
  have "b = wire p \<and> well_sized p"
  proof (cases "wide p")
    case True
    have "b = wire p"
      unfolding wire_wide [OF True] total [symmetric] unfolding p
      using built True n by (simp add: Gaia_TransportCommonBuildPacket_def Let_def gaia_consts wide
          total_def [symmetric])
    then show ?thesis using True fits by (simp add: well_sized_def wide_def)
  next
    case False
    have "total < 256 \<and> b = wire p"
      unfolding wire_narrow [OF False] total [symmetric] unfolding p
      using built False n by (simp add: Gaia_TransportCommonBuildPacket_def Let_def gaia_consts wide
          total_def [symmetric] split: if_splits)
    then show ?thesis using small by (simp add: well_sized_def)
  qed
  then show "b = wire (msg_packet version m)" "well_sized (msg_packet version m)"
    by (simp_all add: p_def)
qed

lemma built_stream:
  assumes "list_all2 (\<lambda>m b. build version m = Some b) ms bs" "\<forall>m\<in>set ms. length (msg_payload m) \<le> 65525"
  shows "concat bs = stream (map (msg_packet version) ms)" "list_all well_sized (map (msg_packet version) ms)"
  using assms by (induction rule: list_all2_induct) (auto dest: build_wire)

definition idle :: "gaia_transport_rfcomm \<Rightarrow> bool" where
  "idle t \<longleftrightarrow> rx_packets_pending t = 0 \<and> rx_data_pending t = 0 \<and> rx_buffer t = [] \<and> commands t = []"

lemma idle_inv: "idle t \<Longrightarrow> list_all well_sized ps \<Longrightarrow> stream_inv [] [] ps 0 t"
  by (cases ps) (auto simp: idle_def stream_inv_def starved_def wire_def)

section \<open>A length that wraps around\<close>

definition wrapping :: "u8 list \<Rightarrow> bool" where
  "wrapping d \<longleftrightarrow> 8 \<le> length d \<and> length d \<le> 65535 \<and> d ! 0 = GAIA_SOF \<and> d ! 2 = 0x02
     \<and> W16 (drop 3 d) = 65527"

lemma wrapping_turn:
  assumes "wrapping d"
  shows "receive_loop cb (of_nat (length d)) d n t =
     (let (more, t) = cb 0 (W16 (drop 5 d)) (W16 (drop 7 d)) 65527 (Some (drop 9 d)) t
      in if more then receive_loop cb (of_nat (length d)) d n t else Some (n, t))"
proof -
  have len: "8 \<le> (of_nat (length d) :: u16)"
    using assms unat_len [of "length d"] by (simp add: wrapping_def word_le_nat_alt)
  have K: "0 = Gaia_TransportCommonCalcRxPacketLength 65527
      (if True then GAIA_PROTOCOL_FLAG_16_BIT_LENGTH else 0)"
    by (simp add: Gaia_TransportCommonCalcRxPacketLength_def gaia_consts)
  from receive_turn [OF _ len _ _ K, of d cb n t] show ?thesis
    using assms by (simp add: wrapping_def gaia_consts cong: if_cong)
qed

text \<open>An idle transport queues the same octets twice and is left with nothing to free.\<close>

lemma wrapping_receive:
  assumes "wrapping (rx_buffer t)" "rx_packets_pending t = 0" "rx_data_pending t = 0"
  defines "c \<equiv> \<lparr>cmd_vendor_id = W16 (drop 5 (rx_buffer t)), cmd_command_id = W16 (drop 7 (rx_buffer t)),
     cmd_size_payload = 65527, cmd_payload = Some (drop 9 (rx_buffer t))\<rparr>"
  shows "gaiaTransport_RfcommReceivePacket t
     = Some (t\<lparr>rx_packets_pending := 2, commands := commands t @ [c, c]\<rparr>)"
proof -
  have len: "(of_nat (length (rx_buffer t)) :: u16) \<noteq> 0"
    using assms(1) unat_len [of "length (rx_buffer t)"] by (auto simp: wrapping_def)
  have "receive_loop gaiaTransport_RfcommProcessCommand (of_nat (length (rx_buffer t))) (rx_buffer t) 0 t
     = Some (0, t\<lparr>rx_packets_pending := 2, commands := commands t @ [c, c]\<rparr>)"
    by (subst wrapping_turn [OF assms(1)], simp add: gaiaTransport_RfcommProcessCommand_def
        Gaia_ProcessCommand_def GAIA_TRANSPORT_RFCOMM_MAX_RX_PENDING_PKTS_def assms(2),
        subst wrapping_turn [OF assms(1)], simp add: gaiaTransport_RfcommProcessCommand_def
        Gaia_ProcessCommand_def GAIA_TRANSPORT_RFCOMM_MAX_RX_PENDING_PKTS_def assms(2,3) c_def)
  then show ?thesis
    using len by (simp add: gaiaTransport_RfcommReceivePacket_def Gaia_TransportCommonReceivePacket_def
        assms(3))
qed

lemma wrapping_handled:
  assumes "wrapping (rx_buffer t)" "rx_packets_pending t = 2" "rx_data_pending t = 0"
  shows "\<exists>cs. rfcomm_run [Handled, Handled] t = Inr (t\<lparr>commands := commands t @ cs\<rparr>)
     \<and> map cmd_size_payload cs = [65527, 65527]"
proof -
  let ?t = "t\<lparr>rx_packets_pending := 0, rx_buffer := rx_buffer t, rx_data_pending := 0\<rparr>"
  obtain c where "gaiaTransport_RfcommReceivePacket ?t
     = Some (?t\<lparr>rx_packets_pending := 2, commands := commands t @ [c, c]\<rparr>)" "cmd_size_payload c = 65527"
    using wrapping_receive [of ?t] assms(1) by simp
  then show ?thesis
    using assms(2,3)
    by (intro exI [of _ "[c, c]"])
      (simp add: gaiaTransport_RfcommPacketHandled_def TransportMgrDataConsumed_def Let_def)
qed

end
