(* ===== verification/Gaia_Transport.thy ===== *)
theory Gaia_Transport
  imports Gaia_Stream
begin

text \<open>
  The life of the service of the companion-app protocol: \<^verbatim>\<open>libs/gaia/gaia_transport.c\<close> and the handlers of
  \<^verbatim>\<open>domains/gaia/gaia_transport/gaia_transport_rfcomm.c\<close>. A service is started, its record is put in the
  service database, links come and go, and the application is told.

  The function table is the one of RFCOMM, which has no \<open>connect_req\<close> and no data end point. A second start
  while an instance exists would make two instances with one place in \<open>gaia_transports\<close>; the
  model stops there (\<open>Second_instance\<close>), as the framework starts each service once.
\<close>

section \<open>The library: gaia\_transport.c\<close>

definition gaia_report_to_app :: "gaia_report \<Rightarrow> gaia_transport_rfcomm \<Rightarrow> gaia_transport_rfcomm" where
  "gaia_report_to_app r t = t\<lparr>reports := reports t @ [r]\<rparr>"

definition stack_requested :: "stack_request \<Rightarrow> gaia_transport_rfcomm \<Rightarrow> gaia_transport_rfcomm" where
  "stack_requested r t = t\<lparr>requests := requests t @ [r]\<rparr>"

definition SPP_DEFAULT_CHANNEL :: u8 where "SPP_DEFAULT_CHANNEL = 1"
definition GAIA_TRANSPORT_RFCOMM_DEFAULT_TX_PKT_SIZE :: "12 word" where
  "GAIA_TRANSPORT_RFCOMM_DEFAULT_TX_PKT_SIZE = 48"
definition GAIA_TRANSPORT_RFCOMM_DEFAULT_PROTOCOL_VERSION :: u32 where
  "GAIA_TRANSPORT_RFCOMM_DEFAULT_PROTOCOL_VERSION = 3"
definition GAIA_TRANSPORT_RFCOMM_MAX_PROTOCOL_VERSION :: u32 where
  "GAIA_TRANSPORT_RFCOMM_MAX_PROTOCOL_VERSION = 4"

definition gaiaTransport_RfcommStartService :: "gaia_transport_rfcomm \<Rightarrow> gaia_transport_rfcomm" where
  "gaiaTransport_RfcommStartService t =
     stack_requested (TransportMgrRegisterTransport SPP_DEFAULT_CHANNEL)
       (t\<lparr>max_tx_size := GAIA_TRANSPORT_RFCOMM_DEFAULT_TX_PKT_SIZE,
         protocol_version := ucast GAIA_TRANSPORT_RFCOMM_DEFAULT_PROTOCOL_VERSION\<rparr>)"

text \<open>\<open>memory\<close> is whether \<open>calloc\<close> succeeds; it clears the fields of the instance.\<close>

definition Gaia_TransportStartService ::
    "bool \<Rightarrow> gaia_transport_type \<Rightarrow> gaia_transport_rfcomm \<Rightarrow> fault + gaia_transport_rfcomm" where
  "Gaia_TransportStartService memory type t =
     (if allocated t then Inl Second_instance
      else if memory then
        Inr (gaiaTransport_RfcommStartService
          (t\<lparr>allocated := True, gaia_type := type, gaia_state := GAIA_TRANSPORT_STARTING, channel := 0,
            trans_sink := 0, service_handle := 0, rx_packets_pending := 0, rx_data_pending := 0\<rparr>))
      else Inr (gaia_report_to_app (GAIA_START_SERVICE_CFM False) t))"

definition Gaia_TransportStartServiceCfm :: "bool \<Rightarrow> gaia_transport_rfcomm \<Rightarrow> gaia_transport_rfcomm" where
  "Gaia_TransportStartServiceCfm success t =
     (let t = gaia_report_to_app (GAIA_START_SERVICE_CFM success) t
      in if success then t\<lparr>gaia_state := GAIA_TRANSPORT_STARTED\<rparr> else t\<lparr>allocated := False\<rparr>)"

definition gaiaTransport_RfcommStopService :: "gaia_transport_rfcomm \<Rightarrow> gaia_transport_rfcomm" where
  "gaiaTransport_RfcommStopService t = stack_requested (TransportMgrDeRegisterTransport (channel t)) t"

definition Gaia_TransportStopService :: "gaia_transport_rfcomm \<Rightarrow> gaia_transport_rfcomm" where
  "Gaia_TransportStopService t =
     (if allocated t then gaiaTransport_RfcommStopService t
      else gaia_report_to_app (GAIA_STOP_SERVICE_CFM False) t)"

definition Gaia_TransportStopServiceCfm :: "bool \<Rightarrow> gaia_transport_rfcomm \<Rightarrow> fault + gaia_transport_rfcomm" where
  "Gaia_TransportStopServiceCfm success t =
     (if \<not> allocated t then Inl Panic
      else let t = gaia_report_to_app (GAIA_STOP_SERVICE_CFM success) t
           in if success then Inr (t\<lparr>allocated := False\<rparr>) else Inl Panic)"

definition Gaia_TransportConnectReq :: "gaia_transport_rfcomm \<Rightarrow> gaia_transport_rfcomm" where
  "Gaia_TransportConnectReq t = gaia_report_to_app (GAIA_CONNECT_CFM False) t"

definition Gaia_TransportConnectInd :: "bool \<Rightarrow> gaia_transport_rfcomm \<Rightarrow> gaia_transport_rfcomm" where
  "Gaia_TransportConnectInd success t =
     (gaia_report_to_app (if gaia_state t = GAIA_TRANSPORT_CONNECTING then GAIA_CONNECT_CFM success
                          else GAIA_CONNECT_IND success) t)
       \<lparr>gaia_state := if success then GAIA_TRANSPORT_CONNECTED else GAIA_TRANSPORT_STARTED\<rparr>"

definition Gaia_TransportIsConnected :: "gaia_transport_rfcomm \<Rightarrow> bool" where
  "Gaia_TransportIsConnected t \<longleftrightarrow> gaia_state t = GAIA_TRANSPORT_CONNECTED"

definition gaiaTransport_RfcommDisconnectReq :: "gaia_transport_rfcomm \<Rightarrow> gaia_transport_rfcomm" where
  "gaiaTransport_RfcommDisconnectReq t = stack_requested (TransportMgrDisconnect (trans_sink t)) t"

definition Gaia_TransportDisconnectReq :: "gaia_transport_rfcomm \<Rightarrow> gaia_transport_rfcomm" where
  "Gaia_TransportDisconnectReq t =
     (if gaia_state t = GAIA_TRANSPORT_CONNECTED
      then gaiaTransport_RfcommDisconnectReq (t\<lparr>gaia_state := GAIA_TRANSPORT_DISCONNECTING\<rparr>)
      else gaia_report_to_app GAIA_DISCONNECT_CFM t)"

definition Gaia_TransportDisconnectInd :: "gaia_transport_rfcomm \<Rightarrow> gaia_transport_rfcomm" where
  "Gaia_TransportDisconnectInd t =
     (gaia_report_to_app (if gaia_state t = GAIA_TRANSPORT_DISCONNECTING then GAIA_DISCONNECT_CFM
                          else GAIA_DISCONNECT_IND) t)
       \<lparr>gaia_state := GAIA_TRANSPORT_STARTED\<rparr>"

text \<open>\<open>GaiaSendPacket\<close> of \<^verbatim>\<open>gaia.c\<close>; its result is dropped.\<close>

definition GaiaSendPacket ::
    "u16 \<Rightarrow> bool \<Rightarrow> bool \<Rightarrow> u16 \<Rightarrow> u16 \<Rightarrow> u8 \<Rightarrow> u16 \<Rightarrow> u8 list \<Rightarrow> gaia_transport_rfcomm
     \<Rightarrow> fault + gaia_transport_rfcomm" where
  "GaiaSendPacket trans_space claimed accepted vendor command status size_payload payload t =
     (if allocated t \<and> Gaia_TransportIsConnected t then
        (case gaiaTransport_RfcommSendPacket trans_space claimed accepted vendor command status size_payload
                payload t of
           Inl f \<Rightarrow> Inl f | Inr (_, t) \<Rightarrow> Inr t)
      else Inr t)"

section \<open>The service record\<close>

definition gaia_transport_rfcomm_service_record :: "u8 list" where
  "gaia_transport_rfcomm_service_record =
     [0x09, 0x00, 0x01, 0x35, 17,
      0x1C, 0x00, 0x00, 0x11, 0x07, 0xD1, 0x02, 0x11, 0xE1, 0x9B, 0x23, 0x00, 0x02, 0x5B, 0x00, 0xA5, 0xA5,
      0x09, 0x00, 0x04, 0x35, 12, 0x35, 3, 0x19, 0x01, 0x00, 0x35, 5, 0x19, 0x00, 0x03,
      0x08, SPP_DEFAULT_CHANNEL, 0x09, 0x00, 0x06, 0x35, 9, 0x09, 0x65, 0x6E, 0x09, 0x00, 0x6A,
      0x09, 0x01, 0x00, 0x09, 0x01, 0x00, 0x25, 4, 0x47, 0x41, 0x49, 0x41]"

definition gaia_transport_spp_service_record :: "u8 list" where
  "gaia_transport_spp_service_record =
     [0x09, 0x00, 0x01, 0x35, 3, 0x19, 0x11, 0x01, 0x09, 0x00, 0x04, 0x35, 12, 0x35, 3, 0x19, 0x01, 0x00,
      0x35, 5, 0x19, 0x00, 0x03, 0x08, SPP_DEFAULT_CHANNEL, 0x09, 0x00, 0x06, 0x35, 9, 0x09, 0x65, 0x6E,
      0x09, 0x00, 0x6A, 0x09, 0x01, 0x00, 0x09, 0x01, 0x00, 0x25, 4, 0x47, 0x41, 0x49, 0x41,
      0x09, 0x00, 0x09, 0x35, 0x08, 0x35, 0x06, 0x19, 0x11, 0x01, 0x09, 0x01, 0x02]"

definition gaiaTransport_RfcommAllocateServiceRecord :: "u8 list \<Rightarrow> nat \<Rightarrow> u8 \<Rightarrow> u8 list" where
  "gaiaTransport_RfcommAllocateServiceRecord service_record channel_offset chan =
     (if chan = service_record ! channel_offset then service_record
      else service_record[channel_offset := chan])"

definition gaiaTransport_RfcommSdpRegister :: "gaia_transport_rfcomm \<Rightarrow> gaia_transport_rfcomm" where
  "gaiaTransport_RfcommSdpRegister t =
     (let sr = (if gaia_type t = gaia_transport_rfcomm
                then gaiaTransport_RfcommAllocateServiceRecord gaia_transport_rfcomm_service_record 38 (channel t)
                else gaiaTransport_RfcommAllocateServiceRecord gaia_transport_spp_service_record 24 (channel t))
      in stack_requested (ConnectionRegisterServiceRecord sr) t)"

section \<open>Parameters\<close>

text \<open>The keys are the numbers of the source; any other number takes the \<open>default\<close>.\<close>

datatype gaia_transport_info_key_t =
    GAIA_TRANSPORT_MAX_TX_PAYLOAD
  | GAIA_TRANSPORT_OPTIMUM_TX_PAYLOAD
  | GAIA_TRANSPORT_MAX_RX_PAYLOAD
  | GAIA_TRANSPORT_OPTIMUM_RX_PAYLOAD
  | GAIA_TRANSPORT_TX_FLOW_CONTROL
  | GAIA_TRANSPORT_RX_FLOW_CONTROL
  | GAIA_TRANSPORT_PROTOCOL_VERSION
  | Other_info_key

definition gaiaTransport_RfcommGetInfo ::
    "gaia_transport_info_key_t \<Rightarrow> u32 \<Rightarrow> gaia_transport_rfcomm \<Rightarrow> bool \<times> u32" where
  "gaiaTransport_RfcommGetInfo key value t =
     (case key of
        GAIA_TRANSPORT_MAX_TX_PAYLOAD \<Rightarrow> (True, ucast (max_tx_size t))
      | GAIA_TRANSPORT_OPTIMUM_TX_PAYLOAD \<Rightarrow> (True, ucast (max_tx_size t))
      | GAIA_TRANSPORT_MAX_RX_PAYLOAD \<Rightarrow> (True, if protocol_version t \<ge> 4 then 1600 else 254)
      | GAIA_TRANSPORT_OPTIMUM_RX_PAYLOAD \<Rightarrow> (True, if protocol_version t \<ge> 4 then 850 else 254)
      | GAIA_TRANSPORT_TX_FLOW_CONTROL \<Rightarrow> (True, 1)
      | GAIA_TRANSPORT_RX_FLOW_CONTROL \<Rightarrow> (True, 1)
      | GAIA_TRANSPORT_PROTOCOL_VERSION \<Rightarrow> (True, ucast (protocol_version t))
      | Other_info_key \<Rightarrow> (False, value))"

definition gaiaTransport_RfcommSetParameter ::
    "gaia_transport_info_key_t \<Rightarrow> u32 \<Rightarrow> gaia_transport_rfcomm \<Rightarrow> bool \<times> u32 \<times> gaia_transport_rfcomm" where
  "gaiaTransport_RfcommSetParameter key value t =
     (case key of
        GAIA_TRANSPORT_MAX_TX_PAYLOAD \<Rightarrow>
          let t = t\<lparr>max_tx_size := ucast (if protocol_version t \<ge> 4 then min value 48 else min value 48)\<rparr>
          in (True, ucast (max_tx_size t), t)
      | GAIA_TRANSPORT_PROTOCOL_VERSION \<Rightarrow>
          let t = (if value \<ge> GAIA_TRANSPORT_RFCOMM_DEFAULT_PROTOCOL_VERSION
                      \<and> value \<le> GAIA_TRANSPORT_RFCOMM_MAX_PROTOCOL_VERSION
                   then t\<lparr>protocol_version := ucast value\<rparr> else t)
          in (True, ucast (protocol_version t), t)
      | _ \<Rightarrow> let (r, v) = gaiaTransport_RfcommGetInfo key value t in (r, v, t))"

section \<open>Messages from the transport manager and the connection library\<close>

definition gaiaTransport_RfcommHandleTransportMgrRegisterCfm ::
    "bool \<Rightarrow> u8 \<Rightarrow> gaia_transport_rfcomm \<Rightarrow> gaia_transport_rfcomm" where
  "gaiaTransport_RfcommHandleTransportMgrRegisterCfm status link_id t =
     (if status then gaiaTransport_RfcommSdpRegister (t\<lparr>channel := link_id\<rparr>)
      else Gaia_TransportStartServiceCfm False t)"

definition gaiaTransport_RfcommHandleTransportMgrDeregisterCfm ::
    "gaia_transport_rfcomm \<Rightarrow> fault + gaia_transport_rfcomm" where
  "gaiaTransport_RfcommHandleTransportMgrDeregisterCfm t =
     (if service_handle t \<noteq> 0 then
        Inr ((stack_requested (ConnectionUnregisterServiceRecord (service_handle t)) t)\<lparr>service_handle := 0\<rparr>)
      else Inl Panic)"

definition rfcomm_receive :: "gaia_transport_rfcomm \<Rightarrow> fault + gaia_transport_rfcomm" where
  "rfcomm_receive t =
     (case gaiaTransport_RfcommReceivePacket t of None \<Rightarrow> Inl Never_returns | Some t \<Rightarrow> Inr t)"

definition gaiaTransport_RfcommHandleTransportMgrLinkCreatedCfm ::
    "bool \<Rightarrow> u16 \<Rightarrow> gaia_transport_rfcomm \<Rightarrow> fault + gaia_transport_rfcomm" where
  "gaiaTransport_RfcommHandleTransportMgrLinkCreatedCfm status sink t =
     (let t = (if status then
                 let t = t\<lparr>trans_sink := sink\<rparr>
                 in if service_handle t \<noteq> 0 then
                      (stack_requested (ConnectionUnregisterServiceRecord (service_handle t)) t)
                        \<lparr>service_handle := 0\<rparr>
                    else t
               else t)
      in rfcomm_receive (Gaia_TransportConnectInd status t))"

definition gaiaTransport_RfcommHandleTransportMgrLinkDisconnectedCfm ::
    "bool \<Rightarrow> gaia_transport_rfcomm \<Rightarrow> gaia_transport_rfcomm" where
  "gaiaTransport_RfcommHandleTransportMgrLinkDisconnectedCfm status t =
     (if status then
        (let t = (stack_requested (StreamConnectDispose (trans_sink t)) t)\<lparr>rx_buffer := []\<rparr>;
             t = gaiaTransport_RfcommSdpRegister t
         in Gaia_TransportDisconnectInd t)
      else t)"

definition gaiaTransport_RfcommHandleClSdpRegisterCfm ::
    "bool \<Rightarrow> u32 \<Rightarrow> gaia_transport_rfcomm \<Rightarrow> gaia_transport_rfcomm" where
  "gaiaTransport_RfcommHandleClSdpRegisterCfm success handle t =
     (if success then
        (let t = (if gaia_state t = GAIA_TRANSPORT_STARTING then Gaia_TransportStartServiceCfm True t else t)
         in t\<lparr>service_handle := handle\<rparr>)
      else if gaia_state t = GAIA_TRANSPORT_STARTING then Gaia_TransportStartServiceCfm False t
      else t)"

definition gaiaTransport_RfcommHandleClSdpUnregisterCfm ::
    "bool \<Rightarrow> gaia_transport_rfcomm \<Rightarrow> fault + gaia_transport_rfcomm" where
  "gaiaTransport_RfcommHandleClSdpUnregisterCfm success t =
     (if gaia_state t = GAIA_TRANSPORT_STOPPING \<and> success then Gaia_TransportStopServiceCfm True t
      else Inr t)"

text \<open>The messages; the status of the last four is whether it is the status of success.\<close>

datatype rfcomm_message =
    TRANSPORT_MGR_MORE_DATA
  | TRANSPORT_MGR_MORE_SPACE
  | TRANSPORT_MGR_REGISTER_CFM bool u8
  | TRANSPORT_MGR_DEREGISTER_CFM
  | TRANSPORT_MGR_LINK_CREATED_CFM bool u16
  | TRANSPORT_MGR_LINK_DISCONNECTED_CFM bool
  | CL_SDP_REGISTER_CFM bool u32
  | CL_SDP_UNREGISTER_CFM bool

definition gaiaTransport_RfcommHandleMessage ::
    "rfcomm_message \<Rightarrow> gaia_transport_rfcomm \<Rightarrow> fault + gaia_transport_rfcomm" where
  "gaiaTransport_RfcommHandleMessage m t =
     (case m of
        TRANSPORT_MGR_MORE_DATA \<Rightarrow> rfcomm_receive t
      | TRANSPORT_MGR_MORE_SPACE \<Rightarrow> Inr t
      | TRANSPORT_MGR_REGISTER_CFM status link_id \<Rightarrow>
          Inr (gaiaTransport_RfcommHandleTransportMgrRegisterCfm status link_id t)
      | TRANSPORT_MGR_DEREGISTER_CFM \<Rightarrow> gaiaTransport_RfcommHandleTransportMgrDeregisterCfm t
      | TRANSPORT_MGR_LINK_CREATED_CFM status sink \<Rightarrow>
          gaiaTransport_RfcommHandleTransportMgrLinkCreatedCfm status sink t
      | TRANSPORT_MGR_LINK_DISCONNECTED_CFM status \<Rightarrow>
          Inr (gaiaTransport_RfcommHandleTransportMgrLinkDisconnectedCfm status t)
      | CL_SDP_REGISTER_CFM success handle \<Rightarrow> Inr (gaiaTransport_RfcommHandleClSdpRegisterCfm success handle t)
      | CL_SDP_UNREGISTER_CFM success \<Rightarrow> gaiaTransport_RfcommHandleClSdpUnregisterCfm success t)"

section \<open>Steps of the service\<close>

text \<open>
  What can happen: the application calls the interface, octets come in over a link, a new link comes with
  the octets already waiting in its source, and a message is delivered. Messages to an instance that has been freed
  are flushed. The application calls \<open>packet_handled\<close> and \<open>GaiaDisconnectRequest\<close> on an instance it holds.
\<close>

datatype gaia_event =
    Start bool
  | Stop
  | Connect_Req
  | Disconnect_Req
  | Packet_Handled
  | Send u16 bool bool u16 u16 u8 u16 "u8 list"
  | Set_Parameter gaia_transport_info_key_t u32
  | Octets "u8 list"
  | New_Source "u8 list"
  | Deliver_Message rfcomm_message

fun gaia_step :: "gaia_event \<Rightarrow> gaia_transport_rfcomm \<Rightarrow> fault + gaia_transport_rfcomm" where
  "gaia_step (Start memory) t = Gaia_TransportStartService memory gaia_transport_spp t"
| "gaia_step Stop t = Inr (Gaia_TransportStopService t)"
| "gaia_step Connect_Req t = Inr (Gaia_TransportConnectReq t)"
| "gaia_step Disconnect_Req t = Inr (if allocated t then Gaia_TransportDisconnectReq t else t)"
| "gaia_step Packet_Handled t = (if allocated t then gaiaTransport_RfcommPacketHandled t else Inr t)"
| "gaia_step (Send trans_space claimed accepted vendor command status size_payload payload) t =
     GaiaSendPacket trans_space claimed accepted vendor command status size_payload payload t"
| "gaia_step (Set_Parameter key value) t =
     Inr (if allocated t then snd (snd (gaiaTransport_RfcommSetParameter key value t)) else t)"
| "gaia_step (Octets octets) t = Inr (t\<lparr>rx_buffer := rx_buffer t @ octets\<rparr>)"
| "gaia_step (New_Source octets) t = Inr (t\<lparr>rx_buffer := octets\<rparr>)"
| "gaia_step (Deliver_Message m) t =
     (if allocated t then gaiaTransport_RfcommHandleMessage m t else Inr t)"

fun gaia_run :: "gaia_event list \<Rightarrow> gaia_transport_rfcomm \<Rightarrow> fault + gaia_transport_rfcomm" where
  "gaia_run [] t = Inr t"
| "gaia_run (e # es) t = (case gaia_step e t of Inl f \<Rightarrow> Inl f | Inr t \<Rightarrow> gaia_run es t)"

lemma gaia_run_append:
  "gaia_run (xs @ ys) t = (case gaia_run xs t of Inl f \<Rightarrow> Inl f | Inr t \<Rightarrow> gaia_run ys t)"
  by (induction xs arbitrary: t) (auto split: sum.split)

lemma gaia_run_invariant:
  assumes "gaia_run es t = Inr t'" "P t" "\<And>e t t'. e \<in> set es \<Longrightarrow> P t \<Longrightarrow> gaia_step e t = Inr t' \<Longrightarrow> P t'"
  shows "P t'"
  using assms
proof (induction es arbitrary: t)
  case (Cons e es)
  then obtain u where "gaia_step e t = Inr u" "gaia_run es u = Inr t'" by (auto split: sum.splits)
  with Cons show ?case by (metis list.set_intros)
qed simp

section \<open>What receiving leaves alone\<close>

text \<open>Receiving queues commands, and may report an error; the rest of the instance is left alone.\<close>

definition received :: "gaia_transport_rfcomm \<Rightarrow> gaia_transport_rfcomm \<Rightarrow> bool" where
  "received t t' \<longleftrightarrow> allocated t' = allocated t \<and> gaia_type t' = gaia_type t \<and> channel t' = channel t
     \<and> trans_sink t' = trans_sink t \<and> service_handle t' = service_handle t \<and> max_tx_size t' = max_tx_size t
     \<and> protocol_version t' = protocol_version t \<and> sent_octets t' = sent_octets t \<and> reports t' = reports t
     \<and> (gaia_state t' = gaia_state t \<or> gaia_state t' = GAIA_TRANSPORT_ERROR)"

lemma received_refl [simp]: "received t t"
  by (simp add: received_def)

lemma received_trans: "received t u \<Longrightarrow> received u v \<Longrightarrow> received t v"
  by (auto simp: received_def)

lemma received_error: "received t (Gaia_TransportErrorInd t)"
  by (simp add: received_def Gaia_TransportErrorInd_def gaiaTransport_RfcommError_def)

lemma received_command: "received t (snd (gaiaTransport_RfcommProcessCommand k v c s p t))"
  by (simp add: received_def gaiaTransport_RfcommProcessCommand_def Gaia_ProcessCommand_def Let_def)

lemma receive_loop_received:
  assumes "\<And>k v c s p t. received t (snd (cb k v c s p t))"
  shows "receive_loop cb len d n t = Some (m, t') \<Longrightarrow> received t t'"
proof -
  have "(\<forall>k v c s p t. received t (snd (cb k v c s p t))) \<longrightarrow> received t (snd (m, t'))"
    if h: "receive_loop cb len d n t = Some (m, t')" for cb len d n t m t'
  proof (rule receive_loop.raw_induct
      [where P = "\<lambda>cb len d n t r. (\<forall>k v c s p t. received t (snd (cb k v c s p t))) \<longrightarrow> received t (snd r)",
       OF _ h], goal_cases)
    case (1 f cb len d n t r)
    have step: "received t (snd r)"
      if "\<forall>k v c s p t. received t (snd (cb k v c s p t))"
        "(case cb a b c e p t of (again, u) \<Rightarrow> if \<not> again then Some (n, u) else f cb x y z u) = Some r"
      for a b c e p x y z
    proof -
      obtain again u where u: "cb a b c e p t = (again, u)" by (cases "cb a b c e p t")
      then have "received t u" using that(1) by (metis snd_conv)
      moreover have "received u (snd r)" using that u 1(1) [of cb x y z u r] by (cases again) auto
      ultimately show ?thesis by (rule received_trans)
    qed
    show ?case
      using 1(2) received_error [of t] step
      unfolding Let_def by (auto split: if_splits)
  qed
  then show "receive_loop cb len d n t = Some (m, t') \<Longrightarrow> received t t'"
    using assms by auto
qed

lemma receive_received:
  "rfcomm_receive t = Inr t' \<Longrightarrow> received t t'"
  by (auto simp: rfcomm_receive_def gaiaTransport_RfcommReceivePacket_def
      Gaia_TransportCommonReceivePacket_def Let_def
      intro!: receive_loop_received [OF received_command] split: if_splits option.splits)

section \<open>A service that is stopped\<close>

text \<open>No step but a failed registration ends a service that has started: nothing ever sets the state that the
  end of a stop waits for.\<close>

definition stop_confirmations :: "gaia_transport_rfcomm \<Rightarrow> bool list" where
  "stop_confirmations t = concat (map (\<lambda>r. case r of GAIA_STOP_SERVICE_CFM b \<Rightarrow> [b] | _ \<Rightarrow> []) (reports t))"

definition running :: "gaia_transport_rfcomm \<Rightarrow> bool" where
  "running t \<longleftrightarrow> allocated t \<and> gaia_state t \<notin> {GAIA_TRANSPORT_STARTING, GAIA_TRANSPORT_STOPPING}"

lemma received_running:
  "received t t' \<Longrightarrow> running t \<Longrightarrow> running t'"
  "received t t' \<Longrightarrow> stop_confirmations t' = stop_confirmations t"
  by (auto simp: running_def stop_confirmations_def received_def)

lemma packet_handled_received:
  assumes "gaiaTransport_RfcommPacketHandled t = Inr t'"
  shows "received t t'"
proof -
  let ?t = "t\<lparr>rx_packets_pending := rx_packets_pending t - 1\<rparr>"
  let ?u = "(TransportMgrDataConsumed (rx_data_pending t) ?t)\<lparr>rx_data_pending := 0\<rparr>"
  have "received t ?t" "received t ?u" by (simp_all add: received_def TransportMgrDataConsumed_def)
  moreover have "t' = ?t \<or> rfcomm_receive ?u = Inr t'"
    using assms by (auto simp: gaiaTransport_RfcommPacketHandled_def rfcomm_receive_def Let_def
        split: if_splits option.splits)
  ultimately show ?thesis using receive_received received_trans by blast
qed

text \<open>One step of a running service.\<close>

lemma running_step:
  assumes "running t" "gaia_step e t = Inr t'" "\<forall>l. e \<noteq> Deliver_Message (TRANSPORT_MGR_REGISTER_CFM False l)"
  shows "running t' \<and> stop_confirmations t' = stop_confirmations t"
proof -
  note [simp] = running_def stop_confirmations_def gaia_report_to_app_def stack_requested_def Let_def
  have al: "allocated t" using assms(1) by simp
  have quiet: "running u' \<and> stop_confirmations u' = stop_confirmations t"
    if "running u" "stop_confirmations u = stop_confirmations t" "received u u'" for u u'
    using received_running [OF that(3)] that(1,2) by metis
  show ?thesis
  proof (cases e)
    case (Deliver_Message m)
    then have step: "gaiaTransport_RfcommHandleMessage m t = Inr t'" using assms(2) al by simp
    show ?thesis
    proof (cases m)
      case TRANSPORT_MGR_MORE_DATA
      then show ?thesis
        using step assms(1) quiet [OF _ _ receive_received, of t]
        by (simp add: gaiaTransport_RfcommHandleMessage_def)
    next
      case (TRANSPORT_MGR_LINK_CREATED_CFM status sink)
      then obtain u where u: "rfcomm_receive u = Inr t'" "running u" "stop_confirmations u = stop_confirmations t"
        using step assms(1)
        by (auto simp: gaiaTransport_RfcommHandleMessage_def Gaia_TransportConnectInd_def
            gaiaTransport_RfcommHandleTransportMgrLinkCreatedCfm_def split: if_splits)
      then show ?thesis using quiet [OF _ _ receive_received] by blast
    qed (use assms Deliver_Message al step in \<open>auto simp: gaiaTransport_RfcommHandleMessage_def
        gaiaTransport_RfcommHandleTransportMgrRegisterCfm_def gaiaTransport_RfcommSdpRegister_def
        gaiaTransport_RfcommHandleTransportMgrDeregisterCfm_def gaiaTransport_RfcommHandleClSdpUnregisterCfm_def
        gaiaTransport_RfcommHandleTransportMgrLinkDisconnectedCfm_def Gaia_TransportDisconnectInd_def
        gaiaTransport_RfcommHandleClSdpRegisterCfm_def split: if_splits\<close>)
  next
    case Packet_Handled
    then show ?thesis
      using assms quiet [OF _ _ packet_handled_received, of t] al by simp
  next
    case (Send space claimed accepted vendor command status len payload)
    then show ?thesis
      using assms received_error quiet [of t, OF _ _ received_error]
      by (auto simp: GaiaSendPacket_def gaiaTransport_RfcommSendPacket_def split: if_splits option.splits sum.splits prod.splits)
  qed (use assms al in \<open>auto simp: Gaia_TransportStartService_def Gaia_TransportStopService_def
      gaiaTransport_RfcommStopService_def Gaia_TransportConnectReq_def Gaia_TransportDisconnectReq_def
      gaiaTransport_RfcommDisconnectReq_def gaiaTransport_RfcommSetParameter_def
      split: if_splits gaia_transport_info_key_t.splits prod.splits\<close>)
qed

section \<open>A packet that outlives its link\<close>

lemma receive_one:
  assumes "well_sized p" "rx_packets_pending t = 0" "rx_data_pending t = 0" "rx_buffer t = wire p"
  shows "rfcomm_receive t = Inr (queued [p] [the_command p []] t)"
proof -
  have len: "length (wire p) \<le> 65535" by (rule well_sized_length [OF assms(1)])
  then have "(of_nat (length (wire p)) :: u16) \<noteq> 0"
    using unat_len [OF len] by (auto simp: length_wire)
  moreover have "receive_loop gaiaTransport_RfcommProcessCommand (of_nat (length (wire p))) (wire p) 0 t
      = Some (length (wire p), queued [p] [the_command p []] t)"
    using receive_packet [OF assms(1), of "[]" gaiaTransport_RfcommProcessCommand 0 t] len
      receive_starved [of "[]" 0] assms(2)
    by (simp add: process_command starved_def)
  ultimately show ?thesis
    using assms(3,4)
    by (simp add: rfcomm_receive_def gaiaTransport_RfcommReceivePacket_def Gaia_TransportCommonReceivePacket_def)
qed

text \<open>While octets of a packet wait to be freed nothing is received.\<close>

lemma receive_pending: "rx_data_pending t \<noteq> 0 \<Longrightarrow> rfcomm_receive t = Inr t"
  by (simp add: rfcomm_receive_def gaiaTransport_RfcommReceivePacket_def)

lemma receive_nothing: "rx_data_pending t = 0 \<Longrightarrow> rx_buffer t = [] \<Longrightarrow> rfcomm_receive t = Inr t"
  by (simp add: rfcomm_receive_def gaiaTransport_RfcommReceivePacket_def)

lemma handled_last:
  assumes "rx_packets_pending t = 1" "unat (rx_data_pending t) = length (rx_buffer t)"
  shows "gaiaTransport_RfcommPacketHandled t
     = Inr (t\<lparr>rx_packets_pending := 0, rx_buffer := [], rx_data_pending := 0\<rparr>)"
  using assms
  by (simp add: gaiaTransport_RfcommPacketHandled_def TransportMgrDataConsumed_def
      gaiaTransport_RfcommReceivePacket_def Let_def)

section \<open>The negotiated parameters\<close>

definition params :: "gaia_transport_rfcomm \<Rightarrow> bool" where
  "params t \<longleftrightarrow> (allocated t \<longrightarrow> protocol_version t \<in> {3, 4} \<and> max_tx_size t \<le> 48)"

lemma received_params: "received t t' \<Longrightarrow> params t \<Longrightarrow> params t'"
  by (simp add: received_def params_def)

lemma ucast_le_48: "v \<le> 48 \<Longrightarrow> (ucast (v :: u32) :: 12 word) \<le> 48"
  by (simp add: word_le_nat_alt unsigned_ucast_eq unsigned_take_bit_eq take_bit_nat_eq_self)

lemma set_parameter_params:
  assumes "params t"
  shows "params (snd (snd (gaiaTransport_RfcommSetParameter key value t)))"
proof (cases key)
  case GAIA_TRANSPORT_PROTOCOL_VERSION
  have "value = 3 \<or> value = 4" if "value \<ge> 3" "value \<le> 4"
  proof -
    have "unat value = 3 \<or> unat value = 4" using that by (simp add: word_le_nat_alt) arith
    then show ?thesis by (auto simp: word_unat_eq_iff)
  qed
  then show ?thesis
    using assms GAIA_TRANSPORT_PROTOCOL_VERSION
    by (auto simp: gaiaTransport_RfcommSetParameter_def params_def Let_def
        GAIA_TRANSPORT_RFCOMM_DEFAULT_PROTOCOL_VERSION_def GAIA_TRANSPORT_RFCOMM_MAX_PROTOCOL_VERSION_def)
qed (use assms in \<open>auto simp: gaiaTransport_RfcommSetParameter_def params_def Let_def ucast_le_48
      split: prod.splits\<close>)

lemma params_step:
  assumes "params t" "gaia_step e t = Inr t'"
  shows "params t'"
proof (cases "allocated t")
  case False
  then show ?thesis
    using assms
    by (cases e) (auto simp: params_def Gaia_TransportStartService_def gaiaTransport_RfcommStartService_def
        Gaia_TransportStopService_def Gaia_TransportConnectReq_def GaiaSendPacket_def gaia_report_to_app_def
        stack_requested_def GAIA_TRANSPORT_RFCOMM_DEFAULT_TX_PKT_SIZE_def
        GAIA_TRANSPORT_RFCOMM_DEFAULT_PROTOCOL_VERSION_def split: if_splits)
next
  case al: True
  note [simp] = params_def gaia_report_to_app_def stack_requested_def Let_def
  show ?thesis
  proof (cases e)
    case (Deliver_Message m)
    then have step: "gaiaTransport_RfcommHandleMessage m t = Inr t'" using assms(2) al by simp
    show ?thesis
    proof (cases m)
      case TRANSPORT_MGR_MORE_DATA
      then show ?thesis
        using step received_params [OF receive_received] assms(1)
        by (auto simp: gaiaTransport_RfcommHandleMessage_def)
    next
      case (TRANSPORT_MGR_LINK_CREATED_CFM status sink)
      then obtain u where u: "rfcomm_receive u = Inr t'" "params u"
        using step assms(1) al
        by (auto simp: gaiaTransport_RfcommHandleMessage_def Gaia_TransportConnectInd_def
            gaiaTransport_RfcommHandleTransportMgrLinkCreatedCfm_def split: if_splits)
      then show ?thesis using received_params [OF receive_received] by blast
    qed (use assms(1) step in \<open>auto simp: gaiaTransport_RfcommHandleMessage_def
        gaiaTransport_RfcommHandleTransportMgrRegisterCfm_def gaiaTransport_RfcommSdpRegister_def
        gaiaTransport_RfcommHandleTransportMgrDeregisterCfm_def gaiaTransport_RfcommHandleClSdpUnregisterCfm_def
        gaiaTransport_RfcommHandleTransportMgrLinkDisconnectedCfm_def Gaia_TransportDisconnectInd_def
        gaiaTransport_RfcommHandleClSdpRegisterCfm_def Gaia_TransportStartServiceCfm_def
        Gaia_TransportStopServiceCfm_def split: if_splits\<close>)
  next
    case Packet_Handled
    then show ?thesis
      using assms received_params [OF packet_handled_received] al by (auto simp del: params_def)
  next
    case (Send space claimed accepted vendor command status len payload)
    then show ?thesis
      using assms received_params [OF received_error, of t]
      by (auto simp: GaiaSendPacket_def gaiaTransport_RfcommSendPacket_def
          split: if_splits option.splits sum.splits prod.splits)
  next
    case (Set_Parameter key v)
    then show ?thesis using set_parameter_params [OF assms(1), of key v] assms(2) al by (auto simp del: params_def)
  qed (use assms al in \<open>auto simp: Gaia_TransportStartService_def Gaia_TransportStopService_def
      gaiaTransport_RfcommStopService_def Gaia_TransportConnectReq_def Gaia_TransportDisconnectReq_def
      gaiaTransport_RfcommDisconnectReq_def split: if_splits\<close>)
qed

text \<open>What the transport tells about itself.\<close>

lemma get_info_range:
  assumes "params t" "allocated t" "gaiaTransport_RfcommGetInfo key v t = (True, value)"
  shows "key = GAIA_TRANSPORT_MAX_TX_PAYLOAD \<longrightarrow> value \<le> 48"
    "key = GAIA_TRANSPORT_PROTOCOL_VERSION \<longrightarrow> value \<in> {3, 4}"
    "key = GAIA_TRANSPORT_MAX_RX_PAYLOAD \<longrightarrow> value = (if protocol_version t = 4 then 1600 else 254)"
  using assms
  by (auto simp: gaiaTransport_RfcommGetInfo_def params_def word_le_nat_alt unsigned_ucast_eq
      unsigned_take_bit_eq take_bit_nat_eq_self)

end
