(* ===== verification/Companion_Properties.thy ===== *)
theory Companion_Properties
  imports Rwcp_Delivery Gaia_Transport
begin

text \<open>
  The properties of the two transports of the companion app: the RWCP server, which orders the segments of
  a firmware image sent over LE, and the packet stream over RFCOMM.
\<close>

section \<open>RWCP\<close>

text \<open>
  C27: From its listening state, the server that receives a SYN and then data segments in any order, with
  losses and repetitions, refines a go-back-N receiver with unbounded segment numbers: it sends the same
  acknowledgements and gap reports, passes on the same payloads, and holds the same position, as long as
  the client keeps at most 32 segments outstanding and no segment is more than 31 payloads late.
\<close>

theorem rwcp_refines_go_back_n:
  assumes "protocol_state g = RWCP_LISTEN" "accept_segments g" "js \<noteq> []" "in_window 0 js"
  shows "rwcp_run (syn_segment s # map (data_segment s p) js) g =
     (let (outs, d, muted) = gbn_run (0, False) js
      in (Notification (header RWCP_SERVER_CMD_SYN_ACK s) # map (encode s p) outs,
          g\<lparr>protocol_state := RWCP_ESTABLISHED, last_sequence_number := seqno (s + d),
            out_of_sequence_status := muted\<rparr>))"
  using session_run [OF assms(1,2,4,3)] by (simp add: split_beta position_def Let_def)

definition rwcp_started :: rwcp_server where
  "rwcp_started = RwcpServerInit 0 \<lparr>protocol_state = RWCP_LISTEN, out_of_sequence_status = False,
     last_sequence_number = 0, rwcp_upgrade_header_size = 0, accept_segments = False, client_task = None\<rparr>"

lemma rwcp_started [simp]: "protocol_state rwcp_started = RWCP_LISTEN" "accept_segments rwcp_started"
  by (simp_all add: rwcp_started_def RwcpServerInit_def)

lemma rwcp_refines_go_back_n_witness:
  "rwcp_run (syn_segment 62 # map (data_segment 62 (\<lambda>i. [of_nat i])) [1, 3, 2, 2, 3]) rwcp_started =
     ([Notification 0x7e, Notification 0x3f, ProcessCommand [1] 1, Notification 0xff,
       Notification 0x00, ProcessCommand [2] 1, Notification 0x00, Notification 0x01, ProcessCommand [3] 1],
      rwcp_started\<lparr>protocol_state := RWCP_ESTABLISHED, last_sequence_number := 1,
        out_of_sequence_status := False\<rparr>)"
proof -
  have "in_window 0 [1, 3, 2, 2, 3]" by simp
  from rwcp_refines_go_back_n [OF rwcp_started _ this, of 62 "\<lambda>i. [of_nat i]"]
  show ?thesis
    by (simp add: header_def seqno_def server_cmds Let_def)
qed

text \<open>
  C28: Whatever the network loses, repeats or delays, when the client sends again, in order, everything after
  some segment it knows to be delivered, every payload up to the last one has been passed on exactly once
  and in order.
\<close>

theorem rwcp_resending_delivers_all:
  assumes "protocol_state g = RWCP_LISTEN" "accept_segments g" "in_window 0 js"
    and "a \<le> delivered_after 0 js" "delivered_after 0 js < a + 32" "delivered_after 0 js \<le> n" "a < n"
    and "\<forall>i. length (p i) \<le> 65535"
  shows "processed (fst (rwcp_run (syn_segment s # map (data_segment s p) (js @ [Suc a ..< Suc n])) g))
     = map p [1 ..< Suc n]"
proof -
  let ?js = "js @ [Suc a ..< Suc n]"
  have tail: "in_window (delivered_after 0 js) [Suc a ..< Suc n]"
    "delivered_after (delivered_after 0 js) [Suc a ..< Suc n] = n"
    using resend [OF assms(4-6)] by simp_all
  then have inw: "in_window 0 ?js" using assms(3) by (simp add: in_window_append del: upt_Suc)
  have ne: "?js \<noteq> []" using assms(7) by simp
  have "fst (rwcp_run (syn_segment s # map (data_segment s p) ?js) g)
      = Notification (header RWCP_SERVER_CMD_SYN_ACK s) # map (encode s p) (fst (gbn_run (0, False) ?js))"
    by (simp only: session_run [OF assms(1,2) inw ne] fst_conv)
  then show ?thesis
    using tail(2) gbn_in_order [of 0 False ?js]
    by (simp add: processed_encode [OF assms(8)] delivered_after_append del: upt_Suc)
qed

lemma rwcp_resending_delivers_all_witness:
  "processed (fst (rwcp_run (syn_segment 9 # map (data_segment 9 (\<lambda>i. [of_nat i])) ([1, 4, 2] @ [Suc 1 ..< Suc 4]))
     rwcp_started)) = map (\<lambda>i. [of_nat i]) [1 ..< Suc 4]"
  by (rule rwcp_resending_delivers_all) simp_all

text \<open>
  C29: A client that goes further ahead loses data: a segment 33 to 64 payloads beyond the last one delivered
  is taken for a repetition, acknowledged by its own number, and dropped.
\<close>

theorem rwcp_segment_beyond_window_acknowledged_and_lost:
  assumes "protocol_state g = RWCP_ESTABLISHED" "accept_segments g" "last_sequence_number g = seqno (s + d)"
    and "d + 33 \<le> i" "i \<le> d + 64"
  shows "RwcpServerHandleMessage (Some (data_segment s p i)) (of_nat (length (data_segment s p i))) g
     = (False, [Notification (header RWCP_SERVER_CMD_DATA_ACK (s + i))], g)"
proof -
  have "(s + i) mod 64 \<noteq> Suc (s + d) mod 64"
  proof
    assume "(s + i) mod 64 = Suc (s + d) mod 64"
    then have "int (s + i) mod 64 = int (Suc (s + d)) mod 64" by (metis zmod_int of_nat_numeral)
    then have "64 dvd int i - (1 + int d)" by (simp add: mod_eq_dvd_iff algebra_simps)
    then show False using assms(4,5) by presburger
  qed
  moreover have "\<not> isOutOfSequence (seqno (s + i)) g"
    unfolding out_of_sequence [OF assms(3)] using assms(4,5) by simp presburger
  ultimately show ?thesis
    using assms(1,2)
    by (simp add: RwcpServerHandleMessage_def data_segment_def handle_established_def handleDataSegment_def
        isNextSequence_def next_expected [OF assms(3)] seqno_eq_iff
        rwcpDataAck_def isRWwcpControlCmd_def)
qed

lemma rwcp_segment_beyond_window_acknowledged_and_lost_witness:
  "RwcpServerHandleMessage (Some (data_segment 0 (\<lambda>_. [7]) 40)) 2
     (rwcp_started\<lparr>protocol_state := RWCP_ESTABLISHED\<rparr>)
   = (False, [Notification 40], rwcp_started\<lparr>protocol_state := RWCP_ESTABLISHED\<rparr>)"
proof -
  have "last_sequence_number (rwcp_started\<lparr>protocol_state := RWCP_ESTABLISHED\<rparr>) = seqno (0 + 0)"
    by (simp add: rwcp_started_def RwcpServerInit_def seqno_def)
  from rwcp_segment_beyond_window_acknowledged_and_lost [OF _ _ this, of 40 "\<lambda>_. [7]"]
  show ?thesis by (simp add: data_segment_def header_def seqno_def server_cmds)
qed

section \<open>The packet stream over RFCOMM\<close>

text \<open>
  C30: The packets built for any list of messages, sent back to back and arriving in pieces of any size,
  while the application finishes commands at any time, are given to the application as the commands they
  were built from, in order and once each, without a panic and without a loop that does not end; when
  the application has finished everything, all of them have been given to it.
\<close>

theorem gaia_packets_arrive_in_order:
  assumes "list_all2 (\<lambda>m b. build version m = Some b) ms bs" "\<forall>m\<in>set ms. length (msg_payload m) \<le> 65525"
    and "idle t" "arrivals es = concat bs" "fits es t"
  shows "\<exists>t' n. rfcomm_run es t = Inr t' \<and> n \<le> length ms
     \<and> map cmd_view (commands t') = map msg_view (take n ms)
     \<and> (rx_packets_pending t' = 0 \<longrightarrow> n = length ms)"
proof -
  let ?ps = "map (msg_packet version) ms"
  note built = built_stream [OF assms(1,2)]
  have "\<exists>t' ds' ms' ps' k'. rfcomm_run es t = Inr t' \<and> stream_inv ds' ms' ps' k' t'
    \<and> ds' @ ms' @ ps' = [] @ [] @ ?ps
    \<and> length (stream ds') + k' = length (stream []) + 0 + length (arrivals es)"
    using built(2) idle_inv [OF assms(3) built(2)] assms(4,5) built(1)
    by (intro rfcomm_run_inv [where z = "[]"]) simp_all
  then obtain t' ds ns ps k where run: "rfcomm_run es t = Inr t'" "stream_inv ds ns ps k t'"
    "ds @ ns @ ps = ?ps" "length (stream ds) + k = length (stream ?ps)"
    using assms(4) built(1) by auto
  let ?n = "length (ds @ ns)"
  have "ds @ ns = map (msg_packet version) (take ?n ms)"
    using run(3) by (metis append.assoc append_eq_conv_conj take_map)
  moreover have "map pkt_view (map (msg_packet version) (take ?n ms)) = map msg_view (take ?n ms)"
    by (simp add: pkt_view_msg_packet)
  ultimately have "map pkt_view (ds @ ns) = map msg_view (take ?n ms)" by metis
  then have cmds: "map cmd_view (commands t') = map msg_view (take ?n ms)"
    using run(2) by (simp add: stream_inv_def)
  have n: "?n \<le> length ms" using arg_cong [OF run(3), of length] by simp
  have "?n = length ms" if "rx_packets_pending t' = 0"
  proof -
    have ns: "ns = []" "starved ps k" using that run(2) by (auto simp: stream_inv_def)
    moreover have "k = length (stream ps)"
      using run(4) arg_cong [OF run(3), of stream] ns(1) by (simp flip: run(3) add: stream_append)
    ultimately have "ps = []" by (cases ps) (auto simp: starved_def)
    then show ?thesis using arg_cong [OF run(3), of length] by simp
  qed
  then show ?thesis using run(1) n cmds by blast
qed

definition gaia_connected :: gaia_transport_rfcomm where
  "gaia_connected = \<lparr>allocated = True, gaia_type = gaia_transport_spp,
     gaia_state = GAIA_TRANSPORT_CONNECTED, channel = 1, trans_sink = 7, service_handle = 0,
     max_tx_size = 48, protocol_version = 4, rx_packets_pending = 0, rx_data_pending = 0, rx_buffer = [],
     sent_octets = [], commands = [], requests = [], reports = []\<rparr>"

lemma gaia_packets_arrive_in_order_witness:
  "\<exists>t' n. rfcomm_run [Arrives [0xFF, 3, 0, 2, 0, 29, 7, 1, 5, 6, 0xFF, 3, 0, 1, 0, 29, 7, 2, 0,
       0xFF, 3, 0, 0, 0, 29, 7, 3], Handled, Handled, Handled] gaia_connected = Inr t' \<and> n \<le> 3
     \<and> map cmd_view (commands t') = map msg_view (take n
         [(29, 0x701, GAIA_STATUS_NONE, [5, 6]), (29, 0x702, 0, []), (29, 0x703, GAIA_STATUS_NONE, [])])
     \<and> (rx_packets_pending t' = 0 \<longrightarrow> n = 3)"
proof -
  let ?ms = "[(29, 0x701, GAIA_STATUS_NONE, [5, 6]), (29, 0x702, 0, []), (29, 0x703, GAIA_STATUS_NONE, [])]
    :: gaia_message list"
  let ?bs = "[[0xFF, 3, 0, 2, 0, 29, 7, 1, 5, 6], [0xFF, 3, 0, 1, 0, 29, 7, 2, 0],
    [0xFF, 3, 0, 0, 0, 29, 7, 3]] :: u8 list list"
  let ?es = "[Arrives [0xFF, 3, 0, 2, 0, 29, 7, 1, 5, 6, 0xFF, 3, 0, 1, 0, 29, 7, 2, 0,
       0xFF, 3, 0, 0, 0, 29, 7, 3], Handled, Handled, Handled]"
  have "list_all2 (\<lambda>m b. build 3 m = Some b) ?ms ?bs" by code_simp
  moreover have "\<forall>m\<in>set ?ms. length (msg_payload m) \<le> 65525" by simp
  moreover have "idle gaia_connected" by (simp add: idle_def gaia_connected_def)
  moreover have "arrivals ?es = concat ?bs" by simp
  moreover have "fits ?es gaia_connected"
    by (simp add: gaia_connected_def split: sum.split)
  ultimately show ?thesis
    using gaia_packets_arrive_in_order [of 3 ?ms ?bs gaia_connected ?es] by (simp add: numeral_3_eq_3)
qed

text \<open>
  C31: A packet whose two-octet length is 65527 makes the receiver's total wrap around to zero. Whatever its
  other octets are, the transport takes it twice as a command with 65527 octets of payload, though at
  most 65535 octets are there, frees nothing when the two commands are finished, and takes the same
  octets again: after any number of finished commands the buffer is the same and the link is stuck.
\<close>

theorem gaia_wrapping_length_never_consumed:
  assumes "rx_buffer t = GAIA_SOF # version # 0x02 # 0xFF # 0xF7 # rest" "4 \<le> length rest" "length rest \<le> 65530"
    and "rx_packets_pending t = 0" "rx_data_pending t = 0" "commands t = []"
  shows "\<exists>t'. rfcomm_run (Arrives [] # replicate (2 * n) Handled) t = Inr t'
     \<and> rx_buffer t' = rx_buffer t
     \<and> map cmd_size_payload (commands t') = replicate (2 * n + 2) 65527"
proof -
  let ?d = "rx_buffer t"
  have W: "W16 (drop 3 ?d) = 65527" by (simp add: assms(1) W16_def)
  have d: "wrapping ?d"
    using assms(1-3) W by (simp add: wrapping_def)
  obtain t1 where first: "rfcomm_more_data [] t = Inr t1" "rx_buffer t1 = ?d" "rx_packets_pending t1 = 2"
    "rx_data_pending t1 = 0" "map cmd_size_payload (commands t1) = [65527, 65527]"
    using wrapping_receive [OF d assms(4,5)] assms(5,6) by (auto simp: rfcomm_more_data_def)
  have "\<exists>t'. rfcomm_run (replicate (2 * n) Handled) t1 = Inr t' \<and> rx_buffer t' = ?d
      \<and> rx_packets_pending t' = 2 \<and> rx_data_pending t' = 0
      \<and> map cmd_size_payload (commands t') = replicate (2 * n + 2) 65527"
  proof (induction n)
    case 0
    then show ?case using first by (simp add: numeral_2_eq_2)
  next
    case (Suc n)
    then obtain u where u: "rfcomm_run (replicate (2 * n) Handled) t1 = Inr u" "rx_buffer u = ?d"
      "rx_packets_pending u = 2" "rx_data_pending u = 0"
      "map cmd_size_payload (commands u) = replicate (2 * n + 2) 65527" by blast
    obtain cs where "rfcomm_run [Handled, Handled] u = Inr (u\<lparr>commands := commands u @ cs\<rparr>)"
      "map cmd_size_payload cs = [65527, 65527]"
      using wrapping_handled [of u] d u(2-4) by auto
    moreover have "replicate (2 * Suc n) Handled = replicate (2 * n) Handled @ [Handled, Handled]"
      by (simp add: replicate_append_same [symmetric])
    moreover have "replicate (2 * n + 2) 65527 @ [65527, 65527] = replicate (2 * Suc n + 2) (65527 :: u16)"
      by (simp add: replicate_append_same [symmetric])
    ultimately show ?case using u by (simp only: rfcomm_run_append) auto
  qed
  then show ?thesis using first(1) by auto
qed

lemma gaia_wrapping_length_never_consumed_witness:
  "\<exists>t'. rfcomm_run (Arrives [] # replicate (2 * 5) Handled)
       (gaia_connected\<lparr>rx_buffer := [0xFF, 4, 0x02, 0xFF, 0xF7, 0, 29, 7, 1]\<rparr>) = Inr t'
     \<and> rx_buffer t' = [0xFF, 4, 0x02, 0xFF, 0xF7, 0, 29, 7, 1]
     \<and> map cmd_size_payload (commands t') = replicate (2 * 5 + 2) 65527"
proof -
  let ?t = "gaia_connected\<lparr>rx_buffer := [0xFF, 4, 0x02, 0xFF, 0xF7, 0, 29, 7, 1]\<rparr>"
  have "rx_buffer ?t = GAIA_SOF # 4 # 0x02 # 0xFF # 0xF7 # [0, 29, 7, 1]" by (simp add: GAIA_SOF_def)
  from gaia_wrapping_length_never_consumed [OF this, of 5] show ?thesis
    by (simp add: gaia_connected_def)
qed

section \<open>The service over RFCOMM\<close>

text \<open>
  A service that has started is never stopped: whatever the application, the transport manager and the
  connection library do, as long as the registration is not reported to have failed, the instance stays
  allocated and no confirmation of a stop is ever sent, though the application asked for it.
\<close>

theorem gaia_service_never_stops:
  assumes "gaia_run es t = Inr t'" "allocated t" "gaia_state t = GAIA_TRANSPORT_STARTED"
    and "\<forall>l. Deliver_Message (TRANSPORT_MGR_REGISTER_CFM False l) \<notin> set es"
  shows "allocated t' \<and> stop_confirmations t' = stop_confirmations t"
proof -
  have "running t' \<and> stop_confirmations t' = stop_confirmations t"
  proof (rule gaia_run_invariant [OF assms(1)])
    show "running t \<and> stop_confirmations t = stop_confirmations t"
      using assms(2,3) by (simp add: running_def)
  qed (use assms(4) running_step in metis)
  then show ?thesis by (simp add: running_def)
qed

definition gaia_started :: gaia_transport_rfcomm where
  "gaia_started = gaia_connected\<lparr>gaia_state := GAIA_TRANSPORT_STARTED, service_handle := 3\<rparr>"

lemma gaia_service_never_stops_witness:
  "\<exists>t'. gaia_run [Stop, Deliver_Message TRANSPORT_MGR_DEREGISTER_CFM,
       Deliver_Message (CL_SDP_UNREGISTER_CFM True), Disconnect_Req] gaia_started = Inr t'
     \<and> requests t' = [TransportMgrDeRegisterTransport 1, ConnectionUnregisterServiceRecord 3]
     \<and> allocated t' \<and> stop_confirmations t' = []"
proof -
  let ?es = "[Stop, Deliver_Message TRANSPORT_MGR_DEREGISTER_CFM,
       Deliver_Message (CL_SDP_UNREGISTER_CFM True), Disconnect_Req]"
  obtain t' where t': "gaia_run ?es gaia_started = Inr t'"
    "requests t' = [TransportMgrDeRegisterTransport 1, ConnectionUnregisterServiceRecord 3]"
    by (simp add: gaia_started_def gaia_connected_def Gaia_TransportStopService_def
        gaiaTransport_RfcommStopService_def stack_requested_def gaiaTransport_RfcommHandleMessage_def
        gaiaTransport_RfcommHandleTransportMgrDeregisterCfm_def
        gaiaTransport_RfcommHandleClSdpUnregisterCfm_def Gaia_TransportDisconnectReq_def gaia_report_to_app_def)
  moreover have "allocated t' \<and> stop_confirmations t' = stop_confirmations gaia_started"
    by (rule gaia_service_never_stops [OF t'(1)]) (simp_all add: gaia_started_def gaia_connected_def)
  ultimately show ?thesis by (simp add: gaia_started_def gaia_connected_def stop_confirmations_def)
qed

text \<open>
  C32: The count of octets to free is kept when the link goes: if a link is lost while the application still
  handles a packet, the first packet of the next link of the same length is thrown away unread when the
  application is done, and never becomes a command.
\<close>

theorem gaia_packet_lost_across_links:
  assumes "allocated t" "gaia_state t = GAIA_TRANSPORT_CONNECTED"
    and "rx_packets_pending t = 0" "rx_data_pending t = 0" "rx_buffer t = []"
    and "well_sized p" "length (wire q) = length (wire p)"
  shows "\<exists>t'. gaia_run [Octets (wire p), Deliver_Message TRANSPORT_MGR_MORE_DATA,
         Deliver_Message (TRANSPORT_MGR_LINK_DISCONNECTED_CFM True), New_Source [],
         Deliver_Message (TRANSPORT_MGR_LINK_CREATED_CFM True sink),
         Octets (wire q), Deliver_Message TRANSPORT_MGR_MORE_DATA, Packet_Handled] t = Inr t'
       \<and> commands t' = commands t @ [the_command p []] \<and> rx_buffer t' = []
       \<and> rx_packets_pending t' = 0 \<and> gaia_state t' = GAIA_TRANSPORT_CONNECTED"
proof -
  have pend: "unat (of_nat (length (wire p)) :: u16) = length (wire p)"
    by (rule unat_len [OF well_sized_length [OF assms(6)]])
  then have nz: "(of_nat (length (wire p)) :: u16) \<noteq> 0" by (auto simp: length_wire)
  show ?thesis
    using assms nz pend
    by (simp add: gaiaTransport_RfcommHandleMessage_def receive_one queued_def receive_pending
        gaiaTransport_RfcommHandleTransportMgrLinkDisconnectedCfm_def stack_requested_def
        gaiaTransport_RfcommSdpRegister_def Gaia_TransportDisconnectInd_def gaia_report_to_app_def
        gaiaTransport_RfcommHandleTransportMgrLinkCreatedCfm_def Gaia_TransportConnectInd_def
        handled_last Let_def)
qed

lemma gaia_packet_lost_across_links_witness:
  "\<exists>t'. gaia_run [Octets (wire \<lparr>pkt_version = 3, pkt_vendor = 29, pkt_command = 0x300, pkt_body = [1, 2]\<rparr>),
         Deliver_Message TRANSPORT_MGR_MORE_DATA,
         Deliver_Message (TRANSPORT_MGR_LINK_DISCONNECTED_CFM True), New_Source [],
         Deliver_Message (TRANSPORT_MGR_LINK_CREATED_CFM True 9),
         Octets (wire \<lparr>pkt_version = 3, pkt_vendor = 29, pkt_command = 0x301, pkt_body = [3, 4]\<rparr>),
         Deliver_Message TRANSPORT_MGR_MORE_DATA, Packet_Handled] gaia_connected = Inr t'
       \<and> map cmd_command_id (commands t') = [0x300] \<and> rx_buffer t' = []"
proof -
  let ?p = "\<lparr>pkt_version = 3, pkt_vendor = 29, pkt_command = 0x300, pkt_body = [1, 2]\<rparr> :: gaia_packet"
  let ?q = "\<lparr>pkt_version = 3, pkt_vendor = 29, pkt_command = 0x301, pkt_body = [3, 4]\<rparr> :: gaia_packet"
  have "well_sized ?p" "length (wire ?q) = length (wire ?p)"
    by (simp_all add: well_sized_def length_wire wide_def)
  from gaia_packet_lost_across_links [OF _ _ _ _ _ this, of gaia_connected 9]
  show ?thesis by (auto simp: gaia_connected_def the_command_def)
qed

text \<open>
  C33: Whatever happens to a service after the system has started, while it exists its protocol version is 3 or
  4 and its packets are limited to 48 octets, and this is what it tells its users, whatever values they have
  tried to set.
\<close>

theorem gaia_parameters_in_range:
  assumes "\<not> allocated t" "gaia_run es t = Inr t'" "allocated t'"
  shows "protocol_version t' \<in> {3, 4} \<and> max_tx_size t' \<le> 48
    \<and> (\<exists>v. gaiaTransport_RfcommGetInfo GAIA_TRANSPORT_MAX_TX_PAYLOAD w t' = (True, v) \<and> v \<le> 48)
    \<and> (\<exists>v. gaiaTransport_RfcommGetInfo GAIA_TRANSPORT_PROTOCOL_VERSION w t' = (True, v) \<and> v \<in> {3, 4})"
proof -
  have "params t'"
  proof (rule gaia_run_invariant [OF assms(2)])
    show "params t" using assms(1) by (simp add: params_def)
  qed (rule params_step)
  moreover obtain v where "gaiaTransport_RfcommGetInfo GAIA_TRANSPORT_MAX_TX_PAYLOAD w t' = (True, v)"
    by (simp add: gaiaTransport_RfcommGetInfo_def)
  moreover obtain u where "gaiaTransport_RfcommGetInfo GAIA_TRANSPORT_PROTOCOL_VERSION w t' = (True, u)"
    by (simp add: gaiaTransport_RfcommGetInfo_def)
  ultimately show ?thesis using get_info_range [of t'] assms(3) unfolding params_def by blast
qed

lemma gaia_parameters_in_range_witness:
  "\<exists>t'. gaia_run [Start True, Set_Parameter GAIA_TRANSPORT_PROTOCOL_VERSION 9,
      Set_Parameter GAIA_TRANSPORT_MAX_TX_PAYLOAD 4096] (gaia_connected\<lparr>allocated := False\<rparr>) = Inr t'
    \<and> protocol_version t' \<in> {3, 4} \<and> max_tx_size t' \<le> 48"
proof -
  let ?t = "gaia_connected\<lparr>allocated := False\<rparr>"
  let ?es = "[Start True, Set_Parameter GAIA_TRANSPORT_PROTOCOL_VERSION 9,
      Set_Parameter GAIA_TRANSPORT_MAX_TX_PAYLOAD 4096]"
  obtain t' where "gaia_run ?es ?t = Inr t'" "allocated t'"
    by (simp add: gaia_connected_def Gaia_TransportStartService_def gaiaTransport_RfcommStartService_def
        stack_requested_def gaiaTransport_RfcommSetParameter_def Let_def)
  moreover from gaia_parameters_in_range [OF _ this] have "protocol_version t' \<in> {3, 4} \<and> max_tx_size t' \<le> 48"
    by simp
  ultimately show ?thesis by blast
qed

end
