(* ===== verification/Upgrade_Store.thy ===== *)
theory Upgrade_Store
  imports Prelude
begin

text \<open>
  The firmware update library (\<^verbatim>\<open>adk/src/libs/upgrade\<close>, with \<^verbatim>\<open>CONFIG_HYDRACORE\<close>): its state, what it asks of
  the chip, and what it keeps in the persistent store (\<^verbatim>\<open>upgrade_psstore.c\<close> and the first part of
  \<^verbatim>\<open>upgrade_partition_data_config.c\<close>).

  The persistent store, the flash sections and the heap belong to the operating system, whose trap functions
  are not in the repository. A call that changes something is recorded in the \<open>history\<close>; what a trap answers
  is a field of \<open>traps\<close>, a function of the history before the call. A memory block is the list
  of its octets; a key of the store holds two octets for each of its words.
\<close>

section \<open>Calls that change the chip\<close>

datatype trap =
    PsStore u16 "u8 list"
  | ImageUpgradeStreamGetSink u16 u32
  | ImageUpgradeErase
  | SinkClaim u16 u16
  | SinkFlushBlocking u16 "u8 list"
  | SinkClose u16

section \<open>Codes and constants\<close>

datatype UpgradeHostErrorCode =
    UPGRADE_HOST_SUCCESS
  | UPGRADE_HOST_OEM_VALIDATION_SUCCESS
  | UPGRADE_HOST_DATA_TRANSFER_COMPLETE
  | UPGRADE_HOST_HASHING_IN_PROGRESS
  | UPGRADE_HOST_ERROR_UNKNOWN_ID
  | UPGRADE_HOST_ERROR_WRONG_VARIANT
  | UPGRADE_HOST_ERROR_WRONG_PARTITION_NUMBER
  | UPGRADE_HOST_ERROR_PARTITION_SIZE_MISMATCH
  | UPGRADE_HOST_ERROR_PARTITION_OPEN_FAILED
  | UPGRADE_HOST_ERROR_BATTERY_LOW
  | UPGRADE_HOST_ERROR_NO_MEMORY
  | UPGRADE_HOST_ERROR_SQIF_ERASE
  | UPGRADE_HOST_ERROR_BAD_LENGTH_PARTITION_PARSE
  | UPGRADE_HOST_ERROR_BAD_LENGTH_TOO_SHORT
  | UPGRADE_HOST_ERROR_BAD_LENGTH_UPGRADE_HEADER
  | UPGRADE_HOST_ERROR_BAD_LENGTH_PARTITION_HEADER
  | UPGRADE_HOST_ERROR_BAD_LENGTH_SIGNATURE
  | UPGRADE_HOST_ERROR_BAD_LENGTH_DATAHDR_RESUME
  | UPGRADE_HOST_ERROR_OEM_VALIDATION_FAILED_PARTITION_HEADER1
  | UPGRADE_HOST_ERROR_OEM_VALIDATION_FAILED_FOOTER
  | UPGRADE_HOST_ERROR_OEM_VALIDATION_FAILED_MEMORY
  | UPGRADE_HOST_ERROR_PARTITION_CLOSE_FAILED
  | UPGRADE_HOST_ERROR_PARTITION_CLOSE_FAILED_PS_SPACE
  | UPGRADE_HOST_ERROR_PARTITION_TYPE_NOT_MATCHING
  | UPGRADE_HOST_ERROR_PARTITION_WRITE_FAILED_DATA
  | UPGRADE_HOST_ERROR_FILE_TOO_SMALL
  | UPGRADE_HOST_ERROR_FILE_TOO_BIG
  | UPGRADE_HOST_ERROR_INTERNAL_ERROR_1
  | UPGRADE_HOST_ERROR_INTERNAL_ERROR_3
  | UPGRADE_HOST_WARN_APP_CONFIG_VERSION_INCOMPATIBLE

text \<open>The value of a code in the enumeration.\<close>

fun host_error_value :: "UpgradeHostErrorCode \<Rightarrow> u16" where
  "host_error_value UPGRADE_HOST_SUCCESS = 0"
| "host_error_value UPGRADE_HOST_OEM_VALIDATION_SUCCESS = 1"
| "host_error_value UPGRADE_HOST_DATA_TRANSFER_COMPLETE = 2"
| "host_error_value UPGRADE_HOST_HASHING_IN_PROGRESS = 3"
| "host_error_value UPGRADE_HOST_ERROR_UNKNOWN_ID = 0x11"
| "host_error_value UPGRADE_HOST_ERROR_WRONG_VARIANT = 0x13"
| "host_error_value UPGRADE_HOST_ERROR_WRONG_PARTITION_NUMBER = 0x14"
| "host_error_value UPGRADE_HOST_ERROR_PARTITION_SIZE_MISMATCH = 0x15"
| "host_error_value UPGRADE_HOST_ERROR_PARTITION_OPEN_FAILED = 0x17"
| "host_error_value UPGRADE_HOST_ERROR_BATTERY_LOW = 0x21"
| "host_error_value UPGRADE_HOST_ERROR_NO_MEMORY = 0x24"
| "host_error_value UPGRADE_HOST_ERROR_SQIF_ERASE = 0x25"
| "host_error_value UPGRADE_HOST_ERROR_BAD_LENGTH_PARTITION_PARSE = 0x30"
| "host_error_value UPGRADE_HOST_ERROR_BAD_LENGTH_TOO_SHORT = 0x31"
| "host_error_value UPGRADE_HOST_ERROR_BAD_LENGTH_UPGRADE_HEADER = 0x32"
| "host_error_value UPGRADE_HOST_ERROR_BAD_LENGTH_PARTITION_HEADER = 0x33"
| "host_error_value UPGRADE_HOST_ERROR_BAD_LENGTH_SIGNATURE = 0x34"
| "host_error_value UPGRADE_HOST_ERROR_BAD_LENGTH_DATAHDR_RESUME = 0x35"
| "host_error_value UPGRADE_HOST_ERROR_OEM_VALIDATION_FAILED_PARTITION_HEADER1 = 0x3A"
| "host_error_value UPGRADE_HOST_ERROR_OEM_VALIDATION_FAILED_FOOTER = 0x3D"
| "host_error_value UPGRADE_HOST_ERROR_OEM_VALIDATION_FAILED_MEMORY = 0x3E"
| "host_error_value UPGRADE_HOST_ERROR_PARTITION_CLOSE_FAILED = 0x40"
| "host_error_value UPGRADE_HOST_ERROR_PARTITION_CLOSE_FAILED_PS_SPACE = 0x42"
| "host_error_value UPGRADE_HOST_ERROR_PARTITION_TYPE_NOT_MATCHING = 0x48"
| "host_error_value UPGRADE_HOST_ERROR_PARTITION_WRITE_FAILED_DATA = 0x51"
| "host_error_value UPGRADE_HOST_ERROR_FILE_TOO_SMALL = 0x58"
| "host_error_value UPGRADE_HOST_ERROR_FILE_TOO_BIG = 0x59"
| "host_error_value UPGRADE_HOST_ERROR_INTERNAL_ERROR_1 = 0x65"
| "host_error_value UPGRADE_HOST_ERROR_INTERNAL_ERROR_3 = 0x67"
| "host_error_value UPGRADE_HOST_WARN_APP_CONFIG_VERSION_INCOMPATIBLE = 0x80"

definition PSKEY_MAX_STORAGE_LENGTH_IN_BYTES :: nat where "PSKEY_MAX_STORAGE_LENGTH_IN_BYTES = 64"
definition DFU_HEADER_PSKEY_START :: u16 where "DFU_HEADER_PSKEY_START = 510"
definition DFU_HEADER_PSKEY_END :: u16 where "DFU_HEADER_PSKEY_END = 519"
definition UPGRADE_MAX_PARTITION_DATA_BLOCK_SIZE :: nat where "UPGRADE_MAX_PARTITION_DATA_BLOCK_SIZE = 48"
definition UPGRADE_PS_WRITES_FOR_CRITICAL_OPERATIONS :: u16 where
  "UPGRADE_PS_WRITES_FOR_CRITICAL_OPERATIONS = 2"

section \<open>State\<close>

datatype UpgradePartitionsState =
    UPGRADE_PARTITIONS_ERASED
  | UPGRADE_PARTITIONS_UPGRADING
  | UPGRADE_PARTITIONS_ERROR

datatype UpdateResumePoint =
    UPGRADE_RESUME_POINT_START
  | UPGRADE_RESUME_POINT_PRE_VALIDATE
  | UPGRADE_RESUME_POINT_PRE_REBOOT
  | UPGRADE_RESUME_POINT_POST_REBOOT
  | UPGRADE_RESUME_POINT_COMMIT
  | UPGRADE_RESUME_POINT_ERASE
  | UPGRADE_RESUME_POINT_ERROR

record upgrade_version =
  major :: u16
  minor :: u16

text \<open>The structure kept in the store. The members that the parser neither reads nor writes (partition states,
  the identifier and the loader's message) are left out.\<close>

record UPGRADE_LIB_PSKEY =
  version :: upgrade_version
  config_version :: u16
  state_of_partitions :: UpgradePartitionsState
  version_in_progress :: upgrade_version
  config_version_in_progress :: u16
  upgrade_in_progress_key :: UpdateResumePoint
  last_closed_partition :: u16
  dfu_partition_num :: u16

record traps =
  ps_store :: "trap list \<Rightarrow> u16 \<Rightarrow> u8 list \<Rightarrow> u16"
  ps_retrieve :: "trap list \<Rightarrow> u16 \<Rightarrow> u8 list"
  ps_free_count :: "trap list \<Rightarrow> u16 \<Rightarrow> u16"
  image_size :: "trap list \<Rightarrow> u16 \<Rightarrow> u32 option"
  get_sink :: "trap list \<Rightarrow> u16 \<Rightarrow> u32 \<Rightarrow> u16"
  sink_position :: "trap list \<Rightarrow> u16 \<Rightarrow> u32"
  sink_map :: "trap list \<Rightarrow> u16 \<Rightarrow> bool"
  sink_slack :: "trap list \<Rightarrow> u16 \<Rightarrow> u16"
  sink_claim :: "trap list \<Rightarrow> u16 \<Rightarrow> u16 \<Rightarrow> u16"
  sink_flush :: "trap list \<Rightarrow> u16 \<Rightarrow> u8 list \<Rightarrow> bool"
  sink_close :: "trap list \<Rightarrow> u16 \<Rightarrow> bool"
  heap_has :: "trap list \<Rightarrow> nat \<Rightarrow> bool"
  stack_garbage :: "u8 list"
  pskey_image :: "UPGRADE_LIB_PSKEY \<Rightarrow> u8 list"

text \<open>\<open>stack_garbage\<close> is what an uninitialised buffer of 64 octets on the stack holds, \<open>pskey_image\<close> the
  memory image of the structure, whose layout belongs to the compiler.\<close>

datatype UpgradePartitionDataState =
    UPGRADE_PARTITION_DATA_STATE_GENERIC_1ST_PART
  | UPGRADE_PARTITION_DATA_STATE_HEADER
  | UPGRADE_PARTITION_DATA_STATE_DATA_HEADER
  | UPGRADE_PARTITION_DATA_STATE_DATA
  | UPGRADE_PARTITION_DATA_STATE_FOOTER

text \<open>
  \<open>UpgradePartitionDataCtx\<close>; the size of \<open>incompleteData\<close> is the length of the list. With it the
  parts of the context of the library that the parser uses, the two static variables, and the history of traps.
\<close>

record upgrade =
  time_start :: u32
  newReqSize :: u32
  totalReqSize :: u32
  totalReceivedSize :: u32
  offset :: u32
  incompleteData :: "u8 list"
  data_state :: UpgradePartitionDataState
  partitionHdl :: u16
  partitionLength :: u32
  signature :: "u8 list option"
  signatureReceived :: u16
  openNextPartition :: bool
  dfuHeaderPskey :: u16
  dfuHeaderPskeyOffset :: u16
  partitionNum :: u16
  partitionMap :: u32
  SigningMode :: u8
  UpgradePSKeys :: UPGRADE_LIB_PSKEY
  dev_variant :: "u8 list"
  peer_supported :: bool
  upgrade_library_pskey :: u16
  upgrade_library_pskeyoffset :: u16
  force_erase :: bool
  history :: "trap list"

text \<open>What C leaves undefined, and a loop that never ends.\<close>

datatype upgrade_fault = Over_read | Over_write | Division_by_zero | Endless_loop

type_synonym 'a upgrade_result = "upgrade_fault + 'a"

section \<open>The persistent store\<close>

text \<open>The cache is cleared, filled from the key, and the structure copied to its place.\<close>

definition UpgradeSavePSKeys :: "traps \<Rightarrow> upgrade \<Rightarrow> upgrade upgrade_result" where
  "UpgradeSavePSKeys T u =
     (let at = 2 * unat (upgrade_library_pskeyoffset u);
          struct = pskey_image T (UpgradePSKeys u);
          min_key_length = at + length struct;
          held = ps_retrieve T (history u) (upgrade_library_pskey u);
          actualLength = (if held = [] then min_key_length else length held);
          actualLength = (if actualLength < min_key_length then min_key_length else actualLength)
      in if PSKEY_MAX_STORAGE_LENGTH_IN_BYTES < actualLength then Inl Over_write
         else
           let cache = held @ replicate (PSKEY_MAX_STORAGE_LENGTH_IN_BYTES - length held) 0;
               cache = take at cache @ struct @ drop (at + length struct) cache
           in Inr (u\<lparr>history := history u @ [PsStore (upgrade_library_pskey u) (take actualLength cache)]\<rparr>))"

definition UpgradePSSpaceForCriticalOperations :: "traps \<Rightarrow> upgrade \<Rightarrow> bool" where
  "UpgradePSSpaceForCriticalOperations T u \<longleftrightarrow>
     ps_free_count T (history u)
       (upgrade_library_pskeyoffset u + of_nat (length (pskey_image T (UpgradePSKeys u)) div 2))
       \<ge> UPGRADE_PS_WRITES_FOR_CRITICAL_OPERATIONS"

definition UpgradeClearHeaderPSKeys :: "upgrade \<Rightarrow> upgrade" where
  "UpgradeClearHeaderPSKeys u =
     u\<lparr>history := history u @
        map (\<lambda>k. PsStore (of_nat k) []) [unat DFU_HEADER_PSKEY_START ..< Suc (unat DFU_HEADER_PSKEY_END)]\<rparr>"

text \<open>
  One turn of the loop of \<open>UpgradeSaveHeaderInPSKeys\<close>: it returns (\<open>Inl\<close>), or goes on with the rest of the data. An
  offset beyond the key cannot be reached; there the \<open>memcpy\<close> would write outside the cache.
\<close>

definition data_write_size :: "nat \<Rightarrow> u8 list \<Rightarrow> nat" where
  "data_write_size at data =
     (if at + length data > PSKEY_MAX_STORAGE_LENGTH_IN_BYTES
      then PSKEY_MAX_STORAGE_LENGTH_IN_BYTES - at else length data)"

text \<open>The octets written to the key: what it held up to the offset, the new data, and for an odd count one octet of
  what was in the cache behind it.\<close>

definition keyCache :: "traps \<Rightarrow> u8 list \<Rightarrow> nat \<Rightarrow> u8 list \<Rightarrow> u8 list" where
  "keyCache T held at data =
     (let cache = held @ drop (length held) (stack_garbage T);
          n = data_write_size at data
      in take (2 * ((at + n + 1) div 2)) (take at cache @ take n data @ drop (at + n) cache))"

definition save_header_turn ::
    "traps \<Rightarrow> u8 list \<Rightarrow> upgrade
     \<Rightarrow> ((UpgradeHostErrorCode \<times> upgrade) + (u8 list \<times> upgrade)) upgrade_result" where
  "save_header_turn T data u =
     (let key = dfuHeaderPskey u;
          at = unat (dfuHeaderPskeyOffset u);
          held = ps_retrieve T (history u) key;
          n = data_write_size at data;
          stored = keyCache T held at data;
          words = ps_store T (history u) key stored;
          u = u\<lparr>history := history u @ [PsStore key stored]\<rparr>
      in if PSKEY_MAX_STORAGE_LENGTH_IN_BYTES < at \<or> PSKEY_MAX_STORAGE_LENGTH_IN_BYTES < length held
         then Inl Over_write
         else if of_nat ((at + n + 1) div 2) \<noteq> words then
           Inr (Inl (UPGRADE_HOST_ERROR_PARTITION_WRITE_FAILED_DATA, u))
         else if at + n = PSKEY_MAX_STORAGE_LENGTH_IN_BYTES then
           let u = u\<lparr>dfuHeaderPskey := key + 1, dfuHeaderPskeyOffset := 0\<rparr>
           in if dfuHeaderPskey u > DFU_HEADER_PSKEY_END then Inr (Inl (UPGRADE_HOST_ERROR_NO_MEMORY, u))
              else if drop n data \<noteq> [] then Inr (Inr (drop n data, u))
              else Inr (Inl (UPGRADE_HOST_SUCCESS, u))
         else
           let u = u\<lparr>dfuHeaderPskeyOffset := of_nat (at + n)\<rparr>
           in if drop n data \<noteq> [] then Inr (Inr (drop n data, u))
              else Inr (Inl (UPGRADE_HOST_SUCCESS, u)))"

lemma save_header_turn_decreases:
  assumes "save_header_turn T data u = Inr (Inr (data', u'))"
  shows "length data' < length data
    \<or> length data' = length data \<and> unat (dfuHeaderPskeyOffset u) = 64 \<and> dfuHeaderPskeyOffset u' = 0"
proof -
  let ?at = "unat (dfuHeaderPskeyOffset u)"
  let ?n = "data_write_size ?at data"
  have "?at \<le> 64" "data' = drop ?n data" "?at + ?n = 64 \<longrightarrow> dfuHeaderPskeyOffset u' = 0" "data' \<noteq> []"
    using assms by (auto simp: save_header_turn_def Let_def PSKEY_MAX_STORAGE_LENGTH_IN_BYTES_def
        simp del: length_drop split: if_splits)
  then show ?thesis
    by (cases "?at = 64") (auto simp: data_write_size_def PSKEY_MAX_STORAGE_LENGTH_IN_BYTES_def split: if_splits)
qed

function UpgradeSaveHeaderInPSKeys ::
    "traps \<Rightarrow> u8 list \<Rightarrow> upgrade \<Rightarrow> (UpgradeHostErrorCode \<times> upgrade) upgrade_result" where
  "UpgradeSaveHeaderInPSKeys T data u =
     (case save_header_turn T data u of
        Inl f \<Rightarrow> Inl f
      | Inr (Inl r) \<Rightarrow> Inr r
      | Inr (Inr (data, u)) \<Rightarrow> UpgradeSaveHeaderInPSKeys T data u)"
  by pat_completeness auto
termination
  by (relation "measures [\<lambda>(T, data, u). length data,
        \<lambda>(T, data, u). if dfuHeaderPskeyOffset u = 0 then 0 else 1]")
    (auto dest!: save_header_turn_decreases)

declare UpgradeSaveHeaderInPSKeys.simps [simp del]

end
