(* ===== verification/Upgrade_Parse.thy ===== *)
theory Upgrade_Parse
  imports Upgrade_Store "HOL-Library.Signed_Division"
begin

text \<open>
  The parser of upgrade files: \<^verbatim>\<open>upgrade_partition_data.c\<close>, \<^verbatim>\<open>CONFIG_HYDRACORE/upgrade_partition_data_config.c\<close>
  and what it uses of \<^verbatim>\<open>upgrade_fw_if.c\<close> and \<^verbatim>\<open>byte_utils.c\<close>.

  A file is a header, the partitions, each behind a header of its own, and a footer with the signature. The
  parser asks the host for blocks of the file, which come in packets of any size. A function from the
  state gives a code and the new state, or a fault. A pointer with a length is the list of the
  octets in reach; reading behind it is \<open>Over_read\<close>. \<open>now\<close> is what
  \<open>SystemClockGetTimerTime\<close> returns while the packet is handled.
\<close>

type_synonym upgrade_parse = "(UpgradeHostErrorCode \<times> upgrade) upgrade_result"

text \<open>Going on after a call unless it returned another code than success.\<close>

definition and_then :: "upgrade_parse \<Rightarrow> (upgrade \<Rightarrow> upgrade_parse) \<Rightarrow> upgrade_parse" where
  "and_then r f =
     (case r of Inl e \<Rightarrow> Inl e
      | Inr (rc, u) \<Rightarrow> if rc = UPGRADE_HOST_SUCCESS then f u else Inr (rc, u))"

section \<open>Octets\<close>

definition ByteUtilsGet2BytesFromStream :: "u8 list \<Rightarrow> u16" where
  "ByteUtilsGet2BytesFromStream src = ucast (src ! 1) OR push_bit 8 (ucast (src ! 0))"

definition ByteUtilsGet4BytesFromStream :: "u8 list \<Rightarrow> u32" where
  "ByteUtilsGet4BytesFromStream src =
     ucast (src ! 3) OR push_bit 8 (ucast (src ! 2)) OR push_bit 16 (ucast (src ! 1))
       OR push_bit 24 (ucast (src ! 0))"

text \<open>\<open>strncmp\<close> gives zero: the strings agree up to \<open>n\<close> octets or to the end of both.\<close>

fun strncmp_zero :: "nat \<Rightarrow> u8 list \<Rightarrow> u8 list \<Rightarrow> bool" where
  "strncmp_zero 0 xs ys = True"
| "strncmp_zero (Suc n) (x # xs) (y # ys) = (x = y \<and> (x = 0 \<or> strncmp_zero n xs ys))"
| "strncmp_zero (Suc n) xs ys = False"

definition UpgradeFWIFGetHeaderID :: "u8 list" where
  "UpgradeFWIFGetHeaderID = map of_char ''APPUHDR5''"

definition UpgradeFWIFGetPartitionID :: "u8 list" where
  "UpgradeFWIFGetPartitionID = map of_char ''PARTDATA''"

definition UpgradeFWIFGetFooterID :: "u8 list" where
  "UpgradeFWIFGetFooterID = map of_char ''APPUPFTR''"

definition HEADER_FIRST_PART_SIZE :: nat where "HEADER_FIRST_PART_SIZE = 12"
definition ID_FIELD_SIZE :: nat where "ID_FIELD_SIZE = 8"
definition PARTITION_SECOND_HEADER_SIZE :: nat where "PARTITION_SECOND_HEADER_SIZE = 4"
definition UPGRADE_HEADER_MIN_SECOND_PART_SIZE :: nat where "UPGRADE_HEADER_MIN_SECOND_PART_SIZE = 14"
definition UPGRADE_VERSION_SIZE :: nat where "UPGRADE_VERSION_SIZE = 4"
definition UPGRADE_NO_OF_COMPATIBLE_UPGRADES_SIZE :: nat where "UPGRADE_NO_OF_COMPATIBLE_UPGRADES_SIZE = 2"
definition UPGRADE_NO_OF_COMPATIBLE_PS_VERSION_SIZE :: nat where
  "UPGRADE_NO_OF_COMPATIBLE_PS_VERSION_SIZE = 4"
definition FIRST_WORD_SIZE :: nat where "FIRST_WORD_SIZE = 4"
definition EXPECTED_SIGNATURE_SIZE :: nat where "EXPECTED_SIGNATURE_SIZE = 256"

lemmas upgrade_sizes = HEADER_FIRST_PART_SIZE_def ID_FIELD_SIZE_def PARTITION_SECOND_HEADER_SIZE_def
  UPGRADE_HEADER_MIN_SECOND_PART_SIZE_def UPGRADE_VERSION_SIZE_def UPGRADE_NO_OF_COMPATIBLE_UPGRADES_SIZE_def
  UPGRADE_NO_OF_COMPATIBLE_PS_VERSION_SIZE_def FIRST_WORD_SIZE_def EXPECTED_SIGNATURE_SIZE_def

section \<open>Flash sections\<close>

definition IMAGE_SECTION_NONCE :: u16 where "IMAGE_SECTION_NONCE = 0"
definition IMAGE_SECTION_APPS_P0_HEADER :: u16 where "IMAGE_SECTION_APPS_P0_HEADER = 1"
definition IMAGE_SECTION_APPS_P1_HEADER :: u16 where "IMAGE_SECTION_APPS_P1_HEADER = 2"
definition IMAGE_SECTION_AUDIO_HEADER :: u16 where "IMAGE_SECTION_AUDIO_HEADER = 3"
definition IMAGE_SECTION_CURATOR_FILESYSTEM :: u16 where "IMAGE_SECTION_CURATOR_FILESYSTEM = 4"
definition IMAGE_SECTION_APPS_P0_IMAGE :: u16 where "IMAGE_SECTION_APPS_P0_IMAGE = 5"
definition IMAGE_SECTION_APPS_RO_CONFIG_FILESYSTEM :: u16 where "IMAGE_SECTION_APPS_RO_CONFIG_FILESYSTEM = 6"
definition IMAGE_SECTION_APPS_RO_FILESYSTEM :: u16 where "IMAGE_SECTION_APPS_RO_FILESYSTEM = 7"
definition IMAGE_SECTION_APPS_P1_IMAGE :: u16 where "IMAGE_SECTION_APPS_P1_IMAGE = 9"
definition IMAGE_SECTION_APPS_DEVICE_RO_FILESYSTEM :: u16 where "IMAGE_SECTION_APPS_DEVICE_RO_FILESYSTEM = 0xa"
definition IMAGE_SECTION_APPS_RW_CONFIG :: u16 where "IMAGE_SECTION_APPS_RW_CONFIG = 0xb"
definition IMAGE_SECTION_AUDIO_IMAGE :: u16 where "IMAGE_SECTION_AUDIO_IMAGE = 0xc"
definition IMAGE_SECTION_ID_MAX :: u16 where "IMAGE_SECTION_ID_MAX = 0x10"

lemmas image_sections = IMAGE_SECTION_NONCE_def IMAGE_SECTION_APPS_P0_HEADER_def
  IMAGE_SECTION_APPS_P1_HEADER_def IMAGE_SECTION_AUDIO_HEADER_def IMAGE_SECTION_CURATOR_FILESYSTEM_def
  IMAGE_SECTION_APPS_P0_IMAGE_def IMAGE_SECTION_APPS_RO_CONFIG_FILESYSTEM_def
  IMAGE_SECTION_APPS_RO_FILESYSTEM_def IMAGE_SECTION_APPS_P1_IMAGE_def
  IMAGE_SECTION_APPS_DEVICE_RO_FILESYSTEM_def IMAGE_SECTION_APPS_RW_CONFIG_def IMAGE_SECTION_AUDIO_IMAGE_def
  IMAGE_SECTION_ID_MAX_def

definition IsValidPartitionNum :: "u16 \<Rightarrow> bool" where
  "IsValidPartitionNum partNum \<longleftrightarrow>
     partNum \<in> {IMAGE_SECTION_NONCE, IMAGE_SECTION_APPS_P0_HEADER, IMAGE_SECTION_APPS_P1_HEADER,
       IMAGE_SECTION_AUDIO_HEADER, IMAGE_SECTION_CURATOR_FILESYSTEM, IMAGE_SECTION_APPS_P0_IMAGE,
       IMAGE_SECTION_APPS_RO_CONFIG_FILESYSTEM, IMAGE_SECTION_APPS_RO_FILESYSTEM, IMAGE_SECTION_APPS_P1_IMAGE,
       IMAGE_SECTION_APPS_DEVICE_RO_FILESYSTEM, IMAGE_SECTION_AUDIO_IMAGE, IMAGE_SECTION_APPS_RW_CONFIG}"

definition IsValidSqifNum :: "u16 \<Rightarrow> u16 \<Rightarrow> bool" where
  "IsValidSqifNum sqifNum partNum \<longleftrightarrow> sqifNum = 0"

text \<open>The handle is the sink, 0 the null pointer.\<close>

definition PartitionOpen :: "traps \<Rightarrow> u16 \<Rightarrow> u32 \<Rightarrow> upgrade \<Rightarrow> u16 \<times> upgrade" where
  "PartitionOpen T physPartition firstWord u =
     (let sink = get_sink T (history u) physPartition firstWord;
          u = u\<lparr>history := history u @ [ImageUpgradeStreamGetSink physPartition firstWord]\<rparr>
      in if sink = 0 then (0, u) else (sink, u\<lparr>partitionNum := physPartition\<rparr>))"

definition UpgradeFWIFGetPhysPartitionSize :: "traps \<Rightarrow> u16 \<Rightarrow> upgrade \<Rightarrow> u32" where
  "UpgradeFWIFGetPhysPartitionSize T physPartition u =
     (case image_size T (history u) physPartition of Some n \<Rightarrow> 2 * n | None \<Rightarrow> 0)"

definition UpgradeFWIFPartitionGetOffset :: "traps \<Rightarrow> u16 \<Rightarrow> upgrade \<Rightarrow> u32" where
  "UpgradeFWIFPartitionGetOffset T handle u = sink_position T (history u) handle"

definition UpgradeFWIFValidateUpdate :: "u16 \<Rightarrow> upgrade \<Rightarrow> bool \<times> upgrade" where
  "UpgradeFWIFValidateUpdate partNum u =
     (if partNum < IMAGE_SECTION_ID_MAX
      then (True, u\<lparr>partitionMap := partitionMap u OR push_bit (unat partNum) 1\<rparr>) else (False, u))"

text \<open>The \<open>while\<close> loop of \<open>UpgradeFWIFPartitionWrite\<close>: what is left to write. \<open>None\<close> when it never ends.\<close>

partial_function (option) write_loop ::
    "traps \<Rightarrow> u16 \<Rightarrow> u8 list \<Rightarrow> upgrade \<Rightarrow> (u8 list \<times> upgrade) option" where
  "write_loop T sink data u =
     (if data = [] then Some ([], u)
      else if sink_map T (history u) sink then
        (let write_len = min (unat (sink_slack T (history u) sink)) (length data);
             claimed = sink_claim T (history u) sink (of_nat write_len);
             u = u\<lparr>history := history u @ [SinkClaim sink (of_nat write_len)]\<rparr>
         in if claimed \<noteq> 0xFFFF then
              (let flushed = sink_flush T (history u) sink (take write_len data);
                   u = u\<lparr>history := history u @ [SinkFlushBlocking sink (take write_len data)]\<rparr>
               in if flushed then write_loop T sink (drop write_len data) u else Some (data, u))
            else Some (data, u))
      else Some (data, u))"

definition UpgradeFWIFPartitionWrite :: "traps \<Rightarrow> u16 \<Rightarrow> u8 list \<Rightarrow> upgrade \<Rightarrow> (u16 \<times> upgrade) upgrade_result" where
  "UpgradeFWIFPartitionWrite T handle data u =
     (if handle = 0 then Inr (0, u)
      else case write_loop T handle data u of
        None \<Rightarrow> Inl Endless_loop
      | Some (rest, u) \<Rightarrow> Inr (of_nat (length data) - of_nat (length rest), u))"

definition UpgradeFWIFPartitionClose :: "traps \<Rightarrow> u16 \<Rightarrow> upgrade \<Rightarrow> upgrade_parse" where
  "UpgradeFWIFPartitionClose T handle u =
     (if handle = 0 then Inr (UPGRADE_HOST_SUCCESS, u)
      else if \<not> UpgradePSSpaceForCriticalOperations T u then
        Inr (UPGRADE_HOST_ERROR_PARTITION_CLOSE_FAILED_PS_SPACE, u)
      else
        let closed = sink_close T (history u) handle;
            u = u\<lparr>history := history u @ [SinkClose handle]\<rparr>
        in if \<not> closed then Inr (UPGRADE_HOST_ERROR_PARTITION_CLOSE_FAILED, u)
           else
             let u = u\<lparr>UpgradePSKeys := (UpgradePSKeys u)\<lparr>last_closed_partition := partitionNum u + 1\<rparr>\<rparr>
             in case UpgradeSavePSKeys T u of
                  Inl e \<Rightarrow> Inl e | Inr u \<Rightarrow> Inr (UPGRADE_HOST_SUCCESS, u))"

section \<open>Requests\<close>

definition UpgradePartitionDataRequestData :: "u32 \<Rightarrow> u32 \<Rightarrow> upgrade \<Rightarrow> upgrade" where
  "UpgradePartitionDataRequestData len off u =
     u\<lparr>totalReqSize := len, newReqSize := len, totalReceivedSize := 0, offset := off\<rparr>"

definition UpgradePartitionDataGetNextReqSize :: "upgrade \<Rightarrow> u32 \<times> upgrade" where
  "UpgradePartitionDataGetNextReqSize u = (newReqSize u, u\<lparr>newReqSize := 0\<rparr>)"

definition UpgradePartitionDataGetNextOffset :: "upgrade \<Rightarrow> u32" where
  "UpgradePartitionDataGetNextOffset u = offset u"

definition UpgradePartitionDataStopData :: "upgrade \<Rightarrow> upgrade" where
  "UpgradePartitionDataStopData u = u\<lparr>totalReqSize := 0, newReqSize := 0, totalReceivedSize := 0\<rparr>"

section \<open>The headers\<close>

definition save_headers :: "traps \<Rightarrow> u8 list \<Rightarrow> upgrade \<Rightarrow> upgrade_parse" where
  "save_headers T data u =
     (if peer_supported u then UpgradeSaveHeaderInPSKeys T data u else Inr (UPGRADE_HOST_SUCCESS, u))"

text \<open>\<open>incomplete\<close> is \<open>UpgradePartitionDataParseIncomplete\<close>, which the handlers call while a header has not
  arrived completely.\<close>

definition UpgradePartitionDataHandleGeneric1stPartState ::
    "(u8 list \<Rightarrow> upgrade \<Rightarrow> upgrade_parse) \<Rightarrow> traps \<Rightarrow> u8 list \<Rightarrow> bool \<Rightarrow> upgrade \<Rightarrow> upgrade_parse" where
  "UpgradePartitionDataHandleGeneric1stPartState incomplete T data reqComplete u =
     (if \<not> reqComplete then incomplete data u
      else if length data < HEADER_FIRST_PART_SIZE then Inr (UPGRADE_HOST_ERROR_BAD_LENGTH_TOO_SHORT, u)
      else
        let len = ByteUtilsGet4BytesFromStream (drop ID_FIELD_SIZE data)
        in if strncmp_zero ID_FIELD_SIZE data (UpgradeFWIFGetHeaderID @ [0]) then
             if len < of_nat UPGRADE_HEADER_MIN_SECOND_PART_SIZE then
               Inr (UPGRADE_HOST_ERROR_BAD_LENGTH_UPGRADE_HEADER, u)
             else
               let u = (if peer_supported u then
                          UpgradeClearHeaderPSKeys (u\<lparr>dfuHeaderPskey := DFU_HEADER_PSKEY_START,
                            dfuHeaderPskeyOffset := 0\<rparr>)
                        else u)
               in and_then (save_headers T data u) (\<lambda>u.
                    case UpgradeSavePSKeys T
                        (u\<lparr>UpgradePSKeys := (UpgradePSKeys u)\<lparr>dfu_partition_num := 0\<rparr>\<rparr>) of
                      Inl e \<Rightarrow> Inl e
                    | Inr u \<Rightarrow> Inr (UPGRADE_HOST_SUCCESS, (UpgradePartitionDataRequestData len 0 u)
                        \<lparr>data_state := UPGRADE_PARTITION_DATA_STATE_HEADER\<rparr>))
           else if strncmp_zero ID_FIELD_SIZE data (UpgradeFWIFGetPartitionID @ [0]) then
             if len < of_nat (PARTITION_SECOND_HEADER_SIZE + FIRST_WORD_SIZE) then
               Inr (UPGRADE_HOST_ERROR_BAD_LENGTH_PARTITION_HEADER, u)
             else
               and_then (save_headers T data u) (\<lambda>u.
                 Inr (UPGRADE_HOST_SUCCESS,
                   (UpgradePartitionDataRequestData (of_nat (PARTITION_SECOND_HEADER_SIZE + FIRST_WORD_SIZE)) 0 u)
                     \<lparr>data_state := UPGRADE_PARTITION_DATA_STATE_DATA_HEADER,
                      partitionLength := len - of_nat PARTITION_SECOND_HEADER_SIZE\<rparr>))
           else if strncmp_zero ID_FIELD_SIZE data (UpgradeFWIFGetFooterID @ [0]) then
             if len \<noteq> of_nat EXPECTED_SIGNATURE_SIZE then Inr (UPGRADE_HOST_ERROR_BAD_LENGTH_SIGNATURE, u)
             else
               and_then (save_headers T data u) (\<lambda>u.
                 let u = UpgradePartitionDataRequestData len 0 u;
                     u = (if signature u = None \<and> heap_has T (history u) (unat len)
                          then u\<lparr>signature := Some (replicate (unat len) 0)\<rparr> else u)
                 in if signature u = None then Inr (UPGRADE_HOST_ERROR_OEM_VALIDATION_FAILED_MEMORY, u)
                    else Inr (UPGRADE_HOST_SUCCESS, u\<lparr>data_state := UPGRADE_PARTITION_DATA_STATE_FOOTER\<rparr>))
           else Inr (UPGRADE_HOST_ERROR_UNKNOWN_ID, u))"

text \<open>The two loops over the compatible versions, from the pointer on; whether they break.\<close>

fun find_version :: "upgrade_version \<Rightarrow> u8 list \<Rightarrow> nat \<Rightarrow> bool upgrade_result" where
  "find_version current ptr 0 = Inr False"
| "find_version current ptr (Suc n) =
     (if length ptr < 4 then Inl Over_read
      else if ByteUtilsGet2BytesFromStream ptr = major current
          \<and> (ByteUtilsGet2BytesFromStream (drop 2 ptr) = minor current
             \<or> ByteUtilsGet2BytesFromStream (drop 2 ptr) = 0xFFFF) then Inr True
      else find_version current (drop 4 ptr) n)"

fun find_ps_version :: "u16 \<Rightarrow> u8 list \<Rightarrow> nat \<Rightarrow> bool upgrade_result" where
  "find_ps_version current ptr 0 = Inr False"
| "find_ps_version current ptr (Suc n) =
     (if length ptr < 2 then Inl Over_read
      else if ByteUtilsGet2BytesFromStream ptr = current then Inr True
      else find_ps_version current (drop 2 ptr) n)"

text \<open>The checks on the versions: the new configuration version and whether the file may be used.\<close>

definition check_versions :: "upgrade_version \<Rightarrow> u16 \<Rightarrow> u8 list \<Rightarrow> u16 \<Rightarrow> (u16 \<times> bool) upgrade_result" where
  "check_versions current currPSVersion data compatibleVersions =
     (case find_version current (drop (ID_FIELD_SIZE + 6) data) (unat compatibleVersions) of
        Inl e \<Rightarrow> Inl e
      | Inr found \<Rightarrow>
          if \<not> found then Inr (0, False)
          else
            let ptr = drop (ID_FIELD_SIZE + 6 + 4 * unat compatibleVersions) data
            in if length ptr < 2 then Inl Over_read
               else
                 let newPSVersion = ByteUtilsGet2BytesFromStream ptr
                 in if currPSVersion = newPSVersion then Inr (newPSVersion, True)
                    else if length ptr < 4 then Inl Over_read
                    else
                      case find_ps_version currPSVersion (drop 4 ptr)
                          (unat (ByteUtilsGet2BytesFromStream (drop 2 ptr))) of
                        Inl e \<Rightarrow> Inl e | Inr found \<Rightarrow> Inr (newPSVersion, found))"

definition UpgradePartitionDataHandleHeaderState ::
    "(u8 list \<Rightarrow> upgrade \<Rightarrow> upgrade_parse) \<Rightarrow> traps \<Rightarrow> u8 list \<Rightarrow> bool \<Rightarrow> upgrade \<Rightarrow> upgrade_parse" where
  "UpgradePartitionDataHandleHeaderState incomplete T data reqComplete u =
     (if \<not> reqComplete then incomplete data u
      else if length data < ID_FIELD_SIZE + UPGRADE_VERSION_SIZE + UPGRADE_NO_OF_COMPATIBLE_UPGRADES_SIZE then
        Inr (UPGRADE_HOST_ERROR_BAD_LENGTH_UPGRADE_HEADER, u)
      else if dev_variant u \<noteq> [] \<and> \<not> strncmp_zero ID_FIELD_SIZE data (dev_variant u @ [0]) then
        Inr (UPGRADE_HOST_ERROR_WRONG_VARIANT, u)
      else
        let newVersion = \<lparr>major = ByteUtilsGet2BytesFromStream (drop ID_FIELD_SIZE data),
                          minor = ByteUtilsGet2BytesFromStream (drop (ID_FIELD_SIZE + 2) data)\<rparr>;
            compatibleVersions = ByteUtilsGet2BytesFromStream (drop (ID_FIELD_SIZE + 4) data);
            pktSize = (of_nat (ID_FIELD_SIZE + UPGRADE_VERSION_SIZE + UPGRADE_NO_OF_COMPATIBLE_UPGRADES_SIZE
                + 4 * unat compatibleVersions + UPGRADE_NO_OF_COMPATIBLE_PS_VERSION_SIZE
                + 2 * unat compatibleVersions) :: u16)
        in if of_nat (length data) \<noteq> pktSize then Inr (UPGRADE_HOST_ERROR_BAD_LENGTH_UPGRADE_HEADER, u)
           else
             case check_versions (version (UpgradePSKeys u)) (config_version (UpgradePSKeys u)) data
                 compatibleVersions of
               Inl e \<Rightarrow> Inl e
             | Inr (newPSVersion, usable) \<Rightarrow>
                 if \<not> usable then Inr (UPGRADE_HOST_WARN_APP_CONFIG_VERSION_INCOMPATIBLE, u)
                 else
                   case UpgradeSavePSKeys T (u\<lparr>UpgradePSKeys := (UpgradePSKeys u)
                          \<lparr>version_in_progress := newVersion, config_version_in_progress := newPSVersion,
                           state_of_partitions := UPGRADE_PARTITIONS_UPGRADING\<rparr>\<rparr>) of
                     Inl e \<Rightarrow> Inl e
                   | Inr u \<Rightarrow>
                       and_then (save_headers T data u) (\<lambda>u.
                         Inr (UPGRADE_HOST_SUCCESS,
                           (UpgradePartitionDataRequestData (of_nat HEADER_FIRST_PART_SIZE) 0 u)
                             \<lparr>data_state := UPGRADE_PARTITION_DATA_STATE_GENERIC_1ST_PART,
                              SigningMode := data ! (length data - 1)\<rparr>)))"

text \<open>The last part of the handler, from the check of the size on.\<close>

definition open_partition :: "u32 \<Rightarrow> traps \<Rightarrow> u16 \<Rightarrow> u32 \<Rightarrow> upgrade \<Rightarrow> upgrade_parse" where
  "open_partition now T partNum firstWord u =
     (if partitionLength u > UpgradeFWIFGetPhysPartitionSize T partNum u then
        Inr (UPGRADE_HOST_ERROR_PARTITION_SIZE_MISMATCH, u)
      else
        let (hdl, u) = PartitionOpen T partNum firstWord u;
            u = u\<lparr>partitionHdl := hdl\<rparr>
        in if hdl = 0 then Inr (UPGRADE_HOST_ERROR_PARTITION_OPEN_FAILED, u)
           else
             let off = UpgradeFWIFPartitionGetOffset T hdl u
             in if off + of_nat FIRST_WORD_SIZE < partitionLength u then
                  let u = u\<lparr>time_start := now\<rparr>
                  in Inr (UPGRADE_HOST_SUCCESS,
                       (UpgradePartitionDataRequestData
                          (partitionLength u - off - of_nat FIRST_WORD_SIZE) off u)
                         \<lparr>data_state := UPGRADE_PARTITION_DATA_STATE_DATA\<rparr>)
                else if off + of_nat FIRST_WORD_SIZE = partitionLength u then
                  and_then (UpgradeFWIFPartitionClose T hdl u) (\<lambda>u.
                    Inr (UPGRADE_HOST_SUCCESS,
                      (UpgradePartitionDataRequestData (of_nat HEADER_FIRST_PART_SIZE)
                         (off - of_nat FIRST_WORD_SIZE) (u\<lparr>openNextPartition := True\<rparr>))
                        \<lparr>data_state := UPGRADE_PARTITION_DATA_STATE_GENERIC_1ST_PART\<rparr>))
                else Inr (UPGRADE_HOST_ERROR_INTERNAL_ERROR_3, u))"

definition UpgradePartitionDataHandleDataHeaderState ::
    "(u8 list \<Rightarrow> upgrade \<Rightarrow> upgrade_parse) \<Rightarrow> u32 \<Rightarrow> traps \<Rightarrow> u8 list \<Rightarrow> bool \<Rightarrow> upgrade \<Rightarrow> upgrade_parse"
where
  "UpgradePartitionDataHandleDataHeaderState incomplete now T data reqComplete u =
     (if \<not> reqComplete then incomplete data u
      else if length data < PARTITION_SECOND_HEADER_SIZE + FIRST_WORD_SIZE then
        Inr (UPGRADE_HOST_ERROR_BAD_LENGTH_DATAHDR_RESUME, u)
      else
        let sqifNum = ByteUtilsGet2BytesFromStream data;
            partNum = ByteUtilsGet2BytesFromStream (drop 2 data)
        in if \<not> IsValidPartitionNum partNum then Inr (UPGRADE_HOST_ERROR_WRONG_PARTITION_NUMBER, u)
           else if \<not> IsValidSqifNum sqifNum partNum then
             Inr (UPGRADE_HOST_ERROR_PARTITION_TYPE_NOT_MATCHING, u)
           else
             and_then (save_headers T (take (PARTITION_SECOND_HEADER_SIZE + FIRST_WORD_SIZE) data) u) (\<lambda>u.
               let firstWord = push_bit 24 (ucast (data ! (PARTITION_SECOND_HEADER_SIZE + 3)))
                     OR push_bit 16 (ucast (data ! (PARTITION_SECOND_HEADER_SIZE + 2)))
                     OR push_bit 8 (ucast (data ! (PARTITION_SECOND_HEADER_SIZE + 1)))
                     OR ucast (data ! PARTITION_SECOND_HEADER_SIZE);
                   (valid, u) = UpgradeFWIFValidateUpdate partNum u
               in if \<not> valid then Inr (UPGRADE_HOST_ERROR_OEM_VALIDATION_FAILED_PARTITION_HEADER1, u)
                  else if last_closed_partition (UpgradePSKeys u) > partNum then
                    Inr (UPGRADE_HOST_SUCCESS,
                      (UpgradePartitionDataRequestData (of_nat HEADER_FIRST_PART_SIZE)
                         (partitionLength u - of_nat FIRST_WORD_SIZE) u)
                        \<lparr>data_state := UPGRADE_PARTITION_DATA_STATE_GENERIC_1ST_PART\<rparr>)
                  else open_partition now T partNum firstWord u))"

section \<open>Partition data and footer\<close>

text \<open>The duration is only logged, but it is a divisor.\<close>

definition UpgradePartitionDataHandleDataState ::
    "u32 \<Rightarrow> traps \<Rightarrow> u8 list \<Rightarrow> bool \<Rightarrow> upgrade \<Rightarrow> upgrade_parse" where
  "UpgradePartitionDataHandleDataState now T data reqComplete u =
     (case UpgradeFWIFPartitionWrite T (partitionHdl u) data u of
        Inl e \<Rightarrow> Inl e
      | Inr (written, u) \<Rightarrow>
          if of_nat (length data) \<noteq> written then Inr (UPGRADE_HOST_ERROR_PARTITION_WRITE_FAILED_DATA, u)
          else if reqComplete then
            let duration_ms = (word_of_int (sint (now - time_start u) sdiv 1000) :: u32)
            in if duration_ms = 0 then Inl Division_by_zero
               else
                 let u = (UpgradePartitionDataRequestData (of_nat HEADER_FIRST_PART_SIZE) 0 u)
                       \<lparr>data_state := UPGRADE_PARTITION_DATA_STATE_GENERIC_1ST_PART\<rparr>
                 in and_then (UpgradeFWIFPartitionClose T (partitionHdl u) u) (\<lambda>u.
                      Inr (UPGRADE_HOST_SUCCESS, u\<lparr>openNextPartition := True\<rparr>))
          else Inr (UPGRADE_HOST_SUCCESS, u))"

text \<open>Octets copied to a place of the signature; outside its block it is a fault. Its first contents, those
  of a fresh block, are never used.\<close>

definition UpgradePartitionDataCopyFromStream ::
    "u8 list option \<Rightarrow> nat \<Rightarrow> u8 list \<Rightarrow> u8 list option upgrade_result" where
  "UpgradePartitionDataCopyFromStream sig off data =
     (case sig of
        None \<Rightarrow> if data = [] then Inr None else Inl Over_write
      | Some block \<Rightarrow>
          if data \<noteq> [] \<and> length block < off + length data then Inl Over_write
          else Inr (Some (take off block @ data @ drop (off + length data) block)))"

definition upgradeHandleFooterState :: "traps \<Rightarrow> u8 list \<Rightarrow> bool \<Rightarrow> upgrade \<Rightarrow> upgrade_parse" where
  "upgradeHandleFooterState T data reqComplete u =
     (case UpgradePartitionDataCopyFromStream (signature u) (unat (signatureReceived u)) data of
        Inl e \<Rightarrow> Inl e
      | Inr sig \<Rightarrow>
          let u = u\<lparr>signature := sig, signatureReceived := signatureReceived u + of_nat (length data)\<rparr>
          in and_then (save_headers T data u) (\<lambda>u.
               if reqComplete then
                 Inr (UPGRADE_HOST_DATA_TRANSFER_COMPLETE, u\<lparr>signatureReceived := 0\<rparr>)
               else Inr (UPGRADE_HOST_SUCCESS, u)))"

section \<open>The state machine\<close>

definition parse_state ::
    "(u8 list \<Rightarrow> upgrade \<Rightarrow> upgrade_parse) \<Rightarrow> u32 \<Rightarrow> traps \<Rightarrow> u8 list \<Rightarrow> bool \<Rightarrow> upgrade \<Rightarrow> upgrade_parse"
where
  "parse_state incomplete now T data reqComplete u =
     (case data_state u of
        UPGRADE_PARTITION_DATA_STATE_GENERIC_1ST_PART \<Rightarrow>
          UpgradePartitionDataHandleGeneric1stPartState incomplete T data reqComplete u
      | UPGRADE_PARTITION_DATA_STATE_HEADER \<Rightarrow>
          UpgradePartitionDataHandleHeaderState incomplete T data reqComplete u
      | UPGRADE_PARTITION_DATA_STATE_DATA_HEADER \<Rightarrow>
          UpgradePartitionDataHandleDataHeaderState incomplete now T data reqComplete u
      | UPGRADE_PARTITION_DATA_STATE_DATA \<Rightarrow>
          UpgradePartitionDataHandleDataState now T data reqComplete u
      | UPGRADE_PARTITION_DATA_STATE_FOOTER \<Rightarrow> upgradeHandleFooterState T data reqComplete u)"

text \<open>
  \<open>UpgradePartitionDataParseIncomplete\<close> and \<open>upgradeParseCompleteData\<close> call each other, but a block that is
  complete never leads back to the former: the function in its place is not called (\<open>complete_no_callback\<close>),
  and the two definitions satisfy the equations of the source (\<open>parse_incomplete_source\<close>).
\<close>

definition UpgradePartitionDataParseIncomplete :: "u32 \<Rightarrow> traps \<Rightarrow> u8 list \<Rightarrow> upgrade \<Rightarrow> upgrade_parse" where
  "UpgradePartitionDataParseIncomplete now T data u =
     (let buf_space = (of_nat UPGRADE_MAX_PARTITION_DATA_BLOCK_SIZE - of_nat (length (incompleteData u)) :: u8)
      in if length data > unat buf_space then Inr (UPGRADE_HOST_ERROR_BAD_LENGTH_UPGRADE_HEADER, u)
         else
           let u = u\<lparr>incompleteData := incompleteData u @ data\<rparr>
           in if totalReceivedSize u = totalReqSize u then
                (case parse_state (\<lambda>_ u. Inr (UPGRADE_HOST_ERROR_INTERNAL_ERROR_1, u)) now T
                    (incompleteData u) True u of
                   Inl e \<Rightarrow> Inl e
                 | Inr (status, u) \<Rightarrow> Inr (status, u\<lparr>incompleteData := []\<rparr>))
              else Inr (UPGRADE_HOST_SUCCESS, u))"

definition upgradeParseCompleteData :: "u32 \<Rightarrow> traps \<Rightarrow> u8 list \<Rightarrow> bool \<Rightarrow> upgrade \<Rightarrow> upgrade_parse" where
  "upgradeParseCompleteData now T = parse_state (UpgradePartitionDataParseIncomplete now T) now T"

definition UpgradePartitionDataParse :: "u32 \<Rightarrow> traps \<Rightarrow> u8 list \<Rightarrow> upgrade \<Rightarrow> upgrade_parse" where
  "UpgradePartitionDataParse now T data u =
     (let u = u\<lparr>totalReceivedSize := totalReceivedSize u + of_nat (length data)\<rparr>
      in if totalReceivedSize u > totalReqSize u then
           Inr (UPGRADE_HOST_ERROR_BAD_LENGTH_PARTITION_PARSE, u)
         else if incompleteData u \<noteq> [] then UpgradePartitionDataParseIncomplete now T data u
         else upgradeParseCompleteData now T data (totalReceivedSize u = totalReqSize u) u)"

lemma complete_no_callback: "parse_state f now T data True u = parse_state g now T data True u"
  by (simp add: parse_state_def UpgradePartitionDataHandleGeneric1stPartState_def
      UpgradePartitionDataHandleHeaderState_def UpgradePartitionDataHandleDataHeaderState_def
      cong: UpgradePartitionDataState.case_cong)

lemma parse_incomplete_source:
  "UpgradePartitionDataParseIncomplete now T data u =
     (let buf_space = (of_nat UPGRADE_MAX_PARTITION_DATA_BLOCK_SIZE - of_nat (length (incompleteData u)) :: u8)
      in if length data > unat buf_space then Inr (UPGRADE_HOST_ERROR_BAD_LENGTH_UPGRADE_HEADER, u)
         else
           let u = u\<lparr>incompleteData := incompleteData u @ data\<rparr>
           in if totalReceivedSize u = totalReqSize u then
                (case upgradeParseCompleteData now T (incompleteData u) True u of
                   Inl e \<Rightarrow> Inl e
                 | Inr (status, u) \<Rightarrow> Inr (status, u\<lparr>incompleteData := []\<rparr>))
              else Inr (UPGRADE_HOST_SUCCESS, u))"
  unfolding UpgradePartitionDataParseIncomplete_def upgradeParseCompleteData_def
  by (subst complete_no_callback) (rule refl)

section \<open>Starting\<close>

text \<open>\<open>UpgradePartitionDataInit\<close> clears the context of the parser and the static map of partitions.
  \<open>memory\<close> is whether there is a context or one can be had. The second result is \<open>waitForEraseComplete\<close>.\<close>

definition UpgradePartitionsEraseAllManaged :: "upgrade \<Rightarrow> UpgradePartitionsState \<times> upgrade" where
  "UpgradePartitionsEraseAllManaged u =
     (UPGRADE_PARTITIONS_ERASED,
      if upgrade_in_progress_key (UpgradePSKeys u) \<noteq> UPGRADE_RESUME_POINT_ERASE
      then u\<lparr>history := history u @ [ImageUpgradeErase]\<rparr> else u)"

definition UpgradePartitionDataInit :: "bool \<Rightarrow> upgrade \<Rightarrow> bool \<times> bool \<times> upgrade" where
  "UpgradePartitionDataInit memory u =
     (if \<not> memory then (False, False, u)
      else
        let u = u\<lparr>time_start := 0, newReqSize := 0, totalReqSize := 0, totalReceivedSize := 0, offset := 0,
              incompleteData := [], partitionHdl := 0, partitionLength := 0, signature := None,
              signatureReceived := 0, openNextPartition := False, dfuHeaderPskey := 0,
              dfuHeaderPskeyOffset := 0, data_state := UPGRADE_PARTITION_DATA_STATE_GENERIC_1ST_PART\<rparr>;
            u = UpgradePartitionDataRequestData (of_nat HEADER_FIRST_PART_SIZE) 0 u;
            u = u\<lparr>partitionNum := 0, partitionMap := 0\<rparr>
        in if upgrade_in_progress_key (UpgradePSKeys u) = UPGRADE_RESUME_POINT_START
              \<and> state_of_partitions (UpgradePSKeys u) = UPGRADE_PARTITIONS_UPGRADING
              \<and> last_closed_partition (UpgradePSKeys u) > 0 \<and> \<not> force_erase u
           then (True, False, u)
           else
             case UpgradePartitionsEraseAllManaged u of
               (UPGRADE_PARTITIONS_ERASED, u) \<Rightarrow> (True, True, u)
             | (_, u) \<Rightarrow> (False, False, u))"

end
