(* ===== verification/Upgrade_Packets.thy ===== *)
theory Upgrade_Packets
  imports Upgrade_Parse
begin

text \<open>
  How a requested block is cut into packets does not matter for the headers of an upgrade file: octets
  collect in the buffer of the parser, which no handler looks at, and the last packet hands them on at once.
\<close>

fun feed :: "traps \<Rightarrow> (u32 \<times> u8 list) list \<Rightarrow> upgrade \<Rightarrow> upgrade_parse" where
  "feed T [] u = Inr (UPGRADE_HOST_SUCCESS, u)"
| "feed T ((now, d) # ps) u = and_then (UpgradePartitionDataParse now T d u) (feed T ps)"

abbreviation octets :: "(u32 \<times> u8 list) list \<Rightarrow> u8 list" where
  "octets ps \<equiv> concat (map snd ps)"

lemma and_then_simps [simp]:
  "and_then (Inl e) f = Inl e"
  "and_then (Inr (UPGRADE_HOST_SUCCESS, u)) f = f u"
  by (simp_all add: and_then_def)

section \<open>The handlers leave the buffer alone\<close>

definition buffered :: "u8 list \<Rightarrow> upgrade_parse \<Rightarrow> upgrade_parse" where
  "buffered b = map_sum id (map_prod id (\<lambda>u. u\<lparr>incompleteData := b\<rparr>))"

lemma buffered_simps [simp]:
  "buffered b (Inl e) = Inl e"
  "buffered b (Inr (rc, u)) = Inr (rc, u\<lparr>incompleteData := b\<rparr>)"
  by (simp_all add: buffered_def)

lemma buffered_and_then:
  assumes "r' = buffered b r" "\<And>u. f' (u\<lparr>incompleteData := b\<rparr>) = buffered b (f u)"
  shows "and_then r' f' = buffered b (and_then r f)"
  using assms by (cases r) (auto simp: and_then_def)

lemma save_pskeys_buffered:
  "UpgradeSavePSKeys T (u\<lparr>incompleteData := b\<rparr>)
     = map_sum id (\<lambda>u. u\<lparr>incompleteData := b\<rparr>) (UpgradeSavePSKeys T u)"
  by (simp add: UpgradeSavePSKeys_def Let_def)

lemma save_turn_buffered:
  "save_header_turn T d (u\<lparr>incompleteData := b\<rparr>)
     = map_sum id (map_sum (map_prod id (\<lambda>u. u\<lparr>incompleteData := b\<rparr>)) (map_prod id (\<lambda>u. u\<lparr>incompleteData := b\<rparr>)))
         (save_header_turn T d u)"
  by (simp add: save_header_turn_def Let_def)

lemma save_header_buffered:
  "UpgradeSaveHeaderInPSKeys T d (u\<lparr>incompleteData := b\<rparr>) = buffered b (UpgradeSaveHeaderInPSKeys T d u)"
proof (induction T d u rule: UpgradeSaveHeaderInPSKeys.induct)
  case (1 T d u)
  show ?case
    by (subst (1 2) UpgradeSaveHeaderInPSKeys.simps)
      (auto simp: save_turn_buffered split: sum.splits dest: 1)
qed

lemma save_headers_buffered:
  "save_headers T d (u\<lparr>incompleteData := b\<rparr>) = buffered b (save_headers T d u)"
  by (simp add: save_headers_def save_header_buffered)

lemma close_buffered:
  "UpgradeFWIFPartitionClose T h (u\<lparr>incompleteData := b\<rparr>) = buffered b (UpgradeFWIFPartitionClose T h u)"
  by (simp add: UpgradeFWIFPartitionClose_def UpgradePSSpaceForCriticalOperations_def UpgradeSavePSKeys_def
      Let_def)

lemma request_buffered:
  "UpgradePartitionDataRequestData n k (u\<lparr>incompleteData := b\<rparr>)
     = (UpgradePartitionDataRequestData n k u)\<lparr>incompleteData := b\<rparr>"
  by (simp add: UpgradePartitionDataRequestData_def)

lemma clear_buffered:
  "UpgradeClearHeaderPSKeys (u\<lparr>incompleteData := b\<rparr>) = (UpgradeClearHeaderPSKeys u)\<lparr>incompleteData := b\<rparr>"
  by (simp add: UpgradeClearHeaderPSKeys_def)

lemma if_buffered:
  "(if c then buffered b x else buffered b y) = buffered b (if c then x else y)"
  by simp

lemma first_part_buffered:
  "UpgradePartitionDataHandleGeneric1stPartState f T d True (u\<lparr>incompleteData := b\<rparr>)
     = buffered b (UpgradePartitionDataHandleGeneric1stPartState f T d True u)"
proof -
  define v where "v = (if peer_supported u then
      UpgradeClearHeaderPSKeys (u\<lparr>dfuHeaderPskey := DFU_HEADER_PSKEY_START, dfuHeaderPskeyOffset := 0\<rparr>) else u)"
  define v' where "v' = (let u = u\<lparr>incompleteData := b\<rparr> in if peer_supported u then
      UpgradeClearHeaderPSKeys (u\<lparr>dfuHeaderPskey := DFU_HEADER_PSKEY_START, dfuHeaderPskeyOffset := 0\<rparr>) else u)"
  have v: "v' = v\<lparr>incompleteData := b\<rparr>"
    by (simp add: v_def v'_def UpgradeClearHeaderPSKeys_def)
  let ?hdr = "\<lambda>len u. case UpgradeSavePSKeys T (u\<lparr>UpgradePSKeys := (UpgradePSKeys u)\<lparr>dfu_partition_num := 0\<rparr>\<rparr>) of
      Inl e \<Rightarrow> Inl e
    | Inr u \<Rightarrow> Inr (UPGRADE_HOST_SUCCESS, (UpgradePartitionDataRequestData len 0 u)
        \<lparr>data_state := UPGRADE_PARTITION_DATA_STATE_HEADER\<rparr>)"
  let ?part = "\<lambda>len u. Inr (UPGRADE_HOST_SUCCESS,
      (UpgradePartitionDataRequestData (of_nat (PARTITION_SECOND_HEADER_SIZE + FIRST_WORD_SIZE)) 0 u)
        \<lparr>data_state := UPGRADE_PARTITION_DATA_STATE_DATA_HEADER,
         partitionLength := len - of_nat PARTITION_SECOND_HEADER_SIZE\<rparr>)"
  let ?foot = "\<lambda>len u. let u = UpgradePartitionDataRequestData len 0 u;
       u = (if signature u = None \<and> heap_has T (history u) (unat len)
            then u\<lparr>signature := Some (replicate (unat len) 0)\<rparr> else u)
     in if signature u = None then Inr (UPGRADE_HOST_ERROR_OEM_VALIDATION_FAILED_MEMORY, u)
        else Inr (UPGRADE_HOST_SUCCESS, u\<lparr>data_state := UPGRADE_PARTITION_DATA_STATE_FOOTER\<rparr>)"
  have hdr: "?hdr len (w\<lparr>incompleteData := b\<rparr>) = buffered b (?hdr len w)" for len w
    by (simp add: UpgradeSavePSKeys_def UpgradePartitionDataRequestData_def Let_def)
  have part: "?part len (w\<lparr>incompleteData := b\<rparr>) = buffered b (?part len w)" for len w
    by (simp add: UpgradePartitionDataRequestData_def)
  have foot: "?foot len (w\<lparr>incompleteData := b\<rparr>) = buffered b (?foot len w)" for len w
    by (simp add: UpgradePartitionDataRequestData_def Let_def)
  note step = buffered_and_then [where f = f and f' = f for f, OF save_headers_buffered]
  show ?thesis
    unfolding UpgradePartitionDataHandleGeneric1stPartState_def v_def [symmetric]
      v'_def [symmetric, unfolded Let_def] v
    by (simp only: Let_def not_True_eq_False if_False buffered_simps [symmetric] if_buffered
      step [of "?hdr _", OF hdr] step [of "?part _", OF part] step [of "?foot _", OF foot, unfolded Let_def])
qed

lemma header_buffered:
  "UpgradePartitionDataHandleHeaderState f T d True (u\<lparr>incompleteData := b\<rparr>)
     = buffered b (UpgradePartitionDataHandleHeaderState f T d True u)"
proof -
  let ?stop = "\<lambda>u. Inr (UPGRADE_HOST_SUCCESS,
      (UpgradePartitionDataRequestData (of_nat HEADER_FIRST_PART_SIZE) 0 u)
        \<lparr>data_state := UPGRADE_PARTITION_DATA_STATE_GENERIC_1ST_PART, SigningMode := d ! (length d - 1)\<rparr>)"
  let ?save = "\<lambda>ver ps u. case UpgradeSavePSKeys T (u\<lparr>UpgradePSKeys := (UpgradePSKeys u)
        \<lparr>version_in_progress := ver, config_version_in_progress := ps,
         state_of_partitions := UPGRADE_PARTITIONS_UPGRADING\<rparr>\<rparr>) of
      Inl e \<Rightarrow> Inl e | Inr u \<Rightarrow> and_then (save_headers T d u) ?stop"
  have fin: "?stop (w\<lparr>incompleteData := b\<rparr>) = buffered b (?stop w)" for w
    by (simp add: UpgradePartitionDataRequestData_def)
  have save: "?save ver ps (w\<lparr>incompleteData := b\<rparr>) = buffered b (?save ver ps w)" for ver ps w
  proof (cases "UpgradeSavePSKeys T (w\<lparr>UpgradePSKeys := (UpgradePSKeys w)
        \<lparr>version_in_progress := ver, config_version_in_progress := ps,
         state_of_partitions := UPGRADE_PARTITIONS_UPGRADING\<rparr>\<rparr>)")
    case (Inr v)
    then have "UpgradeSavePSKeys T (w\<lparr>incompleteData := b, UpgradePSKeys := (UpgradePSKeys w)
        \<lparr>version_in_progress := ver, config_version_in_progress := ps,
         state_of_partitions := UPGRADE_PARTITIONS_UPGRADING\<rparr>\<rparr>) = Inr (v\<lparr>incompleteData := b\<rparr>)"
      by (auto simp: UpgradeSavePSKeys_def Let_def split: if_splits)
    then show ?thesis using Inr buffered_and_then [OF save_headers_buffered, of ?stop, OF fin] by simp
  next
    case (Inl e)
    then have "UpgradeSavePSKeys T (w\<lparr>incompleteData := b, UpgradePSKeys := (UpgradePSKeys w)
        \<lparr>version_in_progress := ver, config_version_in_progress := ps,
         state_of_partitions := UPGRADE_PARTITIONS_UPGRADING\<rparr>\<rparr>) = Inl e"
      by (auto simp: UpgradeSavePSKeys_def Let_def split: if_splits)
    then show ?thesis using Inl by simp
  qed
  show ?thesis
    unfolding UpgradePartitionDataHandleHeaderState_def
    using save by (auto simp: Let_def split: sum.split)
qed

lemma open_buffered: "open_partition now T p w (u\<lparr>incompleteData := b\<rparr>) = buffered b (open_partition now T p w u)"
proof -
  have fin: "Inr (UPGRADE_HOST_SUCCESS,
      (UpgradePartitionDataRequestData n off (v\<lparr>incompleteData := b\<rparr>\<lparr>openNextPartition := True\<rparr>))
        \<lparr>data_state := UPGRADE_PARTITION_DATA_STATE_GENERIC_1ST_PART\<rparr>)
    = buffered b (Inr (UPGRADE_HOST_SUCCESS, (UpgradePartitionDataRequestData n off (v\<lparr>openNextPartition := True\<rparr>))
        \<lparr>data_state := UPGRADE_PARTITION_DATA_STATE_GENERIC_1ST_PART\<rparr>))" for n off v
    by (simp add: UpgradePartitionDataRequestData_def)
  define h where "h = get_sink T (history u) p w"
  define v where "v = u\<lparr>history := history u @ [ImageUpgradeStreamGetSink p w], partitionNum := p, partitionHdl := h\<rparr>"
  have v: "u\<lparr>incompleteData := b, history := history u @ [ImageUpgradeStreamGetSink p w], partitionNum := p,
      partitionHdl := h\<rparr> = v\<lparr>incompleteData := b\<rparr>"
    by (simp add: v_def)
  have close: "and_then (UpgradeFWIFPartitionClose T h (v\<lparr>incompleteData := b\<rparr>)) (\<lambda>u. Inr (UPGRADE_HOST_SUCCESS,
        (UpgradePartitionDataRequestData n off (u\<lparr>openNextPartition := True\<rparr>))
          \<lparr>data_state := UPGRADE_PARTITION_DATA_STATE_GENERIC_1ST_PART\<rparr>))
      = buffered b (and_then (UpgradeFWIFPartitionClose T h v) (\<lambda>u. Inr (UPGRADE_HOST_SUCCESS,
        (UpgradePartitionDataRequestData n off (u\<lparr>openNextPartition := True\<rparr>))
          \<lparr>data_state := UPGRADE_PARTITION_DATA_STATE_GENERIC_1ST_PART\<rparr>)))" for n off
    by (rule buffered_and_then [OF close_buffered]) (rule fin)
  have fields: "partitionLength (v\<lparr>incompleteData := b\<rparr>) = partitionLength v"
    "history (v\<lparr>incompleteData := b\<rparr>) = history v" by simp_all
  have data: "(UpgradePartitionDataRequestData n off (v\<lparr>incompleteData := b\<rparr>\<lparr>time_start := now\<rparr>))
        \<lparr>data_state := UPGRADE_PARTITION_DATA_STATE_DATA\<rparr>
      = (UpgradePartitionDataRequestData n off (v\<lparr>time_start := now\<rparr>))
        \<lparr>data_state := UPGRADE_PARTITION_DATA_STATE_DATA, incompleteData := b\<rparr>" for n off
    by (simp add: UpgradePartitionDataRequestData_def)
  show ?thesis
  proof (cases "h = 0")
    case True
    then show ?thesis
      by (simp add: open_partition_def UpgradeFWIFGetPhysPartitionSize_def PartitionOpen_def h_def Let_def)
  next
    case False
    have size: "UpgradeFWIFGetPhysPartitionSize T p (u\<lparr>incompleteData := b\<rparr>) = UpgradeFWIFGetPhysPartitionSize T p u"
      by (simp add: UpgradeFWIFGetPhysPartitionSize_def)
    have opened: "PartitionOpen T p w u = (h, v\<lparr>partitionHdl := partitionHdl u\<rparr>)"
      "PartitionOpen T p w (u\<lparr>incompleteData := b\<rparr>) = (h, v\<lparr>partitionHdl := partitionHdl u, incompleteData := b\<rparr>)"
      using False by (simp_all add: PartitionOpen_def h_def v_def Let_def)
    have w: "v\<lparr>partitionHdl := partitionHdl u\<rparr>\<lparr>partitionHdl := h\<rparr> = v"
      "v\<lparr>partitionHdl := partitionHdl u, incompleteData := b\<rparr>\<lparr>partitionHdl := h\<rparr> = v\<lparr>incompleteData := b\<rparr>"
      by (simp_all add: v_def)
    show ?thesis
      unfolding open_partition_def opened size
      using False
      by (simp only: Let_def prod.case w UpgradeFWIFPartitionGetOffset_def fields close if_buffered if_False data
          simp_thms buffered_simps [symmetric])
        (simp add: fields)
  qed
qed

lemma data_header_buffered:
  "UpgradePartitionDataHandleDataHeaderState f now T d True (u\<lparr>incompleteData := b\<rparr>)
     = buffered b (UpgradePartitionDataHandleDataHeaderState f now T d True u)"
proof -
  let ?rest = "\<lambda>p w u. let (valid, u) = UpgradeFWIFValidateUpdate p u
      in if \<not> valid then Inr (UPGRADE_HOST_ERROR_OEM_VALIDATION_FAILED_PARTITION_HEADER1, u)
         else if last_closed_partition (UpgradePSKeys u) > p then
           Inr (UPGRADE_HOST_SUCCESS,
             (UpgradePartitionDataRequestData (of_nat HEADER_FIRST_PART_SIZE)
                (partitionLength u - of_nat FIRST_WORD_SIZE) u)
               \<lparr>data_state := UPGRADE_PARTITION_DATA_STATE_GENERIC_1ST_PART\<rparr>)
         else open_partition now T p w u"
  have rest: "?rest p w (v\<lparr>incompleteData := b\<rparr>) = buffered b (?rest p w v)" for p w v
  proof -
    have "v\<lparr>incompleteData := b, partitionMap := m\<rparr> = v\<lparr>partitionMap := m, incompleteData := b\<rparr>" for m
      by simp
    then have "open_partition now T p w (v\<lparr>incompleteData := b, partitionMap := m\<rparr>)
        = buffered b (open_partition now T p w (v\<lparr>partitionMap := m\<rparr>))" for m
      by (metis open_buffered)
    then show ?thesis
      by (simp add: UpgradeFWIFValidateUpdate_def UpgradePartitionDataRequestData_def)
  qed
  have step: "and_then (save_headers T x (u\<lparr>incompleteData := b\<rparr>)) (?rest p w)
      = buffered b (and_then (save_headers T x u) (?rest p w))" for x p w
    by (rule buffered_and_then [OF save_headers_buffered]) (rule rest)
  show ?thesis
    unfolding UpgradePartitionDataHandleDataHeaderState_def
    by (simp only: Let_def not_True_eq_False if_False if_buffered buffered_simps [symmetric]
        step [unfolded Let_def])
qed

section \<open>Packets of a header\<close>

definition header_state :: "upgrade \<Rightarrow> bool" where
  "header_state u \<longleftrightarrow> data_state u = UPGRADE_PARTITION_DATA_STATE_GENERIC_1ST_PART
     \<or> data_state u = UPGRADE_PARTITION_DATA_STATE_HEADER
     \<or> data_state u = UPGRADE_PARTITION_DATA_STATE_DATA_HEADER"

lemma parse_state_buffered:
  "header_state u \<Longrightarrow> parse_state f now T d True (u\<lparr>incompleteData := b\<rparr>) = buffered b (parse_state f now T d True u)"
  by (auto simp: header_state_def parse_state_def first_part_buffered header_buffered data_header_buffered)

lemma parse_state_incomplete:
  "header_state u \<Longrightarrow> parse_state f now T d False u = f d u"
  by (auto simp: header_state_def parse_state_def UpgradePartitionDataHandleGeneric1stPartState_def
      UpgradePartitionDataHandleHeaderState_def UpgradePartitionDataHandleDataHeaderState_def)

text \<open>A packet before the last one only fills the buffer.\<close>

lemma space48:
  assumes "length b + length d \<le> 48"
  shows "\<not> unat (of_nat UPGRADE_MAX_PARTITION_DATA_BLOCK_SIZE - of_nat (length b) :: u8) < length d"
proof -
  have "unat (of_nat (length b) :: u8) = length b"
    by (rule of_nat_inverse [OF refl]) (use assms in simp)
  then have "unat (48 - of_nat (length b) :: u8) = 48 - length b"
    using assms by (subst unat_sub) (simp_all add: word_le_nat_alt)
  then show ?thesis using assms by (simp add: UPGRADE_MAX_PARTITION_DATA_BLOCK_SIZE_def)
qed

lemma incomplete_kept:
  assumes "length (incompleteData u) + length d \<le> 48" "totalReceivedSize u \<noteq> totalReqSize u"
  shows "UpgradePartitionDataParseIncomplete now T d u
    = Inr (UPGRADE_HOST_SUCCESS, u\<lparr>incompleteData := incompleteData u @ d\<rparr>)"
  using space48 [OF assms(1)] assms(2)
  by (simp only: UpgradePartitionDataParseIncomplete_def Let_def if_False) simp

lemma incomplete_last:
  assumes "length (incompleteData u) + length d \<le> 48" "totalReceivedSize u = totalReqSize u" "header_state u"
  shows "UpgradePartitionDataParseIncomplete now T d u = buffered [] (parse_state f now T (incompleteData u @ d) True u)"
proof -
  have "UpgradePartitionDataParseIncomplete now T d u
    = buffered [] (parse_state (\<lambda>_ u. Inr (UPGRADE_HOST_ERROR_INTERNAL_ERROR_1, u)) now T (incompleteData u @ d) True
        (u\<lparr>incompleteData := incompleteData u @ d\<rparr>))"
    using space48 [OF assms(1)] assms(2)
    by (simp only: UpgradePartitionDataParseIncomplete_def Let_def if_False upgrade.simps if_True simp_thms buffered_def)
      (simp add: map_sum_def split: sum.split)
  also have "\<dots> = buffered [] (parse_state f now T (incompleteData u @ d) True
        (u\<lparr>incompleteData := incompleteData u @ d\<rparr>))"
    by (metis complete_no_callback)
  also have "\<dots> = buffered [] (parse_state f now T (incompleteData u @ d) True u)"
    unfolding parse_state_buffered [OF assms(3)] by (cases "parse_state f now T (incompleteData u @ d) True u") auto
  finally show ?thesis .
qed

lemma sum32:
  assumes "a + b < 2 ^ 32"
  shows "(of_nat a + of_nat b :: u32) = of_nat (a + b) \<and> unat (of_nat (a + b) :: u32) = a + b"
proof
  show "unat (of_nat (a + b) :: u32) = a + b"
    by (rule of_nat_inverse [OF refl]) (use assms in simp)
qed simp

lemma packet_kept:
  assumes "header_state u" "totalReceivedSize u = of_nat (length (incompleteData u))" "d \<noteq> []"
    "totalReqSize u = of_nat n" "n \<le> 48" "length (incompleteData u) + length d < n"
  shows "UpgradePartitionDataParse now T d u = Inr (UPGRADE_HOST_SUCCESS,
     u\<lparr>totalReceivedSize := of_nat (length (incompleteData u) + length d), incompleteData := incompleteData u @ d\<rparr>)"
proof -
  let ?m = "length (incompleteData u) + length d"
  define r :: u32 where "r = of_nat ?m"
  have m: "totalReceivedSize u + of_nat (length d) = r" "unat r = ?m" "unat (totalReqSize u) = n"
    using assms(2,4-6) sum32 [of "length (incompleteData u)" "length d"] sum32 [of n 0] by (simp_all add: r_def)
  then have le: "\<not> totalReqSize u < r" "r \<noteq> totalReqSize u"
    using assms(6) unfolding word_less_nat_alt by auto
  have hs: "header_state (u\<lparr>totalReceivedSize := r\<rparr>)" using assms(1) by (simp add: header_state_def)
  have inc: "UpgradePartitionDataParseIncomplete now T d (u\<lparr>totalReceivedSize := r\<rparr>)
     = Inr (UPGRADE_HOST_SUCCESS, u\<lparr>totalReceivedSize := r, incompleteData := incompleteData u @ d\<rparr>)"
    by (subst incomplete_kept) (use assms(5,6) le(2) in simp_all)
  show ?thesis
    unfolding r_def [symmetric] using le inc
    by (simp add: UpgradePartitionDataParse_def upgradeParseCompleteData_def parse_state_incomplete [OF hs] Let_def m(1))
qed

text \<open>The last packet hands the whole block to the parser.\<close>

lemma packet_last:
  assumes "header_state u" "totalReceivedSize u = of_nat (length (incompleteData u))" "d \<noteq> []"
    "totalReqSize u = of_nat n" "n \<le> 48" "length (incompleteData u) + length d = n"
  shows "UpgradePartitionDataParse now T d u = buffered []
     (parse_state f now T (incompleteData u @ d) True (u\<lparr>totalReceivedSize := totalReqSize u\<rparr>))"
proof -
  let ?m = "length (incompleteData u) + length d"
  have m: "(of_nat (length (incompleteData u)) + of_nat (length d) :: u32) = of_nat n"
    using assms(5,6) sum32 [of "length (incompleteData u)" "length d"] by simp
  let ?v = "u\<lparr>totalReceivedSize := of_nat n\<rparr>"
  have hs: "header_state ?v" using assms(1) by (simp add: header_state_def)
  show ?thesis
  proof (cases "incompleteData u = []")
    case True
    then have "UpgradePartitionDataParse now T d u = parse_state (UpgradePartitionDataParseIncomplete now T) now T d True ?v"
      using assms(2,4) m by (simp add: UpgradePartitionDataParse_def upgradeParseCompleteData_def Let_def)
    also have "\<dots> = parse_state f now T d True (?v\<lparr>incompleteData := []\<rparr>)"
    proof -
      have "?v\<lparr>incompleteData := []\<rparr> = ?v" using True by (cases u) simp
      then show ?thesis by (metis complete_no_callback)
    qed
    finally show ?thesis using True assms(4) by (simp add: parse_state_buffered [OF hs])
  next
    case False
    have "UpgradePartitionDataParse now T d u = UpgradePartitionDataParseIncomplete now T d ?v"
      using False assms(2,4) m by (simp add: UpgradePartitionDataParse_def Let_def)
    also have "\<dots> = buffered [] (parse_state f now T (incompleteData u @ d) True ?v)"
      by (subst incomplete_last [of _ _ _ _ f]) (use assms(4-6) hs in simp_all)
    finally show ?thesis using assms(4) by simp
  qed
qed

lemma feed_Nil: "feed T [] = (\<lambda>u. Inr (UPGRADE_HOST_SUCCESS, u))"
  by (rule ext) simp

lemma and_then_success_iff: "and_then r (\<lambda>u. Inr (UPGRADE_HOST_SUCCESS, u)) = r"
  by (auto simp: and_then_def split: sum.split)

lemma feed_header:
  assumes "header_state u" "totalReceivedSize u = of_nat (length (incompleteData u))"
    "totalReqSize u = of_nat n" "n \<le> 48" "ps \<noteq> []" "\<forall>(t, d)\<in>set ps. d \<noteq> []"
    "length (incompleteData u) + length (octets ps) = n"
  shows "feed T ps u = buffered []
     (parse_state f (fst (last ps)) T (incompleteData u @ octets ps) True (u\<lparr>totalReceivedSize := totalReqSize u\<rparr>))"
  using assms
proof (induction ps arbitrary: u)
  case (Cons p ps)
  obtain now d where p: "p = (now, d)" by (cases p)
  have d: "d \<noteq> []" using Cons.prems(6) p by simp
  show ?case
  proof (cases "ps = []")
    case True
    then show ?thesis
      using packet_last [OF Cons.prems(1,2) d Cons.prems(3,4), of now T f] Cons.prems(7) p
      by (simp add: feed_Nil and_then_success_iff)
  next
    case False
    then have pos: "octets ps \<noteq> []"
      using Cons.prems(6) by (cases ps) auto
    have kept: "UpgradePartitionDataParse now T d u = Inr (UPGRADE_HOST_SUCCESS,
       u\<lparr>totalReceivedSize := of_nat (length (incompleteData u) + length d), incompleteData := incompleteData u @ d\<rparr>)"
      using pos Cons.prems(7) p length_greater_0_conv [of "octets ps"]
      by (intro packet_kept [OF Cons.prems(1,2) d Cons.prems(3,4)]) (simp del: length_greater_0_conv length_concat)
    let ?w = "u\<lparr>totalReceivedSize := of_nat (length (incompleteData u) + length d), incompleteData := incompleteData u @ d\<rparr>"
    have "feed T ps ?w = buffered [] (parse_state f (fst (last ps)) T (incompleteData ?w @ octets ps) True
        (?w\<lparr>totalReceivedSize := totalReqSize ?w\<rparr>))"
      using Cons.prems False p by (intro Cons.IH) (auto simp: header_state_def)
    moreover have "buffered [] (parse_state f now' T x True (?w\<lparr>totalReceivedSize := totalReqSize ?w\<rparr>))
        = buffered [] (parse_state f now' T x True (u\<lparr>totalReceivedSize := totalReqSize u\<rparr>))" for now' x
    proof -
      have "?w\<lparr>totalReceivedSize := totalReqSize ?w\<rparr>
          = u\<lparr>totalReceivedSize := totalReqSize u, incompleteData := incompleteData u @ d\<rparr>" by simp
      moreover have "header_state (u\<lparr>totalReceivedSize := totalReqSize u\<rparr>)"
        using Cons.prems(1) by (simp add: header_state_def)
      moreover have "buffered [] (buffered b r) = buffered [] r" for b r
        by (cases r) auto
      ultimately show ?thesis by (simp only: parse_state_buffered)
    qed
    ultimately show ?thesis using kept p False by (simp del: and_then_def)
  qed
qed simp

end
