(* ===== verification/Upgrade_Transfer.thy ===== *)
theory Upgrade_Transfer
  imports Upgrade_Packets
begin

text \<open>
  The part of the state machine of the update (\<^verbatim>\<open>upgrade_sm.c\<close>) that feeds the parser: the start of a
  transfer, the end of an erase, a packet of data, and a packet while the battery is low.

  The messages a handler sends, to the host, to the application and to itself, are a list. What the peer
  earbud is doing is in the field of the same name: its module is not modelled.
\<close>

section \<open>State\<close>

datatype UpgradeState =
    UPGRADE_STATE_CHECK_STATUS
  | UPGRADE_STATE_SYNC
  | UPGRADE_STATE_READY
  | UPGRADE_STATE_PROHIBITED
  | UPGRADE_STATE_ABORTING
  | UPGRADE_STATE_BATTERY_LOW
  | UPGRADE_STATE_DATA_READY
  | UPGRADE_STATE_DATA_TRANSFER
  | UPGRADE_STATE_DATA_TRANSFER_SUSPENDED
  | UPGRADE_STATE_DATA_HASH_CHECKING
  | UPGRADE_STATE_VALIDATING
  | UPGRADE_STATE_WAIT_FOR_VALIDATE
  | UPGRADE_STATE_VALIDATED
  | UPGRADE_STATE_RESTARTED_FOR_COMMIT
  | UPGRADE_STATE_COMMIT_HOST_CONTINUE
  | UPGRADE_STATE_COMMIT_VERIFICATION
  | UPGRADE_STATE_COMMIT_CONFIRM
  | UPGRADE_STATE_COMMIT
  | UPGRADE_STATE_PS_JOURNAL
  | UPGRADE_STATE_REBOOT_TO_RESUME

datatype upgrade_message =
    SendBytesReq u32 u32
  | SendErrorInd u16
  | SendIsCsrValidDoneCfm u16
  | SendShortMsg_ABORT_CFM
  | INTERNAL_CONTINUE
  | INTERNAL_CONTINUE_conditionally
  | START_PEER_ERASE_IND
  | START_DATA_IND
  | START_DATA_IND_cancelled
  | BLOCKING_IND_cancelled
  | BLOCKING_IS_DONE_IND

record upgrade_peer =
  peer_is_primary :: bool
  peer_is_started :: bool
  peer_is_blocked :: bool

text \<open>The members of \<open>UpgradeCtx\<close> the handlers use; \<open>always_ask\<close> is whether \<open>perms\<close> is \<open>upgrade_perm_always_ask\<close>
  and \<open>battery_low\<close> whether \<open>power_state\<close> is \<open>upgrade_battery_low\<close>.\<close>

record UpgradeCtx =
  smState :: UpgradeState
  always_ask :: bool
  battery_low :: bool
  isImgUpgradeEraseDone :: bool
  isCsrValidDoneReqReceived :: bool
  isImgUpgradeCopyDone :: bool
  ImgUpgradeCopyStatus :: bool
  asynchronous_abort :: bool
  peer :: upgrade_peer
  partitionData :: upgrade

type_synonym upgrade_handled = "(upgrade_message list \<times> UpgradeCtx) upgrade_result"

section \<open>Handlers\<close>

definition UpgradeSMSetState :: "UpgradeState \<Rightarrow> UpgradeCtx \<Rightarrow> UpgradeCtx" where
  "UpgradeSMSetState nextState c = c\<lparr>smState := nextState\<rparr>"

definition UpgradeSMMoveToState :: "UpgradeState \<Rightarrow> UpgradeCtx \<Rightarrow> upgrade_message list \<times> UpgradeCtx" where
  "UpgradeSMMoveToState nextState c = ([INTERNAL_CONTINUE], UpgradeSMSetState nextState c)"

definition FatalError :: "traps \<Rightarrow> UpgradeHostErrorCode \<Rightarrow> UpgradeCtx \<Rightarrow> upgrade_handled" where
  "FatalError T ec c =
     (let c = UpgradeSMSetState UPGRADE_STATE_ABORTING c;
          u = partitionData c;
          u = u\<lparr>UpgradePSKeys := (UpgradePSKeys u)\<lparr>upgrade_in_progress_key := UPGRADE_RESUME_POINT_ERROR\<rparr>\<rparr>
      in case UpgradeSavePSKeys T u of
           Inl e \<Rightarrow> Inl e
         | Inr u \<Rightarrow> Inr ([SendErrorInd (host_error_value ec)], c\<lparr>partitionData := u\<rparr>))"

definition PsSpaceError :: "UpgradeCtx \<Rightarrow> upgrade_message list \<times> UpgradeCtx" where
  "PsSpaceError c =
     ([SendErrorInd (host_error_value UPGRADE_HOST_ERROR_PARTITION_CLOSE_FAILED_PS_SPACE)],
      UpgradeSMSetState UPGRADE_STATE_REBOOT_TO_RESUME c)"

text \<open>The answer to \<open>UPGRADE_HOST_START_DATA_REQ\<close>; \<open>memory\<close> is whether the context of the parser can be allocated.
  The size asked for goes through a \<open>uint16\<close>.\<close>

definition request_first :: "UpgradeCtx \<Rightarrow> upgrade_message list \<times> UpgradeCtx" where
  "request_first c =
     (let (size, u) = UpgradePartitionDataGetNextReqSize (partitionData c);
          req_size = (ucast size :: u16)
      in ([SendBytesReq (ucast req_size) 0],
          UpgradeSMSetState UPGRADE_STATE_DATA_TRANSFER (c\<lparr>partitionData := u\<rparr>)))"

definition HandleDataReady :: "traps \<Rightarrow> bool \<Rightarrow> UpgradeCtx \<Rightarrow> upgrade_handled" where
  "HandleDataReady T memory c =
     (let (ok, WaitForEraseComplete, u) = UpgradePartitionDataInit memory (partitionData c);
          c = c\<lparr>partitionData := u\<rparr>
      in if ok then
           let erase = (if peer_is_primary (peer c) \<and> WaitForEraseComplete then [START_PEER_ERASE_IND] else []);
               c = c\<lparr>isImgUpgradeEraseDone := WaitForEraseComplete\<rparr>
           in if \<not> WaitForEraseComplete then
                let (ms, c) = request_first c in Inr (erase @ [START_DATA_IND] @ ms, c)
              else Inr (erase @ [START_DATA_IND], c)
         else FatalError T UPGRADE_HOST_ERROR_NO_MEMORY c)"

definition UpgradeSMBlockingOpIsDone :: "UpgradeCtx \<Rightarrow> upgrade_message list" where
  "UpgradeSMBlockingOpIsDone c = (if always_ask c then [BLOCKING_IND_cancelled, BLOCKING_IS_DONE_IND] else [])"

definition UpgradeSMEraseStatus :: "traps \<Rightarrow> bool \<Rightarrow> UpgradeCtx \<Rightarrow> upgrade_handled" where
  "UpgradeSMEraseStatus T erase_status c =
     (let ResumePoint = upgrade_in_progress_key (UpgradePSKeys (partitionData c));
          CurrentState = smState c;
          done = UpgradeSMBlockingOpIsDone c
      in if ResumePoint = UPGRADE_RESUME_POINT_START then
           if CurrentState = UPGRADE_STATE_DATA_READY then
             if erase_status then
               let (ms, c) = request_first (c\<lparr>isImgUpgradeEraseDone := False\<rparr>) in Inr (done @ ms, c)
             else
               case FatalError T UPGRADE_HOST_ERROR_SQIF_ERASE c of
                 Inl e \<Rightarrow> Inl e
               | Inr (ms, c) \<Rightarrow> Inr (done @ [START_DATA_IND_cancelled] @ ms, c)
           else if CurrentState \<noteq> UPGRADE_STATE_SYNC then Inr (done, c)
           else if asynchronous_abort c then
             Inr (done @ [SendShortMsg_ABORT_CFM], c\<lparr>asynchronous_abort := False\<rparr>)
           else Inr (done, c)
         else Inr (done, c))"

text \<open>A packet with data. The first two tests are the ones on the size of the file.\<close>

definition file_size_error :: "bool \<Rightarrow> UpgradeHostErrorCode \<Rightarrow> UpgradeHostErrorCode" where
  "file_size_error lastPacket rc =
     (if rc = UPGRADE_HOST_SUCCESS \<and> lastPacket then UPGRADE_HOST_ERROR_FILE_TOO_SMALL
      else if rc = UPGRADE_HOST_DATA_TRANSFER_COMPLETE \<and> \<not> lastPacket then UPGRADE_HOST_ERROR_FILE_TOO_BIG
      else rc)"

definition HandleDataTransfer :: "u32 \<Rightarrow> traps \<Rightarrow> bool \<Rightarrow> u8 list \<Rightarrow> UpgradeCtx \<Rightarrow> upgrade_handled" where
  "HandleDataTransfer now T lastPacket data c =
     (case UpgradePartitionDataParse now T data (partitionData c) of
        Inl e \<Rightarrow> Inl e
      | Inr (rc, u) \<Rightarrow>
          let c = c\<lparr>partitionData := u\<rparr>;
              rc = file_size_error lastPacket rc
          in if rc = UPGRADE_HOST_SUCCESS then
               let (req_size, u) = UpgradePartitionDataGetNextReqSize u
               in if req_size \<noteq> 0 then
                    Inr ([SendBytesReq req_size (UpgradePartitionDataGetNextOffset u)], c\<lparr>partitionData := u\<rparr>)
                  else Inr ([], c\<lparr>partitionData := u\<rparr>)
             else if rc = UPGRADE_HOST_DATA_TRANSFER_COMPLETE then
               let c = c\<lparr>isCsrValidDoneReqReceived := False, isImgUpgradeCopyDone := False,
                        ImgUpgradeCopyStatus := False\<rparr>
               in if peer_is_blocked (peer c) \<or> peer_is_primary (peer c) \<and> peer_is_started (peer c) then
                    Inr ([INTERNAL_CONTINUE_conditionally],
                         UpgradeSMSetState UPGRADE_STATE_DATA_HASH_CHECKING c)
                  else Inr (UpgradeSMMoveToState UPGRADE_STATE_DATA_HASH_CHECKING c)
             else if rc = UPGRADE_HOST_ERROR_PARTITION_CLOSE_FAILED_PS_SPACE then Inr (PsSpaceError c)
             else FatalError T rc c)"

text \<open>
  \<open>UPGRADE_HOST_DATA\<close> while the battery is low, \<open>None\<close> when the handler leaves the message to the default one.
  \<open>UPGRADE_PARTITION_DATA_XFER_ERROR\<close>, with which the code of the parser is compared, has the value 0 of
  \<open>UPGRADE_HOST_SUCCESS\<close>.
\<close>

definition UPGRADE_PARTITION_DATA_XFER_ERROR :: u16 where "UPGRADE_PARTITION_DATA_XFER_ERROR = 0"

definition HandleBatteryLow_data ::
    "u32 \<Rightarrow> traps \<Rightarrow> u8 list \<Rightarrow> UpgradeCtx \<Rightarrow> (upgrade_message list \<times> UpgradeCtx) option upgrade_result" where
  "HandleBatteryLow_data now T data c =
     (if \<not> battery_low c then Inr None
      else case UpgradePartitionDataParse now T data (partitionData c) of
        Inl e \<Rightarrow> Inl e
      | Inr (rc, u) \<Rightarrow>
          if UPGRADE_PARTITION_DATA_XFER_ERROR = host_error_value rc then Inr (Some ([], c\<lparr>partitionData := u\<rparr>))
          else Inr (Some ([SendErrorInd (host_error_value UPGRADE_HOST_ERROR_BATTERY_LOW)],
                 c\<lparr>partitionData := UpgradePartitionDataStopData u\<rparr>)))"

end
