(* ===== verification/Upgrade_Chip.thy ===== *)
theory Upgrade_Chip
  imports Upgrade_Transfer
begin

text \<open>
  A chip that works: what the traps of the operating system promise to the parser, and what the parser makes of
  the promises: data written to a section is appended to it, and headers saved for the peer can be read back.
\<close>

section \<open>What the history has stored\<close>

definition flush_step :: "u16 \<Rightarrow> u8 list \<Rightarrow> trap \<Rightarrow> u8 list" where
  "flush_step s d e =
     (case e of SinkFlushBlocking s' x \<Rightarrow> if s' = s then d @ x else d | ImageUpgradeErase \<Rightarrow> [] | _ \<Rightarrow> d)"

text \<open>What has been written through a sink since the last erase.\<close>

definition flushed :: "trap list \<Rightarrow> u16 \<Rightarrow> u8 list" where
  "flushed h s = foldl (flush_step s) [] h"

text \<open>
  The documented behaviour of the traps: the store takes up to 64 octets for a key and gives them back, has room
  for the critical writes, a sink for a section has a handle of its own, takes what is written, and its position
  is the number of octets written since the erase.
\<close>

definition working_chip :: "(u16 \<Rightarrow> u16) \<Rightarrow> traps \<Rightarrow> bool" where
  "working_chip hnd T \<longleftrightarrow>
     (\<forall>h k d. length d \<le> 64 \<longrightarrow> ps_store T h k d = of_nat (length d div 2))
     \<and> (\<forall>h k d. length d \<le> 64 \<longrightarrow> ps_retrieve T (h @ [PsStore k d]) k = d)
     \<and> (\<forall>h k e. (\<forall>d. e \<noteq> PsStore k d) \<longrightarrow> ps_retrieve T (h @ [e]) k = ps_retrieve T h k)
     \<and> (\<forall>h k. length (ps_retrieve T h k) \<le> 64)
     \<and> (\<forall>h n. UPGRADE_PS_WRITES_FOR_CRITICAL_OPERATIONS \<le> ps_free_count T h n)
     \<and> (\<forall>h p w. get_sink T h p w = hnd p)
     \<and> (\<forall>p. p < IMAGE_SECTION_ID_MAX \<longrightarrow> hnd p \<noteq> 0) \<and> inj_on hnd {p. p < IMAGE_SECTION_ID_MAX}
     \<and> (\<forall>h s. sink_position T h s = of_nat (length (flushed h s)))
     \<and> (\<forall>h s. sink_map T h s) \<and> (\<forall>h s. sink_slack T h s \<noteq> 0) \<and> (\<forall>h s n. sink_claim T h s n \<noteq> 0xFFFF)
     \<and> (\<forall>h s d. sink_flush T h s d) \<and> (\<forall>h s. sink_close T h s)
     \<and> (\<forall>h n. heap_has T h n)
     \<and> length (stack_garbage T) = 64"

lemma working_chipD:
  assumes "working_chip hnd T"
  shows "length d \<le> 64 \<Longrightarrow> ps_store T h k d = of_nat (length d div 2)"
    and "length d \<le> 64 \<Longrightarrow> ps_retrieve T (h @ [PsStore k d]) k = d"
    and "(\<forall>d. e \<noteq> PsStore k d) \<Longrightarrow> ps_retrieve T (h @ [e]) k = ps_retrieve T h k"
    and "length (ps_retrieve T h k) \<le> 64"
    and "UPGRADE_PS_WRITES_FOR_CRITICAL_OPERATIONS \<le> ps_free_count T h n"
    and "get_sink T h p w = hnd p"
    and "p < IMAGE_SECTION_ID_MAX \<Longrightarrow> hnd p \<noteq> 0"
    and "p < IMAGE_SECTION_ID_MAX \<Longrightarrow> q < IMAGE_SECTION_ID_MAX \<Longrightarrow> hnd p = hnd q \<longleftrightarrow> p = q"
    and "sink_position T h s = of_nat (length (flushed h s))"
    and "sink_map T h s" and "sink_slack T h s \<noteq> 0" and "sink_claim T h s n' \<noteq> 0xFFFF"
    and "sink_flush T h s x" and "sink_close T h s"
    and "heap_has T h len"
    and "length (stack_garbage T) = 64"
  using assms by (simp_all add: working_chip_def) (auto dest: inj_onD)

section \<open>Parts of the history that change nothing\<close>

definition untouched :: "u16 \<Rightarrow> trap list \<Rightarrow> bool" where
  "untouched k h \<longleftrightarrow> (\<forall>e\<in>set h. \<forall>d. e \<noteq> PsStore k d)"

definition unwritten :: "u16 \<Rightarrow> trap list \<Rightarrow> bool" where
  "unwritten s h \<longleftrightarrow> ImageUpgradeErase \<notin> set h \<and> (\<forall>d. SinkFlushBlocking s d \<notin> set h)"

lemma untouched_simps [simp]:
  "untouched k []" "untouched k (e # h) \<longleftrightarrow> (\<forall>d. e \<noteq> PsStore k d) \<and> untouched k h"
  "untouched k (h @ h') \<longleftrightarrow> untouched k h \<and> untouched k h'"
  by (auto simp: untouched_def)

lemma unwritten_simps [simp]:
  "unwritten s []"
  "unwritten s (e # h) \<longleftrightarrow> e \<noteq> ImageUpgradeErase \<and> (\<forall>d. e \<noteq> SinkFlushBlocking s d) \<and> unwritten s h"
  "unwritten s (h @ h') \<longleftrightarrow> unwritten s h \<and> unwritten s h'"
  by (auto simp: unwritten_def)

lemma retrieve_untouched:
  assumes "working_chip hnd T" "untouched k h'"
  shows "ps_retrieve T (h @ h') k = ps_retrieve T h k"
  using assms(2)
proof (induction h' rule: rev_induct)
  case (snoc e h')
  then have "ps_retrieve T ((h @ h') @ [e]) k = ps_retrieve T (h @ h') k"
    by (intro working_chipD(3) [OF assms(1)]) simp
  then show ?case using snoc by simp
qed simp

lemma flushed_append [simp]: "flushed (h @ [SinkFlushBlocking s d]) s = flushed h s @ d"
  by (simp add: flushed_def flush_step_def)

lemma flushed_unwritten: "unwritten s h' \<Longrightarrow> flushed (h @ h') s = flushed h s"
proof (induction h' rule: rev_induct)
  case (snoc e h')
  have "flush_step s d e = d" for d using snoc.prems by (auto simp: flush_step_def split: trap.split)
  then show ?case using snoc by (simp add: flushed_def)
qed simp

section \<open>Writing to a section\<close>

lemma write_loop_works:
  assumes "working_chip hnd T"
  shows "\<exists>h. write_loop T s d u = Some ([], u\<lparr>history := history u @ h\<rparr>)
    \<and> flushed (history u @ h) s = flushed (history u) s @ d \<and> (\<forall>s'. s' \<noteq> s \<longrightarrow> unwritten s' h) \<and> (\<forall>k. untouched k h)"
proof (induction "length d" arbitrary: d u rule: less_induct)
  case less
  note chip = working_chipD [OF assms]
  show ?case
  proof (cases "d = []")
    case True
    then show ?thesis by (subst write_loop.simps) (auto intro!: exI [of _ "[]"])
  next
    case False
    let ?n = "min (unat (sink_slack T (history u) s)) (length d)"
    let ?h = "[SinkClaim s (of_nat ?n), SinkFlushBlocking s (take ?n d)]"
    let ?u = "u\<lparr>history := history u @ ?h\<rparr>"
    have "0 < ?n" using False chip(11) [of "history u" s] by (simp add: unat_gt_0)
    then have "length (drop ?n d) < length d" using False by simp
    from less [OF this, of ?u] obtain h where
      h: "write_loop T s (drop ?n d) ?u = Some ([], ?u\<lparr>history := history ?u @ h\<rparr>)"
        "flushed (history ?u @ h) s = flushed (history ?u) s @ drop ?n d"
        "\<forall>s'. s' \<noteq> s \<longrightarrow> unwritten s' h" "\<forall>k. untouched k h"
      by auto
    have step: "write_loop T s d u = write_loop T s (drop ?n d) ?u"
      by (subst write_loop.simps) (use False chip(10,12,13) in \<open>simp add: Let_def\<close>)
    have "flushed (history u @ ?h) s = flushed (history u) s @ take ?n d"
    proof -
      have "history u @ ?h = (history u @ [SinkClaim s (of_nat ?n)]) @ [SinkFlushBlocking s (take ?n d)]" by simp
      then show ?thesis by (simp only: flushed_append) (simp add: flushed_unwritten)
    qed
    then have fl: "flushed (history u @ (?h @ h)) s = flushed (history u) s @ d" using h(2) by simp
    have ex: "?u\<lparr>history := history ?u @ h\<rparr> = u\<lparr>history := history u @ (?h @ h)\<rparr>" by simp
    show ?thesis
      unfolding step h(1) ex
      by (rule exI [of _ "?h @ h"]) (use fl h(3,4) in simp)
  qed
qed

lemma partition_write_works:
  assumes "working_chip hnd T" "s \<noteq> 0"
  shows "\<exists>h. UpgradeFWIFPartitionWrite T s d u = Inr (of_nat (length d), u\<lparr>history := history u @ h\<rparr>)
    \<and> flushed (history u @ h) s = flushed (history u) s @ d \<and> (\<forall>s'. s' \<noteq> s \<longrightarrow> unwritten s' h) \<and> (\<forall>k. untouched k h)"
  using write_loop_works [OF assms(1), of s d u] assms(2) by (auto simp: UpgradeFWIFPartitionWrite_def)

section \<open>The structure in the store\<close>

text \<open>The structure fits behind its offset.\<close>

definition pskey_fits :: "traps \<Rightarrow> upgrade \<Rightarrow> bool" where
  "pskey_fits T u \<longleftrightarrow> (\<forall>p. 2 * unat (upgrade_library_pskeyoffset u) + length (pskey_image T p) \<le> 64)
     \<and> (upgrade_library_pskey u < DFU_HEADER_PSKEY_START \<or> DFU_HEADER_PSKEY_END < upgrade_library_pskey u)"

lemma save_pskeys_works:
  assumes "working_chip hnd T" "pskey_fits T u"
  shows "\<exists>d. UpgradeSavePSKeys T u = Inr (u\<lparr>history := history u @ [PsStore (upgrade_library_pskey u) d]\<rparr>)"
proof -
  let ?held = "ps_retrieve T (history u) (upgrade_library_pskey u)"
  define m where "m = 2 * unat (upgrade_library_pskeyoffset u) + length (pskey_image T (UpgradePSKeys u))"
  define l where "l = (if ?held = [] then m else length ?held)"
  define l' where "l' = (if l < m then m else l)"
  have "m \<le> 64" using assms(2) by (simp add: pskey_fits_def m_def)
  moreover have "length ?held \<le> 64" by (rule working_chipD(4) [OF assms(1)])
  ultimately have "\<not> PSKEY_MAX_STORAGE_LENGTH_IN_BYTES < l'"
    by (simp add: l'_def l_def PSKEY_MAX_STORAGE_LENGTH_IN_BYTES_def)
  then show ?thesis
    unfolding UpgradeSavePSKeys_def Let_def
    by (simp only: m_def [symmetric] l_def [symmetric] l'_def [symmetric] if_False) blast
qed

section \<open>The headers kept for the peer\<close>

text \<open>The ten keys hold \<open>s\<close>, 64 octets each; behind its end there may be anything.\<close>

definition header_keys :: "traps \<Rightarrow> trap list \<Rightarrow> u8 list \<Rightarrow> bool" where
  "header_keys T h s \<longleftrightarrow>
     (\<forall>j<10. \<exists>pad. ps_retrieve T h (DFU_HEADER_PSKEY_START + of_nat j) = take 64 (drop (64 * j) s) @ pad)"

definition saved :: "traps \<Rightarrow> upgrade \<Rightarrow> u8 list \<Rightarrow> bool" where
  "saved T u s \<longleftrightarrow> length s < 640
     \<and> dfuHeaderPskey u = DFU_HEADER_PSKEY_START + of_nat (length s div 64)
     \<and> dfuHeaderPskeyOffset u = of_nat (length s mod 64) \<and> header_keys T (history u) s"

lemma header_key_eq:
  assumes "i < 10" "j < 10" "DFU_HEADER_PSKEY_START + of_nat i = DFU_HEADER_PSKEY_START + (of_nat j :: u16)"
  shows "i = j"
proof -
  have u: "unat (of_nat n :: u16) = n" if "n < 10" for n
    by (rule of_nat_inverse [OF refl]) (use that in simp)
  have "(of_nat i :: u16) = of_nat j" using assms(3) by (rule add_left_imp_eq)
  then show ?thesis using u [OF assms(1)] u [OF assms(2)] by metis
qed

lemma header_keys_step:
  assumes "working_chip hnd T" "header_keys T h s" "length s < 640" "length s mod 64 + length x \<le> 64"
    "length (drop (64 * (length s div 64)) s @ x @ pad) \<le> 64"
  shows "header_keys T (h @ [PsStore (DFU_HEADER_PSKEY_START + of_nat (length s div 64))
      (drop (64 * (length s div 64)) s @ x @ pad)]) (s @ x)"
  unfolding header_keys_def
proof (intro allI impI)
  fix j :: nat
  assume j: "j < 10"
  let ?q = "length s div 64"
  let ?b = "drop (64 * ?q) s @ x @ pad"
  have q: "?q < 10" using assms(3) by simp
  have s: "length s = 64 * ?q + length s mod 64" by simp
  show "\<exists>pad. ps_retrieve T (h @ [PsStore (DFU_HEADER_PSKEY_START + of_nat ?q) ?b])
      (DFU_HEADER_PSKEY_START + of_nat j) = take 64 (drop (64 * j) (s @ x)) @ pad"
  proof (cases "j = ?q")
    case True
    have "drop (64 * ?q) (s @ x) = drop (64 * ?q) s @ x" using s by simp
    moreover have "length (drop (64 * ?q) s @ x) \<le> 64" using assms(5) by simp
    ultimately show ?thesis using working_chipD(2) [OF assms(1,5)] True by simp
  next
    case False
    then have "ps_retrieve T (h @ [PsStore (DFU_HEADER_PSKEY_START + of_nat ?q) ?b]) (DFU_HEADER_PSKEY_START + of_nat j)
        = ps_retrieve T h (DFU_HEADER_PSKEY_START + of_nat j)"
      using header_key_eq [OF j q] by (intro working_chipD(3) [OF assms(1)]) auto
    moreover have "take 64 (drop (64 * j) (s @ x)) = take 64 (drop (64 * j) s)"
    proof (cases "j < ?q")
      case True
      then have "64 * j + 64 \<le> length s" using s by linarith
      then show ?thesis by simp
    next
      case False
      then have "?q + 1 \<le> j" using \<open>j \<noteq> ?q\<close> by simp
      then have "64 * ?q + 64 \<le> 64 * j" by simp
      then have "length s + length x \<le> 64 * j" using s assms(4) by linarith
      then show ?thesis by simp
    qed
    ultimately show ?thesis using assms(2) j by (auto simp: header_keys_def)
  qed
qed

lemma header_key_range: "j < 10 \<Longrightarrow> \<not> DFU_HEADER_PSKEY_END < DFU_HEADER_PSKEY_START + (of_nat j :: u16)"
proof -
  assume "j < 10"
  then have "j \<in> set [0..<10]" by simp
  then show ?thesis
    by (simp add: upt_rec DFU_HEADER_PSKEY_START_def DFU_HEADER_PSKEY_END_def) (elim disjE; simp)
qed

lemma keyCache_works:
  fixes at :: nat
  assumes "at < 64" "length pre = at" "length (pre @ pad) \<le> 64" "length (stack_garbage T) = 64"
    "data_write_size at d = n" "n \<le> 64 - at" "n \<le> length d"
  shows "\<exists>rest. keyCache T (pre @ pad) at d = pre @ take n d @ rest
    \<and> length (pre @ take n d @ rest) = 2 * ((at + n + 1) div 2)"
proof -
  define w where "w = 2 * ((at + n + 1) div 2)"
  have w: "at + n \<le> w" "w \<le> 64" using assms(1,6) div_le_mono [of "at + n + 1" 65 2] unfolding w_def by simp_all
  define cache where "cache = pre @ pad @ drop (length (pre @ pad)) (stack_garbage T)"
  have cache: "take at cache = pre" "length cache = 64" using assms(2-4) by (simp_all add: cache_def)
  have len: "length (take n d) = n" using assms(7) by simp
  have "keyCache T (pre @ pad) at d = take w (take at cache @ take n d @ drop (at + n) cache)"
    by (simp only: keyCache_def Let_def assms(5) cache_def w_def append_assoc)
  also have "\<dots> = pre @ take n d @ take (w - (at + n)) (drop (at + n) cache)"
    unfolding cache(1) using w(1) assms(2) len by simp
  finally have "keyCache T (pre @ pad) at d = pre @ take n d @ take (w - (at + n)) (drop (at + n) cache)" .
  moreover have "length (pre @ take n d @ take (w - (at + n)) (drop (at + n) cache)) = w"
    using w cache(2) len assms(2) by simp
  ultimately show ?thesis unfolding w_def by blast
qed

text \<open>The effect of saving on the state: the place in the keys and the history.\<close>

abbreviation stored_state :: "u16 \<Rightarrow> u16 \<Rightarrow> trap list \<Rightarrow> upgrade \<Rightarrow> upgrade" where
  "stored_state k at h u \<equiv>
     u\<lparr>dfuHeaderPskey := k, dfuHeaderPskeyOffset := at, history := history u @ h\<rparr>"

definition only_headers :: "trap list \<Rightarrow> bool" where
  "only_headers h \<longleftrightarrow> (\<forall>e\<in>set h. \<exists>j d. j < 10 \<and> e = PsStore (DFU_HEADER_PSKEY_START + of_nat j) d)"

lemma save_header_turn_works:
  assumes chip: "working_chip hnd T" and saved: "saved T u s" and room: "length s + length d < 640" and ne: "d \<noteq> []"
  defines "n \<equiv> min (64 - length s mod 64) (length d)"
  shows "\<exists>k at h. save_header_turn T d u = Inr (if drop n d = [] then Inl (UPGRADE_HOST_SUCCESS, stored_state k at h u)
        else Inr (drop n d, stored_state k at h u))
      \<and> saved T (stored_state k at h u) (s @ take n d) \<and> only_headers h"
proof -
  define q where "q = length s div 64"
  define at where "at = length s mod 64"
  let ?pre = "drop (64 * q) s"
  have s: "length s = 64 * q + at" "at < 64" "length ?pre = at" "q < 10"
    using room by (simp_all add: minus_mult_div_eq_mod q_def at_def)
  have key: "dfuHeaderPskey u = DFU_HEADER_PSKEY_START + of_nat q" and off: "unat (dfuHeaderPskeyOffset u) = at"
    using saved s(2) by (auto simp: saved_def q_def at_def intro!: of_nat_inverse)
  let ?held = "ps_retrieve T (history u) (DFU_HEADER_PSKEY_START + of_nat q)"
  obtain pad where held: "?held = ?pre @ pad"
    using saved s(2-4) by (auto simp: saved_def header_keys_def)
  have held_len: "length ?held \<le> 64" by (rule working_chipD(4) [OF chip])
  have size: "data_write_size at d = n" "n \<le> 64 - at" "n \<le> length d" "0 < n"
    using s(2) ne by (auto simp: data_write_size_def PSKEY_MAX_STORAGE_LENGTH_IN_BYTES_def n_def at_def)
  define w where "w = (at + n + 1) div 2"
  obtain rest where stored: "keyCache T ?held at d = ?pre @ take n d @ rest"
    "length (?pre @ take n d @ rest) = 2 * w"
    using keyCache_works [OF s(2,3), of pad T d n] held held_len size working_chipD(16) [OF chip] by (auto simp: w_def)
  have words: "2 * w \<le> 64" using size(2) s(2) div_le_mono [of "at + n + 1" 65 2] by (simp add: w_def)
  have ps: "ps_store T (history u) (dfuHeaderPskey u) (?pre @ take n d @ rest) = of_nat w"
    using working_chipD(1) [OF chip, of "?pre @ take n d @ rest"] words stored(2) by simp
  let ?h = "[PsStore (DFU_HEADER_PSKEY_START + of_nat q) (?pre @ take n d @ rest)]"
  have keys: "header_keys T (history u @ ?h) (s @ take n d)"
    using saved room size(2,3) words stored(2) s(2)
    unfolding q_def by (intro header_keys_step [OF chip]) (auto simp: saved_def at_def)
  have only: "only_headers ?h" using s(4) by (auto simp: only_headers_def)
  have len: "length (s @ take n d) = 64 * q + (at + n)" "length (s @ take n d) < 640"
    using s(1) size(3) room by simp_all
  have hold: "stored_state (DFU_HEADER_PSKEY_START + of_nat q) o' h' u
      = u\<lparr>history := history u @ h', dfuHeaderPskeyOffset := o'\<rparr>" for o' h'
    using key by (cases u) simp
  have turn: "save_header_turn T d u = (if at + n = 64 then
       let u = stored_state (DFU_HEADER_PSKEY_START + of_nat (Suc q)) 0 ?h u
       in if dfuHeaderPskey u > DFU_HEADER_PSKEY_END then Inr (Inl (UPGRADE_HOST_ERROR_NO_MEMORY, u))
          else if drop n d \<noteq> [] then Inr (Inr (drop n d, u)) else Inr (Inl (UPGRADE_HOST_SUCCESS, u))
     else
       let u = stored_state (dfuHeaderPskey u) (of_nat (at + n)) ?h u
       in if drop n d \<noteq> [] then Inr (Inr (drop n d, u)) else Inr (Inl (UPGRADE_HOST_SUCCESS, u)))"
    unfolding save_header_turn_def Let_def off key size(1) stored(1) ps [unfolded key] w_def [symmetric]
    using held_len s(2)
    by (cases "at + n = 64") (simp_all add: PSKEY_MAX_STORAGE_LENGTH_IN_BYTES_def ac_simps hold)
  show ?thesis
  proof (cases "at + n = 64")
    case True
    then have q: "Suc q < 10" using len by linarith
    have "\<not> DFU_HEADER_PSKEY_START + of_nat (Suc q) > DFU_HEADER_PSKEY_END" by (rule header_key_range [OF q])
    moreover have "saved T (stored_state (DFU_HEADER_PSKEY_START + of_nat (Suc q)) 0 ?h u) (s @ take n d)"
      using True len keys by (simp add: saved_def)
    ultimately have "save_header_turn T d u = Inr (if drop n d = []
          then Inl (UPGRADE_HOST_SUCCESS, stored_state (DFU_HEADER_PSKEY_START + of_nat (Suc q)) 0 ?h u)
          else Inr (drop n d, stored_state (DFU_HEADER_PSKEY_START + of_nat (Suc q)) 0 ?h u))"
        "saved T (stored_state (DFU_HEADER_PSKEY_START + of_nat (Suc q)) 0 ?h u) (s @ take n d)"
      unfolding turn using True by (simp_all add: Let_def)
    then show ?thesis using only by blast
  next
    case False
    then have lt: "at + n < 64" using size(2) s(2) by simp
    have "length (s @ take n d) div 64 = q" "length (s @ take n d) mod 64 = at + n"
      using lt by (simp_all only: len(1)) simp_all
    then have "saved T (stored_state (dfuHeaderPskey u) (of_nat (at + n)) ?h u) (s @ take n d)"
      using len(2) keys key by (simp add: saved_def)
    moreover have "save_header_turn T d u = Inr (if drop n d = []
          then Inl (UPGRADE_HOST_SUCCESS, stored_state (dfuHeaderPskey u) (of_nat (at + n)) ?h u)
          else Inr (drop n d, stored_state (dfuHeaderPskey u) (of_nat (at + n)) ?h u))"
      unfolding turn using False by (simp add: Let_def)
    ultimately show ?thesis using only by blast
  qed
qed

lemma only_headers_simps [simp]:
  "only_headers []" "only_headers (h @ h') \<longleftrightarrow> only_headers h \<and> only_headers h'"
  by (auto simp: only_headers_def)

lemma save_header_works:
  assumes chip: "working_chip hnd T"
  shows "saved T u s \<Longrightarrow> length s + length d < 640 \<Longrightarrow> d \<noteq> [] \<Longrightarrow>
    \<exists>k at h. UpgradeSaveHeaderInPSKeys T d u = Inr (UPGRADE_HOST_SUCCESS, stored_state k at h u)
      \<and> saved T (stored_state k at h u) (s @ d) \<and> only_headers h"
proof (induction "length d" arbitrary: d u s rule: less_induct)
  case less
  define n where "n = min (64 - length s mod 64) (length d)"
  have n: "0 < n" using less.prems(3) by (simp add: n_def)
  obtain k at h where turn: "save_header_turn T d u = Inr (if drop n d = []
        then Inl (UPGRADE_HOST_SUCCESS, stored_state k at h u) else Inr (drop n d, stored_state k at h u))"
      "saved T (stored_state k at h u) (s @ take n d)" "only_headers h"
    using save_header_turn_works [OF chip less.prems] unfolding n_def by blast
  show ?case
  proof (cases "drop n d = []")
    case True
    then have "UpgradeSaveHeaderInPSKeys T d u = Inr (UPGRADE_HOST_SUCCESS, stored_state k at h u)"
      by (subst UpgradeSaveHeaderInPSKeys.simps) (simp add: turn(1))
    then show ?thesis using turn(2,3) True by auto
  next
    case False
    then have "UpgradeSaveHeaderInPSKeys T d u = UpgradeSaveHeaderInPSKeys T (drop n d) (stored_state k at h u)"
      by (subst UpgradeSaveHeaderInPSKeys.simps) (simp add: turn(1))
    moreover have "\<exists>k' at' h'. UpgradeSaveHeaderInPSKeys T (drop n d) (stored_state k at h u)
          = Inr (UPGRADE_HOST_SUCCESS, stored_state k' at' h' (stored_state k at h u))
        \<and> saved T (stored_state k' at' h' (stored_state k at h u)) ((s @ take n d) @ drop n d) \<and> only_headers h'"
      using less.hyps [of "drop n d", OF _ turn(2)] less.prems n False by fastforce
    ultimately obtain k' at' h' where "UpgradeSaveHeaderInPSKeys T d u
          = Inr (UPGRADE_HOST_SUCCESS, stored_state k' at' (h @ h') u)"
        "saved T (stored_state k' at' (h @ h') u) (s @ d)" "only_headers h'"
      by auto
    then show ?thesis using turn(3) by (metis only_headers_simps(2))
  qed
qed

definition header_untouched :: "trap list \<Rightarrow> bool" where
  "header_untouched h \<longleftrightarrow> (\<forall>j<10. untouched (DFU_HEADER_PSKEY_START + of_nat j) h)"

lemma header_untouched_simps [simp]:
  "header_untouched []" "header_untouched (h @ h') \<longleftrightarrow> header_untouched h \<and> header_untouched h'"
  by (auto simp: header_untouched_def)

text \<open>While there is no peer nothing is kept.\<close>

definition kept :: "traps \<Rightarrow> upgrade \<Rightarrow> u8 list \<Rightarrow> bool" where
  "kept T u s \<longleftrightarrow> (peer_supported u \<longrightarrow> saved T u s)"

lemma kept_untouched:
  assumes "working_chip hnd T" "kept T u s" "header_untouched h" "history u' = history u @ h"
    "peer_supported u' = peer_supported u" "dfuHeaderPskey u' = dfuHeaderPskey u"
    "dfuHeaderPskeyOffset u' = dfuHeaderPskeyOffset u"
  shows "kept T u' s"
proof -
  have "ps_retrieve T (history u @ h) (DFU_HEADER_PSKEY_START + of_nat j)
      = ps_retrieve T (history u) (DFU_HEADER_PSKEY_START + of_nat j)" if "j < 10" for j
    using assms(3) that by (intro retrieve_untouched [OF assms(1)]) (simp add: header_untouched_def)
  then have "header_keys T (history u @ h) s = header_keys T (history u) s"
    unfolding header_keys_def by metis
  then show ?thesis using assms(2,4-7) by (simp add: kept_def saved_def)
qed

lemma kept_cong:
  "kept T u s \<Longrightarrow> history u' = history u \<Longrightarrow> peer_supported u' = peer_supported u
    \<Longrightarrow> dfuHeaderPskey u' = dfuHeaderPskey u \<Longrightarrow> dfuHeaderPskeyOffset u' = dfuHeaderPskeyOffset u \<Longrightarrow> kept T u' s"
  by (simp add: kept_def saved_def)

lemma only_headers_unwritten: "only_headers h \<Longrightarrow> unwritten s h"
  by (auto simp: only_headers_def unwritten_def)

lemma save_headers_works:
  assumes "working_chip hnd T" "kept T u s" "peer_supported u \<longrightarrow> length s + length d < 640" "d \<noteq> []"
  shows "\<exists>k at h. save_headers T d u = Inr (UPGRADE_HOST_SUCCESS, stored_state k at h u)
    \<and> kept T (stored_state k at h u) (s @ d) \<and> only_headers h"
proof (cases "peer_supported u")
  case True
  then obtain k at h where
    "UpgradeSaveHeaderInPSKeys T d u = Inr (UPGRADE_HOST_SUCCESS, stored_state k at h u)"
    "saved T (stored_state k at h u) (s @ d)" "only_headers h"
    using save_header_works [OF assms(1) _ _ assms(4), of u s] assms(2,3) by (auto simp: kept_def)
  then show ?thesis using True by (auto simp: save_headers_def kept_def)
next
  case False
  have "stored_state (dfuHeaderPskey u) (dfuHeaderPskeyOffset u) [] u = u" by (cases u) simp
  then have "save_headers T d u
      = Inr (UPGRADE_HOST_SUCCESS, stored_state (dfuHeaderPskey u) (dfuHeaderPskeyOffset u) [] u)"
    using False by (simp add: save_headers_def)
  moreover have "kept T (stored_state (dfuHeaderPskey u) (dfuHeaderPskeyOffset u) [] u) (s @ d)"
    using False by (simp add: kept_def)
  ultimately show ?thesis using only_headers_simps(1) by blast
qed

lemma library_key_header_untouched:
  assumes "pskey_fits T u"
  shows "header_untouched [PsStore (upgrade_library_pskey u) d]"
proof -
  have "upgrade_library_pskey u \<noteq> DFU_HEADER_PSKEY_START + of_nat j" if "j < 10" for j
  proof
    assume eq: "upgrade_library_pskey u = DFU_HEADER_PSKEY_START + of_nat j"
    have "j \<in> set [0..<10]" using that by simp
    then show False using assms eq
      by (simp add: upt_rec pskey_fits_def DFU_HEADER_PSKEY_START_def DFU_HEADER_PSKEY_END_def) (elim disjE; simp)
  qed
  then show ?thesis by (auto simp: header_untouched_def)
qed

text \<open>The structure is saved: only the history grows, and the headers stay.\<close>

lemma save_pskeys_kept:
  assumes "working_chip hnd T" "pskey_fits T u" "kept T u s"
  shows "\<exists>h. UpgradeSavePSKeys T u = Inr (u\<lparr>history := history u @ h\<rparr>)
    \<and> kept T (u\<lparr>history := history u @ h\<rparr>) s \<and> (\<forall>s. unwritten s h)"
proof -
  obtain d where d: "UpgradeSavePSKeys T u = Inr (u\<lparr>history := history u @ [PsStore (upgrade_library_pskey u) d]\<rparr>)"
    using save_pskeys_works [OF assms(1,2)] by blast
  have "kept T (u\<lparr>history := history u @ [PsStore (upgrade_library_pskey u) d]\<rparr>) s"
    by (rule kept_untouched [OF assms(1,3) library_key_header_untouched [OF assms(2)]]) simp_all
  then show ?thesis using d by (intro exI [of _ "[PsStore (upgrade_library_pskey u) d]"]) simp
qed

lemma clear_headers_works:
  "\<exists>h. UpgradeClearHeaderPSKeys (u\<lparr>dfuHeaderPskey := DFU_HEADER_PSKEY_START, dfuHeaderPskeyOffset := 0\<rparr>)
      = stored_state DFU_HEADER_PSKEY_START 0 h u
    \<and> saved T (stored_state DFU_HEADER_PSKEY_START 0 h u) [] \<and> (\<forall>s. unwritten s h)"
  by (rule exI [of _ "map (\<lambda>k. PsStore (of_nat k) []) [unat DFU_HEADER_PSKEY_START ..< Suc (unat DFU_HEADER_PSKEY_END)]"])
    (auto simp: UpgradeClearHeaderPSKeys_def saved_def header_keys_def unwritten_def)

end
