(* ===== verification/Upgrade_Image.thy ===== *)
theory Upgrade_Image
  imports Upgrade_Chip
begin

text \<open>
  An upgrade file as its producer lays it out, and what the parser makes of each of its headers. These
  definitions are the specification the parser is held against; numbers are big endian.
\<close>

section \<open>The file\<close>

definition be2 :: "u16 \<Rightarrow> u8 list" where
  "be2 w = [ucast (drop_bit 8 w), ucast w]"

definition be4 :: "u32 \<Rightarrow> u8 list" where
  "be4 w = [ucast (drop_bit 24 w), ucast (drop_bit 16 w), ucast (drop_bit 8 w), ucast w]"

definition be_version :: "upgrade_version \<Rightarrow> u8 list" where
  "be_version v = be2 (major v) @ be2 (minor v)"

text \<open>A section is its number and its contents, the first word included.\<close>

record upgrade_image =
  img_variant :: "u8 list"
  img_version :: upgrade_version
  img_compatible :: "upgrade_version list"
  img_config :: u16
  img_compatible_configs :: "u16 list"
  img_sections :: "(u16 \<times> u8 list) list"
  img_signature :: "u8 list"

definition first_part :: "u8 list \<Rightarrow> nat \<Rightarrow> u8 list" where
  "first_part ident n = ident @ be4 (of_nat n)"

definition header_block :: "upgrade_image \<Rightarrow> u8 list" where
  "header_block i = img_variant i @ be_version (img_version i)
     @ be2 (of_nat (length (img_compatible i))) @ concat (map be_version (img_compatible i))
     @ be2 (img_config i)
     @ be2 (of_nat (length (img_compatible_configs i))) @ concat (map be2 (img_compatible_configs i))"

definition section_header :: "u16 \<times> u8 list \<Rightarrow> u8 list" where
  "section_header p = be2 0 @ be2 (fst p) @ take 4 (snd p)"

definition section_file :: "u16 \<times> u8 list \<Rightarrow> u8 list" where
  "section_file p = first_part UpgradeFWIFGetPartitionID (PARTITION_SECOND_HEADER_SIZE + length (snd p))
     @ section_header p @ drop 4 (snd p)"

definition footer_file :: "upgrade_image \<Rightarrow> u8 list" where
  "footer_file i = first_part UpgradeFWIFGetFooterID EXPECTED_SIGNATURE_SIZE @ img_signature i"

definition upgrade_file :: "upgrade_image \<Rightarrow> u8 list" where
  "upgrade_file i = first_part UpgradeFWIFGetHeaderID (length (header_block i)) @ header_block i
     @ concat (map section_file (img_sections i)) @ footer_file i"

text \<open>What is kept for the peer: the file without the contents of the sections behind their first words.\<close>

definition section_headers :: "u16 \<times> u8 list \<Rightarrow> u8 list" where
  "section_headers p = first_part UpgradeFWIFGetPartitionID (PARTITION_SECOND_HEADER_SIZE + length (snd p))
     @ section_header p"

definition file_headers :: "upgrade_image \<Rightarrow> u8 list" where
  "file_headers i = first_part UpgradeFWIFGetHeaderID (length (header_block i)) @ header_block i
     @ concat (map section_headers (img_sections i)) @ footer_file i"

text \<open>A section has more than its first word.\<close>

definition section_ok :: "u16 \<times> u8 list \<Rightarrow> bool" where
  "section_ok p \<longleftrightarrow> IsValidPartitionNum (fst p) \<and> 4 < length (snd p) \<and> length (snd p) < 2 ^ 32 - 4"

lemma section_number: "section_ok p \<Longrightarrow> fst p < IMAGE_SECTION_ID_MAX"
  by (auto simp: section_ok_def IsValidPartitionNum_def image_sections)

definition image_ok :: "upgrade_image \<Rightarrow> bool" where
  "image_ok i \<longleftrightarrow> length (img_variant i) = 8
     \<and> length (img_compatible_configs i) = length (img_compatible i) \<and> length (img_compatible i) \<le> 5
     \<and> sorted_wrt (<) (map fst (img_sections i)) \<and> list_all section_ok (img_sections i)
     \<and> length (img_signature i) = EXPECTED_SIGNATURE_SIZE"

text \<open>The device takes the file: same variant, and its versions are among the compatible ones.\<close>

definition version_matches :: "upgrade_version \<Rightarrow> upgrade_version \<Rightarrow> bool" where
  "version_matches current v \<longleftrightarrow> major v = major current \<and> (minor v = minor current \<or> minor v = 0xFFFF)"

definition accepts :: "upgrade \<Rightarrow> upgrade_image \<Rightarrow> bool" where
  "accepts u i \<longleftrightarrow> (dev_variant u = [] \<or> dev_variant u = img_variant i)
     \<and> list_ex (version_matches (version (UpgradePSKeys u))) (img_compatible i)
     \<and> (config_version (UpgradePSKeys u) = img_config i
        \<or> config_version (UpgradePSKeys u) \<in> set (img_compatible_configs i))"

section \<open>Octets\<close>

lemma be2_length [simp]: "length (be2 w) = 2" by (simp add: be2_def)
lemma be4_length [simp]: "length (be4 w) = 4" by (simp add: be4_def)
lemma be_version_length [simp]: "length (be_version v) = 4" by (simp add: be_version_def)

lemma get2_be2 [simp]: "ByteUtilsGet2BytesFromStream (be2 w @ r) = w"
  by (simp add: ByteUtilsGet2BytesFromStream_def be2_def)
    (intro bit_word_eqI; auto simp: bit_simps)

lemma get4_be4 [simp]: "ByteUtilsGet4BytesFromStream (be4 w @ r) = w"
proof (rule bit_word_eqI)
  fix n
  assume n: "n < LENGTH(32)"
  have "24 \<le> n \<Longrightarrow> 24 + (n - 24) = n" "16 \<le> n \<Longrightarrow> 16 + (n - 16) = n" by simp_all
  then show "bit (ByteUtilsGet4BytesFromStream (be4 w @ r)) n = bit w n"
    using n by (cases "24 \<le> n"; cases "16 \<le> n") (auto simp: ByteUtilsGet4BytesFromStream_def be4_def bit_simps)
qed

lemma id_lengths [simp]:
  "length UpgradeFWIFGetHeaderID = 8" "length UpgradeFWIFGetPartitionID = 8" "length UpgradeFWIFGetFooterID = 8"
  by (simp_all add: UpgradeFWIFGetHeaderID_def UpgradeFWIFGetPartitionID_def UpgradeFWIFGetFooterID_def)

lemma first_part_length [simp]: "length ident = 8 \<Longrightarrow> length (first_part ident n) = 12"
  by (simp add: first_part_def)

lemma strncmp_same: "strncmp_zero (length xs) (xs @ r) (xs @ r')"
  by (induction xs) auto

lemma id_octets:
  "UpgradeFWIFGetHeaderID = [0x41, 0x50, 0x50, 0x55, 0x48, 0x44, 0x52, 0x35]"
  "UpgradeFWIFGetPartitionID = [0x50, 0x41, 0x52, 0x54, 0x44, 0x41, 0x54, 0x41]"
  "UpgradeFWIFGetFooterID = [0x41, 0x50, 0x50, 0x55, 0x50, 0x46, 0x54, 0x52]"
  by (simp_all add: UpgradeFWIFGetHeaderID_def UpgradeFWIFGetPartitionID_def UpgradeFWIFGetFooterID_def)

lemma id_field: "ID_FIELD_SIZE = Suc (Suc (Suc (Suc (Suc (Suc (Suc (Suc 0)))))))"
  by (simp add: ID_FIELD_SIZE_def)

lemma first_part_id:
  "strncmp_zero ID_FIELD_SIZE (first_part UpgradeFWIFGetHeaderID n) (UpgradeFWIFGetHeaderID @ [0])"
  "\<not> strncmp_zero ID_FIELD_SIZE (first_part UpgradeFWIFGetPartitionID n) (UpgradeFWIFGetHeaderID @ [0])"
  "strncmp_zero ID_FIELD_SIZE (first_part UpgradeFWIFGetPartitionID n) (UpgradeFWIFGetPartitionID @ [0])"
  "\<not> strncmp_zero ID_FIELD_SIZE (first_part UpgradeFWIFGetFooterID n) (UpgradeFWIFGetHeaderID @ [0])"
  "\<not> strncmp_zero ID_FIELD_SIZE (first_part UpgradeFWIFGetFooterID n) (UpgradeFWIFGetPartitionID @ [0])"
  "strncmp_zero ID_FIELD_SIZE (first_part UpgradeFWIFGetFooterID n) (UpgradeFWIFGetFooterID @ [0])"
  by (simp_all add: first_part_def id_octets id_field)

lemma first_part_len: "length ident = 8 \<Longrightarrow> ByteUtilsGet4BytesFromStream (drop ID_FIELD_SIZE (first_part ident n)) = of_nat n"
  using get4_be4 [of "of_nat n" "[]"] by (simp add: first_part_def ID_FIELD_SIZE_def)

section \<open>Versions\<close>

lemma versions_length: "length (concat (map be_version vs)) = 4 * length vs"
  by (induction vs) auto

lemma configs_length: "length (concat (map be2 ps)) = 2 * length ps"
  by (induction ps) auto

lemma find_version_spec:
  "find_version c (concat (map be_version vs) @ r) (length vs) = Inr (list_ex (version_matches c) vs)"
proof (induction vs)
  case (Cons v vs)
  have "drop 2 (be_version v @ x) = be2 (minor v) @ x" for x by (simp add: be_version_def)
  moreover have "ByteUtilsGet2BytesFromStream (be_version v @ x) = major v" for x by (simp add: be_version_def)
  ultimately show ?case using Cons by (auto simp: version_matches_def)
qed simp

lemma find_ps_version_spec:
  "find_ps_version c (concat (map be2 ps) @ r) (length ps) = Inr (c \<in> set ps)"
  by (induction ps) auto

lemma header_block_length:
  "image_ok i \<Longrightarrow> length (header_block i) = 18 + 6 * length (img_compatible i)"
  by (simp add: header_block_def image_ok_def versions_length configs_length)

lemma header_block_fields:
  assumes "length (img_variant i) = 8"
  shows "ByteUtilsGet2BytesFromStream (drop 8 (header_block i)) = major (img_version i)"
    and "ByteUtilsGet2BytesFromStream (drop 10 (header_block i)) = minor (img_version i)"
    and "ByteUtilsGet2BytesFromStream (drop 12 (header_block i)) = of_nat (length (img_compatible i))"
    and "drop 14 (header_block i) = concat (map be_version (img_compatible i)) @ be2 (img_config i)
      @ be2 (of_nat (length (img_compatible_configs i))) @ concat (map be2 (img_compatible_configs i))"
  using assms by (simp_all add: header_block_def be_version_def)

lemma check_versions_spec:
  assumes ok: "image_ok i"
    and version: "list_ex (version_matches current) (img_compatible i)"
    and config: "conf = img_config i \<or> conf \<in> set (img_compatible_configs i)"
  shows "check_versions current conf (header_block i) (of_nat (length (img_compatible i)))
    = Inr (img_config i, True)"
proof -
  let ?n = "length (img_compatible i)"
  have n: "unat (of_nat ?n :: u16) = ?n"
    by (rule of_nat_inverse [OF refl]) (use ok in \<open>simp add: image_ok_def\<close>)
  have len: "length (img_variant i) = 8" "length (img_compatible_configs i) = ?n"
    using ok by (simp_all add: image_ok_def)
  have "drop (14 + 4 * ?n) (header_block i) = drop (4 * ?n) (drop 14 (header_block i))"
    by (simp add: add.commute)
  also have "\<dots> = be2 (img_config i) @ be2 (of_nat ?n) @ concat (map be2 (img_compatible_configs i))"
    unfolding header_block_fields(4) [OF len(1)] using len(2) by (simp add: versions_length)
  finally have ptr: "drop (14 + 4 * ?n) (header_block i)
      = be2 (img_config i) @ be2 (of_nat ?n) @ concat (map be2 (img_compatible_configs i))" .
  have "drop 2 (be2 (img_config i) @ x) = x" "drop 4 (be2 (img_config i) @ be2 w @ x) = x" for x w by simp_all
  then show ?thesis
    using version config find_ps_version_spec [of conf "img_compatible_configs i" "[]"]
    by (auto simp: check_versions_def ID_FIELD_SIZE_def n ptr header_block_fields(4) [OF len(1)] find_version_spec
        len(2) Let_def)
qed

end
