(* ===== verification/Upgrade_Delivery.thy ===== *)
theory Upgrade_Delivery
  imports Upgrade_Image
begin

text \<open>
  The transfer of an upgrade file from a host to a chip that works. The host answers every request: it skips
  the octets the device does not want and sends the block in packets of its choice, the last one of the file marked.
\<close>

section \<open>The host\<close>

text \<open>
  A schedule says when the device handles each packet and how many octets the host puts in it at most. \<open>rest\<close>
  is what the host has not sent or skipped, \<open>out\<close> what is left of the block. The host stops when it has no packet left in the schedule,
  or when the device sends anything but a request.
\<close>

fun serve :: "traps \<Rightarrow> (u32 \<times> u16) list \<Rightarrow> u8 list \<Rightarrow> nat \<Rightarrow> UpgradeCtx \<Rightarrow> upgrade_handled" where
  "serve T [] rest out c = Inr ([], c)"
| "serve T ((now, k) # ts) rest out c =
     (let d = take (min (unat k) out) rest
      in case HandleDataTransfer now T (d = rest) d c of
           Inl e \<Rightarrow> Inl e
         | Inr (ms, c) \<Rightarrow>
             (case ms of
                [] \<Rightarrow> serve T ts (drop (length d) rest) (out - length d) c
              | [SendBytesReq n off] \<Rightarrow> serve T ts (drop (length d + unat off) rest) (unat n) c
              | _ \<Rightarrow> Inr (ms, c)))"

lemma serve_step:
  assumes "d = take (min (unat k) out) rest" "HandleDataTransfer now T (d = rest) d c = Inr (ms, c')"
  shows "serve T ((now, k) # ts) rest out c =
    (case ms of
       [] \<Rightarrow> serve T ts (drop (length d) rest) (out - length d) c'
     | [SendBytesReq n off] \<Rightarrow> serve T ts (drop (length d + unat off) rest) (unat n) c'
     | _ \<Rightarrow> Inr (ms, c'))"
  unfolding serve.simps Let_def assms(1) [symmetric] assms(2) by simp

declare serve.simps(2) [simp del]

text \<open>Packets are not empty, and any two are handled at least a millisecond apart, however the clock wraps.\<close>

definition schedule_ok :: "(u32 \<times> u16) list \<Rightarrow> bool" where
  "schedule_ok ts \<longleftrightarrow> (\<forall>(t, k)\<in>set ts. k \<noteq> 0)
     \<and> sorted_wrt (\<lambda>(t, k) (t', k'). 1000 \<le> t' - t \<and> 1000 \<le> t - t') ts"

lemma schedule_ok_Cons: "schedule_ok ((t, k) # ts) \<Longrightarrow> k \<noteq> 0 \<and> schedule_ok ts"
  by (auto simp: schedule_ok_def)

lemma schedule_ok_append: "schedule_ok (ts @ ts') \<Longrightarrow> schedule_ok ts'"
  by (auto simp: schedule_ok_def sorted_wrt_append)

section \<open>A block in the buffer\<close>

definition asked :: "nat \<Rightarrow> upgrade \<Rightarrow> bool" where
  "asked n u \<longleftrightarrow> totalReqSize u = of_nat n \<and> newReqSize u = 0 \<and> totalReceivedSize u = 0 \<and> incompleteData u = []"

lemma no_new_request: "newReqSize u = 0 \<Longrightarrow> u\<lparr>newReqSize := 0\<rparr> = u"
  by (cases u) simp

lemma handle_more:
  assumes "UpgradePartitionDataParse now T d (partitionData c) = Inr (UPGRADE_HOST_SUCCESS, u)" "newReqSize u = 0"
  shows "HandleDataTransfer now T False d c = Inr ([], c\<lparr>partitionData := u\<rparr>)"
  using assms no_new_request [OF assms(2)]
  by (simp add: HandleDataTransfer_def file_size_error_def UpgradePartitionDataGetNextReqSize_def Let_def)

lemma handle_request:
  assumes "UpgradePartitionDataParse now T d (partitionData c) = Inr (UPGRADE_HOST_SUCCESS, u)" "newReqSize u \<noteq> 0"
  shows "HandleDataTransfer now T False d c
    = Inr ([SendBytesReq (newReqSize u) (offset u)], c\<lparr>partitionData := u\<lparr>newReqSize := 0\<rparr>\<rparr>)"
  using assms
  by (simp add: HandleDataTransfer_def file_size_error_def UpgradePartitionDataGetNextReqSize_def
      UpgradePartitionDataGetNextOffset_def Let_def)

lemma serve_fill:
  assumes "header_state u" "totalReceivedSize u = of_nat (length (incompleteData u))" "newReqSize u = 0"
    "totalReqSize u = of_nat n" "n \<le> 48" "length (incompleteData u) + length x = n" "x \<noteq> []" "rest \<noteq> []"
    "schedule_ok ts" "length x \<le> length ts"
    "\<And>now. parse_state f now T (incompleteData u @ x) True (u\<lparr>totalReceivedSize := totalReqSize u\<rparr>)
        = Inr (UPGRADE_HOST_SUCCESS, W now)"
    "\<And>now. newReqSize (W now) \<noteq> 0"
  shows "\<exists>ts1 now k ts2. ts = ts1 @ (now, k) # ts2 \<and> length ts1 < length x
    \<and> serve T ts (x @ rest) (length x) (c\<lparr>partitionData := u\<rparr>)
      = serve T ts2 (drop (unat (offset (W now))) rest) (unat (newReqSize (W now)))
          (c\<lparr>partitionData := (W now)\<lparr>incompleteData := [], newReqSize := 0\<rparr>\<rparr>)"
  using assms
proof (induction ts arbitrary: u x W)
  case (Cons p ts)
  obtain now k where p: "p = (now, k)" by (cases p)
  have k: "0 < unat k" "schedule_ok ts" using schedule_ok_Cons Cons.prems(9) p by (auto simp: unat_gt_0)
  define d where "d = take (min (unat k) (length x)) (x @ rest)"
  have "length d \<le> length x" by (simp add: d_def)
  then have "d \<noteq> x @ rest" using Cons.prems(8) by (cases rest) auto
  then have d: "d = take (unat k) x" "d \<noteq> []" "d \<noteq> x @ rest"
    using k(1) Cons.prems(7) by (auto simp: d_def min_def)
  show ?case
  proof (cases "length x \<le> unat k")
    case True
    then have dx: "d = x" using d(1) by simp
    have parse: "UpgradePartitionDataParse now T d u = Inr (UPGRADE_HOST_SUCCESS, (W now)\<lparr>incompleteData := []\<rparr>)"
      using packet_last [OF Cons.prems(1,2) _ Cons.prems(4,5), of d now T f] Cons.prems(6,7,11) dx by simp
    have "serve T (p # ts) (x @ rest) (length x) (c\<lparr>partitionData := u\<rparr>)
      = serve T ts (drop (unat (offset (W now))) rest) (unat (newReqSize (W now)))
          (c\<lparr>partitionData := (W now)\<lparr>incompleteData := [], newReqSize := 0\<rparr>\<rparr>)"
    proof -
      have "HandleDataTransfer now T (d = x @ rest) d (c\<lparr>partitionData := u\<rparr>)
          = Inr ([SendBytesReq (newReqSize (W now)) (offset (W now))],
              c\<lparr>partitionData := (W now)\<lparr>incompleteData := [], newReqSize := 0\<rparr>\<rparr>)"
        using handle_request [of now T d "c\<lparr>partitionData := u\<rparr>"] parse Cons.prems(12) d(3) by simp
      from serve_step [OF d_def this] show ?thesis unfolding p by (simp add: dx)
    qed
    then show ?thesis using p Cons.prems(7) by (intro exI [of _ "[]"]) auto
  next
    case False
    let ?y = "drop (unat k) x"
    have x: "x = d @ ?y" "?y \<noteq> []" using d(1) False by simp_all
    let ?u = "u\<lparr>totalReceivedSize := of_nat (length (incompleteData u) + length d),
        incompleteData := incompleteData u @ d\<rparr>"
    have len: "length d = unat k" using d(1) False by simp
    have parse: "UpgradePartitionDataParse now T d u = Inr (UPGRADE_HOST_SUCCESS, ?u)"
      using packet_kept [OF Cons.prems(1,2) d(2) Cons.prems(4,5)] Cons.prems(6) len False by simp
    have step: "serve T (p # ts) (x @ rest) (length x) (c\<lparr>partitionData := u\<rparr>)
        = serve T ts (?y @ rest) (length ?y) (c\<lparr>partitionData := ?u\<rparr>)"
    proof -
      have "HandleDataTransfer now T (d = x @ rest) d (c\<lparr>partitionData := u\<rparr>)
          = Inr ([], c\<lparr>partitionData := ?u\<rparr>)"
        using handle_more [of now T d "c\<lparr>partitionData := u\<rparr>" ?u] parse Cons.prems(3) d(3) by simp
      from serve_step [OF d_def this] show ?thesis unfolding p using len False by simp
    qed
    have full: "parse_state f now' T (incompleteData ?u @ ?y) True (?u\<lparr>totalReceivedSize := totalReqSize ?u\<rparr>)
        = Inr (UPGRADE_HOST_SUCCESS, (W now')\<lparr>incompleteData := incompleteData u @ d\<rparr>)" for now'
    proof -
      have eq: "?u\<lparr>totalReceivedSize := totalReqSize ?u\<rparr>
          = u\<lparr>totalReceivedSize := totalReqSize u, incompleteData := incompleteData u @ d\<rparr>" by simp
      have hs: "header_state (u\<lparr>totalReceivedSize := totalReqSize u\<rparr>)"
        using Cons.prems(1) by (simp add: header_state_def)
      have x: "incompleteData ?u @ ?y = incompleteData u @ x" using x(1) by simp
      show ?thesis unfolding eq x parse_state_buffered [OF hs] Cons.prems(11) by simp
    qed
    let ?W = "\<lambda>now. (W now)\<lparr>incompleteData := incompleteData u @ d\<rparr>"
    have "\<exists>ts1 now k ts2. ts = ts1 @ (now, k) # ts2 \<and> length ts1 < length ?y
        \<and> serve T ts (?y @ rest) (length ?y) (c\<lparr>partitionData := ?u\<rparr>)
          = serve T ts2 (drop (unat (offset (?W now))) rest) (unat (newReqSize (?W now)))
              (c\<lparr>partitionData := (?W now)\<lparr>incompleteData := [], newReqSize := 0\<rparr>\<rparr>)"
    proof (rule Cons.IH [OF _ _ _ _ Cons.prems(5) _ x(2) Cons.prems(8) k(2) _ full])
      show "header_state ?u" using Cons.prems(1) by (simp add: header_state_def)
      show "length (incompleteData ?u) + length ?y = n" using Cons.prems(6) len False by simp
      show "length ?y \<le> length ts" using Cons.prems(10) k(1) False by simp
    qed (use Cons.prems(3,4,12) in simp_all)
    then obtain ts1 now' k' ts2 where ih: "ts = ts1 @ (now', k') # ts2" "length ts1 < length ?y"
      "serve T ts (?y @ rest) (length ?y) (c\<lparr>partitionData := ?u\<rparr>)
        = serve T ts2 (drop (unat (offset (W now'))) rest) (unat (newReqSize (W now')))
          (c\<lparr>partitionData := (W now')\<lparr>incompleteData := [], newReqSize := 0\<rparr>\<rparr>)"
      by auto
    have "p # ts = (p # ts1) @ (now', k') # ts2" using ih(1) by simp
    moreover have "length (p # ts1) < length x" using ih(2) k(1) False by simp
    ultimately show ?thesis unfolding step ih(3) by blast
  qed
qed simp

section \<open>The contents of a section\<close>

lemma close_works:
  assumes "working_chip hnd T" "pskey_fits T u" "kept T u hs" "s \<noteq> 0"
  shows "\<exists>h. UpgradeFWIFPartitionClose T s u = Inr (UPGRADE_HOST_SUCCESS,
        u\<lparr>UpgradePSKeys := (UpgradePSKeys u)\<lparr>last_closed_partition := partitionNum u + 1\<rparr>,
          history := history u @ h\<rparr>)
    \<and> kept T (u\<lparr>UpgradePSKeys := (UpgradePSKeys u)\<lparr>last_closed_partition := partitionNum u + 1\<rparr>,
          history := history u @ h\<rparr>) hs \<and> (\<forall>s. unwritten s h)"
proof -
  let ?u = "u\<lparr>history := history u @ [SinkClose s],
      UpgradePSKeys := (UpgradePSKeys u)\<lparr>last_closed_partition := partitionNum u + 1\<rparr>\<rparr>"
  have fits: "pskey_fits T ?u" using assms(2) by (simp add: pskey_fits_def)
  have "header_untouched [SinkClose s]" by (simp add: header_untouched_def)
  then have k: "kept T ?u hs" by (rule kept_untouched [OF assms(1,3)]) simp_all
  obtain h where h: "UpgradeSavePSKeys T ?u = Inr (?u\<lparr>history := history ?u @ h\<rparr>)"
    "kept T (?u\<lparr>history := history ?u @ h\<rparr>) hs" "\<forall>s. unwritten s h"
    using save_pskeys_kept [OF assms(1) fits k] by blast
  have e: "?u\<lparr>history := history ?u @ h\<rparr> = u\<lparr>UpgradePSKeys := (UpgradePSKeys u)
      \<lparr>last_closed_partition := partitionNum u + 1\<rparr>, history := history u @ (SinkClose s # h)\<rparr>" by simp
  have "UpgradeFWIFPartitionClose T s u = Inr (UPGRADE_HOST_SUCCESS, ?u\<lparr>history := history ?u @ h\<rparr>)"
    using assms(4) h(1) working_chipD(5,14) [OF assms(1)]
    by (simp add: UpgradeFWIFPartitionClose_def UpgradePSSpaceForCriticalOperations_def Let_def)
  then show ?thesis using h(2,3) unfolding e by (intro exI [of _ "SinkClose s # h"]) simp
qed

text \<open>What is written to the sections and kept of the headers after more has happened.\<close>

lemma data_packet_more:
  assumes chip: "working_chip hnd T" and state: "data_state u = UPGRADE_PARTITION_DATA_STATE_DATA" "incompleteData u = []"
    and count: "totalReceivedSize u = of_nat m" "totalReqSize u = of_nat n" "m + length d < n" "n < 2 ^ 32"
    and handle: "partitionHdl u = s" "s \<noteq> 0"
  shows "\<exists>h. UpgradePartitionDataParse now T d u = Inr (UPGRADE_HOST_SUCCESS,
        u\<lparr>totalReceivedSize := of_nat (m + length d), history := history u @ h\<rparr>)
    \<and> flushed (history u @ h) s = flushed (history u) s @ d
    \<and> (\<forall>s'. s' \<noteq> s \<longrightarrow> unwritten s' h) \<and> (\<forall>k. untouched k h)"
proof -
  define r :: u32 where "r = of_nat (m + length d)"
  have r: "totalReceivedSize u + of_nat (length d) = r" "unat r = m + length d" "unat (totalReqSize u) = n"
    using count sum32 [of m "length d"] sum32 [of n 0] by (simp_all add: r_def)
  have le: "\<not> totalReqSize u < r" "r \<noteq> totalReqSize u"
    using r(2,3) count(3) by (auto simp: word_less_nat_alt)
  let ?u = "u\<lparr>totalReceivedSize := r\<rparr>"
  obtain h where h: "UpgradeFWIFPartitionWrite T s d ?u = Inr (of_nat (length d), ?u\<lparr>history := history ?u @ h\<rparr>)"
    "flushed (history ?u @ h) s = flushed (history ?u) s @ d" "\<forall>s'. s' \<noteq> s \<longrightarrow> unwritten s' h" "\<forall>k. untouched k h"
    using partition_write_works [OF chip handle(2), of d ?u] by blast
  have "UpgradePartitionDataParse now T d u = Inr (UPGRADE_HOST_SUCCESS, ?u\<lparr>history := history u @ h\<rparr>)"
    using state handle(1) h(1) le r(1)
    by (simp add: UpgradePartitionDataParse_def upgradeParseCompleteData_def parse_state_def
        UpgradePartitionDataHandleDataState_def Let_def)
  then show ?thesis using h(2-4) by (auto simp: r_def)
qed

definition closed_state :: "trap list \<Rightarrow> upgrade \<Rightarrow> upgrade" where
  "closed_state h u =
     u\<lparr>totalReqSize := 12, newReqSize := 12, totalReceivedSize := 0, offset := 0,
       data_state := UPGRADE_PARTITION_DATA_STATE_GENERIC_1ST_PART, openNextPartition := True,
       UpgradePSKeys := (UpgradePSKeys u)\<lparr>last_closed_partition := partitionNum u + 1\<rparr>,
       history := history u @ h\<rparr>"

lemma duration:
  assumes "1000 \<le> (now - t :: u32)" "1000 \<le> (t - now :: u32)"
  shows "(word_of_int (sint (now - t) sdiv 1000) :: u32) \<noteq> 0"
proof
  define i where "i = sint (now - t)"
  have d: "now - t = word_of_int i" "t - now = word_of_int (- i)" by (simp_all add: i_def)
  have range: "- (2 ^ 31) \<le> i" "i < 2 ^ 31"
    using sint_greater_eq [of "now - t"] sint_lt [of "now - t"] by (simp_all add: i_def)
  have big: "1000 \<le> \<bar>i\<bar>"
  proof (cases "0 \<le> i")
    case True
    then have "uint (word_of_int i :: u32) = i" using range(2) by (simp add: uint_word_of_int)
    then show ?thesis using assms(1) True unfolding d(1) word_le_def by simp
  next
    case False
    then have "uint (word_of_int (- i) :: u32) = - i" using range(1) by (simp only: uint_word_of_int) simp
    then show ?thesis using assms(2) False unfolding d(2) word_le_def by simp
  qed
  define q where "q = i sdiv 1000"
  have q: "\<bar>q\<bar> = \<bar>i\<bar> div 1000" using big by (auto simp: q_def signed_divide_int_def abs_mult)
  have "1 \<le> \<bar>i\<bar> div 1000" using zdiv_mono1 [OF big, of 1000] by simp
  then have nz: "q \<noteq> 0" using q by auto
  have "\<bar>i\<bar> div 1000 \<le> \<bar>i\<bar>" by simp
  then have small: "\<bar>q\<bar> < 2 ^ 32" using q range by simp
  assume "(word_of_int (sint (now - t) sdiv 1000) :: u32) = 0"
  then have "(2 :: int) ^ LENGTH(32) dvd q" by (simp only: i_def [symmetric] q_def [symmetric] word_of_int_eq_0_iff)
  then have "\<bar>(2 :: int) ^ LENGTH(32)\<bar> \<le> \<bar>q\<bar>" by (rule dvd_imp_le_int [OF nz])
  then show False using small by simp
qed

lemma data_packet_last:
  assumes chip: "working_chip hnd T" and fits: "pskey_fits T u" and kept: "kept T u hs"
    and state: "data_state u = UPGRADE_PARTITION_DATA_STATE_DATA" "incompleteData u = []"
    and count: "totalReceivedSize u = of_nat m" "totalReqSize u = of_nat n" "m + length d = n" "n < 2 ^ 32"
    and handle: "partitionHdl u = s" "s \<noteq> 0"
    and time: "1000 \<le> now - time_start u" "1000 \<le> time_start u - now"
  shows "\<exists>h. UpgradePartitionDataParse now T d u = Inr (UPGRADE_HOST_SUCCESS, closed_state h u)
    \<and> flushed (history u @ h) s = flushed (history u) s @ d
    \<and> (\<forall>s'. s' \<noteq> s \<longrightarrow> unwritten s' h) \<and> kept T (closed_state h u) hs"
proof -
  have r: "totalReceivedSize u + of_nat (length d) = totalReqSize u"
    using count(1,2) count(3) [symmetric] by simp
  let ?u = "u\<lparr>totalReceivedSize := totalReqSize u\<rparr>"
  obtain h where h: "UpgradeFWIFPartitionWrite T s d ?u = Inr (of_nat (length d), ?u\<lparr>history := history ?u @ h\<rparr>)"
    "flushed (history ?u @ h) s = flushed (history ?u) s @ d" "\<forall>s'. s' \<noteq> s \<longrightarrow> unwritten s' h" "\<forall>k. untouched k h"
    using partition_write_works [OF chip handle(2), of d ?u] by blast
  let ?v = "(UpgradePartitionDataRequestData (of_nat HEADER_FIRST_PART_SIZE) 0 (?u\<lparr>history := history u @ h\<rparr>))
      \<lparr>data_state := UPGRADE_PARTITION_DATA_STATE_GENERIC_1ST_PART\<rparr>"
  have fits': "pskey_fits T ?v" using fits by (simp add: pskey_fits_def UpgradePartitionDataRequestData_def)
  have "header_untouched h" using h(4) by (simp add: header_untouched_def)
  then have kept': "kept T ?v hs"
    by (rule kept_untouched [OF chip kept]) (simp_all add: UpgradePartitionDataRequestData_def)
  obtain h' where h': "UpgradeFWIFPartitionClose T s ?v = Inr (UPGRADE_HOST_SUCCESS,
        ?v\<lparr>UpgradePSKeys := (UpgradePSKeys ?v)\<lparr>last_closed_partition := partitionNum ?v + 1\<rparr>,
          history := history ?v @ h'\<rparr>)"
    "kept T (?v\<lparr>UpgradePSKeys := (UpgradePSKeys ?v)\<lparr>last_closed_partition := partitionNum ?v + 1\<rparr>,
          history := history ?v @ h'\<rparr>) hs" "\<forall>s. unwritten s h'"
    using close_works [OF chip fits' kept' handle(2)] by blast
  have fin: "?v\<lparr>UpgradePSKeys := (UpgradePSKeys ?v)\<lparr>last_closed_partition := partitionNum ?v + 1\<rparr>,
          history := history ?v @ h'\<rparr>\<lparr>openNextPartition := True\<rparr> = closed_state (h @ h') u"
    by (simp add: closed_state_def UpgradePartitionDataRequestData_def HEADER_FIRST_PART_SIZE_def)
  have hdl: "partitionHdl ?v = s" using handle(1) by (simp add: UpgradePartitionDataRequestData_def)
  have "UpgradePartitionDataParse now T d u
      = UpgradePartitionDataHandleDataState now T d True ?u"
    using state r by (simp add: UpgradePartitionDataParse_def upgradeParseCompleteData_def parse_state_def Let_def)
  also have "\<dots> = and_then (UpgradeFWIFPartitionClose T s ?v) (\<lambda>u. Inr (UPGRADE_HOST_SUCCESS, u\<lparr>openNextPartition := True\<rparr>))"
    using h(1) handle(1) duration [OF time] hdl by (simp add: UpgradePartitionDataHandleDataState_def Let_def)
  also have "\<dots> = Inr (UPGRADE_HOST_SUCCESS, closed_state (h @ h') u)"
    unfolding h'(1) and_then_simps fin ..
  finally have parse: "UpgradePartitionDataParse now T d u = Inr (UPGRADE_HOST_SUCCESS, closed_state (h @ h') u)" .
  have k: "kept T (closed_state (h @ h') u) hs"
    using h'(2) by (rule kept_cong) (simp_all add: closed_state_def UpgradePartitionDataRequestData_def)
  have "flushed ((history u @ h) @ h') s = flushed (history u) s @ d"
    using h(2) h'(3) by (subst flushed_unwritten) simp_all
  then show ?thesis using parse k h(3) h'(3) by (intro exI [of _ "h @ h'"]) simp
qed

lemma closed_state_simps [simp]:
  "newReqSize (closed_state h u) = 12" "offset (closed_state h u) = 0" "history (closed_state h u) = history u @ h"
  by (simp_all add: closed_state_def)

lemma serve_data:
  assumes chip: "working_chip hnd T"
  shows "pskey_fits T u \<Longrightarrow> kept T u hs \<Longrightarrow> data_state u = UPGRADE_PARTITION_DATA_STATE_DATA \<Longrightarrow> incompleteData u = []
    \<Longrightarrow> newReqSize u = 0 \<Longrightarrow> totalReceivedSize u = of_nat m \<Longrightarrow> totalReqSize u = of_nat n \<Longrightarrow> m + length x = n
    \<Longrightarrow> n < 2 ^ 32 \<Longrightarrow> partitionHdl u = s \<Longrightarrow> s \<noteq> 0 \<Longrightarrow> x \<noteq> [] \<Longrightarrow> rest \<noteq> []
    \<Longrightarrow> schedule_ok ts \<Longrightarrow> \<forall>(t, k)\<in>set ts. 1000 \<le> t - time_start u \<and> 1000 \<le> time_start u - t
    \<Longrightarrow> length x \<le> length ts
    \<Longrightarrow> \<exists>ts1 ts2 h. ts = ts1 @ ts2 \<and> length ts1 \<le> length x
      \<and> serve T ts (x @ rest) (length x) (c\<lparr>partitionData := u\<rparr>)
        = serve T ts2 rest 12 (c\<lparr>partitionData := (closed_state h u)\<lparr>newReqSize := 0\<rparr>\<rparr>)
      \<and> flushed (history u @ h) s = flushed (history u) s @ x
      \<and> (\<forall>s'. s' \<noteq> s \<longrightarrow> unwritten s' h) \<and> kept T (closed_state h u) hs"
proof (induction ts arbitrary: u x m)
  case (Cons p ts)
  obtain now k where p: "p = (now, k)" by (cases p)
  have k: "0 < unat k" "schedule_ok ts" using schedule_ok_Cons Cons.prems(14) p by (auto simp: unat_gt_0)
  define d where "d = take (min (unat k) (length x)) (x @ rest)"
  have "length d \<le> length x" by (simp add: d_def)
  then have "d \<noteq> x @ rest" using Cons.prems(13) by (cases rest) auto
  then have d: "d = take (unat k) x" "d \<noteq> x @ rest" by (auto simp: d_def min_def)
  show ?case
  proof (cases "length x \<le> unat k")
    case True
    then have dx: "d = x" using d(1) by simp
    have "1000 \<le> now - time_start u" "1000 \<le> time_start u - now" using Cons.prems(15) p by simp_all
    from data_packet_last [OF chip Cons.prems(1-4,6,7) _ Cons.prems(9-11) this, of d]
    obtain h where h: "UpgradePartitionDataParse now T d u = Inr (UPGRADE_HOST_SUCCESS, closed_state h u)"
      "flushed (history u @ h) s = flushed (history u) s @ x" "\<forall>s'. s' \<noteq> s \<longrightarrow> unwritten s' h"
      "kept T (closed_state h u) hs"
      using Cons.prems(8) dx by auto
    have "HandleDataTransfer now T (d = x @ rest) d (c\<lparr>partitionData := u\<rparr>)
        = Inr ([SendBytesReq 12 0], c\<lparr>partitionData := (closed_state h u)\<lparr>newReqSize := 0\<rparr>\<rparr>)"
      using handle_request [of now T d "c\<lparr>partitionData := u\<rparr>"] h(1) d(2) by simp
    from serve_step [OF d_def this]
    have "serve T (p # ts) (x @ rest) (length x) (c\<lparr>partitionData := u\<rparr>)
        = serve T ts rest 12 (c\<lparr>partitionData := (closed_state h u)\<lparr>newReqSize := 0\<rparr>\<rparr>)"
      unfolding p by (simp add: dx)
    moreover have "p # ts = [p] @ ts" "length [p] \<le> length x" using Cons.prems(12) by (cases x; simp)+
    ultimately show ?thesis using h(2-4) by blast
  next
    case False
    let ?y = "drop (unat k) x"
    have x: "x = d @ ?y" "?y \<noteq> []" using d(1) False by simp_all
    have len: "length d = unat k" using d(1) False by simp
    obtain h where h: "UpgradePartitionDataParse now T d u = Inr (UPGRADE_HOST_SUCCESS,
          u\<lparr>totalReceivedSize := of_nat (m + length d), history := history u @ h\<rparr>)"
      "flushed (history u @ h) s = flushed (history u) s @ d" "\<forall>s'. s' \<noteq> s \<longrightarrow> unwritten s' h" "\<forall>k. untouched k h"
      using data_packet_more [OF chip Cons.prems(3,4,6,7) _ Cons.prems(9-11), of d now] Cons.prems(8) len False by auto
    let ?u = "u\<lparr>totalReceivedSize := of_nat (m + length d), history := history u @ h\<rparr>"
    have "HandleDataTransfer now T (d = x @ rest) d (c\<lparr>partitionData := u\<rparr>) = Inr ([], c\<lparr>partitionData := ?u\<rparr>)"
      using handle_more [of now T d "c\<lparr>partitionData := u\<rparr>" ?u] h(1) Cons.prems(5) d(2) by simp
    from serve_step [OF d_def this]
    have step: "serve T (p # ts) (x @ rest) (length x) (c\<lparr>partitionData := u\<rparr>)
        = serve T ts (?y @ rest) (length ?y) (c\<lparr>partitionData := ?u\<rparr>)"
      unfolding p using len False by simp
    have "header_untouched h" using h(4) by (simp add: header_untouched_def)
    then have kept': "kept T ?u hs" by (rule kept_untouched [OF chip Cons.prems(2)]) simp_all
    have "\<exists>ts1 ts2 h'. ts = ts1 @ ts2 \<and> length ts1 \<le> length ?y
        \<and> serve T ts (?y @ rest) (length ?y) (c\<lparr>partitionData := ?u\<rparr>)
          = serve T ts2 rest 12 (c\<lparr>partitionData := (closed_state h' ?u)\<lparr>newReqSize := 0\<rparr>\<rparr>)
        \<and> flushed (history ?u @ h') s = flushed (history ?u) s @ ?y
        \<and> (\<forall>s'. s' \<noteq> s \<longrightarrow> unwritten s' h') \<and> kept T (closed_state h' ?u) hs"
    proof (rule Cons.IH [OF _ kept' _ _ _ _ _ _ Cons.prems(9) _ Cons.prems(11) x(2) Cons.prems(13) k(2)])
      show "pskey_fits T ?u" using Cons.prems(1) by (simp add: pskey_fits_def)
      show "totalReceivedSize ?u = of_nat (m + length d)" by simp
      show "m + length d + length ?y = n" using Cons.prems(8) len False by simp
      show "\<forall>(t, k)\<in>set ts. 1000 \<le> t - time_start ?u \<and> 1000 \<le> time_start ?u - t" using Cons.prems(15) by simp
      show "length ?y \<le> length ts" using Cons.prems(16) k(1) False by simp
    qed (use Cons.prems(3-5,7,10) in simp_all)
    then obtain ts1 ts2 h' where ih: "ts = ts1 @ ts2" "length ts1 \<le> length ?y"
      "serve T ts (?y @ rest) (length ?y) (c\<lparr>partitionData := ?u\<rparr>)
          = serve T ts2 rest 12 (c\<lparr>partitionData := (closed_state h' ?u)\<lparr>newReqSize := 0\<rparr>\<rparr>)"
      "flushed (history ?u @ h') s = flushed (history ?u) s @ ?y"
      "\<forall>s'. s' \<noteq> s \<longrightarrow> unwritten s' h'" "kept T (closed_state h' ?u) hs"
      by blast
    have e: "closed_state h' ?u = closed_state (h @ h') u" by (simp add: closed_state_def)
    have "flushed (history u @ (h @ h')) s = flushed (history u) s @ x" using ih(4) h(2) x(1) by simp
    moreover have "p # ts = (p # ts1) @ ts2" "length (p # ts1) \<le> length x" using ih(1,2) k(1) False by simp_all
    moreover have "\<forall>s'. s' \<noteq> s \<longrightarrow> unwritten s' (h @ h')" using h(3) ih(5) by simp
    ultimately show ?thesis using ih(3,6) unfolding step e by blast
  qed
qed simp

section \<open>The headers\<close>

text \<open>What a header leaves as it was, and what it asks for next.\<close>

definition same :: "upgrade \<Rightarrow> upgrade \<Rightarrow> bool" where
  "same u v \<longleftrightarrow> dev_variant v = dev_variant u \<and> peer_supported v = peer_supported u
     \<and> upgrade_library_pskey v = upgrade_library_pskey u
     \<and> upgrade_library_pskeyoffset v = upgrade_library_pskeyoffset u"

definition asks :: "UpgradePartitionDataState \<Rightarrow> u32 \<Rightarrow> u32 \<Rightarrow> upgrade \<Rightarrow> bool" where
  "asks st n off v \<longleftrightarrow> data_state v = st \<and> totalReqSize v = n \<and> newReqSize v = n \<and> totalReceivedSize v = 0
     \<and> offset v = off"

definition unflushed :: "upgrade \<Rightarrow> upgrade \<Rightarrow> bool" where
  "unflushed u v \<longleftrightarrow> set (history u) \<subseteq> set (history v)
     \<and> (\<forall>s. flushed (history v) s = flushed (history u) s)"

lemma same_fits: "same u v \<Longrightarrow> pskey_fits T u \<Longrightarrow> pskey_fits T v"
  by (simp add: same_def pskey_fits_def)

lemma header_first_works:
  assumes chip: "working_chip hnd T" and fits: "pskey_fits T u"
    and state: "data_state u = UPGRADE_PARTITION_DATA_STATE_GENERIC_1ST_PART" and n: "14 \<le> n" "n < 2 ^ 32"
  shows "\<exists>v. (\<forall>f now. parse_state f now T (first_part UpgradeFWIFGetHeaderID n) True u = Inr (UPGRADE_HOST_SUCCESS, v))
    \<and> asks UPGRADE_PARTITION_DATA_STATE_HEADER (of_nat n) 0 v \<and> same u v \<and> unflushed u v
    \<and> UpgradePSKeys v = (UpgradePSKeys u)\<lparr>dfu_partition_num := 0\<rparr>
    \<and> signature v = signature u \<and> signatureReceived v = signatureReceived u
    \<and> kept T v (first_part UpgradeFWIFGetHeaderID n)"
proof -
  let ?d = "first_part UpgradeFWIFGetHeaderID n"
  have len: "\<not> (of_nat n :: u32) < of_nat UPGRADE_HEADER_MIN_SECOND_PART_SIZE"
  proof -
    have "unat (of_nat n :: u32) = n" by (rule of_nat_inverse [OF refl]) (use n in simp)
    then show ?thesis using n(1) by (simp add: word_less_nat_alt upgrade_sizes)
  qed
  obtain k at h where u1: "(if peer_supported u then UpgradeClearHeaderPSKeys
        (u\<lparr>dfuHeaderPskey := DFU_HEADER_PSKEY_START, dfuHeaderPskeyOffset := 0\<rparr>) else u) = stored_state k at h u"
      "kept T (stored_state k at h u) []" "\<forall>s. unwritten s h"
  proof (cases "peer_supported u")
    case True
    then show ?thesis using that clear_headers_works [of u T] by (auto simp: kept_def)
  next
    case False
    have "u = stored_state (dfuHeaderPskey u) (dfuHeaderPskeyOffset u) [] u" by (cases u) simp
    then show ?thesis using that [where k = "dfuHeaderPskey u" and at = "dfuHeaderPskeyOffset u" and h = "[]"] False by (simp add: kept_def)
  qed
  obtain k' at' h' where u2: "save_headers T ?d (stored_state k at h u)
        = Inr (UPGRADE_HOST_SUCCESS, stored_state k' at' h' (stored_state k at h u))"
      "kept T (stored_state k' at' h' (stored_state k at h u)) ([] @ ?d)" "only_headers h'"
  proof -
    have "peer_supported (stored_state k at h u) \<longrightarrow> length [] + length ?d < 640" by simp
    moreover have "?d \<noteq> []" by (simp add: first_part_def be4_def)
    ultimately show ?thesis using save_headers_works [OF chip u1(2)] that by blast
  qed
  let ?u2 = "(stored_state k' at' h' (stored_state k at h u))
      \<lparr>UpgradePSKeys := (UpgradePSKeys u)\<lparr>dfu_partition_num := 0\<rparr>\<rparr>"
  have fits': "pskey_fits T ?u2" using fits by (simp add: pskey_fits_def)
  have kept': "kept T ?u2 ?d" using u2(2) unfolding append_Nil by (rule kept_cong) simp_all
  obtain h'' where u3: "UpgradeSavePSKeys T ?u2 = Inr (?u2\<lparr>history := history ?u2 @ h''\<rparr>)"
      "kept T (?u2\<lparr>history := history ?u2 @ h''\<rparr>) ?d" "\<forall>s. unwritten s h''"
    using save_pskeys_kept [OF chip fits' kept'] by blast
  let ?v = "(UpgradePartitionDataRequestData (of_nat n) 0 (?u2\<lparr>history := history ?u2 @ h''\<rparr>))
      \<lparr>data_state := UPGRADE_PARTITION_DATA_STATE_HEADER\<rparr>"
  have "parse_state f now T ?d True u = Inr (UPGRADE_HOST_SUCCESS, ?v)" for f now
    using len u1(1) u2(1) u3(1)
    by (simp add: parse_state_def state UpgradePartitionDataHandleGeneric1stPartState_def first_part_len
        first_part_id HEADER_FIRST_PART_SIZE_def Let_def)
  moreover have "kept T ?v ?d"
    using u3(2) by (rule kept_cong) (simp_all add: UpgradePartitionDataRequestData_def)
  moreover have "unflushed u ?v"
    using u1(3) u2(3) u3(3) only_headers_unwritten
    by (auto simp: unflushed_def UpgradePartitionDataRequestData_def flushed_unwritten)
  ultimately show ?thesis
    by (intro exI [of _ ?v]) (simp add: asks_def same_def UpgradePartitionDataRequestData_def)
qed

lemma header_block_works:
  assumes chip: "working_chip hnd T" and fits: "pskey_fits T u" and kept: "kept T u s"
    and state: "data_state u = UPGRADE_PARTITION_DATA_STATE_HEADER" and ok: "image_ok i" and acc: "accepts u i"
    and room: "peer_supported u \<longrightarrow> length s + length (header_block i) < 640"
  shows "\<exists>v. (\<forall>f now. parse_state f now T (header_block i) True u = Inr (UPGRADE_HOST_SUCCESS, v))
    \<and> asks UPGRADE_PARTITION_DATA_STATE_GENERIC_1ST_PART 12 0 v \<and> same u v \<and> unflushed u v
    \<and> UpgradePSKeys v = (UpgradePSKeys u)\<lparr>version_in_progress := img_version i,
        config_version_in_progress := img_config i, state_of_partitions := UPGRADE_PARTITIONS_UPGRADING\<rparr>
    \<and> signature v = signature u \<and> signatureReceived v = signatureReceived u
    \<and> SigningMode v = last (header_block i) \<and> kept T v (s @ header_block i)"
proof -
  let ?d = "header_block i" and ?n = "length (img_compatible i)"
  have len: "length ?d = 18 + 6 * ?n" "?n \<le> 5" "length (img_variant i) = 8"
    using header_block_length [OF ok] ok by (simp_all add: image_ok_def)
  have n: "unat (of_nat ?n :: u16) = ?n"
    by (rule of_nat_inverse [OF refl]) (use len(2) in simp)
  have variant: "\<not> (dev_variant u \<noteq> [] \<and> \<not> strncmp_zero ID_FIELD_SIZE ?d (dev_variant u @ [0]))"
    using acc strncmp_same [of "img_variant i" _ "[0]"] len(3)
    by (auto simp: accepts_def header_block_def ID_FIELD_SIZE_def)
  let ?u1 = "u\<lparr>UpgradePSKeys := (UpgradePSKeys u)\<lparr>version_in_progress := img_version i,
      config_version_in_progress := img_config i, state_of_partitions := UPGRADE_PARTITIONS_UPGRADING\<rparr>\<rparr>"
  have fits': "pskey_fits T ?u1" using fits by (simp add: pskey_fits_def)
  have kept': "kept T ?u1 s" using kept by (rule kept_cong) simp_all
  obtain h where u2: "UpgradeSavePSKeys T ?u1 = Inr (?u1\<lparr>history := history ?u1 @ h\<rparr>)"
      "kept T (?u1\<lparr>history := history ?u1 @ h\<rparr>) s" "\<forall>s. unwritten s h"
    using save_pskeys_kept [OF chip fits' kept'] by blast
  let ?u2 = "?u1\<lparr>history := history ?u1 @ h\<rparr>"
  obtain k at h' where u3: "save_headers T ?d ?u2 = Inr (UPGRADE_HOST_SUCCESS, stored_state k at h' ?u2)"
      "kept T (stored_state k at h' ?u2) (s @ ?d)" "only_headers h'"
  proof -
    have "peer_supported ?u2 \<longrightarrow> length s + length ?d < 640" using room by simp
    moreover have "?d \<noteq> []" using len(1) by (cases ?d) auto
    ultimately show ?thesis using save_headers_works [OF chip u2(2)] that by blast
  qed
  let ?v = "(UpgradePartitionDataRequestData (of_nat HEADER_FIRST_PART_SIZE) 0 (stored_state k at h' ?u2))
      \<lparr>data_state := UPGRADE_PARTITION_DATA_STATE_GENERIC_1ST_PART, SigningMode := ?d ! (length ?d - 1)\<rparr>"
  have size: "(of_nat (length ?d) :: u16) = of_nat (14 + 4 * ?n + 4 + 2 * ?n)"
    using len(1) by simp
  have ver: "\<lparr>major = major (img_version i), minor = minor (img_version i)\<rparr> = img_version i" by simp
  have checks: "check_versions (version (UpgradePSKeys u)) (config_version (UpgradePSKeys u)) ?d (of_nat ?n)
      = Inr (img_config i, True)"
    using acc by (intro check_versions_spec [OF ok]) (auto simp: accepts_def)
  have "parse_state f now T ?d True u
      = UpgradePartitionDataHandleHeaderState f T ?d True u" for f now
    by (simp add: parse_state_def state)
  also have "UpgradePartitionDataHandleHeaderState f T ?d True u = Inr (UPGRADE_HOST_SUCCESS, ?v)" for f
  proof -
    have fields: "ByteUtilsGet2BytesFromStream (drop ID_FIELD_SIZE ?d) = major (img_version i)"
      "ByteUtilsGet2BytesFromStream (drop (ID_FIELD_SIZE + 2) ?d) = minor (img_version i)"
      "ByteUtilsGet2BytesFromStream (drop (ID_FIELD_SIZE + 4) ?d) = of_nat ?n"
      using header_block_fields(1-3) [OF len(3)] by (simp_all add: ID_FIELD_SIZE_def)
    have short: "\<not> length ?d < ID_FIELD_SIZE + UPGRADE_VERSION_SIZE + UPGRADE_NO_OF_COMPATIBLE_UPGRADES_SIZE"
      using len(1) by (simp add: upgrade_sizes)
    have size': "(of_nat (length ?d) :: u16) = of_nat (ID_FIELD_SIZE + UPGRADE_VERSION_SIZE
        + UPGRADE_NO_OF_COMPATIBLE_UPGRADES_SIZE + 4 * ?n + UPGRADE_NO_OF_COMPATIBLE_PS_VERSION_SIZE + 2 * ?n)"
      using size by (simp add: upgrade_sizes)
    show ?thesis
      unfolding UpgradePartitionDataHandleHeaderState_def Let_def fields n
      using short variant size' by (simp only: if_False if_True not_True_eq_False checks ver u2(1) u3(1) and_then_simps
        sum.case prod.case simp_thms)
  qed
  finally have parse: "parse_state f now T ?d True u = Inr (UPGRADE_HOST_SUCCESS, ?v)" for f now .
  have "kept T ?v (s @ ?d)"
    using u3(2) by (rule kept_cong) (simp_all add: UpgradePartitionDataRequestData_def)
  moreover have "unflushed u ?v"
    using u2(3) u3(3) only_headers_unwritten
    by (auto simp: unflushed_def UpgradePartitionDataRequestData_def flushed_unwritten)
  moreover have "?d ! (length ?d - 1) = last ?d" using len(1) by (subst last_conv_nth) auto
  ultimately show ?thesis using parse
    by (intro exI [of _ ?v]) (simp add: asks_def same_def UpgradePartitionDataRequestData_def HEADER_FIRST_PART_SIZE_def)
qed

lemma section_first_works:
  assumes chip: "working_chip hnd T" and kept: "kept T u s"
    and state: "data_state u = UPGRADE_PARTITION_DATA_STATE_GENERIC_1ST_PART" and n: "4 < n" "n < 2 ^ 32 - 4"
    and room: "peer_supported u \<longrightarrow> length s + 12 < 640"
  defines "d \<equiv> first_part UpgradeFWIFGetPartitionID (PARTITION_SECOND_HEADER_SIZE + n)"
  shows "\<exists>v. (\<forall>f now. parse_state f now T d True u = Inr (UPGRADE_HOST_SUCCESS, v))
    \<and> asks UPGRADE_PARTITION_DATA_STATE_DATA_HEADER 8 0 v \<and> same u v \<and> unflushed u v
    \<and> partitionLength v = of_nat n \<and> UpgradePSKeys v = UpgradePSKeys u
    \<and> signature v = signature u \<and> signatureReceived v = signatureReceived u \<and> SigningMode v = SigningMode u
    \<and> kept T v (s @ d)"
proof -
  have len: "\<not> (of_nat (PARTITION_SECOND_HEADER_SIZE + n) :: u32)
      < of_nat (PARTITION_SECOND_HEADER_SIZE + FIRST_WORD_SIZE)"
  proof -
    have "unat (of_nat (4 + n) :: u32) = 4 + n" by (rule of_nat_inverse [OF refl]) (use n in simp)
    then show ?thesis unfolding word_less_nat_alt upgrade_sizes using n(1) by simp
  qed
  obtain k at h where u1: "save_headers T d u = Inr (UPGRADE_HOST_SUCCESS, stored_state k at h u)"
      "kept T (stored_state k at h u) (s @ d)" "only_headers h"
  proof -
    have "peer_supported u \<longrightarrow> length s + length d < 640" using room by (simp add: d_def)
    moreover have "d \<noteq> []" by (simp add: d_def first_part_def be4_def)
    ultimately show ?thesis using save_headers_works [OF chip kept] that by blast
  qed
  let ?v = "(UpgradePartitionDataRequestData (of_nat (PARTITION_SECOND_HEADER_SIZE + FIRST_WORD_SIZE)) 0
      (stored_state k at h u))\<lparr>data_state := UPGRADE_PARTITION_DATA_STATE_DATA_HEADER,
        partitionLength := of_nat (PARTITION_SECOND_HEADER_SIZE + n) - of_nat PARTITION_SECOND_HEADER_SIZE\<rparr>"
  have "parse_state f now T d True u = Inr (UPGRADE_HOST_SUCCESS, ?v)" for f now
  proof -
    have "parse_state f now T d True u = and_then (save_headers T d u) (\<lambda>u. Inr (UPGRADE_HOST_SUCCESS,
        (UpgradePartitionDataRequestData (of_nat (PARTITION_SECOND_HEADER_SIZE + FIRST_WORD_SIZE)) 0 u)
          \<lparr>data_state := UPGRADE_PARTITION_DATA_STATE_DATA_HEADER,
            partitionLength := of_nat (PARTITION_SECOND_HEADER_SIZE + n) - of_nat PARTITION_SECOND_HEADER_SIZE\<rparr>))"
      unfolding parse_state_def UpgradePartitionDataHandleGeneric1stPartState_def Let_def d_def
        first_part_len [OF id_lengths(2)]
      using len by (simp add: state first_part_id HEADER_FIRST_PART_SIZE_def del: of_nat_add)
    then show ?thesis by (simp add: u1(1))
  qed
  moreover have "kept T ?v (s @ d)"
    using u1(2) by (rule kept_cong) (simp_all add: UpgradePartitionDataRequestData_def)
  moreover have "unflushed u ?v"
    using u1(3) only_headers_unwritten
    by (auto simp: unflushed_def UpgradePartitionDataRequestData_def flushed_unwritten)
  ultimately show ?thesis
    by (intro exI [of _ ?v]) (simp add: asks_def same_def UpgradePartitionDataRequestData_def upgrade_sizes)
qed

text \<open>The first word in the order of the processor, as it goes to the sink.\<close>

definition first_word :: "u8 list \<Rightarrow> u32" where
  "first_word body = push_bit 24 (ucast (body ! 3)) OR push_bit 16 (ucast (body ! 2))
     OR push_bit 8 (ucast (body ! 1)) OR ucast (body ! 0)"

definition section_fits :: "traps \<Rightarrow> u16 \<times> u8 list \<Rightarrow> bool" where
  "section_fits T p \<longleftrightarrow>
     (\<forall>h. case image_size T h (fst p) of Some n \<Rightarrow> of_nat (length (snd p)) \<le> 2 * n | None \<Rightarrow> False)"

lemma section_header_handler:
  assumes chip: "working_chip hnd T" and kept: "kept T u s"
    and state: "data_state u = UPGRADE_PARTITION_DATA_STATE_DATA_HEADER" and ok: "section_ok p"
    and room: "peer_supported u \<longrightarrow> length s + 8 < 640"
  shows "\<exists>k at h m. (\<forall>f now. parse_state f now T (section_header p) True u =
        (let u = (stored_state k at h u)\<lparr>partitionMap := m\<rparr>
         in if last_closed_partition (UpgradePSKeys u) > fst p then
              Inr (UPGRADE_HOST_SUCCESS, (UpgradePartitionDataRequestData 12 (partitionLength u - 4) u)
                \<lparr>data_state := UPGRADE_PARTITION_DATA_STATE_GENERIC_1ST_PART\<rparr>)
            else open_partition now T (fst p) (first_word (snd p)) u))
    \<and> kept T ((stored_state k at h u)\<lparr>partitionMap := m\<rparr>) (s @ section_header p) \<and> only_headers h"
proof -
  let ?d = "section_header p" and ?n = "fst p"
  have body: "4 < length (snd p)" using ok by (simp add: section_ok_def)
  then have len: "length ?d = 8" by (simp add: section_header_def)
  have nums: "ByteUtilsGet2BytesFromStream ?d = 0" "ByteUtilsGet2BytesFromStream (drop 2 ?d) = ?n"
    by (simp_all add: section_header_def)
  have valid: "IsValidPartitionNum ?n" "IsValidSqifNum 0 ?n"
    using ok by (simp_all add: section_ok_def IsValidSqifNum_def)
  have lt: "?n < IMAGE_SECTION_ID_MAX" by (rule section_number [OF ok])
  have word: "?d ! (4 + j) = snd p ! j" if "j < 4" for j
    using that body by (simp add: section_header_def nth_append)
  have w: "push_bit 24 (ucast (?d ! (PARTITION_SECOND_HEADER_SIZE + 3))) OR push_bit 16 (ucast (?d ! (PARTITION_SECOND_HEADER_SIZE + 2)))
      OR push_bit 8 (ucast (?d ! (PARTITION_SECOND_HEADER_SIZE + 1))) OR ucast (?d ! PARTITION_SECOND_HEADER_SIZE)
      = first_word (snd p)"
    unfolding first_word_def PARTITION_SECOND_HEADER_SIZE_def
    using word [of 3] word [of 2] word [of 1] word [of 0] by simp
  obtain k at h where u1: "save_headers T ?d u = Inr (UPGRADE_HOST_SUCCESS, stored_state k at h u)"
      "kept T (stored_state k at h u) (s @ ?d)" "only_headers h"
  proof -
    have "peer_supported u \<longrightarrow> length s + length ?d < 640" using room len by simp
    moreover have "?d \<noteq> []" using len by (cases ?d) auto
    ultimately show ?thesis using save_headers_works [OF chip kept] that by blast
  qed
  let ?m = "partitionMap u OR push_bit (unat ?n) 1"
  have all: "take (PARTITION_SECOND_HEADER_SIZE + FIRST_WORD_SIZE) ?d = ?d" using len by (simp add: upgrade_sizes)
  have "parse_state f now T ?d True u = (let u = (stored_state k at h u)\<lparr>partitionMap := ?m\<rparr>
         in if last_closed_partition (UpgradePSKeys u) > fst p then
              Inr (UPGRADE_HOST_SUCCESS, (UpgradePartitionDataRequestData 12 (partitionLength u - 4) u)
                \<lparr>data_state := UPGRADE_PARTITION_DATA_STATE_GENERIC_1ST_PART\<rparr>)
            else open_partition now T (fst p) (first_word (snd p)) u)" for f now
  proof -
    have "parse_state f now T ?d True u = UpgradePartitionDataHandleDataHeaderState f now T ?d True u"
      by (simp add: parse_state_def state)
    also have "\<dots> = and_then (save_headers T ?d u) (\<lambda>u.
        let (valid, u) = UpgradeFWIFValidateUpdate ?n u
        in if \<not> valid then Inr (UPGRADE_HOST_ERROR_OEM_VALIDATION_FAILED_PARTITION_HEADER1, u)
           else if last_closed_partition (UpgradePSKeys u) > ?n then
             Inr (UPGRADE_HOST_SUCCESS, (UpgradePartitionDataRequestData (of_nat HEADER_FIRST_PART_SIZE)
               (partitionLength u - of_nat FIRST_WORD_SIZE) u)
               \<lparr>data_state := UPGRADE_PARTITION_DATA_STATE_GENERIC_1ST_PART\<rparr>)
           else open_partition now T ?n (first_word (snd p)) u)"
      unfolding UpgradePartitionDataHandleDataHeaderState_def nums all w Let_def
      using valid len by (simp add: upgrade_sizes)
    finally show ?thesis
      unfolding u1(1) and_then_simps UpgradeFWIFValidateUpdate_def using lt by (simp add: upgrade_sizes)
  qed
  moreover have "kept T ((stored_state k at h u)\<lparr>partitionMap := ?m\<rparr>) (s @ ?d)"
    using u1(2) by (rule kept_cong) simp_all
  ultimately show ?thesis using u1(3) by blast
qed

lemma section_skip_works:
  assumes chip: "working_chip hnd T" and kept: "kept T u s"
    and state: "data_state u = UPGRADE_PARTITION_DATA_STATE_DATA_HEADER" and ok: "section_ok p"
    and room: "peer_supported u \<longrightarrow> length s + 8 < 640"
    and closed: "fst p < last_closed_partition (UpgradePSKeys u)"
  shows "\<exists>v. (\<forall>f now. parse_state f now T (section_header p) True u = Inr (UPGRADE_HOST_SUCCESS, v))
    \<and> asks UPGRADE_PARTITION_DATA_STATE_GENERIC_1ST_PART 12 (partitionLength u - 4) v \<and> same u v \<and> unflushed u v
    \<and> UpgradePSKeys v = UpgradePSKeys u
    \<and> signature v = signature u \<and> signatureReceived v = signatureReceived u \<and> SigningMode v = SigningMode u
    \<and> kept T v (s @ section_header p)"
proof -
  obtain k at h m where u1: "\<forall>f now. parse_state f now T (section_header p) True u =
        (let u = (stored_state k at h u)\<lparr>partitionMap := m\<rparr>
         in if last_closed_partition (UpgradePSKeys u) > fst p then
              Inr (UPGRADE_HOST_SUCCESS, (UpgradePartitionDataRequestData 12 (partitionLength u - 4) u)
                \<lparr>data_state := UPGRADE_PARTITION_DATA_STATE_GENERIC_1ST_PART\<rparr>)
            else open_partition now T (fst p) (first_word (snd p)) u)"
    "kept T ((stored_state k at h u)\<lparr>partitionMap := m\<rparr>) (s @ section_header p)" "only_headers h"
    using section_header_handler [OF chip kept state ok room] by blast
  let ?v = "(UpgradePartitionDataRequestData 12 (partitionLength u - 4) ((stored_state k at h u)\<lparr>partitionMap := m\<rparr>))
      \<lparr>data_state := UPGRADE_PARTITION_DATA_STATE_GENERIC_1ST_PART\<rparr>"
  have "parse_state f now T (section_header p) True u = Inr (UPGRADE_HOST_SUCCESS, ?v)" for f now
    using u1(1) closed by (simp add: Let_def)
  moreover have "kept T ?v (s @ section_header p)"
    using u1(2) by (rule kept_cong) (simp_all add: UpgradePartitionDataRequestData_def)
  moreover have "unflushed u ?v"
    using u1(3) only_headers_unwritten
    by (auto simp: unflushed_def UpgradePartitionDataRequestData_def flushed_unwritten)
  ultimately show ?thesis
    by (intro exI [of _ ?v]) (simp add: asks_def same_def UpgradePartitionDataRequestData_def)
qed

text \<open>A section that is not closed is opened; how it goes on depends on what its sink holds.\<close>

lemma section_opened:
  assumes chip: "working_chip hnd T" and kept: "kept T u s"
    and state: "data_state u = UPGRADE_PARTITION_DATA_STATE_DATA_HEADER" and ok: "section_ok p"
    and fits: "section_fits T p" and len: "partitionLength u = of_nat (length (snd p))"
    and room: "peer_supported u \<longrightarrow> length s + 8 < 640"
    and closed: "\<not> fst p < last_closed_partition (UpgradePSKeys u)"
    and off: "off = of_nat (length (flushed (history u) (hnd (fst p))))"
  shows "\<exists>w. (\<forall>f now. parse_state f now T (section_header p) True u =
        (if off + 4 < partitionLength w then
           Inr (UPGRADE_HOST_SUCCESS, (UpgradePartitionDataRequestData (partitionLength w - off - 4) off
             (w\<lparr>time_start := now\<rparr>))\<lparr>data_state := UPGRADE_PARTITION_DATA_STATE_DATA\<rparr>)
         else if off + 4 = partitionLength w then
           and_then (UpgradeFWIFPartitionClose T (hnd (fst p)) w) (\<lambda>w.
             Inr (UPGRADE_HOST_SUCCESS, (UpgradePartitionDataRequestData 12 (off - 4) (w\<lparr>openNextPartition := True\<rparr>))
               \<lparr>data_state := UPGRADE_PARTITION_DATA_STATE_GENERIC_1ST_PART\<rparr>))
         else Inr (UPGRADE_HOST_ERROR_INTERNAL_ERROR_3, w)))
    \<and> same u w \<and> unflushed u w \<and> partitionHdl w = hnd (fst p) \<and> partitionNum w = fst p
    \<and> UpgradePSKeys w = UpgradePSKeys u \<and> partitionLength w = partitionLength u
    \<and> signature w = signature u \<and> signatureReceived w = signatureReceived u \<and> SigningMode w = SigningMode u
    \<and> newReqSize w = newReqSize u
    \<and> kept T w (s @ section_header p) \<and> ImageUpgradeStreamGetSink (fst p) (first_word (snd p)) \<in> set (history w)"
proof -
  let ?n = "fst p" and ?l = "length (snd p)"
  obtain k at h m where u1: "\<forall>f now. parse_state f now T (section_header p) True u =
        (let u = (stored_state k at h u)\<lparr>partitionMap := m\<rparr>
         in if last_closed_partition (UpgradePSKeys u) > fst p then
              Inr (UPGRADE_HOST_SUCCESS, (UpgradePartitionDataRequestData 12 (partitionLength u - 4) u)
                \<lparr>data_state := UPGRADE_PARTITION_DATA_STATE_GENERIC_1ST_PART\<rparr>)
            else open_partition now T (fst p) (first_word (snd p)) u)"
    "kept T ((stored_state k at h u)\<lparr>partitionMap := m\<rparr>) (s @ section_header p)" "only_headers h"
    using section_header_handler [OF chip kept state ok room] by blast
  define v where "v = (stored_state k at h u)\<lparr>partitionMap := m\<rparr>"
  define w where "w = v\<lparr>history := history v @ [ImageUpgradeStreamGetSink ?n (first_word (snd p))],
      partitionNum := ?n, partitionHdl := hnd ?n\<rparr>"
  have flush: "flushed (history w) s = flushed (history u) s" for s
    using u1(3) only_headers_unwritten by (simp add: w_def v_def flushed_unwritten)
  have size: "\<not> partitionLength v > UpgradeFWIFGetPhysPartitionSize T ?n v"
  proof -
    have "case image_size T (history v) ?n of Some n \<Rightarrow> of_nat ?l \<le> 2 * n | None \<Rightarrow> False"
      using fits unfolding section_fits_def by blast
    moreover have "partitionLength v = of_nat ?l" by (simp add: v_def len)
    ultimately show ?thesis
      by (cases "image_size T (history v) ?n") (simp_all add: UpgradeFWIFGetPhysPartitionSize_def not_less)
  qed
  have pos: "UpgradeFWIFPartitionGetOffset T (hnd ?n) w = off"
    using working_chipD(9) [OF chip] flush off by (simp add: UpgradeFWIFPartitionGetOffset_def)
  have hdl: "hnd ?n \<noteq> 0" by (rule working_chipD(7) [OF chip section_number [OF ok]])
  have opened: "PartitionOpen T ?n (first_word (snd p)) v = (hnd ?n, w\<lparr>partitionHdl := partitionHdl v\<rparr>)"
    using hdl working_chipD(6) [OF chip] by (simp add: PartitionOpen_def w_def Let_def)
  have ww: "w\<lparr>partitionHdl := partitionHdl v\<rparr>\<lparr>partitionHdl := hnd ?n\<rparr> = w" by (simp add: w_def)
  have "kept T w (s @ section_header p)"
  proof (rule kept_untouched [OF chip u1(2)])
    show "header_untouched [ImageUpgradeStreamGetSink ?n (first_word (snd p))]" by (simp add: header_untouched_def)
  qed (simp_all add: w_def v_def)
  moreover have "unflushed u w" using flush by (auto simp: unflushed_def w_def v_def)
  moreover have "parse_state f now T (section_header p) True u = open_partition now T ?n (first_word (snd p)) v" for f now
    using u1(1) closed by (simp add: Let_def v_def)
  ultimately show ?thesis
    unfolding open_partition_def opened Let_def prod.case ww pos
    using size hdl by (intro exI [of _ w]) (simp add: upgrade_sizes same_def w_def v_def)
qed

lemma section_open_works:
  assumes chip: "working_chip hnd T" and kept: "kept T u s"
    and state: "data_state u = UPGRADE_PARTITION_DATA_STATE_DATA_HEADER" and ok: "section_ok p"
    and fits: "section_fits T p" and len: "partitionLength u = of_nat (length (snd p))"
    and room: "peer_supported u \<longrightarrow> length s + 8 < 640"
    and closed: "\<not> fst p < last_closed_partition (UpgradePSKeys u)"
    and part: "length (flushed (history u) (hnd (fst p))) = off" "off + 4 < length (snd p)"
  shows "\<exists>v. (\<forall>f now. parse_state f now T (section_header p) True u = Inr (UPGRADE_HOST_SUCCESS, v\<lparr>time_start := now\<rparr>))
    \<and> asks UPGRADE_PARTITION_DATA_STATE_DATA (of_nat (length (snd p) - off - 4)) (of_nat off) v \<and> same u v \<and> unflushed u v
    \<and> partitionHdl v = hnd (fst p) \<and> partitionNum v = fst p \<and> UpgradePSKeys v = UpgradePSKeys u
    \<and> signature v = signature u \<and> signatureReceived v = signatureReceived u \<and> SigningMode v = SigningMode u
    \<and> kept T v (s @ section_header p)
    \<and> ImageUpgradeStreamGetSink (fst p) (first_word (snd p)) \<in> set (history v)"
proof -
  let ?l = "length (snd p)"
  obtain w where w: "\<forall>f now. parse_state f now T (section_header p) True u =
        (if of_nat off + 4 < partitionLength w then
           Inr (UPGRADE_HOST_SUCCESS, (UpgradePartitionDataRequestData (partitionLength w - of_nat off - 4) (of_nat off)
             (w\<lparr>time_start := now\<rparr>))\<lparr>data_state := UPGRADE_PARTITION_DATA_STATE_DATA\<rparr>)
         else if of_nat off + 4 = partitionLength w then
           and_then (UpgradeFWIFPartitionClose T (hnd (fst p)) w) (\<lambda>w.
             Inr (UPGRADE_HOST_SUCCESS, (UpgradePartitionDataRequestData 12 (of_nat off - 4) (w\<lparr>openNextPartition := True\<rparr>))
               \<lparr>data_state := UPGRADE_PARTITION_DATA_STATE_GENERIC_1ST_PART\<rparr>))
         else Inr (UPGRADE_HOST_ERROR_INTERNAL_ERROR_3, w))"
    and f: "same u w" "unflushed u w" "partitionHdl w = hnd (fst p)" "partitionNum w = fst p"
      "UpgradePSKeys w = UpgradePSKeys u" "partitionLength w = partitionLength u" "signature w = signature u"
      "signatureReceived w = signatureReceived u" "SigningMode w = SigningMode u" "kept T w (s @ section_header p)"
      "ImageUpgradeStreamGetSink (fst p) (first_word (snd p)) \<in> set (history w)"
    using section_opened [OF chip kept state ok fits len room closed, of "of_nat off"] part(1) by blast
  let ?x = "(UpgradePartitionDataRequestData (of_nat (?l - off - 4)) (of_nat off) w)
      \<lparr>data_state := UPGRADE_PARTITION_DATA_STATE_DATA\<rparr>"
  have small: "?l < 2 ^ 32 - 4" using ok by (simp add: section_ok_def)
  have less: "(of_nat off + 4 :: u32) < partitionLength w"
  proof -
    have "unat (of_nat (off + 4) :: u32) = off + 4" by (rule of_nat_inverse [OF refl]) (use part(2) small in simp)
    moreover have "unat (of_nat ?l :: u32) = ?l" by (rule of_nat_inverse [OF refl]) (use small in simp)
    ultimately have "(of_nat (off + 4) :: u32) < of_nat ?l" using part(2) by (simp only: word_less_nat_alt)
    then show ?thesis by (simp add: f(6) len)
  qed
  have req: "partitionLength w - of_nat off - 4 = of_nat (?l - off - 4)"
    using part(2) by (simp add: f(6) len of_nat_diff)
  have "parse_state g now T (section_header p) True u = Inr (UPGRADE_HOST_SUCCESS, ?x\<lparr>time_start := now\<rparr>)" for g now
    using w less unfolding req by (simp add: UpgradePartitionDataRequestData_def)
  moreover have "kept T ?x (s @ section_header p)"
    using f(10) by (rule kept_cong) (simp_all add: UpgradePartitionDataRequestData_def)
  moreover have "unflushed u ?x" using f(2) by (simp add: unflushed_def UpgradePartitionDataRequestData_def)
  ultimately show ?thesis
    using f by (intro exI [of _ ?x]) (simp add: asks_def same_def UpgradePartitionDataRequestData_def)
qed

lemma footer_first_works:
  assumes chip: "working_chip hnd T" and kept: "kept T u s"
    and state: "data_state u = UPGRADE_PARTITION_DATA_STATE_GENERIC_1ST_PART" and none: "signature u = None"
    and room: "peer_supported u \<longrightarrow> length s + 12 < 640"
  defines "d \<equiv> first_part UpgradeFWIFGetFooterID EXPECTED_SIGNATURE_SIZE"
  shows "\<exists>v. (\<forall>f now. parse_state f now T d True u = Inr (UPGRADE_HOST_SUCCESS, v))
    \<and> asks UPGRADE_PARTITION_DATA_STATE_FOOTER 256 0 v \<and> same u v \<and> unflushed u v
    \<and> UpgradePSKeys v = UpgradePSKeys u \<and> signature v = Some (replicate 256 0)
    \<and> signatureReceived v = signatureReceived u \<and> SigningMode v = SigningMode u \<and> kept T v (s @ d)"
proof -
  obtain k at h where u1: "save_headers T d u = Inr (UPGRADE_HOST_SUCCESS, stored_state k at h u)"
      "kept T (stored_state k at h u) (s @ d)" "only_headers h"
  proof -
    have "peer_supported u \<longrightarrow> length s + length d < 640" using room by (simp add: d_def)
    moreover have "d \<noteq> []" by (simp add: d_def first_part_def be4_def)
    ultimately show ?thesis using save_headers_works [OF chip kept] that by blast
  qed
  let ?v = "(UpgradePartitionDataRequestData 256 0 (stored_state k at h u))
      \<lparr>signature := Some (replicate 256 0), data_state := UPGRADE_PARTITION_DATA_STATE_FOOTER\<rparr>"
  have "parse_state f now T d True u = Inr (UPGRADE_HOST_SUCCESS, ?v)" for f now
    unfolding parse_state_def UpgradePartitionDataHandleGeneric1stPartState_def Let_def d_def
        first_part_len [OF id_lengths(3)]
    using u1(1) none working_chipD(15) [OF chip]
    by (simp add: state first_part_id HEADER_FIRST_PART_SIZE_def EXPECTED_SIGNATURE_SIZE_def d_def
        UpgradePartitionDataRequestData_def)
  moreover have "kept T ?v (s @ d)"
    using u1(2) by (rule kept_cong) (simp_all add: UpgradePartitionDataRequestData_def)
  moreover have "unflushed u ?v"
    using u1(3) only_headers_unwritten
    by (auto simp: unflushed_def UpgradePartitionDataRequestData_def flushed_unwritten)
  ultimately show ?thesis
    by (intro exI [of _ ?v]) (simp add: asks_def same_def UpgradePartitionDataRequestData_def)
qed

section \<open>The footer\<close>

lemma footer_packet:
  assumes chip: "working_chip hnd T" and kept: "kept T u s" and ne: "d \<noteq> []"
    and sig: "signature u = Some block" "length block = 256" "signatureReceived u = of_nat m" "m + length d \<le> 256"
    and room: "peer_supported u \<longrightarrow> length s + length d < 640"
  shows "\<exists>k at h. (\<forall>c. upgradeHandleFooterState T d c u =
      (let u = stored_state k at h (u\<lparr>signature := Some (take m block @ d @ drop (m + length d) block),
                 signatureReceived := of_nat (m + length d)\<rparr>)
       in if c then Inr (UPGRADE_HOST_DATA_TRANSFER_COMPLETE, u\<lparr>signatureReceived := 0\<rparr>)
          else Inr (UPGRADE_HOST_SUCCESS, u)))
    \<and> kept T (stored_state k at h (u\<lparr>signature := Some (take m block @ d @ drop (m + length d) block),
                 signatureReceived := of_nat (m + length d)\<rparr>)) (s @ d) \<and> only_headers h"
proof -
  let ?u = "u\<lparr>signature := Some (take m block @ d @ drop (m + length d) block),
      signatureReceived := of_nat (m + length d)\<rparr>"
  have m: "unat (signatureReceived u) = m"
    unfolding sig(3) by (rule of_nat_inverse [OF refl]) (use sig(4) in simp)
  have kept': "kept T ?u s" using kept by (rule kept_cong) simp_all
  obtain k at h where u1: "save_headers T d ?u = Inr (UPGRADE_HOST_SUCCESS, stored_state k at h ?u)"
      "kept T (stored_state k at h ?u) (s @ d)" "only_headers h"
    using save_headers_works [OF chip kept' _ ne] room by auto
  have copy: "UpgradePartitionDataCopyFromStream (signature u) m d
      = Inr (Some (take m block @ d @ drop (m + length d) block))"
    using sig by (simp add: UpgradePartitionDataCopyFromStream_def)
  have recv: "signatureReceived u + of_nat (length d) = of_nat (m + length d)" by (simp add: sig(3))
  have "upgradeHandleFooterState T d c u =
      (let u = stored_state k at h ?u
       in if c then Inr (UPGRADE_HOST_DATA_TRANSFER_COMPLETE, u\<lparr>signatureReceived := 0\<rparr>)
          else Inr (UPGRADE_HOST_SUCCESS, u))" for c
    unfolding upgradeHandleFooterState_def m copy sum.case Let_def recv u1(1) and_then_simps ..
  then show ?thesis using u1(2,3) by blast
qed

lemma handle_complete:
  assumes "UpgradePartitionDataParse now T d (partitionData c) = Inr (UPGRADE_HOST_DATA_TRANSFER_COMPLETE, u)"
  shows "\<exists>ms c'. HandleDataTransfer now T True d c = Inr (ms, c')
    \<and> ms \<in> {[INTERNAL_CONTINUE], [INTERNAL_CONTINUE_conditionally]}
    \<and> smState c' = UPGRADE_STATE_DATA_HASH_CHECKING \<and> partitionData c' = u"
  by (cases "peer_is_blocked (peer c) \<or> peer_is_primary (peer c) \<and> peer_is_started (peer c)")
    (simp_all add: HandleDataTransfer_def assms file_size_error_def UpgradeSMSetState_def UpgradeSMMoveToState_def Let_def)

lemma serve_footer:
  assumes chip: "working_chip hnd T"
  shows "kept T u s \<Longrightarrow> data_state u = UPGRADE_PARTITION_DATA_STATE_FOOTER \<Longrightarrow> incompleteData u = []
    \<Longrightarrow> newReqSize u = 0 \<Longrightarrow> totalReceivedSize u = of_nat m \<Longrightarrow> totalReqSize u = 256 \<Longrightarrow> m + length x = 256
    \<Longrightarrow> signature u = Some block \<Longrightarrow> length block = 256 \<Longrightarrow> signatureReceived u = of_nat m \<Longrightarrow> x \<noteq> []
    \<Longrightarrow> (peer_supported u \<longrightarrow> length s + length x < 640)
    \<Longrightarrow> schedule_ok ts \<Longrightarrow> length x \<le> length ts
    \<Longrightarrow> \<exists>ms c'. serve T ts x (length x) (c\<lparr>partitionData := u\<rparr>) = Inr (ms, c')
      \<and> ms \<in> {[INTERNAL_CONTINUE], [INTERNAL_CONTINUE_conditionally]}
      \<and> smState c' = UPGRADE_STATE_DATA_HASH_CHECKING
      \<and> signature (partitionData c') = Some (take m block @ x) \<and> unflushed u (partitionData c')
      \<and> UpgradePSKeys (partitionData c') = UpgradePSKeys u \<and> SigningMode (partitionData c') = SigningMode u
      \<and> kept T (partitionData c') (s @ x) \<and> same u (partitionData c')"
proof (induction ts arbitrary: u x m s block)
  case (Cons p ts)
  obtain now k where p: "p = (now, k)" by (cases p)
  have k: "0 < unat k" "schedule_ok ts" using schedule_ok_Cons Cons.prems(13) p by (auto simp: unat_gt_0)
  define d where "d = take (min (unat k) (length x)) x"
  have d: "d = take (unat k) x" "d \<noteq> []" using k(1) Cons.prems(11) by (auto simp: d_def min_def)
  have ld: "length d \<le> length x" by (simp add: d_def)
  let ?v = "u\<lparr>totalReceivedSize := of_nat (m + length d)\<rparr>"
  have kv: "kept T ?v s" using Cons.prems(1) by (rule kept_cong) simp_all
  let ?sig = "take m block @ d @ drop (m + length d) block"
  let ?w = "\<lambda>k at h. stored_state k at h (?v\<lparr>signature := Some ?sig, signatureReceived := of_nat (m + length d)\<rparr>)"
  obtain k' at h where u1: "\<forall>c. upgradeHandleFooterState T d c ?v = (let u = ?w k' at h
       in if c then Inr (UPGRADE_HOST_DATA_TRANSFER_COMPLETE, u\<lparr>signatureReceived := 0\<rparr>)
          else Inr (UPGRADE_HOST_SUCCESS, u))"
      "kept T (?w k' at h) (s @ d)" "only_headers h"
  proof -
    have "peer_supported ?v \<longrightarrow> length s + length d < 640" using Cons.prems(12) ld by auto
    moreover have "m + length d \<le> 256" using Cons.prems(7) ld by simp
    ultimately show ?thesis
      using footer_packet [OF chip kv d(2), of block m] Cons.prems(8-10) that by auto
  qed
  have r: "unat (of_nat (m + length d) :: u32) = m + length d"
    by (rule of_nat_inverse [OF refl]) (use Cons.prems(7) ld in simp)
  have parse: "UpgradePartitionDataParse now T d u = upgradeHandleFooterState T d (m + length d = 256) ?v"
  proof -
    have "\<not> totalReqSize u < of_nat (m + length d)" "of_nat (m + length d) = totalReqSize u \<longleftrightarrow> m + length d = 256"
      using r Cons.prems(6,7) ld by (auto simp: word_less_nat_alt word_unat_eq_iff)
    moreover have "totalReceivedSize u + of_nat (length d) = of_nat (m + length d)" by (simp add: Cons.prems(5))
    ultimately show ?thesis
      using Cons.prems(2,3)
      by (simp add: UpgradePartitionDataParse_def upgradeParseCompleteData_def parse_state_def Let_def)
  qed
  have unfl: "unflushed u (?w k' at h)"
    using u1(3) only_headers_unwritten by (auto simp: unflushed_def flushed_unwritten)
  show ?case
  proof (cases "length x \<le> unat k")
    case True
    then have dx: "d = x" using d(1) by simp
    then have full: "m + length d = 256" using Cons.prems(7) by simp
    let ?c = "c\<lparr>partitionData := u\<rparr>"
    let ?u = "(?w k' at h)\<lparr>signatureReceived := 0\<rparr>"
    have P: "UpgradePartitionDataParse now T d (partitionData ?c) = Inr (UPGRADE_HOST_DATA_TRANSFER_COMPLETE, ?u)"
      using parse u1(1) full by (simp add: Let_def)
    obtain ms c' where H: "HandleDataTransfer now T (d = x) d ?c = Inr (ms, c')"
      "ms \<in> {[INTERNAL_CONTINUE], [INTERNAL_CONTINUE_conditionally]}"
      "smState c' = UPGRADE_STATE_DATA_HASH_CHECKING" "partitionData c' = ?u"
      using handle_complete [OF P] dx by (metis (full_types))
    from serve_step [OF d_def H(1)] have "serve T (p # ts) x (length x) ?c = Inr (ms, c')"
      unfolding p using H(2) by auto
    moreover have "kept T ?u (s @ x)" using u1(2) unfolding dx by (rule kept_cong) simp_all
    moreover have "unflushed u ?u" using unfl by (simp add: unflushed_def)
    moreover have "signature ?u = Some (take m block @ x)" using dx full Cons.prems(9) by simp
    ultimately show ?thesis using H(2-4) by (intro exI [of _ ms] exI [of _ c']) (simp add: same_def)
  next
    case False
    let ?y = "drop (unat k) x"
    have x: "x = d @ ?y" "?y \<noteq> []" using d(1) False by simp_all
    have len: "length d = unat k" using d(1) False by simp
    have part: "m + length d \<noteq> 256" using Cons.prems(7) len False by simp
    let ?u = "?w k' at h"
    have dnx: "d \<noteq> x" using x(2) by (metis append_self_conv x(1))
    have "HandleDataTransfer now T (d = x) d (c\<lparr>partitionData := u\<rparr>) = Inr ([], c\<lparr>partitionData := ?u\<rparr>)"
      using handle_more [of now T d "c\<lparr>partitionData := u\<rparr>" ?u] parse u1(1) part Cons.prems(4) dnx
      by (simp add: Let_def)
    from serve_step [OF d_def this]
    have step: "serve T (p # ts) x (length x) (c\<lparr>partitionData := u\<rparr>)
        = serve T ts ?y (length ?y) (c\<lparr>partitionData := ?u\<rparr>)"
      unfolding p using len False by simp
    have sig: "take (m + length d) ?sig = take m block @ d"
      using Cons.prems(7,9) ld by simp
    have "\<exists>ms c'. serve T ts ?y (length ?y) (c\<lparr>partitionData := ?u\<rparr>) = Inr (ms, c')
      \<and> ms \<in> {[INTERNAL_CONTINUE], [INTERNAL_CONTINUE_conditionally]}
      \<and> smState c' = UPGRADE_STATE_DATA_HASH_CHECKING
      \<and> signature (partitionData c') = Some (take (m + length d) ?sig @ ?y) \<and> unflushed ?u (partitionData c')
      \<and> UpgradePSKeys (partitionData c') = UpgradePSKeys ?u \<and> SigningMode (partitionData c') = SigningMode ?u
      \<and> kept T (partitionData c') ((s @ d) @ ?y) \<and> same ?u (partitionData c')"
    proof (rule Cons.IH [OF u1(2) _ _ _ _ _ _ _ _ _ x(2) _ k(2)])
      show "m + length d + length ?y = 256" using Cons.prems(7) len False by simp
      show "length ?sig = 256" using Cons.prems(7,9) ld by simp
      show "peer_supported ?u \<longrightarrow> length (s @ d) + length ?y < 640" using Cons.prems(12) len False by simp
      show "length ?y \<le> length ts" using Cons.prems(14) k(1) False by simp
    qed (use Cons.prems(2-4,6) in simp_all)
    then obtain ms c' where ih: "serve T ts ?y (length ?y) (c\<lparr>partitionData := ?u\<rparr>) = Inr (ms, c')"
      "ms \<in> {[INTERNAL_CONTINUE], [INTERNAL_CONTINUE_conditionally]}"
      "smState c' = UPGRADE_STATE_DATA_HASH_CHECKING"
      "signature (partitionData c') = Some (take (m + length d) ?sig @ ?y)" "unflushed ?u (partitionData c')"
      "UpgradePSKeys (partitionData c') = UpgradePSKeys ?u" "SigningMode (partitionData c') = SigningMode ?u"
      "kept T (partitionData c') ((s @ d) @ ?y)" "same ?u (partitionData c')"
      by blast
    have "signature (partitionData c') = Some (take m block @ x)" unfolding ih(4) sig using x(1) by simp
    moreover have "kept T (partitionData c') (s @ x)" using ih(8) x(1) by simp
    moreover have "unflushed u (partitionData c')" using ih(5) unfl by (auto simp: unflushed_def)
    ultimately show ?thesis using ih(1-3,6,7,9) unfolding step
      by (intro exI [of _ ms] exI [of _ c']) (simp add: same_def)
  qed
qed simp

end
