(* ===== verification/Upgrade_Sections.thy ===== *)
theory Upgrade_Sections
  imports Upgrade_Delivery "HOL-Library.Sublist"
begin

text \<open>
  The transfer of a whole file, section by section: a fresh update and one that goes on after an interruption.
\<close>

definition taken :: "upgrade \<Rightarrow> upgrade" where
  "taken u = u\<lparr>incompleteData := [], newReqSize := 0\<rparr>"

lemma taken_simps [simp]:
  "data_state (taken u) = data_state u" "history (taken u) = history u" "UpgradePSKeys (taken u) = UpgradePSKeys u"
  "signature (taken u) = signature u" "signatureReceived (taken u) = signatureReceived u"
  "SigningMode (taken u) = SigningMode u" "partitionLength (taken u) = partitionLength u"
  "partitionHdl (taken u) = partitionHdl u" "partitionNum (taken u) = partitionNum u"
  "time_start (taken u) = time_start u" "peer_supported (taken u) = peer_supported u"
  "incompleteData (taken u) = []" "newReqSize (taken u) = 0" "totalReqSize (taken u) = totalReqSize u"
  "totalReceivedSize (taken u) = totalReceivedSize u"
  by (simp_all add: taken_def)

lemma taken_rel [simp]:
  "same u (taken v) = same u v" "unflushed u (taken v) = unflushed u v" "kept T (taken v) s = kept T v s"
  "pskey_fits T (taken v) = pskey_fits T v" "accepts (taken v) i = accepts v i"
  by (simp_all add: taken_def same_def unflushed_def kept_def saved_def pskey_fits_def accepts_def)

lemma asks_taken: "asks st n off v \<Longrightarrow> unat n = k \<Longrightarrow> asked k (taken v) \<and> data_state (taken v) = st"
  by (auto simp: asks_def asked_def taken_def)

text \<open>A header block, from the request for it to the next request.\<close>

lemma serve_block:
  assumes "header_state u" "asked n u" "length x = n" "0 < n" "n \<le> 48" "rest \<noteq> []" "schedule_ok ts" "n \<le> length ts"
    "\<And>f now. parse_state f now T x True (u\<lparr>totalReceivedSize := totalReqSize u\<rparr>) = Inr (UPGRADE_HOST_SUCCESS, W now)"
    "\<And>now. newReqSize (W now) \<noteq> 0"
  shows "\<exists>ts1 now k ts2. ts = ts1 @ (now, k) # ts2 \<and> length ts1 < n
    \<and> serve T ts (x @ rest) n (c\<lparr>partitionData := u\<rparr>)
      = serve T ts2 (drop (unat (offset (W now))) rest) (unat (newReqSize (W now))) (c\<lparr>partitionData := taken (W now)\<rparr>)"
proof -
  have e: "incompleteData u = []" "totalReceivedSize u = 0" "newReqSize u = 0" "totalReqSize u = of_nat n"
    using assms(2) by (simp_all add: asked_def)
  have "x \<noteq> []" using assms(3,4) by auto
  then show ?thesis
    using serve_fill [of u n x rest ts undefined T W c] assms(1,3-10) e by (simp add: taken_def)
qed

lemma serve_block_end:
  assumes "ts = ts1 @ (now, k) # ts2" "length ts1 < n" "schedule_ok ts"
  shows "schedule_ok ts2" "length ts \<le> length ts2 + n"
    and "\<forall>(t, k)\<in>set ts2. 1000 \<le> t - now \<and> 1000 \<le> now - t"
  using assms by (auto simp: schedule_ok_def sorted_wrt_append)

section \<open>One section\<close>

text \<open>Between two sections: the parser has asked for the next 12 octets.\<close>

definition at_section :: "traps \<Rightarrow> upgrade \<Rightarrow> u8 list \<Rightarrow> bool" where
  "at_section T u s \<longleftrightarrow> data_state u = UPGRADE_PARTITION_DATA_STATE_GENERIC_1ST_PART \<and> asked 12 u
     \<and> signature u = None \<and> signatureReceived u = 0 \<and> kept T u s \<and> pskey_fits T u"

text \<open>What is in the flash is a beginning of the section, and all of it exactly when the section has been closed.\<close>

definition section_ready :: "(u16 \<Rightarrow> u16) \<Rightarrow> upgrade \<Rightarrow> u16 \<times> u8 list \<Rightarrow> bool" where
  "section_ready hnd u p \<longleftrightarrow> prefix (flushed (history u) (hnd (fst p))) (drop 4 (snd p))
     \<and> (fst p < last_closed_partition (UpgradePSKeys u) \<longleftrightarrow> flushed (history u) (hnd (fst p)) = drop 4 (snd p))"

definition last_closed_after :: "u16 \<Rightarrow> u16 \<Rightarrow> u16" where
  "last_closed_after n l = (if n < l then l else n + 1)"

text \<open>What has come of a section.\<close>

definition section_done :: "(u16 \<Rightarrow> u16) \<Rightarrow> u16 \<times> u8 list \<Rightarrow> upgrade \<Rightarrow> upgrade \<Rightarrow> bool" where
  "section_done hnd p u v \<longleftrightarrow> same u v \<and> SigningMode v = SigningMode u \<and> set (history u) \<subseteq> set (history v)
     \<and> flushed (history v) (hnd (fst p)) = drop 4 (snd p)
     \<and> (\<forall>q. q < IMAGE_SECTION_ID_MAX \<and> q \<noteq> fst p \<longrightarrow> flushed (history v) (hnd q) = flushed (history u) (hnd q))
     \<and> UpgradePSKeys v = (UpgradePSKeys u)
         \<lparr>last_closed_partition := last_closed_after (fst p) (last_closed_partition (UpgradePSKeys u))\<rparr>
     \<and> (fst p < last_closed_partition (UpgradePSKeys u)
        \<or> ImageUpgradeStreamGetSink (fst p) (first_word (snd p)) \<in> set (history v))"

lemma header_states:
  "data_state u = UPGRADE_PARTITION_DATA_STATE_GENERIC_1ST_PART \<Longrightarrow> header_state u"
  "data_state u = UPGRADE_PARTITION_DATA_STATE_HEADER \<Longrightarrow> header_state u"
  "data_state u = UPGRADE_PARTITION_DATA_STATE_DATA_HEADER \<Longrightarrow> header_state u"
  by (simp_all add: header_state_def)

text \<open>The handlers see the state with the whole block received.\<close>

lemma received_all:
  "kept T u s \<Longrightarrow> kept T (u\<lparr>totalReceivedSize := r\<rparr>) s"
  "pskey_fits T (u\<lparr>totalReceivedSize := r\<rparr>) = pskey_fits T u"
  "same (u\<lparr>totalReceivedSize := r\<rparr>) v = same u v" "unflushed (u\<lparr>totalReceivedSize := r\<rparr>) v = unflushed u v"
  "accepts (u\<lparr>totalReceivedSize := r\<rparr>) i = accepts u i"
  by (simp_all add: kept_def saved_def pskey_fits_def same_def unflushed_def accepts_def)

lemma section_first_served:
  assumes chip: "working_chip hnd T" and at: "at_section T u s" and ok: "section_ok p"
    and room: "peer_supported u \<longrightarrow> length s + 12 < 640"
    and rest: "rest \<noteq> []" and ts: "schedule_ok ts" "12 \<le> length ts"
  shows "\<exists>ts2 v. serve T ts (first_part UpgradeFWIFGetPartitionID (PARTITION_SECOND_HEADER_SIZE + length (snd p)) @ rest) 12
        (c\<lparr>partitionData := u\<rparr>) = serve T ts2 rest 8 (c\<lparr>partitionData := v\<rparr>)
    \<and> schedule_ok ts2 \<and> length ts \<le> length ts2 + 12
    \<and> data_state v = UPGRADE_PARTITION_DATA_STATE_DATA_HEADER \<and> asked 8 v \<and> same u v \<and> unflushed u v
    \<and> partitionLength v = of_nat (length (snd p)) \<and> UpgradePSKeys v = UpgradePSKeys u
    \<and> signature v = None \<and> signatureReceived v = 0 \<and> SigningMode v = SigningMode u
    \<and> kept T v (s @ first_part UpgradeFWIFGetPartitionID (PARTITION_SECOND_HEADER_SIZE + length (snd p)))"
proof -
  let ?d = "first_part UpgradeFWIFGetPartitionID (PARTITION_SECOND_HEADER_SIZE + length (snd p))"
  let ?u = "u\<lparr>totalReceivedSize := totalReqSize u\<rparr>"
  have u: "data_state u = UPGRADE_PARTITION_DATA_STATE_GENERIC_1ST_PART" "asked 12 u" "signature u = None"
    "signatureReceived u = 0" "kept T u s"
    using at by (simp_all add: at_section_def)
  have body: "4 < length (snd p)" "length (snd p) < 2 ^ 32 - 4" using ok by (simp_all add: section_ok_def)
  obtain v where v: "\<forall>f now. parse_state f now T ?d True ?u = Inr (UPGRADE_HOST_SUCCESS, v)"
    "asks UPGRADE_PARTITION_DATA_STATE_DATA_HEADER 8 0 v" "same ?u v" "unflushed ?u v"
    "partitionLength v = of_nat (length (snd p))" "UpgradePSKeys v = UpgradePSKeys ?u"
    "signature v = signature ?u" "signatureReceived v = signatureReceived ?u" "SigningMode v = SigningMode ?u"
    "kept T v (s @ ?d)"
    using section_first_works [OF chip received_all(1) [OF u(5)] _ body, of "totalReqSize u"] u(1) room by auto
  have "\<exists>ts1 now k ts2. ts = ts1 @ (now, k) # ts2 \<and> length ts1 < 12
      \<and> serve T ts (?d @ rest) 12 (c\<lparr>partitionData := u\<rparr>)
        = serve T ts2 (drop (unat (offset v)) rest) (unat (newReqSize v)) (c\<lparr>partitionData := taken v\<rparr>)"
    using v(1,2) by (intro serve_block [OF header_states(1) [OF u(1)] u(2) _ _ _ rest ts]) (simp_all add: asks_def)
  then obtain ts1 now k ts2 where split: "ts = ts1 @ (now, k) # ts2" "length ts1 < 12"
    and served: "serve T ts (?d @ rest) 12 (c\<lparr>partitionData := u\<rparr>)
        = serve T ts2 (drop (unat (offset v)) rest) (unat (newReqSize v)) (c\<lparr>partitionData := taken v\<rparr>)"
    by blast
  have "serve T ts (?d @ rest) 12 (c\<lparr>partitionData := u\<rparr>) = serve T ts2 rest 8 (c\<lparr>partitionData := taken v\<rparr>)"
    unfolding served using v(2) by (simp add: asks_def)
  moreover have "asked 8 (taken v) \<and> data_state (taken v) = UPGRADE_PARTITION_DATA_STATE_DATA_HEADER"
    using v(2) by (rule asks_taken) simp
  ultimately show ?thesis
    using serve_block_end(1,2) [OF split ts(1)] v(3-10) u(3,4) received_all(3,4)
    by (intro exI [of _ ts2] exI [of _ "taken v"]) simp
qed

lemma section_skip_served:
  assumes chip: "working_chip hnd T"
    and u: "data_state u = UPGRADE_PARTITION_DATA_STATE_DATA_HEADER" "asked 8 u" "kept T u s" "pskey_fits T u"
      "signature u = None" "signatureReceived u = 0"
    and ok: "section_ok p" and len: "partitionLength u = of_nat (length (snd p))"
    and room: "peer_supported u \<longrightarrow> length s + 8 < 640"
    and closed: "fst p < last_closed_partition (UpgradePSKeys u)"
    and rest: "rest \<noteq> []" and ts: "schedule_ok ts" "8 \<le> length ts"
  shows "\<exists>ts2 v. serve T ts (section_header p @ drop 4 (snd p) @ rest) 8 (c\<lparr>partitionData := u\<rparr>)
        = serve T ts2 rest 12 (c\<lparr>partitionData := v\<rparr>)
    \<and> schedule_ok ts2 \<and> length ts \<le> length ts2 + 8
    \<and> at_section T v (s @ section_header p) \<and> same u v \<and> unflushed u v
    \<and> UpgradePSKeys v = UpgradePSKeys u \<and> SigningMode v = SigningMode u"
proof -
  let ?d = "section_header p" and ?b = "drop 4 (snd p)"
  let ?u = "u\<lparr>totalReceivedSize := totalReqSize u\<rparr>"
  have body: "4 < length (snd p)" "length (snd p) < 2 ^ 32 - 4" using ok by (simp_all add: section_ok_def)
  then have d: "length ?d = 8" by (simp add: section_header_def)
  obtain v where v: "\<forall>f now. parse_state f now T ?d True ?u = Inr (UPGRADE_HOST_SUCCESS, v)"
    "asks UPGRADE_PARTITION_DATA_STATE_GENERIC_1ST_PART 12 (partitionLength ?u - 4) v" "same ?u v" "unflushed ?u v"
    "UpgradePSKeys v = UpgradePSKeys ?u" "signature v = signature ?u" "signatureReceived v = signatureReceived ?u"
    "SigningMode v = SigningMode ?u" "kept T v (s @ ?d)"
    using section_skip_works [OF chip received_all(1) [OF u(3)] _ ok, of "totalReqSize u"] u(1) room closed by auto
  have "?b @ rest \<noteq> []" using rest by simp
  then have "\<exists>ts1 now k ts2. ts = ts1 @ (now, k) # ts2 \<and> length ts1 < 8
      \<and> serve T ts (?d @ ?b @ rest) 8 (c\<lparr>partitionData := u\<rparr>)
        = serve T ts2 (drop (unat (offset v)) (?b @ rest)) (unat (newReqSize v)) (c\<lparr>partitionData := taken v\<rparr>)"
    using v(1,2) d by (intro serve_block [OF header_states(3) [OF u(1)] u(2) _ _ _ _ ts]) (simp_all add: asks_def)
  then obtain ts1 now k ts2 where split: "ts = ts1 @ (now, k) # ts2" "length ts1 < 8"
    and served: "serve T ts (?d @ ?b @ rest) 8 (c\<lparr>partitionData := u\<rparr>)
        = serve T ts2 (drop (unat (offset v)) (?b @ rest)) (unat (newReqSize v)) (c\<lparr>partitionData := taken v\<rparr>)"
    by blast
  have off: "unat (offset v) = length ?b"
  proof -
    have "offset v = of_nat (length ?b)" using v(2) len body(1) by (simp add: asks_def of_nat_diff)
    then show ?thesis using body(2) by (simp only:) (rule of_nat_inverse [OF refl], simp)
  qed
  have "serve T ts (?d @ ?b @ rest) 8 (c\<lparr>partitionData := u\<rparr>) = serve T ts2 rest 12 (c\<lparr>partitionData := taken v\<rparr>)"
    unfolding served off using v(2) by (simp add: asks_def)
  moreover have "asked 12 (taken v) \<and> data_state (taken v) = UPGRADE_PARTITION_DATA_STATE_GENERIC_1ST_PART"
    using v(2) by (rule asks_taken) simp
  moreover have "pskey_fits T v" using same_fits [OF v(3)] u(4) received_all(2) by blast
  ultimately show ?thesis
    using serve_block_end(1,2) [OF split ts(1)] v(3-9) u(5,6) received_all(3,4)
    by (intro exI [of _ ts2] exI [of _ "taken v"]) (simp add: at_section_def)
qed

lemma last_closed_update: "k\<lparr>last_closed_partition := last_closed_partition k\<rparr> = k"
  by (cases k) simp

lemma section_open_served:
  assumes chip: "working_chip hnd T"
    and u: "data_state u = UPGRADE_PARTITION_DATA_STATE_DATA_HEADER" "asked 8 u" "kept T u s" "pskey_fits T u"
      "signature u = None" "signatureReceived u = 0"
    and ok: "section_ok p" and fits: "section_fits T p" and len: "partitionLength u = of_nat (length (snd p))"
    and room: "peer_supported u \<longrightarrow> length s + 8 < 640"
    and closed: "\<not> fst p < last_closed_partition (UpgradePSKeys u)"
    and part: "drop 4 (snd p) = flushed (history u) (hnd (fst p)) @ x" "x \<noteq> []"
    and rest: "rest \<noteq> []" and ts: "schedule_ok ts" "8 + length x \<le> length ts"
  shows "\<exists>ts2 v. serve T ts (section_header p @ drop 4 (snd p) @ rest) 8 (c\<lparr>partitionData := u\<rparr>)
        = serve T ts2 rest 12 (c\<lparr>partitionData := v\<rparr>)
    \<and> schedule_ok ts2 \<and> length ts \<le> length ts2 + 8 + length x
    \<and> at_section T v (s @ section_header p) \<and> section_done hnd p u v"
proof -
  let ?d = "section_header p" and ?b = "drop 4 (snd p)" and ?n = "fst p"
  define y where "y = flushed (history u) (hnd ?n)"
  have b: "?b = y @ x" using part(1) by (simp add: y_def)
  let ?u = "u\<lparr>totalReceivedSize := totalReqSize u\<rparr>"
  have body: "4 < length (snd p)" "length (snd p) < 2 ^ 32 - 4" using ok by (simp_all add: section_ok_def)
  then have d: "length ?d = 8" by (simp add: section_header_def)
  have blen: "length (snd p) = 4 + length y + length x" using b body(1) by (metis add.assoc le_add_diff_inverse length_append
    length_drop less_imp_le_nat)
  have xl: "length (snd p) - length y - 4 = length x" using blen by simp
  have off: "length y + 4 < length (snd p)" using blen part(2) by (cases x) auto
  have opened: "\<exists>v. (\<forall>f now. parse_state f now T ?d True ?u = Inr (UPGRADE_HOST_SUCCESS, v\<lparr>time_start := now\<rparr>))
    \<and> asks UPGRADE_PARTITION_DATA_STATE_DATA (of_nat (length (snd p) - length y - 4)) (of_nat (length y)) v
    \<and> same ?u v \<and> unflushed ?u v
    \<and> partitionHdl v = hnd (fst p) \<and> partitionNum v = fst p \<and> UpgradePSKeys v = UpgradePSKeys ?u
    \<and> signature v = signature ?u \<and> signatureReceived v = signatureReceived ?u \<and> SigningMode v = SigningMode ?u
    \<and> kept T v (s @ ?d)
    \<and> ImageUpgradeStreamGetSink (fst p) (first_word (snd p)) \<in> set (history v)"
    using u(1) len room closed off
    by (intro section_open_works [OF chip received_all(1) [OF u(3)] _ ok fits]) (simp_all add: y_def)
  then obtain v where v: "\<forall>f now. parse_state f now T ?d True ?u = Inr (UPGRADE_HOST_SUCCESS, v\<lparr>time_start := now\<rparr>)"
    and vr: "asks UPGRADE_PARTITION_DATA_STATE_DATA (of_nat (length x)) (of_nat (length y)) v"
    and vs: "same ?u v" "unflushed ?u v"
    and vh: "partitionHdl v = hnd ?n" "partitionNum v = ?n" "UpgradePSKeys v = UpgradePSKeys ?u"
      "signature v = signature ?u" "signatureReceived v = signatureReceived ?u" "SigningMode v = SigningMode ?u"
    and vk: "kept T v (s @ ?d)" and sink: "ImageUpgradeStreamGetSink ?n (first_word (snd p)) \<in> set (history v)"
    unfolding xl by blast
  have "?b @ rest \<noteq> []" using rest by simp
  moreover have nz: "(of_nat (length x) :: u32) \<noteq> 0" and xu: "unat (of_nat (length x) :: u32) = length x"
  proof -
    show "unat (of_nat (length x) :: u32) = length x" by (rule of_nat_inverse [OF refl]) (use blen body(2) in simp)
    then show "(of_nat (length x) :: u32) \<noteq> 0" using part(2) by (cases x) auto
  qed
  ultimately have "\<exists>ts1 now k ts2. ts = ts1 @ (now, k) # ts2 \<and> length ts1 < 8
      \<and> serve T ts (?d @ ?b @ rest) 8 (c\<lparr>partitionData := u\<rparr>)
        = serve T ts2 (drop (unat (offset (v\<lparr>time_start := now\<rparr>))) (?b @ rest))
            (unat (newReqSize (v\<lparr>time_start := now\<rparr>))) (c\<lparr>partitionData := taken (v\<lparr>time_start := now\<rparr>)\<rparr>)"
    using v vr d ts(2) by (intro serve_block [OF header_states(3) [OF u(1)] u(2) _ _ _ _ ts(1)]) (simp_all add: asks_def)
  then obtain ts1 now k ts2 where split: "ts = ts1 @ (now, k) # ts2" "length ts1 < 8"
    and served: "serve T ts (?d @ ?b @ rest) 8 (c\<lparr>partitionData := u\<rparr>)
        = serve T ts2 (drop (unat (offset (v\<lparr>time_start := now\<rparr>))) (?b @ rest))
            (unat (newReqSize (v\<lparr>time_start := now\<rparr>))) (c\<lparr>partitionData := taken (v\<lparr>time_start := now\<rparr>)\<rparr>)"
    by blast
  note after = serve_block_end [OF split ts(1)]
  let ?w = "taken (v\<lparr>time_start := now\<rparr>)"
  have ou: "unat (of_nat (length y) :: u32) = length y" by (rule of_nat_inverse [OF refl]) (use blen body(2) in simp)
  have blk: "serve T ts (?d @ ?b @ rest) 8 (c\<lparr>partitionData := u\<rparr>)
      = serve T ts2 (x @ rest) (length x) (c\<lparr>partitionData := ?w\<rparr>)"
    unfolding served using vr ou xu b by (simp add: asks_def)
  have "kept T (v\<lparr>time_start := now\<rparr>) (s @ ?d)" using vk by (rule kept_cong) simp_all
  then have wk: "kept T ?w (s @ ?d)" by simp
  have "pskey_fits T v" using same_fits [OF vs(1)] u(4) received_all(2) by blast
  then have wf: "pskey_fits T ?w" by (simp add: pskey_fits_def taken_def)
  have "\<exists>ts1' ts2' h. ts2 = ts1' @ ts2' \<and> length ts1' \<le> length x
      \<and> serve T ts2 (x @ rest) (length x) (c\<lparr>partitionData := ?w\<rparr>)
        = serve T ts2' rest 12 (c\<lparr>partitionData := (closed_state h ?w)\<lparr>newReqSize := 0\<rparr>\<rparr>)
      \<and> flushed (history ?w @ h) (hnd ?n) = flushed (history ?w) (hnd ?n) @ x
      \<and> (\<forall>s'. s' \<noteq> hnd ?n \<longrightarrow> unwritten s' h) \<and> kept T (closed_state h ?w) (s @ ?d)"
  proof (rule serve_data [OF chip wf wk])
    show "totalReceivedSize ?w = of_nat 0" using vr by (simp add: asks_def)
    show "totalReqSize ?w = of_nat (length x)" using vr by (simp add: asks_def)
    show "length x < 2 ^ 32" using blen body(2) by simp
    show "hnd ?n \<noteq> 0" by (rule working_chipD(7) [OF chip section_number [OF ok]])
    show "\<forall>(t, k)\<in>set ts2. 1000 \<le> t - time_start ?w \<and> 1000 \<le> time_start ?w - t" using after(3) by simp
    show "length x \<le> length ts2" using after(2) ts(2) by simp
  qed (use vr vh rest part(2) after(1) in \<open>simp_all add: asks_def\<close>)
  then obtain ts1' ts2' h where split': "ts2 = ts1' @ ts2'" "length ts1' \<le> length x"
    and data: "serve T ts2 (x @ rest) (length x) (c\<lparr>partitionData := ?w\<rparr>)
        = serve T ts2' rest 12 (c\<lparr>partitionData := (closed_state h ?w)\<lparr>newReqSize := 0\<rparr>\<rparr>)"
    and fl: "flushed (history ?w @ h) (hnd ?n) = flushed (history ?w) (hnd ?n) @ x"
      "\<forall>s'. s' \<noteq> hnd ?n \<longrightarrow> unwritten s' h"
    and zk: "kept T (closed_state h ?w) (s @ ?d)"
    by blast
  let ?z = "(closed_state h ?w)\<lparr>newReqSize := 0\<rparr>"
  have hist: "history ?z = history v @ h" by (simp add: closed_state_def)
  have old: "flushed (history v) k = flushed (history u) k" for k using vs(2) by (simp add: unflushed_def)
  have fin: "section_done hnd p u ?z"
    unfolding section_done_def
  proof (intro conjI allI impI)
    show "same u ?z" using vs(1) by (simp add: same_def closed_state_def taken_def)
    show "SigningMode ?z = SigningMode u" using vh(6) by (simp add: closed_state_def)
    show "set (history u) \<subseteq> set (history ?z)" unfolding hist using vs(2) by (auto simp: unflushed_def)
    show "flushed (history ?z) (hnd ?n) = drop 4 (snd p)"
      unfolding hist using fl(1) old [of "hnd ?n"] part(1) by simp
    show "flushed (history ?z) (hnd q) = flushed (history u) (hnd q)" if "q < IMAGE_SECTION_ID_MAX \<and> q \<noteq> ?n" for q
      unfolding hist using fl(2) old that working_chipD(8) [OF chip _ section_number [OF ok], of q] by (simp add: flushed_unwritten)
    show "UpgradePSKeys ?z = (UpgradePSKeys u)\<lparr>last_closed_partition
        := last_closed_after ?n (last_closed_partition (UpgradePSKeys u))\<rparr>"
      using vh(2,3) closed by (simp add: closed_state_def last_closed_after_def)
    show "?n < last_closed_partition (UpgradePSKeys u)
        \<or> ImageUpgradeStreamGetSink ?n (first_word (snd p)) \<in> set (history ?z)"
      unfolding hist using sink by simp
  qed
  have "at_section T ?z (s @ ?d)"
    using zk wf vh(4,5) u(5,6)
    by (simp add: at_section_def asked_def closed_state_def kept_def saved_def pskey_fits_def)
  moreover have "length ts \<le> length ts2' + 8 + length x" using after(2) split' by simp
  moreover have "schedule_ok ts2'" using after(1) split'(1) schedule_ok_append by blast
  ultimately show ?thesis using fin blk data by (intro exI [of _ ts2'] exI [of _ ?z]) simp
qed

lemma section_file_length: "section_ok p \<Longrightarrow> length (section_file p) = 16 + length (snd p)"
  by (simp add: section_file_def section_header_def section_ok_def)

lemma section_headers_length: "section_ok p \<Longrightarrow> length (section_headers p) = 20"
  by (simp add: section_headers_def section_header_def section_ok_def)

lemma same_trans: "same u v \<Longrightarrow> same v w \<Longrightarrow> same u w"
  by (simp add: same_def)

lemma section_served:
  assumes chip: "working_chip hnd T" and at: "at_section T u s" and ok: "section_ok p" and fits: "section_fits T p"
    and ready: "section_ready hnd u p" and room: "peer_supported u \<longrightarrow> length s + 20 < 640"
    and rest: "rest \<noteq> []" and ts: "schedule_ok ts" "length (section_file p) \<le> length ts"
  shows "\<exists>ts2 v. serve T ts (section_file p @ rest) 12 (c\<lparr>partitionData := u\<rparr>)
        = serve T ts2 rest 12 (c\<lparr>partitionData := v\<rparr>)
    \<and> schedule_ok ts2 \<and> length ts \<le> length ts2 + length (section_file p)
    \<and> at_section T v (s @ section_headers p) \<and> section_done hnd p u v"
proof -
  let ?d = "first_part UpgradeFWIFGetPartitionID (PARTITION_SECOND_HEADER_SIZE + length (snd p))"
  have len: "length (section_file p) = 16 + length (snd p)" "4 < length (snd p)"
    using section_file_length [OF ok] ok by (simp_all add: section_ok_def)
  have layout: "section_file p @ rest = ?d @ section_header p @ drop 4 (snd p) @ rest"
    by (simp add: section_file_def)
  have heads: "section_headers p = ?d @ section_header p" by (simp add: section_headers_def)
  have "section_header p @ drop 4 (snd p) @ rest \<noteq> []" using rest by simp
  from section_first_served [OF chip at ok _ this ts(1), of c] obtain ts1 v where
    v: "serve T ts (section_file p @ rest) 12 (c\<lparr>partitionData := u\<rparr>)
        = serve T ts1 (section_header p @ drop 4 (snd p) @ rest) 8 (c\<lparr>partitionData := v\<rparr>)"
    "schedule_ok ts1" "length ts \<le> length ts1 + 12"
    "data_state v = UPGRADE_PARTITION_DATA_STATE_DATA_HEADER" "asked 8 v" "same u v" "unflushed u v"
    "partitionLength v = of_nat (length (snd p))" "UpgradePSKeys v = UpgradePSKeys u"
    "signature v = None" "signatureReceived v = 0" "SigningMode v = SigningMode u" "kept T v (s @ ?d)"
    using room ts(2) len unfolding layout by auto
  have vf: "pskey_fits T v" using same_fits [OF v(6)] at by (simp add: at_section_def)
  have vroom: "peer_supported v \<longrightarrow> length (s @ ?d) + 8 < 640" using v(6) room by (simp add: same_def)
  show ?thesis
  proof (cases "fst p < last_closed_partition (UpgradePSKeys u)")
    case True
    then have closed: "fst p < last_closed_partition (UpgradePSKeys v)" by (simp add: v(9))
    have full: "flushed (history u) (hnd (fst p)) = drop 4 (snd p)" using ready True by (simp add: section_ready_def)
    have "8 \<le> length ts1" using v(3) ts(2) len by simp
    from section_skip_served [OF chip v(4,5,13) vf v(10,11) ok v(8) vroom closed rest v(2) this, of c]
    obtain ts2 w where w: "serve T ts1 (section_header p @ drop 4 (snd p) @ rest) 8 (c\<lparr>partitionData := v\<rparr>)
        = serve T ts2 rest 12 (c\<lparr>partitionData := w\<rparr>)"
      "schedule_ok ts2" "length ts1 \<le> length ts2 + 8" "at_section T w ((s @ ?d) @ section_header p)"
      "same v w" "unflushed v w" "UpgradePSKeys w = UpgradePSKeys v" "SigningMode w = SigningMode v"
      by auto
    have "section_done hnd p u w"
      unfolding section_done_def
      using w(5-8) v(6,7,9,12) full True same_trans [OF v(6) w(5)]
      by (auto simp: unflushed_def last_closed_after_def last_closed_update)
    moreover have "at_section T w (s @ section_headers p)" using w(4) by (simp add: heads)
    moreover have "length ts \<le> length ts2 + length (section_file p)" using w(3) v(3) len by simp
    ultimately show ?thesis using w(1,2) v(1) by auto
  next
    case False
    then have closed: "\<not> fst p < last_closed_partition (UpgradePSKeys v)" by (simp add: v(9))
    obtain x where x: "drop 4 (snd p) = flushed (history u) (hnd (fst p)) @ x" "x \<noteq> []"
      using ready False by (auto simp: section_ready_def prefix_def)
    then have xv: "drop 4 (snd p) = flushed (history v) (hnd (fst p)) @ x" using v(7) by (simp add: unflushed_def)
    have xl: "length x \<le> length (snd p) - 4" using arg_cong [OF x(1), of length] by simp
    have "8 + length x \<le> length ts1" using v(3) ts(2) len xl by simp
    from section_open_served [OF chip v(4,5,13) vf v(10,11) ok fits v(8) vroom closed xv x(2) rest v(2) this, of c]
    obtain ts2 w where w: "serve T ts1 (section_header p @ drop 4 (snd p) @ rest) 8 (c\<lparr>partitionData := v\<rparr>)
        = serve T ts2 rest 12 (c\<lparr>partitionData := w\<rparr>)"
      "schedule_ok ts2" "length ts1 \<le> length ts2 + 8 + length x" "at_section T w ((s @ ?d) @ section_header p)"
      "section_done hnd p v w"
      by auto
    have "section_done hnd p u w"
      using w(5) v(6,7,9,12) same_trans [OF v(6)] False unfolding section_done_def unflushed_def by auto
    moreover have "at_section T w (s @ section_headers p)" using w(4) by (simp add: heads)
    moreover have "length ts \<le> length ts2 + length (section_file p)" using w(3) v(3) len xl by simp
    ultimately show ?thesis using w(1,2) v(1) by auto
  qed
qed

section \<open>All sections\<close>

lemma last_closed_after_ready:
  assumes "p < q" "l = last_closed_after p l0"
  shows "q < l \<longleftrightarrow> q < l0"
proof (cases "p < l0")
  case False
  have "p + 1 \<le> q" using assms(1) by (rule inc_le)
  then show ?thesis using assms False by (auto simp: last_closed_after_def)
qed (use assms in \<open>simp add: last_closed_after_def\<close>)

lemma section_ready_kept:
  assumes "section_done hnd p u v" "section_ready hnd u q" "fst p < fst q" "section_ok q"
  shows "section_ready hnd v q"
proof -
  have "fst q < IMAGE_SECTION_ID_MAX \<and> fst q \<noteq> fst p" using assms(3) section_number [OF assms(4)] by auto
  then have "flushed (history v) (hnd (fst q)) = flushed (history u) (hnd (fst q))"
    using assms(1) unfolding section_done_def by blast
  moreover have "fst q < last_closed_partition (UpgradePSKeys v) \<longleftrightarrow> fst q < last_closed_partition (UpgradePSKeys u)"
  proof (rule last_closed_after_ready [OF assms(3)])
    show "last_closed_partition (UpgradePSKeys v)
        = last_closed_after (fst p) (last_closed_partition (UpgradePSKeys u))"
      using assms(1) by (simp add: section_done_def)
  qed
  ultimately show ?thesis using assms(2) by (simp add: section_ready_def)
qed

definition sections_done :: "(u16 \<Rightarrow> u16) \<Rightarrow> (u16 \<times> u8 list) list \<Rightarrow> upgrade \<Rightarrow> upgrade \<Rightarrow> bool" where
  "sections_done hnd ps u v \<longleftrightarrow> same u v \<and> SigningMode v = SigningMode u \<and> set (history u) \<subseteq> set (history v)
     \<and> (\<forall>p\<in>set ps. flushed (history v) (hnd (fst p)) = drop 4 (snd p))
     \<and> (\<forall>q. q < IMAGE_SECTION_ID_MAX \<and> q \<notin> fst ` set ps \<longrightarrow> flushed (history v) (hnd q) = flushed (history u) (hnd q))
     \<and> UpgradePSKeys v = (UpgradePSKeys u)
         \<lparr>last_closed_partition := fold last_closed_after (map fst ps) (last_closed_partition (UpgradePSKeys u))\<rparr>
     \<and> (\<forall>p\<in>set ps. fst p < last_closed_partition (UpgradePSKeys u)
        \<or> ImageUpgradeStreamGetSink (fst p) (first_word (snd p)) \<in> set (history v))"

lemma sections_done_Cons:
  assumes "section_done hnd p u v" "sections_done hnd ps v w" "\<forall>q\<in>set ps. fst p < fst q" "section_ok p"
  shows "sections_done hnd (p # ps) u w"
proof -
  have new: "fst p \<notin> fst ` set ps" using assms(3) by force
  have lc: "q < last_closed_partition (UpgradePSKeys v) \<longleftrightarrow> q < last_closed_partition (UpgradePSKeys u)"
    if "fst p < q" for q
    using assms(1) that by (intro last_closed_after_ready [OF that]) (simp add: section_done_def)
  have "\<forall>q\<in>set ps. fst q < last_closed_partition (UpgradePSKeys u)
      \<or> ImageUpgradeStreamGetSink (fst q) (first_word (snd q)) \<in> set (history w)"
    using assms(2,3) lc by (auto simp: sections_done_def)
  then show ?thesis
    using assms(1,2) new same_trans section_number [OF assms(4)] unfolding sections_done_def section_done_def
    by (auto simp: subset_iff)
qed

lemma sections_served:
  assumes chip: "working_chip hnd T"
  shows "at_section T u s \<Longrightarrow> list_all section_ok ps \<Longrightarrow> list_all (section_fits T) ps \<Longrightarrow> sorted_wrt (<) (map fst ps)
    \<Longrightarrow> list_all (section_ready hnd u) ps
    \<Longrightarrow> (peer_supported u \<longrightarrow> length s + length (concat (map section_headers ps)) < 640) \<Longrightarrow> rest \<noteq> []
    \<Longrightarrow> schedule_ok ts \<Longrightarrow> length (concat (map section_file ps)) \<le> length ts
    \<Longrightarrow> \<exists>ts2 v. serve T ts (concat (map section_file ps) @ rest) 12 (c\<lparr>partitionData := u\<rparr>)
        = serve T ts2 rest 12 (c\<lparr>partitionData := v\<rparr>)
      \<and> schedule_ok ts2 \<and> length ts \<le> length ts2 + length (concat (map section_file ps))
      \<and> at_section T v (s @ concat (map section_headers ps)) \<and> sections_done hnd ps u v"
proof (induction ps arbitrary: u s ts)
  case Nil
  then show ?case
    by (intro exI [of _ ts] exI [of _ u]) (simp add: sections_done_def same_def last_closed_update)
next
  case (Cons p ps)
  let ?rest = "concat (map section_file ps) @ rest"
  have p: "section_ok p" "section_fits T p" "section_ready hnd u p" using Cons.prems(2,3,5) by simp_all
  have "?rest \<noteq> []" using Cons.prems(7) by simp
  moreover have "peer_supported u \<longrightarrow> length s + 20 < 640"
    using Cons.prems(6) section_headers_length [OF p(1)] by auto
  moreover have "length (section_file p) \<le> length ts" using Cons.prems(9) by simp
  ultimately obtain ts1 v where v: "serve T ts (section_file p @ ?rest) 12 (c\<lparr>partitionData := u\<rparr>)
        = serve T ts1 ?rest 12 (c\<lparr>partitionData := v\<rparr>)"
      "schedule_ok ts1" "length ts \<le> length ts1 + length (section_file p)"
      "at_section T v (s @ section_headers p)" "section_done hnd p u v"
    using section_served [OF chip Cons.prems(1) p, of ?rest ts c] Cons.prems(8) by blast
  have up: "\<forall>q\<in>set ps. fst p < fst q" using Cons.prems(4) by simp
  have "\<exists>ts2 w. serve T ts1 ?rest 12 (c\<lparr>partitionData := v\<rparr>) = serve T ts2 rest 12 (c\<lparr>partitionData := w\<rparr>)
      \<and> schedule_ok ts2 \<and> length ts1 \<le> length ts2 + length (concat (map section_file ps))
      \<and> at_section T w ((s @ section_headers p) @ concat (map section_headers ps)) \<and> sections_done hnd ps v w"
  proof (rule Cons.IH [OF v(4) _ _ _ _ _ Cons.prems(7) v(2)])
    show "list_all (section_ready hnd v) ps"
      using Cons.prems(2,5) up section_ready_kept [OF v(5)] by (auto simp: list_all_iff)
    show "peer_supported v \<longrightarrow> length (s @ section_headers p) + length (concat (map section_headers ps)) < 640"
      using Cons.prems(6) v(5) by (simp add: section_done_def same_def add.assoc)
    show "length (concat (map section_file ps)) \<le> length ts1" using Cons.prems(9) v(3) by simp
  qed (use Cons.prems(2-4) in simp_all)
  then obtain ts2 w where w: "serve T ts1 ?rest 12 (c\<lparr>partitionData := v\<rparr>) = serve T ts2 rest 12 (c\<lparr>partitionData := w\<rparr>)"
      "schedule_ok ts2" "length ts1 \<le> length ts2 + length (concat (map section_file ps))"
      "at_section T w ((s @ section_headers p) @ concat (map section_headers ps))" "sections_done hnd ps v w"
    by blast
  then show ?case
    using v(1,3) sections_done_Cons [OF v(5) w(5) up p(1)] by (intro exI [of _ ts2] exI [of _ w]) simp
qed

section \<open>The whole file\<close>

text \<open>What the device holds of a file it has taken.\<close>

definition file_stored :: "(u16 \<Rightarrow> u16) \<Rightarrow> traps \<Rightarrow> upgrade_image \<Rightarrow> upgrade \<Rightarrow> upgrade \<Rightarrow> bool" where
  "file_stored hnd T i u v \<longleftrightarrow>
     (\<forall>p\<in>set (img_sections i). flushed (history v) (hnd (fst p)) = drop 4 (snd p))
     \<and> (\<forall>p\<in>set (img_sections i). fst p < last_closed_partition (UpgradePSKeys u)
          \<or> ImageUpgradeStreamGetSink (fst p) (first_word (snd p)) \<in> set (history v))
     \<and> signature v = Some (img_signature i) \<and> SigningMode v = last (header_block i)
     \<and> version_in_progress (UpgradePSKeys v) = img_version i
     \<and> config_version_in_progress (UpgradePSKeys v) = img_config i
     \<and> state_of_partitions (UpgradePSKeys v) = UPGRADE_PARTITIONS_UPGRADING
     \<and> last_closed_partition (UpgradePSKeys v)
         = fold last_closed_after (map fst (img_sections i)) (last_closed_partition (UpgradePSKeys u))
     \<and> (peer_supported u \<longrightarrow> header_keys T (history v) (file_headers i))
     \<and> same u v"

lemma file_served:
  assumes chip: "working_chip hnd T" and img: "image_ok i" and acc: "accepts u i"
    and fits: "list_all (section_fits T) (img_sections i)" and ready: "list_all (section_ready hnd u) (img_sections i)"
    and u: "pskey_fits T u" "data_state u = UPGRADE_PARTITION_DATA_STATE_GENERIC_1ST_PART" "asked 12 u"
      "signature u = None" "signatureReceived u = 0"
    and room: "peer_supported u \<longrightarrow> length (file_headers i) < 640"
    and ts: "schedule_ok ts" "length (upgrade_file i) \<le> length ts"
  shows "\<exists>ms c'. serve T ts (upgrade_file i) 12 (c\<lparr>partitionData := u\<rparr>) = Inr (ms, c')
    \<and> ms \<in> {[INTERNAL_CONTINUE], [INTERNAL_CONTINUE_conditionally]}
    \<and> smState c' = UPGRADE_STATE_DATA_HASH_CHECKING \<and> file_stored hnd T i u (partitionData c')"
proof -
  let ?hb = "header_block i"
  let ?h = "first_part UpgradeFWIFGetHeaderID (length ?hb)"
  let ?f = "first_part UpgradeFWIFGetFooterID EXPECTED_SIGNATURE_SIZE"
  let ?secs = "img_sections i"
  let ?rest1 = "concat (map section_file ?secs) @ ?f @ img_signature i"
  have hb: "length ?hb = 18 + 6 * length (img_compatible i)" "length (img_compatible i) \<le> 5"
    using header_block_length [OF img] img by (simp_all add: image_ok_def)
  have secs: "list_all section_ok ?secs" "sorted_wrt (<) (map fst ?secs)" and sig: "length (img_signature i) = 256"
    using img by (simp_all add: image_ok_def EXPECTED_SIGNATURE_SIZE_def)
  have layout: "upgrade_file i = ?h @ ?hb @ ?rest1" by (simp add: upgrade_file_def footer_file_def)
  have heads: "file_headers i = ((?h @ ?hb) @ concat (map section_headers ?secs)) @ ?f @ img_signature i"
    by (simp add: file_headers_def footer_file_def)
  have flen: "length (upgrade_file i)
      = 12 + length ?hb + length (concat (map section_file ?secs)) + 12 + 256"
    unfolding layout using sig by simp
  let ?u = "u\<lparr>totalReceivedSize := totalReqSize u\<rparr>"
  have n: "14 \<le> length ?hb" "length ?hb < 2 ^ 32" "length ?hb \<le> 48" using hb by simp_all
  have nu: "unat (of_nat (length ?hb) :: u32) = length ?hb" by (rule of_nat_inverse [OF refl]) (use n(2) in simp)
  have nz: "(of_nat (length ?hb) :: u32) \<noteq> 0" using nu n(1) by auto
  \<comment> \<open>first part of the header\<close>
  obtain v where v: "\<forall>f now. parse_state f now T ?h True ?u = Inr (UPGRADE_HOST_SUCCESS, v)"
    "asks UPGRADE_PARTITION_DATA_STATE_HEADER (of_nat (length ?hb)) 0 v" "same ?u v" "unflushed ?u v"
    "UpgradePSKeys v = (UpgradePSKeys ?u)\<lparr>dfu_partition_num := 0\<rparr>"
    "signature v = signature ?u" "signatureReceived v = signatureReceived ?u" "kept T v ?h"
    using header_first_works [OF chip _ _ n(1,2), of ?u] u(1,2) received_all(2) by auto
  have hne: "?hb \<noteq> []" using n(1) by (cases ?hb) auto
  then have "?hb @ ?rest1 \<noteq> []" by simp
  then have "\<exists>ts1 now k ts2. ts = ts1 @ (now, k) # ts2 \<and> length ts1 < 12
      \<and> serve T ts (?h @ ?hb @ ?rest1) 12 (c\<lparr>partitionData := u\<rparr>)
        = serve T ts2 (drop (unat (offset v)) (?hb @ ?rest1)) (unat (newReqSize v)) (c\<lparr>partitionData := taken v\<rparr>)"
    using v(1,2) nz ts(2) flen by (intro serve_block [OF header_states(1) [OF u(2)] u(3) _ _ _ _ ts(1)]) (simp_all add: asks_def)
  then obtain ts0 now0 k0 ts1 where split0: "ts = ts0 @ (now0, k0) # ts1" "length ts0 < 12"
    and served0: "serve T ts (?h @ ?hb @ ?rest1) 12 (c\<lparr>partitionData := u\<rparr>)
        = serve T ts1 (?hb @ ?rest1) (length ?hb) (c\<lparr>partitionData := taken v\<rparr>)"
    using v(2) nu by (auto simp: asks_def)
  note after0 = serve_block_end(1,2) [OF split0 ts(1)]
  \<comment> \<open>header\<close>
  have vt: "asked (length ?hb) (taken v)" "data_state (taken v) = UPGRADE_PARTITION_DATA_STATE_HEADER"
    using asks_taken [OF v(2) nu] by simp_all
  let ?v = "(taken v)\<lparr>totalReceivedSize := totalReqSize (taken v)\<rparr>"
  have vf: "pskey_fits T ?v" using same_fits [OF v(3)] u(1) received_all(2) by simp
  have vk: "kept T ?v ?h" using v(8) received_all(1) by simp
  have va: "accepts ?v i"
    using acc v(3,5) by (simp add: accepts_def same_def taken_def)
  have vr: "peer_supported ?v \<longrightarrow> length ?h + length ?hb < 640"
    using room v(3) unfolding heads by (auto simp: same_def taken_def)
  obtain w where w: "\<forall>f now. parse_state f now T ?hb True ?v = Inr (UPGRADE_HOST_SUCCESS, w)"
    "asks UPGRADE_PARTITION_DATA_STATE_GENERIC_1ST_PART 12 0 w" "same ?v w" "unflushed ?v w"
    "UpgradePSKeys w = (UpgradePSKeys ?v)\<lparr>version_in_progress := img_version i,
        config_version_in_progress := img_config i, state_of_partitions := UPGRADE_PARTITIONS_UPGRADING\<rparr>"
    "signature w = signature ?v" "signatureReceived w = signatureReceived ?v" "SigningMode w = last ?hb"
    "kept T w (?h @ ?hb)"
    using header_block_works [OF chip vf vk _ img va vr] vt(2) by auto
  have r1: "?rest1 \<noteq> []" using sig by auto
  then have "\<exists>ts1' now k ts2. ts1 = ts1' @ (now, k) # ts2 \<and> length ts1' < length ?hb
      \<and> serve T ts1 (?hb @ ?rest1) (length ?hb) (c\<lparr>partitionData := taken v\<rparr>)
        = serve T ts2 (drop (unat (offset w)) ?rest1) (unat (newReqSize w)) (c\<lparr>partitionData := taken w\<rparr>)"
    using w(1,2) n after0(2) ts(2) flen hne
    by (intro serve_block [OF header_states(2) [OF vt(2)] vt(1) _ _ _ _ after0(1)]) (simp_all add: asks_def)
  then obtain ts1' now1 k1 ts2 where split1: "ts1 = ts1' @ (now1, k1) # ts2" "length ts1' < length ?hb"
    and served1: "serve T ts1 (?hb @ ?rest1) (length ?hb) (c\<lparr>partitionData := taken v\<rparr>)
        = serve T ts2 ?rest1 12 (c\<lparr>partitionData := taken w\<rparr>)"
    using w(2) by (auto simp: asks_def)
  note after1 = serve_block_end(1,2) [OF split1 after0(1)]
  \<comment> \<open>sections\<close>
  have uw: "same u w" using v(3) w(3) received_all(3) by (simp add: same_def taken_def)
  have fl: "flushed (history w) s = flushed (history u) s" for s
    using v(4) w(4) by (simp add: unflushed_def)
  have at: "at_section T (taken w) (?h @ ?hb)"
    using asks_taken [OF w(2)] w(6,7,9) v(6,7) u(4,5) same_fits [OF uw u(1)] by (simp add: at_section_def)
  have lc: "last_closed_partition (UpgradePSKeys w) = last_closed_partition (UpgradePSKeys u)"
    using w(5) v(5) by simp
  have wready: "list_all (section_ready hnd (taken w)) ?secs"
    using ready by (simp add: section_ready_def fl lc cong: list.pred_cong)
  have "\<exists>ts3 x. serve T ts2 (concat (map section_file ?secs) @ ?f @ img_signature i) 12 (c\<lparr>partitionData := taken w\<rparr>)
        = serve T ts3 (?f @ img_signature i) 12 (c\<lparr>partitionData := x\<rparr>)
      \<and> schedule_ok ts3 \<and> length ts2 \<le> length ts3 + length (concat (map section_file ?secs))
      \<and> at_section T x ((?h @ ?hb) @ concat (map section_headers ?secs)) \<and> sections_done hnd ?secs (taken w) x"
  proof (rule sections_served [OF chip at secs(1) fits secs(2) wready _ _ after1(1)])
    show "peer_supported (taken w) \<longrightarrow> length (?h @ ?hb) + length (concat (map section_headers ?secs)) < 640"
      using room uw unfolding heads by (auto simp: same_def)
    show "?f @ img_signature i \<noteq> []" using sig by auto
    show "length (concat (map section_file ?secs)) \<le> length ts2" using after0(2) after1(2) ts(2) flen by simp
  qed
  then obtain ts3 x where x: "serve T ts2 ?rest1 12 (c\<lparr>partitionData := taken w\<rparr>)
        = serve T ts3 (?f @ img_signature i) 12 (c\<lparr>partitionData := x\<rparr>)"
      "schedule_ok ts3" "length ts2 \<le> length ts3 + length (concat (map section_file ?secs))"
      "at_section T x ((?h @ ?hb) @ concat (map section_headers ?secs))" "sections_done hnd ?secs (taken w) x"
    by blast
  \<comment> \<open>first part of the footer\<close>
  let ?s = "(?h @ ?hb) @ concat (map section_headers ?secs)"
  have xs: "data_state x = UPGRADE_PARTITION_DATA_STATE_GENERIC_1ST_PART" "asked 12 x" "signature x = None"
    "signatureReceived x = 0" "kept T x ?s"
    using x(4) by (simp_all add: at_section_def)
  have xp: "peer_supported x = peer_supported u" using x(5) uw by (simp add: sections_done_def same_def)
  let ?x = "x\<lparr>totalReceivedSize := totalReqSize x\<rparr>"
  obtain y where y: "\<forall>f now. parse_state f now T ?f True ?x = Inr (UPGRADE_HOST_SUCCESS, y)"
    "asks UPGRADE_PARTITION_DATA_STATE_FOOTER 256 0 y" "same ?x y" "unflushed ?x y"
    "UpgradePSKeys y = UpgradePSKeys ?x" "signature y = Some (replicate 256 0)"
    "signatureReceived y = signatureReceived ?x" "SigningMode y = SigningMode ?x" "kept T y (?s @ ?f)"
  proof -
    have "peer_supported ?x \<longrightarrow> length ?s + 12 < 640" using room xp unfolding heads by auto
    then show ?thesis
      using footer_first_works [OF chip received_all(1) [OF xs(5)], of "totalReqSize x"] xs(1,3) that by auto
  qed
  have t3: "12 + 256 \<le> length ts3" using x(3) after0(2) after1(2) ts(2) flen by simp
  have "img_signature i \<noteq> []" using sig by auto
  then have "\<exists>ts3' now k ts4. ts3 = ts3' @ (now, k) # ts4 \<and> length ts3' < 12
      \<and> serve T ts3 (?f @ img_signature i) 12 (c\<lparr>partitionData := x\<rparr>)
        = serve T ts4 (drop (unat (offset y)) (img_signature i)) (unat (newReqSize y)) (c\<lparr>partitionData := taken y\<rparr>)"
    using y(1,2) t3 by (intro serve_block [OF header_states(1) [OF xs(1)] xs(2) _ _ _ _ x(2)]) (simp_all add: asks_def)
  then obtain ts3' now3 k3 ts4 where split3: "ts3 = ts3' @ (now3, k3) # ts4" "length ts3' < 12"
    and served3: "serve T ts3 (?f @ img_signature i) 12 (c\<lparr>partitionData := x\<rparr>)
        = serve T ts4 (img_signature i) (length (img_signature i)) (c\<lparr>partitionData := taken y\<rparr>)"
    using y(2) sig by (auto simp: asks_def)
  note after3 = serve_block_end(1,2) [OF split3 x(2)]
  \<comment> \<open>signature\<close>
  have "\<exists>ms c'. serve T ts4 (img_signature i) (length (img_signature i)) (c\<lparr>partitionData := taken y\<rparr>) = Inr (ms, c')
      \<and> ms \<in> {[INTERNAL_CONTINUE], [INTERNAL_CONTINUE_conditionally]}
      \<and> smState c' = UPGRADE_STATE_DATA_HASH_CHECKING
      \<and> signature (partitionData c') = Some (take 0 (replicate 256 0) @ img_signature i)
      \<and> unflushed (taken y) (partitionData c')
      \<and> UpgradePSKeys (partitionData c') = UpgradePSKeys (taken y)
      \<and> SigningMode (partitionData c') = SigningMode (taken y)
      \<and> kept T (partitionData c') ((?s @ ?f) @ img_signature i) \<and> same (taken y) (partitionData c')"
  proof (rule serve_footer [OF chip])
    show "peer_supported (taken y) \<longrightarrow> length (?s @ ?f) + length (img_signature i) < 640"
      using room xp y(3) unfolding heads by (auto simp: same_def)
    show "length (img_signature i) \<le> length ts4" using after3(2) t3 sig by simp
  qed (use y xs(4) sig after3(1) \<open>img_signature i \<noteq> []\<close> in \<open>simp_all add: asks_def\<close>)
  then obtain ms c' where z: "serve T ts4 (img_signature i) (length (img_signature i)) (c\<lparr>partitionData := taken y\<rparr>) = Inr (ms, c')"
      "ms \<in> {[INTERNAL_CONTINUE], [INTERNAL_CONTINUE_conditionally]}"
      "smState c' = UPGRADE_STATE_DATA_HASH_CHECKING" "signature (partitionData c') = Some (img_signature i)"
      "unflushed y (partitionData c')" "UpgradePSKeys (partitionData c') = UpgradePSKeys x"
      "SigningMode (partitionData c') = SigningMode x"
      "kept T (partitionData c') ((?s @ ?f) @ img_signature i)" "same y (partitionData c')"
    using y(5,8) by (auto simp: unflushed_def same_def taken_def)
  have run: "serve T ts (upgrade_file i) 12 (c\<lparr>partitionData := u\<rparr>) = Inr (ms, c')"
    unfolding layout served0 served1 x(1) served3 by (rule z(1))
  have "file_stored hnd T i u (partitionData c')"
    unfolding file_stored_def
  proof (intro conjI ballI impI)
    show "flushed (history (partitionData c')) (hnd (fst p)) = drop 4 (snd p)" if "p \<in> set ?secs" for p
      using x(5) that y(4) z(5) by (simp add: sections_done_def unflushed_def)
    show "fst p < last_closed_partition (UpgradePSKeys u)
        \<or> ImageUpgradeStreamGetSink (fst p) (first_word (snd p)) \<in> set (history (partitionData c'))" if "p \<in> set ?secs" for p
      using x(5) that y(4) z(5) lc by (auto simp: sections_done_def unflushed_def)
    show "header_keys T (history (partitionData c')) (file_headers i)" if "peer_supported u"
    proof -
      have "peer_supported (partitionData c')" using z(9) y(3) xp that by (simp add: same_def)
      then show ?thesis using z(8) unfolding heads by (simp add: kept_def saved_def)
    qed
    show "same u (partitionData c')" using uw x(5) y(3) z(9) by (simp add: sections_done_def same_def taken_def)
  qed (use x(5) w(5,8) v(5) z(4,6,7) in \<open>simp_all add: sections_done_def\<close>)
  then show ?thesis using run z(2,3) by blast
qed

end
