(* ===== verification/Upgrade_Properties.thy ===== *)
theory Upgrade_Properties
  imports Upgrade_Sections
begin

text \<open>
  The properties of the firmware update: a file ends up in the flash whatever packets it comes in, also after an interruption; and
  the places where the parser does not do what its comments promise.
\<close>


text \<open>
  C36: The headers of an upgrade file do not depend on packets. However a requested block of up to 48 octets is cut into
  packets that are not empty, and whenever they arrive, the parser returns what it returns for the whole block in one packet
  at the time of the last one: same code, same state, same calls, faults included.
\<close>

theorem upgrade_packets_do_not_matter:
  assumes "data_state u \<in> {UPGRADE_PARTITION_DATA_STATE_GENERIC_1ST_PART, UPGRADE_PARTITION_DATA_STATE_HEADER,
      UPGRADE_PARTITION_DATA_STATE_DATA_HEADER}"
    and "incompleteData u = []" and "totalReceivedSize u = 0" and "totalReqSize u = of_nat n" and "n \<le> 48"
    and "ps \<noteq> []" and "\<forall>(t, d)\<in>set ps. d \<noteq> []" and "length (octets ps) = n"
  shows "feed T ps u = UpgradePartitionDataParse (fst (last ps)) T (octets ps) u"
proof -
  have h: "header_state u" using assms(1) by (auto simp: header_state_def)
  have r: "totalReceivedSize u = of_nat (length (incompleteData u))" using assms(2,3) by simp
  have "octets ps \<noteq> []" using assms(6,7) by (cases ps) auto
  then have "feed T [(fst (last ps), octets ps)] u = feed T ps u"
    using feed_header [OF h r assms(4,5,6,7), of T] feed_header [OF h r assms(4,5), of "[(fst (last ps), octets ps)]" T]
      assms(2,8) by simp
  then show ?thesis by (simp add: feed_Nil and_then_success_iff)
qed

section \<open>Headers longer than the buffer\<close>

lemma incomplete_full:
  assumes "length (incompleteData u) \<le> 48" "48 < length (incompleteData u) + length d"
  shows "UpgradePartitionDataParseIncomplete now T d u = Inr (UPGRADE_HOST_ERROR_BAD_LENGTH_UPGRADE_HEADER, u)"
proof -
  have "unat (of_nat (length (incompleteData u)) :: u8) = length (incompleteData u)"
    by (rule of_nat_inverse [OF refl]) (use assms in simp)
  then have "unat (48 - of_nat (length (incompleteData u)) :: u8) = 48 - length (incompleteData u)"
    using assms(1) by (subst unat_sub) (simp_all add: word_le_nat_alt)
  then have "unat (of_nat UPGRADE_MAX_PARTITION_DATA_BLOCK_SIZE - of_nat (length (incompleteData u)) :: u8) < length d"
    using assms by (simp add: UPGRADE_MAX_PARTITION_DATA_BLOCK_SIZE_def)
  then show ?thesis by (simp only: UpgradePartitionDataParseIncomplete_def Let_def if_True)
qed

lemma feed_too_long:
  assumes "header_state u" "totalReceivedSize u = of_nat (length (incompleteData u))"
    "totalReqSize u = of_nat n" "n < 2 ^ 32" "48 < n" "\<forall>(t, d)\<in>set ps. d \<noteq> []"
    "length (incompleteData u) + length (octets ps) = n" "length (incompleteData u) \<le> 48"
    "incompleteData u = [] \<longrightarrow> 1 < length ps"
  shows "\<exists>u'. feed T ps u = Inr (UPGRADE_HOST_ERROR_BAD_LENGTH_UPGRADE_HEADER, u')"
  using assms
proof (induction ps arbitrary: u)
  case (Cons p ps)
  obtain now d where p: "p = (now, d)" by (cases p)
  let ?b = "incompleteData u"
  define r :: u32 where "r = of_nat (length ?b + length d)"
  let ?w = "u\<lparr>totalReceivedSize := r\<rparr>"
  have le: "length ?b + length d \<le> n" using Cons.prems(7) p by simp
  then have r: "totalReceivedSize u + of_nat (length d) = r" "unat r = length ?b + length d" "unat (totalReqSize u) = n"
    using Cons.prems(2-4) sum32 [of "length ?b" "length d"] sum32 [of n 0] by (simp_all add: r_def)
  then have nlt: "\<not> totalReqSize u < r" using le unfolding word_less_nat_alt by simp
  have hw: "header_state ?w" using Cons.prems(1) by (simp add: header_state_def)
  have more: "ps \<noteq> [] \<Longrightarrow> length ?b + length d < n"
    using Cons.prems(6,7) p by (cases ps) auto
  have parse: "UpgradePartitionDataParse now T d u = UpgradePartitionDataParseIncomplete now T d ?w"
  proof (cases "?b = []")
    case True
    then have "r \<noteq> totalReqSize u" using r(2,3) more Cons.prems(9) by auto
    then show ?thesis
      using True nlt r(1)
      by (simp add: UpgradePartitionDataParse_def upgradeParseCompleteData_def parse_state_incomplete [OF hw] Let_def)
  next
    case False
    then show ?thesis using nlt r(1) by (simp add: UpgradePartitionDataParse_def Let_def)
  qed
  show ?case
  proof (cases "48 < length ?b + length d")
    case True
    then show ?thesis using parse incomplete_full [of ?w d now T] Cons.prems(8) p by (simp add: and_then_def)
  next
    case False
    then have "ps \<noteq> []" using Cons.prems(5,7) p by auto
    then have ne: "r \<noteq> totalReqSize u" using r(2,3) more by auto
    let ?v = "?w\<lparr>incompleteData := ?b @ d\<rparr>"
    have "UpgradePartitionDataParse now T d u = Inr (UPGRADE_HOST_SUCCESS, ?v)"
      unfolding parse by (subst incomplete_kept) (use False ne in simp_all)
    moreover have "\<exists>u'. feed T ps ?v = Inr (UPGRADE_HOST_ERROR_BAD_LENGTH_UPGRADE_HEADER, u')"
      using Cons.prems p False by (intro Cons.IH) (auto simp: header_state_def r_def)
    ultimately show ?thesis using p by simp
  qed
qed simp

text \<open>
  C37: A header longer than 48 octets, as one for six compatible versions is, depends on packets: in one packet
  it is handled like any other, but cut into two or more it is refused as a header of a bad length.
\<close>

theorem upgrade_long_header_depends_on_packets:
  assumes "data_state u = UPGRADE_PARTITION_DATA_STATE_HEADER"
    and "incompleteData u = []" and "totalReceivedSize u = 0" and "totalReqSize u = of_nat n"
    and "48 < n" and "n < 2 ^ 32"
    and "1 < length ps" and "\<forall>(t, d)\<in>set ps. d \<noteq> []" and "length (octets ps) = n"
  shows "(\<exists>u'. feed T ps u = Inr (UPGRADE_HOST_ERROR_BAD_LENGTH_UPGRADE_HEADER, u'))
    \<and> UpgradePartitionDataParse now T (octets ps) u
      = UpgradePartitionDataHandleHeaderState f T (octets ps) True (u\<lparr>totalReceivedSize := totalReqSize u\<rparr>)"
proof
  show "\<exists>u'. feed T ps u = Inr (UPGRADE_HOST_ERROR_BAD_LENGTH_UPGRADE_HEADER, u')"
    using assms by (intro feed_too_long) (auto simp: header_state_def)
  have "UpgradePartitionDataParse now T (octets ps) u
      = parse_state (UpgradePartitionDataParseIncomplete now T) now T (octets ps) True
          (u\<lparr>totalReceivedSize := totalReqSize u\<rparr>)"
    using assms(2-4,9) by (simp add: UpgradePartitionDataParse_def upgradeParseCompleteData_def Let_def)
  also have "\<dots> = parse_state f now T (octets ps) True (u\<lparr>totalReceivedSize := totalReqSize u\<rparr>)"
    by (rule complete_no_callback)
  finally show "UpgradePartitionDataParse now T (octets ps) u
      = UpgradePartitionDataHandleHeaderState f T (octets ps) True (u\<lparr>totalReceivedSize := totalReqSize u\<rparr>)"
    using assms(1) by (simp add: parse_state_def)
qed

text \<open>
  C38: The length check of the header can be passed by a header that is too short: the expected size is computed modulo
  65536, so 20 octets that announce 10923 compatible versions have the right size, and unless the first version
  matches the parser reads on behind the packet.
\<close>

theorem upgrade_header_overread:
  assumes "data_state u = UPGRADE_PARTITION_DATA_STATE_HEADER"
    and "incompleteData u = []" and "totalReceivedSize u = 0" and "totalReqSize u = 20"
    and "length d = 20" and "dev_variant u = []"
    and "d ! 12 = 0x2A" and "d ! 13 = 0xAB"
    and "ByteUtilsGet2BytesFromStream (drop 14 d) \<noteq> major (version (UpgradePSKeys u))"
  shows "UpgradePartitionDataParse now T d u = Inl Over_read"
proof -
  let ?v = "u\<lparr>totalReceivedSize := totalReqSize u\<rparr>"
  have count: "ByteUtilsGet2BytesFromStream (drop 12 d) = 0x2AAB"
    using assms(5,7,8) by (simp add: ByteUtilsGet2BytesFromStream_def)
  have loop: "find_version c (drop 14 d) (unat (0x2AAB :: u16)) = Inl Over_read" if "c = version (UpgradePSKeys u)" for c
  proof -
    have "unat (0x2AAB :: u16) = Suc (Suc 10921)" by simp
    then show ?thesis using assms(5,9) that by (simp only: find_version.simps) (simp add: length_drop)
  qed
  have "UpgradePartitionDataParse now T d u
      = UpgradePartitionDataHandleHeaderState (UpgradePartitionDataParseIncomplete now T) T d True ?v"
    using assms(1-5) by (simp add: UpgradePartitionDataParse_def upgradeParseCompleteData_def parse_state_def Let_def)
  also have "\<dots> = Inl Over_read"
    using assms(5,6) loop
    by (simp add: UpgradePartitionDataHandleHeaderState_def upgrade_sizes count check_versions_def Let_def)
  finally show ?thesis .
qed

section \<open>From the request to start to the last packet\<close>

text \<open>The host asks to start; the flash reports that it has been erased when that was needed.\<close>

definition start_transfer :: "traps \<Rightarrow> UpgradeCtx \<Rightarrow> upgrade_handled" where
  "start_transfer T c =
     (case HandleDataReady T True c of
        Inl e \<Rightarrow> Inl e
      | Inr (ms, c) \<Rightarrow>
          if smState c = UPGRADE_STATE_DATA_TRANSFER then Inr (ms, c)
          else case UpgradeSMEraseStatus T True c of
            Inl e \<Rightarrow> Inl e
          | Inr (ms', c) \<Rightarrow> Inr (ms @ ms', c))"

definition transfer_ready :: "upgrade \<Rightarrow> bool" where
  "transfer_ready u \<longleftrightarrow> data_state u = UPGRADE_PARTITION_DATA_STATE_GENERIC_1ST_PART \<and> asked 12 u
     \<and> signature u = None \<and> signatureReceived u = 0"

lemma start_works:
  assumes "smState c = UPGRADE_STATE_DATA_READY"
    and "upgrade_in_progress_key (UpgradePSKeys (partitionData c)) = UPGRADE_RESUME_POINT_START"
  defines "resume \<equiv> state_of_partitions (UpgradePSKeys (partitionData c)) = UPGRADE_PARTITIONS_UPGRADING
      \<and> 0 < last_closed_partition (UpgradePSKeys (partitionData c)) \<and> \<not> force_erase (partitionData c)"
  shows "\<exists>ms c'. start_transfer T c = Inr (ms, c') \<and> last ms = SendBytesReq 12 0 \<and> smState c' = UPGRADE_STATE_DATA_TRANSFER
    \<and> transfer_ready (partitionData c') \<and> same (partitionData c) (partitionData c')
    \<and> UpgradePSKeys (partitionData c') = UpgradePSKeys (partitionData c)
    \<and> history (partitionData c') = history (partitionData c) @ (if resume then [] else [ImageUpgradeErase])"
proof -
  have req: "ucast (ucast (12 :: u32) :: u16) = (12 :: u32)" by simp
  show ?thesis
  proof (cases resume)
    case True
    then show ?thesis
      using assms(2) unfolding resume_def
      by (simp add: start_transfer_def HandleDataReady_def UpgradePartitionDataInit_def UpgradePartitionDataRequestData_def
          request_first_def UpgradePartitionDataGetNextReqSize_def UpgradeSMSetState_def HEADER_FIRST_PART_SIZE_def
          transfer_ready_def asked_def same_def Let_def req)
  next
    case False
    then have n: "\<not> (state_of_partitions (UpgradePSKeys (partitionData c)) = UPGRADE_PARTITIONS_UPGRADING
      \<and> 0 < last_closed_partition (UpgradePSKeys (partitionData c)) \<and> \<not> force_erase (partitionData c))"
      by (simp add: resume_def)
    obtain u where u: "UpgradePartitionDataInit True (partitionData c) = (True, True, u)"
      "history u = history (partitionData c) @ [ImageUpgradeErase]" "UpgradePSKeys u = UpgradePSKeys (partitionData c)"
      "same (partitionData c) u" "newReqSize u = 12" "transfer_ready (u\<lparr>newReqSize := 0\<rparr>)"
      using n assms(2)
      by (simp add: UpgradePartitionDataInit_def UpgradePartitionsEraseAllManaged_def UpgradePartitionDataRequestData_def
          HEADER_FIRST_PART_SIZE_def transfer_ready_def asked_def same_def Let_def)
    show ?thesis
      using assms(1,2) u False
      by (simp add: start_transfer_def HandleDataReady_def UpgradeSMEraseStatus_def request_first_def
          UpgradePartitionDataGetNextReqSize_def UpgradeSMSetState_def same_def Let_def req)
  qed
qed

lemma ready_after_erase:
  assumes "list_all section_ok ps" "last_closed_partition (UpgradePSKeys u) = 0" "history u = h @ [ImageUpgradeErase]"
  shows "list_all (section_ready hnd u) ps"
proof -
  have "flushed (history u) s = []" for s by (simp add: assms(3) flushed_def flush_step_def)
  moreover have "drop 4 (snd p) \<noteq> []" if "p \<in> set ps" for p
    using assms(1) that by (auto simp: list_all_iff section_ok_def)
  ultimately show ?thesis using assms(2) by (simp add: list_all_iff section_ready_def)
qed

lemma same_accepts: "same u v \<Longrightarrow> UpgradePSKeys v = UpgradePSKeys u \<Longrightarrow> accepts u i \<Longrightarrow> accepts v i"
  by (simp add: accepts_def same_def)

text \<open>
  C34: A fresh update ends with the file in the flash. After the host has asked to start and the flash has been
  erased, it may send a well-formed file the device accepts in packets of any size at any times a millisecond apart: the
  transfer ends with the file taken and the state machine checking the hash, every section holds its contents and was opened with its first word, the signature,
  the versions and the signing mode are those of the file, and with a peer the saved keys hold its headers.
\<close>

theorem upgrade_fresh_file_stored:
  assumes chip: "working_chip hnd T" and img: "image_ok i" and fits: "list_all (section_fits T) (img_sections i)"
    and c: "smState c = UPGRADE_STATE_DATA_READY" "accepts (partitionData c) i" "pskey_fits T (partitionData c)"
      "upgrade_in_progress_key (UpgradePSKeys (partitionData c)) = UPGRADE_RESUME_POINT_START"
    and fresh: "last_closed_partition (UpgradePSKeys (partitionData c)) = 0"
    and room: "peer_supported (partitionData c) \<longrightarrow> length (file_headers i) < 640"
    and ts: "schedule_ok ts" "length (upgrade_file i) \<le> length ts"
  shows "\<exists>ms c1 m c'. start_transfer T c = Inr (ms, c1) \<and> last ms = SendBytesReq 12 0
    \<and> serve T ts (upgrade_file i) 12 c1 = Inr ([m], c')
    \<and> m \<in> {INTERNAL_CONTINUE, INTERNAL_CONTINUE_conditionally}
    \<and> smState c' = UPGRADE_STATE_DATA_HASH_CHECKING
    \<and> file_stored hnd T i (partitionData c1) (partitionData c')"
proof -
  obtain ms c1 where c1: "start_transfer T c = Inr (ms, c1)" "last ms = SendBytesReq 12 0"
    "transfer_ready (partitionData c1)" "same (partitionData c) (partitionData c1)"
    "UpgradePSKeys (partitionData c1) = UpgradePSKeys (partitionData c)"
    "history (partitionData c1) = history (partitionData c) @ [ImageUpgradeErase]"
    using start_works [OF c(1,4), of T] fresh by auto
  let ?u = "partitionData c1"
  have ready: "list_all (section_ready hnd ?u) (img_sections i)"
    using img c1(5,6) fresh by (intro ready_after_erase) (simp_all add: image_ok_def)
  have "\<exists>ms c'. serve T ts (upgrade_file i) 12 (c1\<lparr>partitionData := ?u\<rparr>) = Inr (ms, c')
    \<and> ms \<in> {[INTERNAL_CONTINUE], [INTERNAL_CONTINUE_conditionally]}
    \<and> smState c' = UPGRADE_STATE_DATA_HASH_CHECKING \<and> file_stored hnd T i ?u (partitionData c')"
    using c1(3,4) room
    by (intro file_served [OF chip img same_accepts [OF c1(4,5) c(2)] fits ready same_fits [OF c1(4) c(3)] _ _ _ _ _ ts])
      (simp_all add: transfer_ready_def same_def)
  then show ?thesis using c1(1,2) by auto
qed

text \<open>
  C35: An interrupted update goes on where it stopped. When every section in the flash is the
  beginning of the section of the file, complete exactly when it has been closed, the host sends the same file again: nothing is erased, closed
  sections are skipped, the open one is continued at its position, and at the end the device holds the same as after an
  undisturbed transfer.
\<close>

theorem upgrade_resumed_file_stored:
  assumes chip: "working_chip hnd T" and img: "image_ok i" and fits: "list_all (section_fits T) (img_sections i)"
    and c: "smState c = UPGRADE_STATE_DATA_READY" "accepts (partitionData c) i" "pskey_fits T (partitionData c)"
      "upgrade_in_progress_key (UpgradePSKeys (partitionData c)) = UPGRADE_RESUME_POINT_START"
    and begun: "state_of_partitions (UpgradePSKeys (partitionData c)) = UPGRADE_PARTITIONS_UPGRADING"
      "0 < last_closed_partition (UpgradePSKeys (partitionData c))" "\<not> force_erase (partitionData c)"
    and ready: "list_all (section_ready hnd (partitionData c)) (img_sections i)"
    and room: "peer_supported (partitionData c) \<longrightarrow> length (file_headers i) < 640"
    and ts: "schedule_ok ts" "length (upgrade_file i) \<le> length ts"
  shows "\<exists>ms c1 m c'. start_transfer T c = Inr (ms, c1) \<and> last ms = SendBytesReq 12 0
    \<and> history (partitionData c1) = history (partitionData c)
    \<and> serve T ts (upgrade_file i) 12 c1 = Inr ([m], c')
    \<and> m \<in> {INTERNAL_CONTINUE, INTERNAL_CONTINUE_conditionally}
    \<and> smState c' = UPGRADE_STATE_DATA_HASH_CHECKING
    \<and> file_stored hnd T i (partitionData c) (partitionData c')"
proof -
  obtain ms c1 where c1: "start_transfer T c = Inr (ms, c1)" "last ms = SendBytesReq 12 0"
    "transfer_ready (partitionData c1)" "same (partitionData c) (partitionData c1)"
    "UpgradePSKeys (partitionData c1) = UpgradePSKeys (partitionData c)"
    "history (partitionData c1) = history (partitionData c)"
    using start_works [OF c(1,4), of T] begun by auto
  let ?u = "partitionData c1"
  have ready': "list_all (section_ready hnd ?u) (img_sections i)"
    using ready c1(5,6) by (simp add: section_ready_def cong: list.pred_cong)
  have "\<exists>ms c'. serve T ts (upgrade_file i) 12 (c1\<lparr>partitionData := ?u\<rparr>) = Inr (ms, c')
    \<and> ms \<in> {[INTERNAL_CONTINUE], [INTERNAL_CONTINUE_conditionally]}
    \<and> smState c' = UPGRADE_STATE_DATA_HASH_CHECKING \<and> file_stored hnd T i ?u (partitionData c')"
    using c1(3,4) room
    by (intro file_served [OF chip img same_accepts [OF c1(4,5) c(2)] fits ready' same_fits [OF c1(4) c(3)] _ _ _ _ _ ts])
      (simp_all add: transfer_ready_def same_def)
  moreover have "file_stored hnd T i ?u v = file_stored hnd T i (partitionData c) v" for v
    using c1(4,5) by (simp add: file_stored_def same_def)
  ultimately show ?thesis using c1(1,2,6) by auto
qed

section \<open>A chip, an image and a schedule\<close>

definition key_step :: "u16 \<Rightarrow> u8 list \<Rightarrow> trap \<Rightarrow> u8 list" where
  "key_step k d e = (case e of PsStore k' x \<Rightarrow> if k' = k then x else d | _ \<Rightarrow> d)"

definition model_chip :: traps where
  "model_chip = \<lparr>ps_store = \<lambda>h k d. of_nat (length d div 2),
     ps_retrieve = \<lambda>h k. take 64 (foldl (key_step k) [] h), ps_free_count = \<lambda>h n. 100,
     image_size = \<lambda>h p. Some 0x1000, get_sink = \<lambda>h p w. p + 1,
     sink_position = \<lambda>h s. of_nat (length (flushed h s)), sink_map = \<lambda>h s. True, sink_slack = \<lambda>h s. 20,
     sink_claim = \<lambda>h s n. 0, sink_flush = \<lambda>h s d. True, sink_close = \<lambda>h s. True,
     heap_has = \<lambda>h n. True, stack_garbage = replicate 64 0xAA, pskey_image = \<lambda>p. replicate 40 0\<rparr>"

lemma model_chip_works: "working_chip (\<lambda>p. p + 1) model_chip"
proof -
  have "p + 1 \<noteq> 0" if "p < IMAGE_SECTION_ID_MAX" for p :: u16
  proof
    assume "p + 1 = 0"
    then have "p = - 1" by (simp add: eq_neg_iff_add_eq_0)
    then show False using that by (simp add: IMAGE_SECTION_ID_MAX_def)
  qed
  then show ?thesis
    by (auto simp: working_chip_def model_chip_def key_step_def inj_on_def
        UPGRADE_PS_WRITES_FOR_CRITICAL_OPERATIONS_def split: trap.split)
qed

definition model_image :: upgrade_image where
  "model_image = \<lparr>img_variant = [1, 2, 3, 4, 5, 6, 7, 8], img_version = \<lparr>major = 2, minor = 0\<rparr>,
     img_compatible = [\<lparr>major = 1, minor = 0xFFFF\<rparr>], img_config = 5, img_compatible_configs = [4],
     img_sections = [(5, [0, 1, 2, 3, 10, 11, 12, 13, 14, 15]), (9, [0, 1, 2, 3, 20, 21, 22, 23, 24, 25, 26, 27])],
     img_signature = replicate 256 7\<rparr>"

definition model_upgrade :: upgrade where
  "model_upgrade = \<lparr>time_start = 0, newReqSize = 0, totalReqSize = 0, totalReceivedSize = 0, offset = 0,
     incompleteData = [], data_state = UPGRADE_PARTITION_DATA_STATE_GENERIC_1ST_PART, partitionHdl = 0,
     partitionLength = 0, signature = None, signatureReceived = 0, openNextPartition = False,
     dfuHeaderPskey = 0, dfuHeaderPskeyOffset = 0, partitionNum = 0, partitionMap = 0, SigningMode = 0,
     UpgradePSKeys = \<lparr>version = \<lparr>major = 1, minor = 0\<rparr>, config_version = 4,
       state_of_partitions = UPGRADE_PARTITIONS_ERASED, version_in_progress = \<lparr>major = 0, minor = 0\<rparr>,
       config_version_in_progress = 0, upgrade_in_progress_key = UPGRADE_RESUME_POINT_START,
       last_closed_partition = 0, dfu_partition_num = 0\<rparr>,
     dev_variant = [1, 2, 3, 4, 5, 6, 7, 8], peer_supported = True, upgrade_library_pskey = 7,
     upgrade_library_pskeyoffset = 0, force_erase = False, history = []\<rparr>"

definition model_context :: "upgrade \<Rightarrow> UpgradeCtx" where
  "model_context u = \<lparr>smState = UPGRADE_STATE_DATA_READY, always_ask = False, battery_low = False,
     isImgUpgradeEraseDone = False, isCsrValidDoneReqReceived = False, isImgUpgradeCopyDone = False,
     ImgUpgradeCopyStatus = False, asynchronous_abort = False,
     peer = \<lparr>peer_is_primary = True, peer_is_started = False, peer_is_blocked = False\<rparr>, partitionData = u\<rparr>"

text \<open>Interrupted in the second section.\<close>

definition model_interrupted :: upgrade where
  "model_interrupted = model_upgrade\<lparr>
     UpgradePSKeys := (UpgradePSKeys model_upgrade)\<lparr>state_of_partitions := UPGRADE_PARTITIONS_UPGRADING,
       last_closed_partition := 6\<rparr>,
     history := [ImageUpgradeErase, ImageUpgradeStreamGetSink 5 0x03020100, SinkFlushBlocking 6 [10, 11, 12, 13, 14, 15],
       SinkClose 6, ImageUpgradeStreamGetSink 9 0x03020100, SinkFlushBlocking 10 [20, 21, 22]]\<rparr>"

definition regular_schedule :: "nat \<Rightarrow> (u32 \<times> u16) list" where
  "regular_schedule n = map (\<lambda>i. (of_nat (1000 * i), 20)) [0..<n]"

lemma regular_gap:
  assumes "i < j" "j < 1000000"
  shows "1000 \<le> (of_nat (1000 * j) - of_nat (1000 * i) :: u32)" "1000 \<le> (of_nat (1000 * i) - of_nat (1000 * j) :: u32)"
proof -
  have ui: "unat (of_nat (1000 * i) :: u32) = 1000 * i" by (rule of_nat_inverse [OF refl]) (use assms in simp)
  have uj: "unat (of_nat (1000 * j) :: u32) = 1000 * j" by (rule of_nat_inverse [OF refl]) (use assms in simp)
  have d: "(of_nat (1000 * j) - of_nat (1000 * i) :: u32) = of_nat (1000 * (j - i))"
    using assms(1) by (simp add: of_nat_diff right_diff_distrib)
  have ud: "unat (of_nat (1000 * (j - i)) :: u32) = 1000 * (j - i)" by (rule of_nat_inverse [OF refl]) (use assms in simp)
  show "1000 \<le> (of_nat (1000 * j) - of_nat (1000 * i) :: u32)"
    unfolding d word_le_nat_alt ud using assms(1) by simp
  define k where "k = 1000 * (j - i)"
  have k: "k < 2 ^ 30" using assms by (simp add: k_def)
  have "(of_nat (1000 * i) - of_nat (1000 * j) :: u32) = - of_nat k"
    unfolding k_def d [symmetric] by simp
  also have "\<dots> = of_nat (2 ^ 32 - k)" using k by (subst of_nat_diff) simp_all
  finally have e: "(of_nat (1000 * i) - of_nat (1000 * j) :: u32) = of_nat (2 ^ 32 - k)" .
  have "unat (of_nat (2 ^ 32 - k) :: u32) = 2 ^ 32 - k"
    by (rule of_nat_inverse [OF refl]) (use assms(1) in \<open>simp add: k_def\<close>)
  then show "1000 \<le> (of_nat (1000 * i) - of_nat (1000 * j) :: u32)"
    unfolding e word_le_nat_alt using k by simp
qed

lemma regular_schedule_ok:
  assumes "n \<le> 1000000"
  shows "schedule_ok (regular_schedule n)"
proof -
  define R where "R = (\<lambda>(t :: u32, k :: u16) (t', k' :: u16). 1000 \<le> t' - t \<and> 1000 \<le> t - t')"
  define g where "g = (\<lambda>i :: nat. (of_nat (1000 * i) :: u32, 20 :: u16))"
  have "R (g i) (g j)" if "i < j" "j < n" for i j
    using regular_gap [OF that(1)] that(2) assms by (simp add: R_def g_def del: of_nat_mult)
  then have "sorted_wrt (\<lambda>i j. R (g i) (g j)) [0..<n]"
    by (auto simp: sorted_wrt_iff_nth_less)
  then have "sorted_wrt R (map g [0..<n])" by (simp add: sorted_wrt_map)
  then show ?thesis by (auto simp: schedule_ok_def regular_schedule_def R_def g_def)
qed

lemma model_image_ok: "image_ok model_image"
  by (simp add: image_ok_def model_image_def section_ok_def IsValidPartitionNum_def image_sections EXPECTED_SIGNATURE_SIZE_def)

lemma model_image_fits: "list_all (section_fits model_chip) (img_sections model_image)"
  by (simp add: model_image_def section_fits_def model_chip_def word_le_nat_alt)

lemma model_image_lengths: "length (upgrade_file model_image) = 358" "length (file_headers model_image) = 344"
  by (simp_all add: upgrade_file_def file_headers_def footer_file_def header_block_def section_file_def section_headers_def
      section_header_def model_image_def)

lemma model_pskey_fits: "pskey_fits model_chip model_upgrade" "pskey_fits model_chip model_interrupted"
  by (simp_all add: pskey_fits_def model_chip_def model_upgrade_def model_interrupted_def DFU_HEADER_PSKEY_START_def)

lemma model_accepts: "accepts model_upgrade model_image" "accepts model_interrupted model_image"
  by (simp_all add: accepts_def model_upgrade_def model_interrupted_def model_image_def version_matches_def)

lemma upgrade_fresh_file_stored_witness:
  "\<exists>ms c1 m c'. start_transfer model_chip (model_context model_upgrade) = Inr (ms, c1) \<and> last ms = SendBytesReq 12 0
    \<and> serve model_chip (regular_schedule 400) (upgrade_file model_image) 12 c1 = Inr ([m], c')
    \<and> m \<in> {INTERNAL_CONTINUE, INTERNAL_CONTINUE_conditionally}
    \<and> smState c' = UPGRADE_STATE_DATA_HASH_CHECKING
    \<and> file_stored (\<lambda>p. p + 1) model_chip model_image (partitionData c1) (partitionData c')"
  by (rule upgrade_fresh_file_stored [OF model_chip_works model_image_ok model_image_fits _ _ _ _ _ _ regular_schedule_ok])
    (use model_accepts(1) model_pskey_fits(1) in
      \<open>simp_all add: model_context_def model_image_lengths regular_schedule_def, simp_all add: model_upgrade_def\<close>)

lemma upgrade_resumed_file_stored_witness:
  "\<exists>ms c1 m c'. start_transfer model_chip (model_context model_interrupted) = Inr (ms, c1) \<and> last ms = SendBytesReq 12 0
    \<and> history (partitionData c1) = history (partitionData (model_context model_interrupted))
    \<and> serve model_chip (regular_schedule 400) (upgrade_file model_image) 12 c1 = Inr ([m], c')
    \<and> m \<in> {INTERNAL_CONTINUE, INTERNAL_CONTINUE_conditionally}
    \<and> smState c' = UPGRADE_STATE_DATA_HASH_CHECKING
    \<and> file_stored (\<lambda>p. p + 1) model_chip model_image (partitionData (model_context model_interrupted)) (partitionData c')"
proof (rule upgrade_resumed_file_stored [OF model_chip_works model_image_ok model_image_fits _ _ _ _ _ _ _ _ _ regular_schedule_ok])
  show "list_all (section_ready (\<lambda>p. p + 1) (partitionData (model_context model_interrupted))) (img_sections model_image)"
    by (simp add: model_context_def model_interrupted_def model_upgrade_def model_image_def section_ready_def flushed_def
        flush_step_def)
qed (use model_accepts(2) model_pskey_fits(2) in
      \<open>simp_all add: model_context_def model_image_lengths regular_schedule_def,
       simp_all add: model_interrupted_def model_upgrade_def\<close>)

section \<open>Where a transfer goes wrong\<close>

text \<open>
  C39: The last packet of a section divides by zero when it is handled within a millisecond of the header of the section,
  because the data rate is computed from the duration in milliseconds.
\<close>

theorem upgrade_section_in_a_millisecond_divides_by_zero:
  assumes chip: "working_chip hnd T" and state: "data_state u = UPGRADE_PARTITION_DATA_STATE_DATA" "incompleteData u = []"
    and count: "totalReceivedSize u + of_nat (length d) = totalReqSize u"
    and handle: "partitionHdl u \<noteq> 0" and time: "now - time_start u < 1000"
  shows "UpgradePartitionDataParse now T d u = Inl Division_by_zero"
proof -
  let ?u = "u\<lparr>totalReceivedSize := totalReqSize u\<rparr>"
  have d: "uint (now - time_start u) < 1000" using time by (simp add: word_less_def)
  then have "sint (now - time_start u) = uint (now - time_start u)"
    by (subst sint_uint, intro signed_take_bit_int_eq_self) (auto intro: order_trans [OF _ uint_ge_0])
  then have zero: "(word_of_int (sint (now - time_start u) sdiv 1000) :: u32) = 0"
    using d by (simp add: signed_divide_int_def)
  obtain h where "UpgradeFWIFPartitionWrite T (partitionHdl u) d ?u = Inr (of_nat (length d), ?u\<lparr>history := history ?u @ h\<rparr>)"
    using partition_write_works [OF chip handle, of d ?u] by blast
  then have "UpgradePartitionDataHandleDataState now T d True ?u = Inl Division_by_zero"
    using zero by (simp add: UpgradePartitionDataHandleDataState_def Let_def)
  then show ?thesis
    using state count by (simp add: UpgradePartitionDataParse_def upgradeParseCompleteData_def parse_state_def Let_def)
qed

lemma upgrade_section_in_a_millisecond_divides_by_zero_witness:
  "UpgradePartitionDataParse 5 model_chip [1, 2] (model_upgrade\<lparr>data_state := UPGRADE_PARTITION_DATA_STATE_DATA,
     partitionHdl := 6, totalReqSize := 2\<rparr>) = Inl Division_by_zero"
  by (rule upgrade_section_in_a_millisecond_divides_by_zero [OF model_chip_works]) (simp_all add: model_upgrade_def)


definition model_full :: upgrade where
  "model_full = model_interrupted\<lparr>data_state := UPGRADE_PARTITION_DATA_STATE_DATA_HEADER, totalReqSize := 8,
     partitionLength := 12, peer_supported := False,
     history := [ImageUpgradeErase, SinkFlushBlocking 10 [20, 21, 22, 23, 24, 25, 26, 27]]\<rparr>"


section \<open>Instances\<close>

definition model_header_state :: upgrade where
  "model_header_state = model_upgrade\<lparr>data_state := UPGRADE_PARTITION_DATA_STATE_HEADER, totalReqSize := 24\<rparr>"

definition model_packets :: "(u32 \<times> u8 list) list" where
  "model_packets = [(3, [1, 2, 3]), (4, [4, 5, 6, 7, 8, 0, 2]), (9, [0, 0, 0, 1, 0, 1, 0xFF, 0xFF, 0, 5, 0, 1, 0, 4])]"

lemma upgrade_packets_do_not_matter_witness:
  "feed model_chip model_packets model_header_state
    = UpgradePartitionDataParse 9 model_chip [1, 2, 3, 4, 5, 6, 7, 8, 0, 2, 0, 0, 0, 1, 0, 1, 0xFF, 0xFF, 0, 5, 0, 1, 0, 4]
        model_header_state"
proof -
  have "feed model_chip model_packets model_header_state
      = UpgradePartitionDataParse (fst (last model_packets)) model_chip (octets model_packets) model_header_state"
    by (rule upgrade_packets_do_not_matter [where n = 24])
      (simp_all add: model_header_state_def model_upgrade_def model_packets_def)
  then show ?thesis by (simp add: model_packets_def)
qed

text \<open>Six compatible versions make a header of 54 octets.\<close>

definition long_header :: "u8 list" where
  "long_header = [1, 2, 3, 4, 5, 6, 7, 8, 0, 2, 0, 0, 0, 6, 0, 1, 0xFF, 0xFF, 0, 1, 0xFF, 0xFF, 0, 1, 0xFF, 0xFF,
     0, 1, 0xFF, 0xFF, 0, 1, 0xFF, 0xFF, 0, 1, 0xFF, 0xFF, 0, 4, 0, 6, 0, 0, 0, 0, 0, 0, 0, 0, 0, 0, 0, 0]"

definition long_packets :: "(u32 \<times> u8 list) list" where
  "long_packets = [(1, take 40 long_header), (2, drop 40 long_header)]"

lemma upgrade_long_header_depends_on_packets_witness:
  "(\<exists>u'. feed model_chip long_packets (model_header_state\<lparr>totalReqSize := 54\<rparr>)
       = Inr (UPGRADE_HOST_ERROR_BAD_LENGTH_UPGRADE_HEADER, u'))
   \<and> UpgradePartitionDataParse 1 model_chip (octets long_packets) (model_header_state\<lparr>totalReqSize := 54\<rparr>)
      = UpgradePartitionDataHandleHeaderState (\<lambda>_ u. Inr (UPGRADE_HOST_SUCCESS, u)) model_chip (octets long_packets) True
          ((model_header_state\<lparr>totalReqSize := 54\<rparr>)\<lparr>totalReceivedSize := totalReqSize (model_header_state\<lparr>totalReqSize := 54\<rparr>)\<rparr>)"
  by (rule upgrade_long_header_depends_on_packets [where n = 54])
    (simp_all add: model_header_state_def model_upgrade_def long_header_def long_packets_def)

lemma upgrade_header_overread_witness:
  "UpgradePartitionDataParse 1 model_chip
     [1, 2, 3, 4, 5, 6, 7, 8, 0, 2, 0, 0, 0x2A, 0xAB, 0, 9, 0, 0, 0, 0]
     (model_header_state\<lparr>totalReqSize := 20, dev_variant := []\<rparr>) = Inl Over_read"
  by (rule upgrade_header_overread)
    (simp_all add: model_header_state_def model_upgrade_def ByteUtilsGet2BytesFromStream_def)

end
