(* ===== verification/Spec2Isabelle.thy ===== *)
theory Spec2Isabelle
  imports Case_Properties Task_List_Properties Headset_Properties Companion_Properties Upgrade_Properties
begin

text \<open>
  Verification development for the Qualcomm Bluetooth audio sources: the firmware of the charger
  case (src/rdp/charger\_case\_comms\_stm32) and the application framework of the earbuds and
  headsets (src/adk). This root theory imports every other theory and holds no proofs.

  \<^bold>\<open>The charger case.\<close> A microcontroller in the charging case talks to two earbuds over the charging
  contacts. From the wires up:

  \<^item> Prelude and Board: integer types, the bit-field macros of \<^verbatim>\<open>main.h\<close>, \<^verbatim>\<open>memcpy\<close>; the pins, the
    converter, the timers, the charger chip and the retained memory (\<^verbatim>\<open>gpio.c\<close>, \<^verbatim>\<open>adc.c\<close>,
    \<^verbatim>\<open>timer.c\<close>, \<^verbatim>\<open>charger.c\<close>, \<^verbatim>\<open>memory.c\<close>). One record holds the static variables of every file and
    is extended by each layer.
  \<^item> Crc (\<^verbatim>\<open>crc.c\<close>): the eight-bit checksum. It is linear over exclusive or, so a frame with one wrong
    octet never verifies.
  \<^item> Power\_Modes (\<^verbatim>\<open>power.c\<close>): the run reasons that keep the processor awake, sleep, stop, standby.
  \<^item> Led (\<^verbatim>\<open>led.c\<close>): the sequences of the indicator.
  \<^item> Modem and Charger\_Comms (\<^verbatim>\<open>charger_comms.c\<close>, \<^verbatim>\<open>charger_comms_device.c\<close>): the line code, one bit
    period per tick, and the recovery of octets from the times of the edges.
  \<^item> Wire (\<^verbatim>\<open>wire.c\<close>): frames with sequence bits, repetition, duplicate detection and broadcasts.
  \<^item> Ccp (\<^verbatim>\<open>ccp.c\<close>): the messages of the charger case protocol, requests and polling.
  \<^item> Case\_Status (\<^verbatim>\<open>case.c\<close>): the state machine of each earbud, the events and the battery
    measurement, with the single-precision arithmetic of \<^verbatim>\<open>case.c\<close> in Single\_Float (rounding to
    nearest even, so the percentages are those of the binary32 operations).
  \<^item> Case\_System (\<^verbatim>\<open>pfn.c\<close>, \<^verbatim>\<open>wdog.c\<close>, \<^verbatim>\<open>interrupt.c\<close>): the table of periodic functions, the interrupt
    handlers and the step relation of the whole case.
  \<^item> Case\_Properties: the statements that span these layers.

  \<^bold>\<open>The application framework.\<close>

  \<^item> Task\_List and Task\_List\_Properties (\<^verbatim>\<open>task_list.c\<close>): lists of message tasks in a union, a flexible
    array and a heap array. Locale \<^verbatim>\<open>client_registry\<close> is what their users rely on.
  \<^item> Rules\_Engine (\<^verbatim>\<open>rules_engine.c\<close>): tables of rules that events trigger. Locale \<^verbatim>\<open>ordered_rules\<close> is
    what a table promises; in it the rules of an event are shown to run one at a time.
  \<^item> Headset\_Rules and Rules\_Properties (\<^verbatim>\<open>headset_topology_rules.c\<close>): the rule table of the headset,
    which interprets that locale, and what it decides.
  \<^item> Goals\_Engine and Goals\_Contention (\<^verbatim>\<open>goals_engine.c\<close>): decisions become goals that start, wait
    in a queue of locks, or cancel others. Locale \<^verbatim>\<open>goal_procedures\<close> is what a table and its procedures
    promise; in it goals that run together are shown to allow each other. Locale
    \<^verbatim>\<open>kept_by_procedures\<close> extends it by an invariant of the procedures' own state.
  \<^item> Script\_Engine (\<^verbatim>\<open>script_engine.c\<close>, \<^verbatim>\<open>procedures.c\<close>): a list of procedures run for one goal, and
    confirmations that are sent as messages.
  \<^item> Headset\_Procedures and Headset\_Topology (\<^verbatim>\<open>headset_topology_*.c\<close>): the procedures, the script
    that stops the headset, the goal table, the handlers and the interface. One record holds the data
    of the topology, its procedures and its rule set, inside the goal set; \<^verbatim>\<open>headset_step\<close> is one event:
    the delivery of a message of one of the queues in any order, an answer of a service, or a call.
    Runs are bounded by 254 queued decisions, as the counter of the goals engine has eight bits.
  \<^item> Headset\_Goals interprets the two locales on the headset and shows that every step keeps the
    invariants of its goals and rules; Headset\_Stop follows the stop through its script;
    Headset\_Properties holds the statements about the running headset.

  \<^bold>\<open>The companion app.\<close>

  \<^item> Rwcp\_Server and Rwcp\_Delivery (\<^verbatim>\<open>rwcp_server.c\<close>): the receiver of the reliable write protocol that
    carries a firmware image over low energy, and the go-back-N receiver with unbounded numbers that it
    refines.
  \<^item> Gaia\_Packet and Gaia\_Stream (\<^verbatim>\<open>gaia_transport_common.c\<close>, \<^verbatim>\<open>gaia_transport_rfcomm.c\<close>): packets built
    and recognised in a byte stream, two commands at a time, with the invariant that relates the octets in
    the buffer to the packets of the stream.
  \<^item> Gaia\_Transport (\<^verbatim>\<open>gaia_transport.c\<close>, \<^verbatim>\<open>gaia_transport_rfcomm.c\<close>): the service over RFCOMM from
    start to stop, its record in the service database, links and parameters; \<^verbatim>\<open>gaia_step\<close> is one call or
    message.
  \<^item> Companion\_Properties: the statements about both. Octets, links and answers of the stack come
    from the environment.

  \<^bold>\<open>The firmware update.\<close> The library \<^verbatim>\<open>adk/src/libs/upgrade\<close>, built with \<^verbatim>\<open>CONFIG_HYDRACORE\<close> and with
  \<^verbatim>\<open>UPGRADE_RSA_2048\<close> (a signature of 256 octets), from the request to start a transfer to the hash check:

  \<^item> Upgrade\_Store (\<^verbatim>\<open>upgrade_psstore.c\<close>, \<^verbatim>\<open>upgrade_partition_data_config.c\<close>): the state of the parser, the
    saved keys, and the headers kept for the peer. Persistent store, flash sections, image traps and heap are
    the record \<^verbatim>\<open>traps\<close>: what a trap answers is a function of the calls made before it.
  \<^item> Upgrade\_Parse (\<^verbatim>\<open>upgrade_partition_data.c\<close>, \<^verbatim>\<open>upgrade_partition_data_config.c\<close>, \<^verbatim>\<open>upgrade_fw_if.c\<close>,
    \<^verbatim>\<open>upgrade_fw_if_config.c\<close>): the parser of the file. Octets behind a packet or a block are faults, as is a
    division by zero. The loop that writes to a sink ends only if the sink has slack, and is a
    \<^verbatim>\<open>partial_function\<close> whose lack of a result is a value of its own.
  \<^item> Upgrade\_Packets: for headers it does not matter how a block is cut into packets.
  \<^item> Upgrade\_Transfer (\<^verbatim>\<open>upgrade_sm.c\<close>): the handlers of the state machine that start a transfer, wait for the erase, feed
    the parser, and report errors to the host.
  \<^item> Upgrade\_Chip and Upgrade\_Image: the specification. A chip that works (\<^verbatim>\<open>working_chip\<close> is the documented
    behaviour of the traps, with \<^verbatim>\<open>model_chip\<close> as an instance), and a file as its producer lays it out.
  \<^item> Upgrade\_Delivery and Upgrade\_Sections: \<^verbatim>\<open>serve\<close> is a host that answers every request in packets of
    its choice, by a schedule of times and sizes; each packet carries an octet at least, so a schedule as long as
    the file is enough. Blocks, sections and the footer are followed one by one, and then composed.
  \<^item> Upgrade\_Properties: the statements about a fresh and a resumed update and about the faults of the parser.

  \<^bold>\<open>Conventions.\<close> A C function is a definition of the same name, from the state to the new state;
  its guards and early returns are the branches. A panic, an access outside an array, a division
  by zero or the use of an uninitialised value is \<open>None\<close>. Integers keep their width. Loops over
  arrays are structural recursion; the loops that end only because of an invariant carry fuel, and
  the fuel is shown to be enough where the result is used (a task list of size n needs n + 1
  rounds). Callbacks and the code of other modules are parameters: locale \<^verbatim>\<open>wire_user\<close> and
  \<^verbatim>\<open>ccp_user\<close> are the contracts of the protocol callbacks, interpreted by the case application.

  \<^bold>\<open>What the lemmas show.\<close> Round trips from message to line and back under jitter; detection of
  corrupt and repeated frames; bounds and invariants of every counter of the transport; how long a
  transaction can last; that the case is awake exactly while an earbud machine is busy; the timing
  of the battery measurement and the error of the percentage; that task lists refine plain lists;
  that the rules of an event run in order, end, and never panic; that goals which conflict are never
  active together, that no decision is lost or waits for ever, and that stopping an idle headset
  succeeds; that the segments and packets of the companion app arrive in order and once; that an upgrade file ends
  up in the flash whatever packets it comes in, also when the update was interrupted; and the
  places where the code fails: decisions dropped while the headset stops, an unannounced input change,
  the overrun of the edge buffer, the sixteenth task, the duplicate of a flexible list, the restart of a
  completed rule, a segment beyond the window, a packet length that wraps around, a packet that outlives its link, a service
  that never stops, the headers of an upgrade file that are read beyond their end or refused for how they are cut, a
  section that arrives too fast, and one that is resumed four octets early.

  \<^bold>\<open>Not modelled.\<close> Register set-up, drivers of the vendor's hardware, text printed for debugging, the command
  line and the firmware update of the case. Of the update library, the rest of the state machine (synchronisation, hash check,
  validation and commit, which mostly wait for traps and for the user), the copy to the peer earbud
  and the coding of the host's messages. Of the application
  framework, the domains, services and user interface above the engines, the features of the companion app and
  its transports over GATT and accessories, and the topologies of the
  earbuds, which use the same engines with other tables. The audio processor firmware, its operating system and the chip header
  files are vendor code around hardware. The message system, Bluetooth library and heap are
  not under the modelled directories and appear as parameters or as lists of messages sent.
\<close>

end
